(* ===== verification/Tablo_Prelude.thy ===== *)
theory Tablo_Prelude
  imports Main "HOL-Library.Word"
begin

text \<open>
  Shared vocabulary of the development: the machine integer types of the C sources, the
  collections of rewrite rules the component theories fill, and the generic facts on words and
  lists that several components use.  No definition of this theory models a line of the program.
\<close>

unbundle bit_operations_syntax

section \<open>Machine integers\<close>

type_synonym u8 = "8 word"
type_synonym u16 = "16 word"
type_synonym u32 = "32 word"
type_synonym u64 = "64 word"

named_theorems limb_simps \<open>values of limb lists\<close>
named_theorems word_nat \<open>reading words as natural numbers\<close>

section \<open>Loops that may fail\<close>

text \<open>One step for every element; the first failure ends the loop.\<close>

fun each :: "('a \<Rightarrow> 'h \<Rightarrow> 'h option) \<Rightarrow> 'a list \<Rightarrow> 'h \<Rightarrow> 'h option" where
  "each f [] h = Some h"
| "each f (x # xs) h = (case f x h of None \<Rightarrow> None | Some h \<Rightarrow> each f xs h)"

lemma each_fails: "x \<in> set xs \<Longrightarrow> w x = (\<lambda>f. None) \<Longrightarrow> each w xs f = None"
  by (induction xs arbitrary: f) (auto split: option.splits)

section \<open>Words as natural numbers\<close>

lemma unat_u32_less: "unat (x :: u32) < 4294967296"
  using unsigned_less [of x, where ?'a = nat] by simp

lemma unat_u64_less: "unat (x :: u64) < 18446744073709551616"
  using unsigned_less [of x, where ?'a = nat] by simp

lemma unat_u8_less: "unat (x :: u8) < 256"
  using unsigned_less [of x, where ?'a = nat] by simp

lemma unat_u32_le: "unat (x :: u32) \<le> 4294967295"
  using unat_u32_less [of x] by linarith

lemma unat_ucast_u32_u64 [simp, word_nat]: "unat (ucast (x :: u32) :: u64) = unat x"
  by (simp add: unsigned_ucast_eq take_bit_nat_eq_self_iff less_trans [OF unat_u32_less])

lemma unat_low_u64 [word_nat]: "unat (ucast (w :: u64) :: u32) = unat w mod 4294967296"
  by (simp add: unsigned_ucast_eq take_bit_eq_mod)

lemma unat_high_u64 [word_nat]: "unat (drop_bit 32 (w :: u64)) = unat w div 4294967296"
  unfolding unat_drop_bit_eq by (simp add: drop_bit_eq_div)

lemma u64_split: "unat (ucast (w :: u64) :: u32) + 4294967296 * unat (drop_bit 32 w) = unat w"
  by (simp add: unat_low_u64 unat_high_u64)

lemma unat_add_u64:
  "unat a + unat b < 18446744073709551616 \<Longrightarrow> unat (a + b :: u64) = unat a + unat b"
  by (simp add: unat_word_ariths)

lemma unat_mult_u64:
  "unat a * unat b < 18446744073709551616 \<Longrightarrow> unat (a * b :: u64) = unat a * unat b"
  by (simp add: unat_word_ariths)

lemma mult_u32_bound: "unat (a :: u32) * unat (b :: u32) \<le> 4294967295 * 4294967295"
  using unat_u32_le [of a] unat_u32_le [of b] by (rule mult_le_mono)

lemma unat_not_u32: "unat (NOT (x :: u32)) = 4294967295 - unat x"
proof -
  have "NOT x = - 1 - x" by (simp add: not_eq_complement)
  moreover have "unat (- 1 :: u32) = 4294967295" by (simp add: unsigned_minus_1_eq_mask mask_eq_exp_minus_1)
  ultimately show ?thesis using unat_u32_le [of x] by (simp add: unat_sub_if')
qed

lemma even_unat_u32: "even (unat (x :: u32)) \<longleftrightarrow> even x"
  by transfer (simp add: even_nat_iff even_take_bit_eq)

subsection \<open>Signed 64-bit words\<close>

lemma sint_u64_range: "- 9223372036854775808 \<le> sint (v :: u64)" "sint v \<le> 9223372036854775807"
  using sint_range_size [of v] by (simp_all add: word_size)

lemma int_mod_neg:
  fixes i m :: int
  assumes "- m \<le> i" and "i < 0"
  shows "i mod m = i + m"
proof -
  have "i mod m = (i + m) mod m" by simp
  also have "\<dots> = i + m" using assms by (intro mod_pos_pos_trivial) auto
  finally show ?thesis .
qed

lemma uint_sint_u64: "uint (v :: u64) = (if sint v < 0 then sint v + 18446744073709551616 else sint v)"
proof -
  have "uint v = sint v mod 18446744073709551616" by (simp add: uint_sint take_bit_eq_mod)
  then show ?thesis
    using sint_u64_range [of v] int_mod_neg [of 18446744073709551616 "sint v"] by simp
qed

lemma sint_word_of_int_u64:
  assumes "- 9223372036854775808 \<le> i" and "i < 9223372036854775808"
  shows "sint (word_of_int i :: u64) = i"
proof -
  have "sint (word_of_int i :: u64) = signed_take_bit 63 i"
    by (simp add: signed_of_int)
  then show ?thesis using assms by (simp add: signed_take_bit_int_eq_self)
qed

subsection \<open>Carry chains\<close>

text \<open>
  One step of a carry chain: the low limb and the carry of a step, and the value of the rest,
  give the value of the whole.
\<close>

lemma carry_step:
  fixes lo hi n out p c m :: nat
  assumes "lo + 4294967296 * hi = n" and "out + p * c = m + hi"
  shows "lo + 4294967296 * out + 4294967296 * p * c = n + 4294967296 * m"
proof -
  have "4294967296 * (out + p * c) = 4294967296 * (m + hi)"
    using assms(2) by simp
  with assms(1) show ?thesis
    by (simp add: algebra_simps)
qed

end
