(* ===== verification/Bigint_Limbs.thy ===== *)
theory Bigint_Limbs
  imports Tablo_Prelude
begin

text \<open>
  The magnitude arithmetic of \<^verbatim>\<open>src/src/bigint.c\<close>: little-endian arrays of 32-bit limbs with
  64-bit intermediates.  An array together with its count is a \<open>u32 list\<close>; a \<open>NULL\<close> array of
  count 0 is the empty list.  The loops that walk two arrays by index are recursions on the
  lists.  \<open>lval\<close> is the number an array stands for, and the lemmas give the value every routine
  computes.
\<close>

section \<open>The number a limb array stands for\<close>

fun lval :: "u32 list \<Rightarrow> nat" where
  "lval [] = 0"
| "lval (x # xs) = unat x + 4294967296 * lval xs"

lemma lval_append [limb_simps]: "lval (xs @ ys) = lval xs + 4294967296 ^ length xs * lval ys"
  by (induction xs) (simp_all add: algebra_simps)

lemma lval_replicate_0 [simp]: "lval (replicate n 0) = 0"
  by (induction n) simp_all

lemma lval_less: "lval xs < 4294967296 ^ length xs"
proof (induction xs)
  case Nil
  then show ?case by simp
next
  case (Cons x xs)
  have "unat x + 4294967296 * lval xs < 4294967296 * (lval xs + 1)"
    using unat_u32_less [of x] by simp
  also have "\<dots> \<le> 4294967296 * 4294967296 ^ length xs"
    using Cons by (intro mult_le_mono2) simp
  finally show ?case by simp
qed

definition no_leading_zero :: "u32 list \<Rightarrow> bool" where
  "no_leading_zero xs \<longleftrightarrow> (xs \<noteq> [] \<longrightarrow> last xs \<noteq> 0)"

section \<open>Trimming\<close>

text \<open>\<^verbatim>\<open>bigint_trim_count\<close>: drop zero limbs from the top of the first \<open>count\<close> limbs.\<close>

fun bigint_trim_count :: "u32 list \<Rightarrow> nat \<Rightarrow> nat" where
  "bigint_trim_count limbs 0 = 0"
| "bigint_trim_count limbs (Suc count) =
     (if limbs ! count = 0 then bigint_trim_count limbs count else Suc count)"

definition bigint_trim :: "u32 list \<Rightarrow> u32 list" where
  "bigint_trim limbs = take (bigint_trim_count limbs (length limbs)) limbs"

section \<open>Comparison, addition, subtraction\<close>

text \<open>The descending loop of \<^verbatim>\<open>bigint_compare_abs_limbs\<close>, then the function itself.\<close>

fun bigint_compare_loop :: "u32 list \<Rightarrow> u32 list \<Rightarrow> nat \<Rightarrow> int" where
  "bigint_compare_loop a b 0 = 0"
| "bigint_compare_loop a b (Suc i) =
     (if a ! i < b ! i then -1
      else if a ! i > b ! i then 1
      else bigint_compare_loop a b i)"

definition bigint_compare_abs_limbs :: "u32 list \<Rightarrow> u32 list \<Rightarrow> int" where
  "bigint_compare_abs_limbs a b =
     (if length a < length b then -1
      else if length a > length b then 1
      else bigint_compare_loop a b (length a))"

text \<open>
  The loop of \<^verbatim>\<open>bigint_add_abs_limbs\<close> runs to the longer count and adds the limb of an array
  only while the index is below its count.
\<close>

fun bigint_add_loop :: "u32 list \<Rightarrow> u32 list \<Rightarrow> u64 \<Rightarrow> u32 list \<times> u64" where
  "bigint_add_loop [] [] carry = ([], carry)"
| "bigint_add_loop (x # a) [] carry =
     (let sum = carry + ucast x;
          (out, c) = bigint_add_loop a [] (drop_bit 32 sum)
      in (ucast sum # out, c))"
| "bigint_add_loop [] (y # b) carry =
     (let sum = carry + ucast y;
          (out, c) = bigint_add_loop [] b (drop_bit 32 sum)
      in (ucast sum # out, c))"
| "bigint_add_loop (x # a) (y # b) carry =
     (let sum = carry + ucast x + ucast y;
          (out, c) = bigint_add_loop a b (drop_bit 32 sum)
      in (ucast sum # out, c))"

definition bigint_add_abs_limbs :: "u32 list \<Rightarrow> u32 list \<Rightarrow> u32 list" where
  "bigint_add_abs_limbs a b =
     (let (out, carry) = bigint_add_loop a b 0;
          out = (if carry \<noteq> 0 then out @ [ucast carry] else out)
      in bigint_trim out)"

text \<open>
  The loop of \<^verbatim>\<open>bigint_sub_abs_limbs\<close>; the in-place subtraction of the small-quotient path of
  the division is the same loop.  It runs over \<open>a\<close>; limbs of \<open>b\<close> past its count read as 0.
\<close>

fun bigint_sub_loop :: "u32 list \<Rightarrow> u32 list \<Rightarrow> u64 \<Rightarrow> u32 list" where
  "bigint_sub_loop [] b borrow = []"
| "bigint_sub_loop (x # a) b borrow =
     (let av = (ucast x :: u64);
          bv = (case b of [] \<Rightarrow> 0 | y # _ \<Rightarrow> (ucast y :: u64));
          sub = bv + borrow;
          borrow' = (if av < sub then 1 else 0)
      in ucast (av - sub) # bigint_sub_loop a (tl b) borrow')"

definition bigint_sub_abs_limbs :: "u32 list \<Rightarrow> u32 list \<Rightarrow> u32 list" where
  "bigint_sub_abs_limbs a b = bigint_trim (bigint_sub_loop a b 0)"

section \<open>Multiplication\<close>

text \<open>
  The \<open>while\<close> loop that pushes a carry upwards, past the end of a row of the product and at the
  end of \<^verbatim>\<open>bigint_add_back\<close>.
\<close>

fun bigint_push_carry :: "u32 list \<Rightarrow> u64 \<Rightarrow> u32 list" where
  "bigint_push_carry [] carry = []"
| "bigint_push_carry (w # out) carry =
     (if carry = 0 then w # out
      else let cur = ucast w + carry in ucast cur # bigint_push_carry out (drop_bit 32 cur))"

text \<open>One row of the schoolbook product: the inner loop over \<open>b\<close> on \<open>out\<close> from index \<open>i\<close>.\<close>

fun bigint_mul_row :: "u32 \<Rightarrow> u32 list \<Rightarrow> u32 list \<Rightarrow> u64 \<Rightarrow> u32 list" where
  "bigint_mul_row ai [] out carry = bigint_push_carry out carry"
| "bigint_mul_row ai (bj # b) [] carry = []"
| "bigint_mul_row ai (bj # b) (w # out) carry =
     (let cur = (ucast w :: u64);
          cur = cur + ucast ai * ucast bj;
          cur = cur + carry
      in ucast cur # bigint_mul_row ai b out (drop_bit 32 cur))"

text \<open>The outer loop; after row \<open>i\<close> the limb \<open>out[i]\<close> is final and the window moves up.\<close>

fun bigint_mul_loop :: "u32 list \<Rightarrow> u32 list \<Rightarrow> u32 list \<Rightarrow> u32 list" where
  "bigint_mul_loop [] b out = out"
| "bigint_mul_loop (ai # a) b out =
     (case bigint_mul_row ai b out 0 of
        [] \<Rightarrow> []
      | w # out' \<Rightarrow> w # bigint_mul_loop a b out')"

definition bigint_mul_abs_limbs :: "u32 list \<Rightarrow> u32 list \<Rightarrow> u32 list" where
  "bigint_mul_abs_limbs a b =
     (if a = [] \<or> b = [] then []
      else bigint_trim (bigint_mul_loop a b (replicate (length a + length b + 1) 0)))"

text \<open>
  The multiply-and-carry loop shared by \<^verbatim>\<open>bigint_mul_small\<close> and
  \<^verbatim>\<open>bigint_mul_add_small_inplace\<close> (the latter starts with \<open>carry = add\<close>).
\<close>

fun bigint_mul_small_loop :: "u32 list \<Rightarrow> u32 \<Rightarrow> u64 \<Rightarrow> u32 list \<times> u64" where
  "bigint_mul_small_loop [] m carry = ([], carry)"
| "bigint_mul_small_loop (x # a) m carry =
     (let cur = ucast x * ucast m + carry;
          (out, c) = bigint_mul_small_loop a m (drop_bit 32 cur)
      in (ucast cur # out, c))"

definition bigint_mul_small :: "u32 list \<Rightarrow> u32 \<Rightarrow> u32 list" where
  "bigint_mul_small a m =
     (if a = [] \<or> m = 0 then []
      else let (out, carry) = bigint_mul_small_loop a m 0
           in if carry \<noteq> 0 then out @ [ucast carry] else out)"

definition bigint_mul_add_small_inplace :: "u32 list \<Rightarrow> u32 \<Rightarrow> u32 \<Rightarrow> u32 list" where
  "bigint_mul_add_small_inplace limbs m add =
     (if limbs = [] then (if add = 0 then [] else [add])
      else let (out, carry) = bigint_mul_small_loop limbs m (ucast add);
               out = (if carry \<noteq> 0 then out @ [ucast carry] else out)
           in bigint_trim out)"

section \<open>Division by one limb\<close>

text \<open>
  The descending loop of \<^verbatim>\<open>bigint_divmod_small\<close> and \<^verbatim>\<open>bigint_divmod_small_inplace\<close>, over the
  limbs from the top: the quotient limbs (top first) and the last remainder.
\<close>

fun bigint_divmod_small_loop :: "u32 list \<Rightarrow> u32 \<Rightarrow> u64 \<Rightarrow> u32 list \<times> u64" where
  "bigint_divmod_small_loop [] d rem = ([], rem)"
| "bigint_divmod_small_loop (x # top_down) d rem =
     (let cur = push_bit 32 rem OR ucast x;
          q_digit = ucast (cur div ucast d);
          (q, r) = bigint_divmod_small_loop top_down d (cur mod ucast d)
      in (q_digit # q, r))"

text \<open>\<^verbatim>\<open>bigint_divmod_small\<close> with both results wanted: the trimmed quotient and the remainder.\<close>

definition bigint_divmod_small :: "u32 list \<Rightarrow> u32 \<Rightarrow> u32 list \<times> u32" where
  "bigint_divmod_small a d =
     (let (q, rem) = bigint_divmod_small_loop (rev a) d 0
      in (bigint_trim (rev q), ucast rem))"

definition bigint_divmod_small_inplace :: "u32 list \<Rightarrow> u32 \<Rightarrow> u32 list \<times> u32" where
  "bigint_divmod_small_inplace limbs d =
     (if d = 0 then ([], 0)
      else let (q, rem) = bigint_divmod_small_loop (rev limbs) d 0
           in (bigint_trim (rev q), ucast rem))"

section \<open>Values computed\<close>

lemma bigint_trim_count_le: "bigint_trim_count xs n \<le> n"
  by (induction n) auto

lemma bigint_trim_count_append:
  "n \<le> length xs \<Longrightarrow> bigint_trim_count (xs @ ys) n = bigint_trim_count xs n"
  by (induction n) (auto simp: nth_append)

lemma bigint_trim_Nil [simp]: "bigint_trim [] = []"
  by (simp add: bigint_trim_def)

lemma bigint_trim_snoc:
  "bigint_trim (xs @ [x]) = (if x = 0 then bigint_trim xs else xs @ [x])"
  by (simp add: bigint_trim_def bigint_trim_count_append bigint_trim_count_le)

lemma lval_trim [simp, limb_simps]: "lval (bigint_trim xs) = lval xs"
  by (induction xs rule: rev_induct) (simp_all add: bigint_trim_snoc lval_append)

lemma no_leading_zero_trim [simp]: "no_leading_zero (bigint_trim xs)"
  by (induction xs rule: rev_induct) (simp_all add: bigint_trim_snoc no_leading_zero_def)

lemma no_leading_zero_Nil [simp]: "no_leading_zero []"
  by (simp add: no_leading_zero_def)

lemma no_leading_zero_snoc: "no_leading_zero (xs @ [x]) \<longleftrightarrow> x \<noteq> 0"
  by (simp add: no_leading_zero_def)

lemma bigint_trim_id: "no_leading_zero xs \<Longrightarrow> bigint_trim xs = xs"
  by (induction xs rule: rev_induct) (simp_all add: bigint_trim_snoc no_leading_zero_def)

lemma lval_lower: "no_leading_zero xs \<Longrightarrow> xs \<noteq> [] \<Longrightarrow> 4294967296 ^ (length xs - 1) \<le> lval xs"
proof (induction xs rule: rev_induct)
  case (snoc x xs)
  then have "1 \<le> unat x"
    by (simp add: no_leading_zero_def unat_gt_0 Suc_le_eq)
  then have "4294967296 ^ length xs * 1 \<le> 4294967296 ^ length xs * unat x"
    by (rule mult_le_mono2)
  then show ?case by (simp only: lval_append) (simp add: trans_le_add2)
qed simp

lemma lval_0_iff: "no_leading_zero xs \<Longrightarrow> lval xs = 0 \<longleftrightarrow> xs = []"
proof (cases "xs = []")
  case False
  assume "no_leading_zero xs"
  then have "4294967296 ^ (length xs - 1) \<le> lval xs" using False by (rule lval_lower)
  moreover have "(0 :: nat) < 4294967296 ^ (length xs - 1)" by simp
  ultimately show ?thesis using False by (metis less_le_trans less_irrefl)
qed simp

lemma lval_inj_length:
  "length xs = length ys \<Longrightarrow> lval xs = lval ys \<Longrightarrow> xs = ys"
proof (induction xs ys rule: list_induct2)
  case (Cons x xs y ys)
  have "unat x = (unat x + 4294967296 * lval xs) mod 4294967296"
    using unat_u32_less [of x] by simp
  also have "\<dots> = (unat y + 4294967296 * lval ys) mod 4294967296"
    using Cons.prems by simp
  also have "\<dots> = unat y" using unat_u32_less [of y] by simp
  finally have "unat x = unat y" .
  with Cons show ?case by (simp add: word_unat_eq_iff)
qed simp

lemma lval_less_length:
  assumes "length xs < length ys" and "no_leading_zero ys"
  shows "lval xs < lval ys"
proof -
  have "lval xs < 4294967296 ^ length xs" by (rule lval_less)
  also have "\<dots> \<le> 4294967296 ^ (length ys - 1)"
    using assms(1) by (intro power_increasing) auto
  also have "\<dots> \<le> lval ys"
    using assms by (intro lval_lower) auto
  finally show ?thesis .
qed

lemma lval_inj:
  assumes "no_leading_zero xs" and "no_leading_zero ys" and "lval xs = lval ys"
  shows "xs = ys"
proof -
  have "length xs = length ys"
    using lval_less_length [of xs ys] lval_less_length [of ys xs] assms
    by (metis less_irrefl linorder_neqE_nat)
  then show ?thesis using assms(3) by (rule lval_inj_length)
qed

lemma bigint_compare_loop_sgn:
  assumes "n \<le> length a" and "n \<le> length b"
  shows "bigint_compare_loop a b n = sgn (int (lval (take n a)) - int (lval (take n b)))"
  using assms
proof (induction n)
  case (Suc n)
  let ?p = "lval (take n a)" and ?q = "lval (take n b)" and ?x = "unat (a ! n)" and ?y = "unat (b ! n)"
  have bounds: "?p < 4294967296 ^ n" "?q < 4294967296 ^ n"
    using lval_less [of "take n a"] lval_less [of "take n b"] Suc.prems by simp_all
  have split: "lval (take (Suc n) a) = ?p + 4294967296 ^ n * ?x"
      "lval (take (Suc n) b) = ?q + 4294967296 ^ n * ?y"
    using Suc.prems by (simp_all add: take_Suc_conv_app_nth lval_append)
  have lt: "p + 4294967296 ^ n * x < q + 4294967296 ^ n * y"
    if "x < y" "p < 4294967296 ^ n" for p q x y :: nat
  proof -
    have "p + 4294967296 ^ n * x < 4294967296 ^ n * (x + 1)" using that(2) by simp
    also have "\<dots> \<le> 4294967296 ^ n * y" using that(1) by (intro mult_le_mono2) simp
    finally show ?thesis by simp
  qed
  show ?case
  proof (cases "a ! n" "b ! n" rule: linorder_cases)
    case less
    then have "lval (take (Suc n) a) < lval (take (Suc n) b)"
      unfolding split by (intro lt bounds) (simp add: word_less_nat_alt)
    with less show ?thesis by simp
  next
    case equal
    then show ?thesis using Suc unfolding split by simp
  next
    case greater
    then have "lval (take (Suc n) b) < lval (take (Suc n) a)"
      unfolding split by (intro lt bounds) (simp add: word_less_nat_alt)
    with greater show ?thesis by (auto simp: sgn_if)
  qed
qed simp

lemma bigint_compare_abs_limbs_sgn:
  assumes "no_leading_zero a" and "no_leading_zero b"
  shows "bigint_compare_abs_limbs a b = sgn (int (lval a) - int (lval b))"
  using assms lval_less_length [of a b] lval_less_length [of b a]
    bigint_compare_loop_sgn [of "length a" a b]
  by (auto simp: bigint_compare_abs_limbs_def sgn_if)

lemma no_leading_zero_iff:
  assumes "xs \<noteq> []"
  shows "no_leading_zero xs \<longleftrightarrow> 4294967296 ^ (length xs - 1) \<le> lval xs"
proof
  assume le: "4294967296 ^ (length xs - 1) \<le> lval xs"
  show "no_leading_zero xs"
  proof (rule ccontr)
    assume "\<not> no_leading_zero xs"
    then have "last xs = 0" by (simp add: no_leading_zero_def)
    then have "lval (butlast xs @ [last xs]) = lval (butlast xs)"
      by (simp add: lval_append)
    then have "lval xs = lval (butlast xs)" using assms by simp
    also have "\<dots> < 4294967296 ^ length (butlast xs)" by (rule lval_less)
    finally show False using le by simp
  qed
qed (rule lval_lower [OF _ assms])

subsection \<open>Addition\<close>

lemma bigint_add_loop_val:
  "bigint_add_loop a b carry = (out, c) \<Longrightarrow> unat carry \<le> 1 \<Longrightarrow>
     lval out + 4294967296 ^ length out * unat c = lval a + lval b + unat carry \<and>
     length out = max (length a) (length b) \<and> unat c \<le> 1"
proof (induction a b carry arbitrary: out c rule: bigint_add_loop.induct)
  case (1 carry)
  then show ?case by simp
next
  case (2 x a carry)
  let ?s = "carry + ucast x :: u64"
  obtain out' where rec: "bigint_add_loop a [] (drop_bit 32 ?s) = (out', c)"
    and out: "out = ucast ?s # out'"
    using "2.prems" by (auto simp: Let_def split: prod.splits)
  have s: "unat ?s = unat carry + unat x"
    using "2.prems"(2) unat_u32_less [of x] by (subst unat_add_u64) simp_all
  then have "unat (drop_bit 32 ?s) \<le> 1"
    using "2.prems"(2) unat_u32_less [of x] by (simp add: word_nat)
  from "2.IH" [OF refl rec this]
  show ?case
    using carry_step [OF u64_split [of ?s]] s by (fastforce simp: out add_ac)
next
  case (3 y b carry)
  let ?s = "carry + ucast y :: u64"
  obtain out' where rec: "bigint_add_loop [] b (drop_bit 32 ?s) = (out', c)"
    and out: "out = ucast ?s # out'"
    using "3.prems" by (auto simp: Let_def split: prod.splits)
  have s: "unat ?s = unat carry + unat y"
    using "3.prems"(2) unat_u32_less [of y] by (subst unat_add_u64) simp_all
  then have "unat (drop_bit 32 ?s) \<le> 1"
    using "3.prems"(2) unat_u32_less [of y] by (simp add: word_nat)
  from "3.IH" [OF refl rec this]
  show ?case
    using carry_step [OF u64_split [of ?s]] s by (fastforce simp: out add_ac)
next
  case (4 x a y b carry)
  let ?s = "carry + ucast x + ucast y :: u64"
  obtain out' where rec: "bigint_add_loop a b (drop_bit 32 ?s) = (out', c)"
    and out: "out = ucast ?s # out'"
    using "4.prems" by (auto simp: Let_def split: prod.splits)
  have "unat (carry + ucast x :: u64) = unat carry + unat x"
    using "4.prems"(2) unat_u32_less [of x] by (subst unat_add_u64) simp_all
  then have s: "unat ?s = unat carry + unat x + unat y"
    using "4.prems"(2) unat_u32_less [of x] unat_u32_less [of y]
    by (subst unat_add_u64) simp_all
  then have "unat (drop_bit 32 ?s) \<le> 1"
    using "4.prems"(2) unat_u32_less [of x] unat_u32_less [of y] by (simp add: word_nat)
  from "4.IH" [OF refl rec this]
  show ?case
    using carry_step [OF u64_split [of ?s]] s by (fastforce simp: out add_ac)
qed

lemma lval_carry_out:
  assumes "unat (c :: u64) < 4294967296"
  shows "lval (if c \<noteq> 0 then out @ [ucast c] else out) = lval out + 4294967296 ^ length out * unat c"
proof -
  have "unat (ucast c :: u32) = unat c"
    using assms by (simp add: word_nat)
  then show ?thesis by (simp add: lval_append)
qed

lemma lval_add [limb_simps]: "lval (bigint_add_abs_limbs a b) = lval a + lval b"
proof -
  obtain out c where l: "bigint_add_loop a b 0 = (out, c)" by fastforce
  have v: "lval out + 4294967296 ^ length out * unat c = lval a + lval b" and "unat c \<le> 1"
    using bigint_add_loop_val [OF l] by auto
  then show ?thesis
    using lval_carry_out [of c out] by (simp add: bigint_add_abs_limbs_def l)
qed

lemma no_leading_zero_add [simp]: "no_leading_zero (bigint_add_abs_limbs a b)"
  by (simp add: bigint_add_abs_limbs_def split: prod.splits)

subsection \<open>Subtraction\<close>

lemma unat_sub_u64:
  "unat (x - y :: u64) = (if unat y \<le> unat x then unat x - unat y
     else unat x + 18446744073709551616 - unat y)"
  by (simp add: unat_sub_if')

lemma wrapped_low_u64:
  fixes n m :: nat
  assumes "n < m" and "m \<le> 4294967296"
  shows "(n + 18446744073709551616 - m) mod 4294967296 = n + 4294967296 - m"
proof -
  have "n + 18446744073709551616 - m = (n + 4294967296 - m) + 4294967296 * 4294967295"
    using assms by simp
  also have "\<dots> mod 4294967296 = (n + 4294967296 - m) mod 4294967296"
    by (rule mod_mult_self2)
  finally show ?thesis using assms by simp
qed

lemma lval_sub_loop:
  "lval b + unat borrow \<le> lval a \<Longrightarrow> unat borrow \<le> 1 \<Longrightarrow>
     lval (bigint_sub_loop a b borrow) = lval a - lval b - unat borrow"
proof (induction a b borrow rule: bigint_sub_loop.induct)
  case (2 x a b borrow)
  define y where "y = (case b of [] \<Rightarrow> 0 | y # _ \<Rightarrow> y)"
  define s where "s = (ucast y + borrow :: u64)"
  have b: "lval b = unat y + 4294967296 * lval (tl b)"
    by (cases b) (simp_all add: y_def)
  have bv: "(case b of [] \<Rightarrow> 0 | y # _ \<Rightarrow> (ucast y :: u64)) = ucast y"
    by (cases b) (simp_all add: y_def)
  have s: "unat s = unat y + unat borrow"
    unfolding s_def using "2.prems"(2) unat_u32_less [of y] by (subst unat_add_u64) simp_all
  define bw :: u64 where "bw = (if (ucast x :: u64) < s then 1 else 0)"
  have bw: "unat bw = (if unat x < unat y + unat borrow then 1 else 0)"
    by (simp add: bw_def word_less_nat_alt s)
  have out: "bigint_sub_loop (x # a) b borrow =
      ucast (ucast x - s) # bigint_sub_loop a (tl b) bw"
    by (simp add: Let_def bv s_def bw_def)
  have low: "unat (ucast (ucast x - s) :: u32) + unat y + unat borrow
      = unat x + 4294967296 * unat bw"
    using "2.prems"(2) unat_u32_less [of x] unat_u32_less [of y]
    by (cases "unat x < unat y + unat borrow")
      (simp_all add: word_nat unat_sub_u64 s bw wrapped_low_u64)
  have "lval (tl b) + unat bw \<le> lval a"
    using "2.prems" unat_u32_less [of x] unat_u32_less [of y] low
    by (auto simp: b bw split: if_splits)
  from "2.IH" [OF refl refl refl _ this] have
    rec: "lval (bigint_sub_loop a (tl b) bw) = lval a - lval (tl b) - unat bw"
    by (simp add: bw bv s_def bw_def)
  show ?case
    unfolding out using low rec \<open>lval (tl b) + unat bw \<le> lval a\<close> "2.prems"
    by (simp add: b)
qed simp

lemma lval_sub [limb_simps]: "lval b \<le> lval a \<Longrightarrow> lval (bigint_sub_abs_limbs a b) = lval a - lval b"
  by (simp add: bigint_sub_abs_limbs_def lval_sub_loop)

lemma no_leading_zero_sub [simp]: "no_leading_zero (bigint_sub_abs_limbs a b)"
  by (simp add: bigint_sub_abs_limbs_def)

subsection \<open>Multiplication\<close>

lemma lval_push_carry:
  "lval out + unat carry < 4294967296 ^ length out \<Longrightarrow> unat carry < 4294967296 \<Longrightarrow>
     lval (bigint_push_carry out carry) = lval out + unat carry \<and>
     length (bigint_push_carry out carry) = length out"
proof (induction out carry rule: bigint_push_carry.induct)
  case (2 w out carry)
  show ?case
  proof (cases "carry = 0")
    case False
    let ?cur = "ucast w + carry :: u64"
    have cur: "unat ?cur = unat w + unat carry"
      using "2.prems"(2) unat_u32_less [of w] by (subst unat_add_u64) simp_all
    have hi: "unat (drop_bit 32 ?cur) < 4294967296"
      using "2.prems"(2) unat_u32_less [of w] by (simp add: word_nat cur)
    have "lval out + unat (drop_bit 32 ?cur) < 4294967296 ^ length out"
      using "2.prems"(1) u64_split [of ?cur] cur by simp
    from "2.IH" [OF False refl this hi] show ?thesis
      using False u64_split [of ?cur] cur by (simp add: Let_def)
  qed simp
qed simp

lemma lval_mul_row:
  "length b \<le> length out \<Longrightarrow> unat carry < 4294967296 \<Longrightarrow>
     lval out + unat ai * lval b + unat carry < 4294967296 ^ length out \<Longrightarrow>
     lval (bigint_mul_row ai b out carry) = lval out + unat ai * lval b + unat carry \<and>
     length (bigint_mul_row ai b out carry) = length out"
proof (induction ai b out carry rule: bigint_mul_row.induct)
  case (1 ai out carry)
  then show ?case using lval_push_carry [of out carry] by simp
next
  case (3 ai bj b w out carry)
  define cur :: u64 where "cur = ucast w + ucast ai * ucast bj + carry"
  have p: "unat (ucast ai * ucast bj :: u64) = unat ai * unat bj"
    using mult_u32_bound [of ai bj] by (subst unat_mult_u64) simp_all
  have "unat (ucast w + ucast ai * ucast bj :: u64) = unat w + unat ai * unat bj"
    using mult_u32_bound [of ai bj] unat_u32_less [of w] by (subst unat_add_u64) (simp_all add: p)
  then have cur: "unat cur = unat w + unat ai * unat bj + unat carry"
    unfolding cur_def using mult_u32_bound [of ai bj] unat_u32_less [of w] "3.prems"(2)
    by (subst unat_add_u64) simp_all
  have hi: "unat (drop_bit 32 cur) < 4294967296"
    using unat_u64_less [of cur] by (simp add: unat_high_u64)
  have whole: "unat (ucast cur :: u32) + 4294967296 * (lval out + unat ai * lval b + unat (drop_bit 32 cur))
      = lval (w # out) + unat ai * lval (bj # b) + unat carry"
    using u64_split [of cur] cur by (simp add: algebra_simps)
  have "lval out + unat ai * lval b + unat (drop_bit 32 cur) < 4294967296 ^ length out"
    using "3.prems"(3) whole by simp
  from "3.IH" [OF refl refl refl _ hi [unfolded cur_def] this [unfolded cur_def]] "3.prems"(1)
  show ?case
    using whole by (simp add: Let_def cur_def [symmetric])
qed simp

lemma lval_mul_loop:
  "length a + length b \<le> length out \<Longrightarrow> lval out + lval a * lval b < 4294967296 ^ length out \<Longrightarrow>
     lval (bigint_mul_loop a b out) = lval out + lval a * lval b"
proof (induction a b out rule: bigint_mul_loop.induct)
  case (2 ai a b out)
  let ?row = "bigint_mul_row ai b out 0"
  have "lval out + unat ai * lval b \<le> lval out + lval (ai # a) * lval b"
    by (simp add: algebra_simps)
  with "2.prems" have "lval out + unat ai * lval b < 4294967296 ^ length out" by linarith
  then have row: "lval ?row = lval out + unat ai * lval b" "length ?row = length out"
    using lval_mul_row [of b out 0 ai] "2.prems"(1) by simp_all
  then obtain w out' where ro: "?row = w # out'"
    using "2.prems"(1) by (cases ?row) auto
  have whole: "unat w + 4294967296 * (lval out' + lval a * lval b) = lval out + lval (ai # a) * lval b"
    using row(1) by (simp add: ro algebra_simps)
  have len: "length out = Suc (length out')"
    using row(2) by (simp add: ro)
  have "lval out' + lval a * lval b < 4294967296 ^ length out'"
    using "2.prems"(2) whole by (simp add: len)
  from "2.IH" [OF ro _ this] "2.prems"(1) show ?case
    using whole by (simp add: ro len)
qed simp

lemma lval_mul [limb_simps]: "lval (bigint_mul_abs_limbs a b) = lval a * lval b"
proof (cases "a = [] \<or> b = []")
  case False
  let ?out = "replicate (length a + length b + 1) (0 :: u32)"
  have "lval a * lval b < 4294967296 ^ length a * 4294967296 ^ length b"
    by (rule mult_strict_mono') (simp_all add: lval_less)
  also have "\<dots> \<le> 4294967296 ^ (length a + length b + 1)"
    by (simp add: power_add)
  finally have "lval (bigint_mul_loop a b ?out) = lval a * lval b"
    by (subst lval_mul_loop) (simp_all del: replicate.simps)
  with False show ?thesis by (simp add: bigint_mul_abs_limbs_def)
qed (auto simp: bigint_mul_abs_limbs_def)

lemma no_leading_zero_mul [simp]: "no_leading_zero (bigint_mul_abs_limbs a b)"
  by (simp add: bigint_mul_abs_limbs_def)

lemma bigint_mul_small_loop_val:
  "bigint_mul_small_loop a m carry = (out, c) \<Longrightarrow> unat carry < 4294967296 \<Longrightarrow>
     lval out + 4294967296 ^ length out * unat c = lval a * unat m + unat carry \<and>
     length out = length a \<and> unat c < 4294967296"
proof (induction a m carry arbitrary: out c rule: bigint_mul_small_loop.induct)
  case (2 x a m carry)
  define cur :: u64 where "cur = ucast x * ucast m + carry"
  obtain out' where rec: "bigint_mul_small_loop a m (drop_bit 32 cur) = (out', c)"
    and out: "out = ucast cur # out'"
    using "2.prems" by (auto simp: Let_def cur_def split: prod.splits)
  have "unat (ucast x * ucast m :: u64) = unat x * unat m"
    using mult_u32_bound [of x m] by (subst unat_mult_u64) simp_all
  then have cur: "unat cur = unat x * unat m + unat carry"
    unfolding cur_def using mult_u32_bound [of x m] "2.prems"(2) by (subst unat_add_u64) simp_all
  have hi: "unat (drop_bit 32 cur) < 4294967296"
    using unat_u64_less [of cur] by (simp add: unat_high_u64)
  from "2.IH" [OF refl rec [unfolded cur_def] hi [unfolded cur_def]]
  have v: "lval out' + 4294967296 ^ length out' * unat c = lval a * unat m + unat (drop_bit 32 cur)"
    and l: "length out' = length a" and c: "unat c < 4294967296"
    unfolding cur_def by blast+
  show ?case
    using carry_step [OF u64_split v] cur l c by (simp add: out algebra_simps)
qed simp

lemma bigint_mul_small_val:
  "lval (bigint_mul_small a m) = lval a * unat m"
  "m \<noteq> 0 \<Longrightarrow> length a \<le> length (bigint_mul_small a m)"
  "length (bigint_mul_small a m) \<le> length a + 1"
proof -
  obtain out c where l: "bigint_mul_small_loop a m 0 = (out, c)" by fastforce
  note v = bigint_mul_small_loop_val [OF l]
  show "lval (bigint_mul_small a m) = lval a * unat m"
    using v lval_carry_out [of c out] by (auto simp: bigint_mul_small_def l)
  show "m \<noteq> 0 \<Longrightarrow> length a \<le> length (bigint_mul_small a m)"
    and "length (bigint_mul_small a m) \<le> length a + 1"
    using v by (auto simp: bigint_mul_small_def l)
qed

lemma no_leading_zero_mul_small [simp]:
  assumes "no_leading_zero a"
  shows "no_leading_zero (bigint_mul_small a m)"
proof (cases "a = [] \<or> m = 0")
  case False
  obtain out c where l: "bigint_mul_small_loop a m 0 = (out, c)" by fastforce
  note v = bigint_mul_small_loop_val [OF l]
  show ?thesis
  proof (cases "c = 0")
    case True
    have "4294967296 ^ (length a - 1) \<le> lval a * 1"
      using lval_lower [of a] False assms by simp
    also have "\<dots> \<le> lval a * unat m"
      using False by (intro mult_le_mono2) (simp add: unat_gt_0 Suc_le_eq)
    finally have "4294967296 ^ (length out - 1) \<le> lval out"
      using True v by auto
    with True v False show ?thesis
      using no_leading_zero_iff [of out] by (cases out) (auto simp: bigint_mul_small_def l)
  next
    case nz: False
    have "unat (ucast c :: u32) = unat c" using v by (simp add: word_nat)
    with nz have "ucast c \<noteq> (0 :: u32)" by (metis unat_0 unat_eq_zero)
    with nz False show ?thesis by (simp add: bigint_mul_small_def l no_leading_zero_snoc)
  qed
qed (auto simp: bigint_mul_small_def)

lemma lval_mul_add_small [limb_simps]:
  "lval (bigint_mul_add_small_inplace a m add) = lval a * unat m + unat add"
proof (cases "a = []")
  case False
  obtain out c where l: "bigint_mul_small_loop a m (ucast add) = (out, c)" by fastforce
  note v = bigint_mul_small_loop_val [OF l]
  show ?thesis
    using v False lval_carry_out [of c out] unat_u32_less [of add]
    by (auto simp: bigint_mul_add_small_inplace_def l)
qed (auto simp: bigint_mul_add_small_inplace_def)

lemma no_leading_zero_mul_add_small [simp]:
  "no_leading_zero (bigint_mul_add_small_inplace a m add)"
  by (auto simp: bigint_mul_add_small_inplace_def no_leading_zero_def [of "[_]"] split: prod.splits)

subsection \<open>Division by one limb\<close>

lemma unat_shift_or_u64:
  assumes "unat (rem :: u64) < 4294967296"
  shows "unat (push_bit 32 rem OR ucast (x :: u32) :: u64) = unat rem * 4294967296 + unat x"
proof -
  have "push_bit 32 rem AND (ucast x :: u64) = 0"
    by (rule bit_eqI) (auto simp: bit_simps dest: bit_imp_le_length)
  then have "push_bit 32 rem OR (ucast x :: u64) = push_bit 32 rem + ucast x"
    by (simp add: disjunctive_add_eq_or)
  moreover have "unat (push_bit 32 rem :: u64) = unat rem * 4294967296"
    using assms by (simp add: push_bit_eq_mult unat_word_ariths)
  ultimately show ?thesis
    using assms unat_u32_less [of x] by (simp add: unat_add_u64)
qed

lemma bigint_divmod_small_loop_val:
  "bigint_divmod_small_loop xs d rem = (q, r) \<Longrightarrow> d \<noteq> 0 \<Longrightarrow> unat rem < unat d \<Longrightarrow>
     lval (rev q) * unat d + unat r = unat rem * 4294967296 ^ length xs + lval (rev xs) \<and>
     unat r < unat d \<and> length q = length xs"
proof (induction xs d rem arbitrary: q r rule: bigint_divmod_small_loop.induct)
  case (2 x xs d rem)
  define cur :: u64 where "cur = push_bit 32 rem OR ucast x"
  obtain q' where rec: "bigint_divmod_small_loop xs d (cur mod ucast d) = (q', r)"
    and q: "q = ucast (cur div ucast d) # q'"
    using "2.prems" by (auto simp: Let_def cur_def split: prod.splits)
  have cur: "unat cur = unat rem * 4294967296 + unat x"
    unfolding cur_def using "2.prems"(3) unat_u32_less [of d] by (intro unat_shift_or_u64) simp
  have "(unat rem + 1) * 4294967296 \<le> unat d * 4294967296"
    using "2.prems"(3) by (intro mult_le_mono1) simp
  then have "unat cur < unat d * 4294967296"
    using unat_u32_less [of x] by (simp add: cur)
  then have "unat cur div unat d < 4294967296"
    by (simp add: less_mult_imp_div_less mult.commute)
  then have dig: "unat (ucast (cur div ucast d) :: u32) = unat cur div unat d"
    by (simp add: word_nat unat_div)
  have m: "unat (cur mod ucast d :: u64) = unat cur mod unat d"
    by (simp add: unat_mod)
  have "unat (cur mod ucast d :: u64) < unat d"
    using "2.prems"(2) by (simp add: m unat_gt_0)
  from "2.IH" [OF refl refl rec [unfolded cur_def] "2.prems"(2) this [unfolded cur_def]]
  have v: "lval (rev q') * unat d + unat r = unat (cur mod ucast d) * 4294967296 ^ length xs + lval (rev xs)"
    and r: "unat r < unat d" "length q' = length xs"
    unfolding cur_def by blast+
  have "lval (rev q) * unat d + unat r =
      4294967296 ^ length xs * (unat cur div unat d) * unat d + (lval (rev q') * unat d + unat r)"
    by (simp add: q lval_append dig r(2) algebra_simps)
  also have "\<dots> = 4294967296 ^ length xs * (unat cur div unat d * unat d + unat cur mod unat d) + lval (rev xs)"
    unfolding v m by (simp only: algebra_simps)
  also have "\<dots> = unat rem * 4294967296 ^ length (x # xs) + lval (rev (x # xs))"
    by (simp only: div_mult_mod_eq cur) (simp add: lval_append algebra_simps)
  finally show ?case using r by (simp add: q)
qed simp

lemma bigint_divmod_small_val:
  assumes "d \<noteq> 0" and "bigint_divmod_small a d = (q, r)"
  shows "lval q = lval a div unat d" and "unat r = lval a mod unat d" and "no_leading_zero q"
proof -
  obtain qs rem where l: "bigint_divmod_small_loop (rev a) d 0 = (qs, rem)" by fastforce
  have v: "lval (rev qs) * unat d + unat rem = lval a" "unat rem < unat d"
    using bigint_divmod_small_loop_val [OF l assms(1)] assms(1) by (auto simp: unat_gt_0)
  have qr: "q = bigint_trim (rev qs)" "r = ucast rem"
    using assms(2) by (auto simp: bigint_divmod_small_def l)
  have "unat r = unat rem"
    using v(2) unat_u32_less [of d] by (simp add: qr word_nat)
  with v show "lval q = lval a div unat d" and "unat r = lval a mod unat d"
    by (auto simp: qr simp flip: v(1))
  show "no_leading_zero q" by (simp add: qr)
qed

lemma bigint_divmod_small_inplace_eq:
  "d \<noteq> 0 \<Longrightarrow> bigint_divmod_small_inplace a d = bigint_divmod_small a d"
  by (simp add: bigint_divmod_small_inplace_def bigint_divmod_small_def)

end
