(* ===== verification/Bigint_Div.thy ===== *)
theory Bigint_Div
  imports Bigint_Limbs
begin

text \<open>
  Long division of \<^verbatim>\<open>src/src/bigint.c\<close> (\<^verbatim>\<open>bigint_divmod_abs_limbs\<close> and its helpers): the trivial
  cases, the one-limb divisor, the small-quotient subtraction path and the normalised
  schoolbook loop with a two-limb quotient estimate.  The lemmas show that every path returns
  quotient and remainder, the schoolbook loop as long as no partial remainder starts with the
  top limb of the divisor (\<open>knuth_uncapped\<close>); where one does, the correction of the capped
  estimate can undershoot, and the counterexample at the end of the theory exhibits it.
\<close>

section \<open>The model\<close>

text \<open>
  \<^verbatim>\<open>bigint_sub_mul\<close> on the limbs from \<open>u[j]\<close>: subtract \<open>qhat * v\<close>.  The signed 64-bit \<open>t\<close> and
  \<open>borrow\<close> stay within plus or minus \<open>2^33\<close> and are integers here; the casts back to 32 bits
  truncate.  The flag says whether the top limb went negative.
\<close>

fun bigint_sub_mul :: "u32 list \<Rightarrow> u32 list \<Rightarrow> u64 \<Rightarrow> u64 \<Rightarrow> int \<Rightarrow> u32 list \<times> bool" where
  "bigint_sub_mul [] v qhat carry borrow = ([], False)"
| "bigint_sub_mul (uk # u) [] qhat carry borrow =
     (let t = uint uk - uint carry - borrow
      in if t < 0 then (word_of_int (t + 4294967296) # u, True)
         else (word_of_int t # u, False))"
| "bigint_sub_mul (ui # u) (vi # v) qhat carry borrow =
     (let p = qhat * ucast vi + carry;
          carry' = drop_bit 32 p;
          p_low = (ucast p :: u32);
          t = uint ui - uint p_low - borrow;
          (t', borrow') = (if t < 0 then (t + 4294967296, 1) else (t, 0));
          (u', negative) = bigint_sub_mul u v qhat carry' borrow'
      in (word_of_int t' # u', negative))"

text \<open>\<^verbatim>\<open>bigint_add_back\<close> on the limbs from \<open>u[j]\<close>.\<close>

fun bigint_add_back :: "u32 list \<Rightarrow> u32 list \<Rightarrow> u64 \<Rightarrow> u32 list" where
  "bigint_add_back u [] carry = bigint_push_carry u carry"
| "bigint_add_back [] (vi # v) carry = []"
| "bigint_add_back (ui # u) (vi # v) carry =
     (let sum = ucast ui + ucast vi + carry
      in ucast sum # bigint_add_back u v (drop_bit 32 sum))"

text \<open>The loop that corrects the estimate \<open>qhat\<close> with the second limb of the divisor.\<close>

function bigint_qhat_loop :: "u64 \<Rightarrow> u64 \<Rightarrow> u32 \<Rightarrow> u32 \<Rightarrow> u64 \<Rightarrow> u64" where
  "bigint_qhat_loop qhat rhat v1 v2 ujn2 =
     (if qhat * ucast v2 > push_bit 32 rhat + ujn2
      then let qhat' = qhat - 1; rhat' = rhat + ucast v1
           in if rhat' \<ge> 4294967296 then qhat'
              else bigint_qhat_loop qhat' rhat' v1 v2 ujn2
      else qhat)"
  by pat_completeness auto
termination
proof (relation "measure (\<lambda>(qhat, rhat, v1, v2, ujn2). unat qhat)", goal_cases)
  case (2 qhat rhat v1 v2 ujn2 qhat' rhat')
  then have "qhat \<noteq> 0" by auto
  then have "unat (qhat - 1) < unat qhat" by (simp add: unat_minus_one unat_gt_0)
  with 2 show ?case by simp
qed simp

declare bigint_qhat_loop.simps [simp del]

definition bigint_qhat :: "u64 \<Rightarrow> u64 \<Rightarrow> u64 \<Rightarrow> u32 \<Rightarrow> u32 \<Rightarrow> u64" where
  "bigint_qhat ujn ujn1 ujn2 v1 v2 =
     (let numerator = push_bit 32 ujn OR ujn1;
          qhat = numerator div ucast v1;
          rhat = numerator mod ucast v1;
          (qhat, rhat) = (if qhat > 4294967295 then (4294967295, rhat + ucast v1) else (qhat, rhat))
      in bigint_qhat_loop qhat rhat v1 v2 ujn2)"

text \<open>One pass of the loop over \<open>j\<close>, and the loop, which fills \<open>q\<close> from the top.\<close>

definition bigint_div_step :: "u32 list \<Rightarrow> u32 list \<Rightarrow> nat \<Rightarrow> u32 list \<times> u32" where
  "bigint_div_step u v j =
     (let n = length v;
          qhat = bigint_qhat (ucast (u ! (j + n))) (ucast (u ! (j + n - 1))) (ucast (u ! (j + n - 2)))
                   (v ! (n - 1)) (v ! (n - 2));
          (w, negative) = bigint_sub_mul (drop j u) v qhat 0 0
      in if negative then (take j u @ bigint_add_back w v 0, ucast (qhat - 1))
         else (take j u @ w, ucast qhat))"

fun bigint_div_loop :: "u32 list \<Rightarrow> u32 list \<Rightarrow> nat \<Rightarrow> u32 list \<times> u32 list" where
  "bigint_div_loop u v 0 = (u, [])"
| "bigint_div_loop u v (Suc j) =
     (let (u', digit) = bigint_div_step u v j;
          (u'', q) = bigint_div_loop u' v j
      in (u'', q @ [digit]))"

text \<open>The schoolbook path: normalise by \<open>d\<close>, run the loop, trim, undo the normalisation.\<close>

definition bigint_knuth_d :: "u32 list \<Rightarrow> u32" where
  "bigint_knuth_d b = ucast ((4294967296 :: u64) div (ucast (last b) + 1))"

definition bigint_knuth_u :: "u32 list \<Rightarrow> u32 list \<Rightarrow> u32 list" where
  "bigint_knuth_u a b =
     (let u = bigint_mul_small a (bigint_knuth_d b);
          u = (if length u = length a then u @ [0] else u)
      in if length u \<le> length b then u @ replicate (length b + 1 - length u) 0 else u)"

definition bigint_knuth_v :: "u32 list \<Rightarrow> u32 list" where
  "bigint_knuth_v b = take (length b) (bigint_mul_small b (bigint_knuth_d b))"

definition bigint_divmod_knuth :: "u32 list \<Rightarrow> u32 list \<Rightarrow> u32 list \<times> u32 list" where
  "bigint_divmod_knuth a b =
     (let d = bigint_knuth_d b;
          u = bigint_knuth_u a b;
          v = bigint_knuth_v b;
          m = length u - length v - 1;
          (u', q) = bigint_div_loop u v (m + 1);
          r = (if d = 1 then bigint_trim (take (length v) u')
               else fst (bigint_divmod_small (take (length v) u') d))
      in (bigint_trim q, r))"

text \<open>The small-quotient path: at most \<open>SMALL_Q_LIMIT = 16\<close> subtractions.\<close>

fun bigint_small_q_loop :: "nat \<Rightarrow> u32 list \<Rightarrow> u32 list \<Rightarrow> u32 \<Rightarrow> u32 list \<times> u32" where
  "bigint_small_q_loop 0 rem b q = (rem, q)"
| "bigint_small_q_loop (Suc k) rem b q =
     (if bigint_compare_abs_limbs rem b < 0 then (rem, q)
      else bigint_small_q_loop k (bigint_trim (bigint_sub_loop rem b 0)) b (q + 1))"

definition bigint_small_q_est :: "u32 list \<Rightarrow> u32 list \<Rightarrow> u64" where
  "bigint_small_q_est a b =
     (let bh = (ucast (last b) :: u64)
      in if length a = length b then ucast (last a) div bh
         else (push_bit 32 (ucast (last a)) OR ucast (a ! (length a - 2))) div bh)"

definition bigint_small_q_try :: "u32 list \<Rightarrow> u32 list \<Rightarrow> (u32 list \<times> u32 list) option" where
  "bigint_small_q_try a b =
     (if (length a = length b \<or> length a = length b + 1) \<and> last b \<noteq> 0 \<and> bigint_small_q_est a b < 16
      then let (rem, q) = bigint_small_q_loop 16 a b 0
           in if bigint_compare_abs_limbs rem b < 0
              then Some (if q = 0 then [] else [q], rem)
              else None
      else None)"

text \<open>
  \<^verbatim>\<open>bigint_divmod_abs_limbs\<close>: quotient, remainder and \<open>div_by_zero\<close>.  Its callers want one of
  the two results each; an unwanted result is \<open>NULL\<close> there and the other does not depend on
  which is wanted, so the model returns both and \<open>bigint_divmod_abs_limbs\<close> masks them.
\<close>

definition bigint_divmod_both :: "u32 list \<Rightarrow> u32 list \<Rightarrow> u32 list \<times> u32 list" where
  "bigint_divmod_both a b =
     (if a = [] then ([], [])
      else let cmp = bigint_compare_abs_limbs a b
      in if cmp < 0 then ([], a)
      else if cmp = 0 then ([1], [])
      else if length b = 1
           then let (q, rem) = bigint_divmod_small a (b ! 0)
                in (q, if rem \<noteq> 0 then [rem] else [])
      else case bigint_small_q_try a b of
             Some qr \<Rightarrow> qr
           | None \<Rightarrow> bigint_divmod_knuth a b)"

definition bigint_divmod_abs_limbs ::
  "u32 list \<Rightarrow> u32 list \<Rightarrow> bool \<Rightarrow> bool \<Rightarrow> u32 list \<times> u32 list \<times> bool" where
  "bigint_divmod_abs_limbs a b want_q want_r =
     (if b = [] then ([], [], True)
      else let (q, r) = bigint_divmod_both a b
           in (if want_q then q else [], if want_r then r else [], False))"

section \<open>Multiply-subtract and add-back\<close>

declare of_nat_unat [simp del]

lemma int_unat_word_of_int_u32:
  assumes "0 \<le> t" and "t < 4294967296"
  shows "int (unat (word_of_int t :: u32)) = t"
proof -
  have "uint (word_of_int t :: u32) = t mod 4294967296"
    by (simp add: unsigned_of_int take_bit_eq_mod)
  with assms show ?thesis by (simp add: of_nat_unat)
qed

lemma bigint_sub_mul_val:
  assumes "length w = Suc (length v)" and "unat qhat < 4294967296" and "unat carry < 4294967296"
    and "borrow = 0 \<or> borrow = 1"
  shows "\<exists>w' negative. bigint_sub_mul (w @ rest) v qhat carry borrow = (w' @ rest, negative) \<and>
    length w' = length w \<and>
    int (lval w') = int (lval w) - int (unat qhat * lval v + unat carry) - borrow
      + (if negative then 4294967296 ^ length w else 0)"
  using assms
proof (induction v arbitrary: w carry borrow)
  case Nil
  then obtain uk where w: "w = [uk]" by (cases w) auto
  define t where "t = int (unat uk) - int (unat carry) - borrow"
  have "- 4294967296 \<le> t" "t < 4294967296"
    using Nil.prems unat_u32_less [of uk] by (auto simp: t_def)
  then have "int (unat (word_of_int (if t < 0 then t + 4294967296 else t) :: u32))
      = t + (if t < 0 then 4294967296 else 0)"
    by (simp add: int_unat_word_of_int_u32)
  then show ?case
    by (intro exI [of _ "[word_of_int (if t < 0 then t + 4294967296 else t)]"] exI [of _ "t < 0"])
      (auto simp: w Let_def t_def of_nat_unat)
next
  case (Cons vi v)
  then obtain ui u where w: "w = ui # u" and u: "length u = Suc (length v)" by (cases w) auto
  define p :: u64 where "p = qhat * ucast vi + carry"
  have "unat qhat * unat vi \<le> 4294967295 * 4294967295"
    using Cons.prems(2) unat_u32_le [of vi] by (intro mult_le_mono) auto
  then have p: "unat p = unat qhat * unat vi + unat carry"
    unfolding p_def using Cons.prems(3) by (subst unat_add_u64; subst unat_mult_u64) simp_all
  have hi: "unat (drop_bit 32 p) < 4294967296"
    using unat_u64_less [of p] by (simp add: unat_high_u64)
  define t where "t = int (unat ui) - int (unat (ucast p :: u32)) - borrow"
  define t' where "t' = (if t < 0 then t + 4294967296 else t)"
  define b' :: int where "b' = (if t < 0 then 1 else 0)"
  have b': "b' = 0 \<or> b' = 1" by (simp add: b'_def)
  have "- 4294967296 \<le> t" "t < 4294967296"
    using Cons.prems(4) unat_u32_less [of ui] unat_u32_less [of "ucast p"] by (auto simp: t_def)
  then have t': "int (unat (word_of_int t' :: u32)) = t + 4294967296 * b'"
    by (auto simp: t'_def b'_def int_unat_word_of_int_u32)
  obtain w' negative where rec: "bigint_sub_mul (u @ rest) v qhat (drop_bit 32 p) b' = (w' @ rest, negative)"
    and len: "length w' = length u"
    and val: "int (lval w') = int (lval u) - int (unat qhat * lval v + unat (drop_bit 32 p)) - b'
      + (if negative then 4294967296 ^ length u else 0)"
    using Cons.IH [OF u Cons.prems(2) hi, of b'] b' by blast
  have "bigint_sub_mul (w @ rest) (vi # v) qhat carry borrow = ((word_of_int t' # w') @ rest, negative)"
    using rec by (simp add: w Let_def p_def t_def t'_def b'_def of_nat_unat split: if_splits)
  moreover have "int (lval (word_of_int t' # w')) = int (lval w)
      - int (unat qhat * lval (vi # v) + unat carry) - borrow
      + (if negative then 4294967296 ^ length w else 0)"
  proof -
    have lo: "int (unat (ucast p :: u32)) + 4294967296 * int (unat (drop_bit 32 p))
        = int (unat qhat) * int (unat vi) + int (unat carry)"
      using arg_cong [OF u64_split [of p], of int] p by simp
    show ?thesis
      using lo val t' by (cases negative) (simp_all add: w t_def ring_distribs)
  qed
  ultimately show ?case using len by (intro exI conjI) (auto simp: w)
qed

lemma bigint_sub_mul_window:
  assumes "length w = Suc (length v)" and "unat qhat < 4294967296"
  obtains w' where
    "bigint_sub_mul (w @ rest) v qhat 0 0 = (w' @ rest, lval w < unat qhat * lval v)"
    "length w' = length w"
    "int (lval w') = int (lval w) - int (unat qhat * lval v)
       + (if lval w < unat qhat * lval v then 4294967296 ^ length w else 0)"
proof -
  obtain w' negative where r: "bigint_sub_mul (w @ rest) v qhat 0 0 = (w' @ rest, negative)"
    and l: "length w' = length w"
    and v: "int (lval w') = int (lval w) - int (unat qhat * lval v)
      + (if negative then 4294967296 ^ length w else 0)"
    using bigint_sub_mul_val [OF assms, of 0 0 rest] by auto
  have "int (lval w') < 4294967296 ^ length w"
    using lval_less [of w'] l by (metis of_nat_less_iff of_nat_numeral of_nat_power)
  then have "negative = (int (lval w) < int (unat qhat * lval v))"
    using v by (cases negative) auto
  then have "negative = (lval w < unat qhat * lval v)"
    by (simp only: of_nat_less_iff)
  with that r l v show thesis by simp
qed

lemma bigint_push_carry_window:
  "unat carry < 4294967296 \<Longrightarrow>
     \<exists>rest'. bigint_push_carry ([x] @ rest) carry = [x + ucast carry] @ rest' \<and> length rest' = length rest"
proof -
  assume "unat carry < 4294967296"
  then have sum: "unat (ucast x + carry :: u64) = unat x + unat carry"
    using unat_u32_less [of x] by (subst unat_add_u64) simp_all
  have len: "length (bigint_push_carry out c) = length out" for out c
    by (induction out c rule: bigint_push_carry.induct) (simp_all add: Let_def)
  have "ucast (ucast x + carry :: u64) = x + ucast carry"
    by (simp add: word_unat_eq_iff unat_low_u64 sum)
      (simp add: unat_word_ariths unat_low_u64 mod_simps)
  then show ?thesis using len by (simp add: Let_def)
qed

lemma limb_mod:
  fixes lo X M :: nat
  assumes "lo < 4294967296"
  shows "(lo + 4294967296 * X) mod (4294967296 * M) = lo + 4294967296 * (X mod M)"
  using assms by (simp add: mod_mult2_eq)

lemma bigint_add_back_val:
  assumes "length w = Suc (length v)" and "unat carry \<le> 1"
  shows "\<exists>w' rest'. bigint_add_back (w @ rest) v carry = w' @ rest' \<and> length w' = length w \<and>
    length rest' = length rest \<and>
    lval w' = (lval w + lval v + unat carry) mod 4294967296 ^ length w"
  using assms
proof (induction v arbitrary: w carry)
  case Nil
  then obtain x where w: "w = [x]" by (cases w) auto
  have "unat carry < 4294967296" using Nil.prems(2) by simp
  from bigint_push_carry_window [OF this, of x rest] obtain rest' where
    r: "bigint_push_carry ([x] @ rest) carry = [x + ucast carry] @ rest'" "length rest' = length rest"
    by blast
  have "unat (x + ucast carry) = (unat x + unat carry) mod 4294967296"
    by (simp add: unat_word_ariths unat_low_u64 mod_simps)
  with r show ?case by (intro exI [of _ "[x + ucast carry]"] exI [of _ rest']) (simp add: w)
next
  case (Cons vi v)
  then obtain ui u where w: "w = ui # u" and u: "length u = Suc (length v)" by (cases w) auto
  define s :: u64 where "s = ucast ui + ucast vi + carry"
  have "unat (ucast ui + ucast vi :: u64) = unat ui + unat vi"
    using unat_u32_less [of ui] unat_u32_less [of vi] by (subst unat_add_u64) simp_all
  then have s: "unat s = unat ui + unat vi + unat carry"
    unfolding s_def using Cons.prems(2) unat_u32_less [of ui] unat_u32_less [of vi]
    by (subst unat_add_u64) simp_all
  have "unat (drop_bit 32 s) \<le> 1"
    using s Cons.prems(2) unat_u32_less [of ui] unat_u32_less [of vi] by (simp add: unat_high_u64)
  from Cons.IH [OF u this] obtain w' rest' where
    r: "bigint_add_back (u @ rest) v (drop_bit 32 s) = w' @ rest'" "length w' = length u"
      "length rest' = length rest"
    and v: "lval w' = (lval u + lval v + unat (drop_bit 32 s)) mod 4294967296 ^ length u"
    by blast
  let ?X = "lval u + lval v + unat (drop_bit 32 s)"
  have "(unat (ucast s :: u32) + 4294967296 * ?X) mod (4294967296 * 4294967296 ^ length u)
      = unat (ucast s :: u32) + 4294967296 * (?X mod 4294967296 ^ length u)"
    by (rule limb_mod [OF unat_u32_less])
  moreover have "unat (ucast s :: u32) + 4294967296 * ?X = lval w + lval (vi # v) + unat carry"
    using u64_split [of s] s by (simp add: w)
  ultimately have "lval (ucast s # w') = (lval w + lval (vi # v) + unat carry) mod 4294967296 ^ length w"
    unfolding w by (simp only: v lval.simps list.size power_Suc add_Suc_right add_0_right)
  with r show ?case
    by (intro exI [of _ "ucast s # w'"] exI [of _ rest']) (simp add: w Let_def s_def)
qed

section \<open>The quotient estimate\<close>

text \<open>
  The arithmetic behind the estimate: with \<open>W3\<close> the top three limbs of the window \<open>W\<close> and \<open>V2\<close>
  the top two of the divisor \<open>V\<close>, \<open>P\<close> the weight of the limbs below.
\<close>

lemma estimate_upper:
  fixes W V W3 V2 P k :: nat
  assumes "W < (W3 + 1) * P" and "V2 * P \<le> V" and "W3 < k * V2"
  shows "W < k * V"
proof -
  have "(W3 + 1) * P \<le> (k * V2) * P" using assms(3) by (intro mult_le_mono1) simp
  also have "\<dots> \<le> k * V" using assms(2) by simp
  finally show ?thesis using assms(1) by simp
qed

lemma estimate_lower:
  fixes W V W3 V2 P k :: nat
  assumes "W3 * P \<le> W" and "V < (V2 + 1) * P" and "k * V2 \<le> W3" and "k * P \<le> V"
  shows "k \<le> W div V + 1"
proof (cases "k = 0")
  case False
  have "k * V < k * ((V2 + 1) * P)" using assms(2) False by simp
  also have "\<dots> = k * V2 * P + k * P" by (simp add: algebra_simps)
  also have "\<dots> \<le> W3 * P + k * P" using assms(3) by simp
  also have "\<dots> \<le> W + V" using assms(1,4) by simp
  finally have lt: "k * V < W + V" .
  then have "(k - 1) * V \<le> W" by (cases k) simp_all
  moreover have "0 < V"
  proof -
    have "0 < P" using assms(2) by (cases P) auto
    then have "0 < k * P" using False by simp
    with assms(4) show ?thesis by (rule less_le_trans [rotated])
  qed
  ultimately have "k - 1 \<le> W div V" by (simp add: less_eq_div_iff_mult_less_eq)
  then show ?thesis by simp
qed simp

lemma bigint_qhat_loop_val:
  assumes "unat (qhat :: u64) * unat v1 + unat (rhat :: u64) = num"
    and "unat rhat < 4294967296" and "unat qhat < 4294967296" and "unat ujn2 < 4294967296"
    and "(num * 4294967296 + unat ujn2) * P \<le> W" and "W < (num * 4294967296 + unat ujn2 + 1) * P"
    and "(unat v1 * 4294967296 + unat v2) * P \<le> V" and "V < (unat v1 * 4294967296 + unat v2 + 1) * P"
    and "v1 \<noteq> 0" and "W div V \<le> unat qhat"
  shows "W div V \<le> unat (bigint_qhat_loop qhat rhat v1 v2 ujn2) \<and>
    unat (bigint_qhat_loop qhat rhat v1 v2 ujn2) \<le> W div V + 1 \<and>
    unat (bigint_qhat_loop qhat rhat v1 v2 ujn2) < 4294967296"
  using assms
proof (induction qhat rhat v1 v2 ujn2 rule: bigint_qhat_loop.induct)
  case (1 qhat rhat v1 v2 ujn2)
  let ?B = "4294967296 :: nat" and ?V2 = "unat v1 * 4294967296 + unat v2"
    and ?W3 = "num * 4294967296 + unat ujn2"
  have P: "k * P \<le> V" if "k < ?B" for k
  proof -
    have "1 \<le> unat v1" using "1.prems"(9) by (simp add: Suc_le_eq unat_gt_0)
    with that have "k \<le> ?V2" by linarith
    then have "k * P \<le> ?V2 * P" by (rule mult_le_mono1)
    then show ?thesis using "1.prems"(7) by (rule le_trans)
  qed
  have final: "k \<le> W div V + 1" if "k < ?B" "k * ?V2 \<le> ?W3" for k
    by (rule estimate_lower [OF "1.prems"(5,8) that(2) P [OF that(1)]])
  have lhs: "unat (qhat * ucast v2) = unat qhat * unat v2"
  proof (subst unat_mult_u64)
    have "unat qhat * unat v2 \<le> 4294967295 * 4294967295"
      using "1.prems"(3) unat_u32_le [of v2] by (intro mult_le_mono) auto
    then show "unat qhat * unat (ucast v2 :: u64) < 18446744073709551616" by simp
  qed simp
  have "unat (push_bit 32 rhat) = unat rhat * ?B"
    using "1.prems"(2) by (simp add: push_bit_eq_mult unat_word_ariths)
  then have rhs: "unat (push_bit 32 rhat + ujn2) = unat rhat * ?B + unat ujn2"
    using "1.prems"(2,4) by (subst unat_add_u64) simp_all
  have sum: "unat qhat * ?V2 + (unat rhat * ?B + unat ujn2) = ?W3 + unat qhat * unat v2"
    using "1.prems"(1) by (simp add: algebra_simps flip: "1.prems"(1))
  show ?case
  proof (cases "qhat * ucast v2 > push_bit 32 rhat + ujn2")
    case False
    then have "unat qhat * ?V2 \<le> ?W3"
      using sum by (simp add: word_less_nat_alt lhs rhs)
    with False show ?thesis
      using "1.prems"(3,10) final by (subst (1 2 3) bigint_qhat_loop.simps) simp
  next
    case True
    then have "?W3 < unat qhat * ?V2"
      using sum by (simp add: word_less_nat_alt lhs rhs)
    then have "W < unat qhat * V"
      by (rule estimate_upper [OF "1.prems"(6,7)])
    then have q: "W div V < unat qhat"
      by (simp add: less_mult_imp_div_less mult.commute)
    then have "qhat \<noteq> 0" by auto
    then have q': "unat (qhat - 1) = unat qhat - 1" by (simp add: unat_minus_one)
    have r': "unat (rhat + ucast v1) = unat rhat + unat v1"
      using "1.prems"(2) unat_u32_less [of v1] by (subst unat_add_u64) simp_all
    have inv: "unat (qhat - 1) * unat v1 + unat (rhat + ucast v1) = num"
      using "1.prems"(1) q by (cases "unat qhat") (simp_all add: q' r')
    show ?thesis
    proof (cases "4294967296 \<le> rhat + ucast v1")
      case big: True
      then have "?B \<le> unat (rhat + ucast v1)" by (simp add: word_le_nat_alt)
      then have "unat (qhat - 1) * unat v1 + ?B \<le> num" using inv by linarith
      then have "(unat (qhat - 1) * unat v1 + ?B) * ?B \<le> num * ?B" by (rule mult_le_mono1)
      moreover have "unat (qhat - 1) * unat v2 \<le> ?B * ?B"
        using "1.prems"(3) unat_u32_less [of v2] q' by (intro mult_le_mono) auto
      ultimately have "unat (qhat - 1) * ?V2 \<le> ?W3"
        by (simp add: algebra_simps)
      moreover have "W div V \<le> unat (qhat - 1)" "unat (qhat - 1) < ?B"
        using q "1.prems"(3) unfolding q' by linarith+
      ultimately show ?thesis
        using True big final [of "unat (qhat - 1)"]
        by (subst (1 2 3) bigint_qhat_loop.simps) (simp add: Let_def)
    next
      case small: False
      then have "unat (rhat + ucast v1) < ?B" by (simp add: word_le_nat_alt)
      with "1.IH" [OF True refl refl small inv this] "1.prems" q q' small True show ?thesis
        by (subst (1 2 3) bigint_qhat_loop.simps) (simp add: Let_def)
    qed
  qed
qed

lemma bigint_qhat_val:
  assumes "unat (x0 :: u32) < unat v1"
    and "((unat x0 * 4294967296 + unat (x1 :: u32)) * 4294967296 + unat (x2 :: u32)) * P \<le> W"
    and "W < ((unat x0 * 4294967296 + unat x1) * 4294967296 + unat x2 + 1) * P"
    and "(unat v1 * 4294967296 + unat v2) * P \<le> V" and "V < (unat v1 * 4294967296 + unat v2 + 1) * P"
  defines "qhat \<equiv> bigint_qhat (ucast x0) (ucast x1) (ucast x2) v1 v2"
  shows "W div V \<le> unat qhat" and "unat qhat \<le> W div V + 1" and "unat qhat < 4294967296"
proof -
  let ?num = "unat x0 * 4294967296 + unat x1"
  define num :: u64 where "num = push_bit 32 (ucast x0) OR ucast x1"
  have num: "unat num = ?num"
    unfolding num_def by (subst unat_shift_or_u64) (simp_all add: unat_u32_less)
  have v1: "v1 \<noteq> 0" using assms(1) by auto
  have d: "unat (num div ucast v1) = ?num div unat v1" "unat (num mod ucast v1) = ?num mod unat v1"
    by (simp_all add: unat_div unat_mod num)
  have "(unat x0 + 1) * 4294967296 \<le> unat v1 * 4294967296" using assms(1) by simp
  then have lt: "?num div unat v1 < 4294967296"
    using unat_u32_less [of x1] by (simp add: div_less_iff_less_mult)
  have r: "?num mod unat v1 < 4294967296"
    using v1 by (intro less_trans [OF mod_less_divisor unat_u32_less]) (simp add: unat_gt_0)
  have "\<not> num div ucast v1 > 4294967295"
    using lt d(1) by (simp add: word_less_nat_alt)
  then have qhat: "qhat = bigint_qhat_loop (num div ucast v1) (num mod ucast v1) v1 v2 (ucast x2)"
    by (simp add: qhat_def bigint_qhat_def num_def Let_def)
  have le: "W div V \<le> ?num div unat v1"
  proof -
    have "W < (?num div unat v1 + 1) * V"
    proof (rule estimate_upper [where P = "4294967296 * P" and ?W3.0 = ?num and ?V2.0 = "unat v1"])
      have "(?num * 4294967296 + unat x2 + 1) * P \<le> (?num + 1) * 4294967296 * P"
        using unat_u32_less [of x2] by (intro mult_le_mono1) simp
      with assms(3) show "W < (?num + 1) * (4294967296 * P)"
        by (simp only: mult.assoc less_le_trans)
      show "unat v1 * (4294967296 * P) \<le> V" using assms(4) by (simp add: algebra_simps)
      show "?num < (?num div unat v1 + 1) * unat v1"
        using v1 dividend_less_div_times [of "unat v1" ?num] by (simp add: unat_gt_0)
    qed
    then show ?thesis by (metis Suc_eq_plus1 less_Suc_eq_le less_mult_imp_div_less)
  qed
  have sum: "?num div unat v1 * unat v1 + ?num mod unat v1 = ?num" by (rule div_mult_mod_eq)
  from bigint_qhat_loop_val [of "num div ucast v1" v1 "num mod ucast v1" ?num "ucast x2" P W v2 V]
  show "W div V \<le> unat qhat" and "unat qhat \<le> W div V + 1" and "unat qhat < 4294967296"
    unfolding qhat d using sum r lt assms(2-5) v1 le by (simp_all add: unat_u32_less)
qed

section \<open>One step, and the loop\<close>

lemma lval_split_nth2:
  assumes "length v = k + 2"
  shows "lval v = lval (take k v) + 4294967296 ^ k * (unat (v ! (k + 1)) * 4294967296 + unat (v ! k))"
proof -
  have "lval v = lval (take (Suc (Suc k)) v)" using assms by simp
  also have "\<dots> = lval (take k v) + 4294967296 ^ k * (unat (v ! (k + 1)) * 4294967296 + unat (v ! k))"
    using assms by (simp only: take_Suc_conv_app_nth lval_append) (simp add: lval_append algebra_simps)
  finally show ?thesis .
qed

lemma lval_split_nth3:
  assumes "length w = k + 3"
  shows "lval w = lval (take k w) + 4294967296 ^ k *
    ((unat (w ! (k + 2)) * 4294967296 + unat (w ! (k + 1))) * 4294967296 + unat (w ! k))"
proof -
  have "lval w = lval (take (Suc (Suc (Suc k))) w)" using assms by simp
  also have "\<dots> = lval (take k w) + 4294967296 ^ k *
    ((unat (w ! (k + 2)) * 4294967296 + unat (w ! (k + 1))) * 4294967296 + unat (w ! k))"
    using assms by (simp only: take_Suc_conv_app_nth lval_append) (simp add: lval_append algebra_simps)
  finally show ?thesis .
qed

text \<open>
  A step on a window of \<open>length v + 1\<close> limbs whose value is below \<open>2^32 * v\<close> and whose top limb is
  below the top limb of \<open>v\<close> finds the digit and leaves the remainder.
\<close>

lemma bigint_div_step_val:
  assumes len: "length w = length v + 1" and v2: "2 \<le> length v"
    and j: "length lo = j" and W: "lval w < lval v * 4294967296"
    and top: "unat (last w) < unat (last v)"
  shows "\<exists>w' hi'. bigint_div_step (lo @ w @ hi) v j
      = (lo @ w' @ hi', word_of_nat (lval w div lval v)) \<and>
    length w' = length w \<and> length hi' = length hi \<and> lval w' = lval w mod lval v \<and>
    lval w div lval v < 4294967296"
proof -
  obtain k where k: "length v = k + 2" using v2 by (metis add.commute le_Suc_ex)
  let ?V = "lval v" and ?W = "lval w"
  let ?qhat = "bigint_qhat (ucast (w ! (k + 2))) (ucast (w ! (k + 1))) (ucast (w ! k)) (v ! (k + 1)) (v ! k)"
  note Vs = lval_split_nth2 [OF k] and Ws = lval_split_nth3 [of w k]
  have low: "lval (take k v) < 4294967296 ^ k" "lval (take k w) < 4294967296 ^ k"
    using lval_less [of "take k v"] lval_less [of "take k w"] k len by simp_all
  have lasts: "last w = w ! (k + 2)" "last v = v ! (k + 1)"
    using len k by (subst last_conv_nth; force)+
  have q: "?W div ?V \<le> unat ?qhat" "unat ?qhat \<le> ?W div ?V + 1" "unat ?qhat < 4294967296"
    by (rule bigint_qhat_val [where P = "4294967296 ^ k" and V = ?V and W = ?W];
        use top len k low in \<open>simp add: lasts Vs Ws algebra_simps\<close>)+
  have V0: "0 < ?V" using W by (cases "?V = 0") auto
  have div: "?W div ?V < 4294967296" using W V0 by (simp add: div_less_iff_less_mult mult.commute)
  obtain w' where sm: "bigint_sub_mul (w @ hi) v ?qhat 0 0 = (w' @ hi, ?W < unat ?qhat * ?V)"
    and l': "length w' = length w"
    and val: "int (lval w') = int ?W - int (unat ?qhat * ?V)
       + (if ?W < unat ?qhat * ?V then 4294967296 ^ length w else 0)"
    using bigint_sub_mul_window [of w v ?qhat hi] len q(3) by auto
  have step: "bigint_div_step (lo @ w @ hi) v j =
     (if ?W < unat ?qhat * ?V then (lo @ bigint_add_back (w' @ hi) v 0, ucast (?qhat - 1))
      else (lo @ w' @ hi, ucast ?qhat))"
    using sm j k len by (simp add: bigint_div_step_def Let_def nth_append)
  show ?thesis
  proof (cases "?W < unat ?qhat * ?V")
    case False
    then have "unat ?qhat \<le> ?W div ?V" using V0 by (simp add: less_eq_div_iff_mult_less_eq)
    with q(1) have qh: "unat ?qhat = ?W div ?V" by simp
    have "int (lval w') = int (?W - ?W div ?V * ?V)" using val False qh by simp
    then have "lval w' = ?W mod ?V" by (simp only: of_nat_eq_iff minus_div_mult_eq_mod)
    moreover have "(ucast ?qhat :: u32) = word_of_nat (?W div ?V)"
      using qh div by (simp add: word_unat_eq_iff unat_low_u64 unsigned_of_nat take_bit_eq_mod)
    ultimately show ?thesis using step False l' div by auto
  next
    case True
    then have "?W div ?V < unat ?qhat" by (simp add: less_mult_imp_div_less mult.commute)
    with q(2) have qh: "unat ?qhat = ?W div ?V + 1" by simp
    then have "?qhat \<noteq> 0" by auto
    then have q1: "unat (?qhat - 1) = ?W div ?V" using qh by (simp add: unat_minus_one)
    have sum: "lval w' + ?V = ?W mod ?V + 4294967296 ^ length w"
    proof -
      define D R where "D = ?W div ?V" and "R = ?W mod ?V"
      have "int ?W = int D * int ?V + int R"
        unfolding D_def R_def by (simp flip: of_nat_mult of_nat_add)
      moreover have "int (lval w') = int ?W - (int D + 1) * int ?V + 4294967296 ^ length w"
        using val by (simp only: True if_True) (simp only: qh D_def of_nat_mult of_nat_add of_nat_1)
      ultimately have "int (lval w' + ?V) = int (R + 4294967296 ^ length w)"
        by (simp add: algebra_simps)
      then show ?thesis by (simp only: of_nat_eq_iff R_def)
    qed
    have "?W mod ?V < 4294967296 ^ length w"
      using lval_less [of w] by (rule le_less_trans [OF mod_less_eq_dividend])
    then have "(lval w' + ?V + 0) mod 4294967296 ^ length w' = ?W mod ?V"
      unfolding sum l' by simp
    with bigint_add_back_val [of w' v 0 hi] l' len obtain w'' hi' where
      "bigint_add_back (w' @ hi) v 0 = w'' @ hi'" "length w'' = length w" "length hi' = length hi"
      "lval w'' = ?W mod ?V" by auto
    moreover have "(ucast (?qhat - 1) :: u32) = word_of_nat (?W div ?V)"
      using q1 div by (simp add: word_unat_eq_iff unat_low_u64 unsigned_of_nat take_bit_eq_mod)
    ultimately show ?thesis using step True div by auto
  qed
qed

lemma lval_take: "lval (take n xs) = lval xs mod 4294967296 ^ n"
proof (cases "n \<le> length xs")
  case True
  have "lval xs = lval (take n xs @ drop n xs)" by simp
  also have "\<dots> = lval (take n xs) + 4294967296 ^ n * lval (drop n xs)"
    using True by (simp only: lval_append) simp
  finally show ?thesis using lval_less [of "take n xs"] True by simp
next
  case False
  then have "lval xs < 4294967296 ^ n"
    by (intro less_le_trans [OF lval_less] power_increasing) auto
  with False show ?thesis by simp
qed

lemma lval_last_div: "xs \<noteq> [] \<Longrightarrow> unat (last xs) = lval xs div 4294967296 ^ (length xs - 1)"
proof (induction xs rule: rev_induct)
  case (snoc x xs)
  show ?case using lval_less [of xs] by (simp add: lval_append)
qed simp

text \<open>
  No pass of the loop meets a partial remainder that starts with the top limb of the divisor.  At
  such a pass the estimate exceeds 32 bits and is capped.
\<close>

definition knuth_uncapped :: "nat \<Rightarrow> nat \<Rightarrow> nat \<Rightarrow> nat \<Rightarrow> bool" where
  "knuth_uncapped U V n J \<longleftrightarrow>
     (\<forall>j<J. U mod (V * 4294967296 ^ (j + 1)) div 4294967296 ^ (j + n) \<noteq> V div 4294967296 ^ (n - 1))"

lemma knuth_uncapped_mod:
  assumes "knuth_uncapped U V n (Suc j)"
  shows "knuth_uncapped (U mod (4294967296 ^ j * V)) V n j"
proof -
  have "U mod (4294967296 ^ j * V) mod (V * 4294967296 ^ (i + 1)) = U mod (V * 4294967296 ^ (i + 1))"
    if "i < j" for i
  proof (rule mod_mod_cancel)
    have "(4294967296 :: nat) ^ (i + 1) dvd 4294967296 ^ j" using that by (intro le_imp_power_dvd) simp
    then show "V * 4294967296 ^ (i + 1) dvd 4294967296 ^ j * V" by (simp only: mult.commute mult_dvd_mono dvd_refl)
  qed
  with assms show ?thesis by (simp add: knuth_uncapped_def)
qed

lemma bigint_div_loop_val:
  assumes "2 \<le> length v" and "J + length v \<le> length u"
    and "lval (take (J + length v) u) < lval v * 4294967296 ^ J"
    and "knuth_uncapped (lval (take (J + length v) u)) (lval v) (length v) J"
  shows "\<exists>u' q. bigint_div_loop u v J = (u', q) \<and> length q = J \<and>
    lval (take (length v) u') = lval (take (J + length v) u) mod lval v \<and>
    lval q = lval (take (J + length v) u) div lval v"
  using assms
proof (induction J arbitrary: u)
  case 0
  then show ?case by simp
next
  case (Suc j)
  let ?n = "length v" and ?B = "4294967296 :: nat" and ?V = "lval v"
  define X where "X = lval (take (Suc j + ?n) u)"
  define lo w hi where "lo = take j u" and "w = take (?n + 1) (drop j u)" and "hi = drop (j + ?n + 1) u"
  have u: "u = lo @ w @ hi" by (simp add: lo_def w_def hi_def add.commute flip: take_add append_assoc)
  have len: "length lo = j" "length w = ?n + 1" using Suc.prems(2) by (auto simp: lo_def w_def)
  have X: "X = lval lo + ?B ^ j * lval w"
    using len by (simp add: X_def u lval_append)
  have lo: "lval lo < ?B ^ j" using lval_less [of lo] len by simp
  have W: "lval w = X div ?B ^ j" using lo by (simp add: X)
  have V0: "0 < ?V" using Suc.prems(3) by (cases "?V = 0") auto
  have Wlt: "lval w < ?V * ?B"
    using Suc.prems(3) unfolding W X_def [symmetric] by (intro less_mult_imp_div_less) (simp add: mult.assoc)
  have top: "unat (last w) < unat (last v)"
  proof -
    have w1: "unat (last w) = X div ?B ^ (j + ?n)"
      using len by (subst lval_last_div) (auto simp: W power_add div_mult2_eq)
    have v1: "unat (last v) = ?V div ?B ^ (?n - 1)"
      using Suc.prems(1) by (subst lval_last_div) auto
    have "X mod (?V * ?B ^ (j + 1)) div ?B ^ (j + ?n) \<noteq> ?V div ?B ^ (?n - 1)"
      using Suc.prems(4) unfolding knuth_uncapped_def X_def by blast
    then have "unat (last w) \<noteq> unat (last v)"
      using Suc.prems(3) by (simp add: w1 v1 X_def)
    moreover have "lval w div ?B \<le> ?V" using Wlt by (metis less_imp_le less_mult_imp_div_less)
    then have "lval w div ?B div ?B ^ (?n - 1) \<le> ?V div ?B ^ (?n - 1)" by (rule div_le_mono)
    then have "lval w div ?B ^ ?n \<le> ?V div ?B ^ (?n - 1)"
      using Suc.prems(1) by (cases ?n) (simp_all add: div_mult2_eq [symmetric])
    then have "unat (last w) \<le> unat (last v)"
      unfolding v1 using len by (subst lval_last_div) auto
    ultimately show ?thesis by simp
  qed
  obtain w' hi' where step: "bigint_div_step u v j = (lo @ w' @ hi', word_of_nat (lval w div ?V))"
    and l': "length w' = length w" "length hi' = length hi"
    and w': "lval w' = lval w mod ?V" and dig: "lval w div ?V < ?B"
    using bigint_div_step_val [OF len(2) Suc.prems(1) len(1) Wlt top, of hi] u by metis
  define X' where "X' = X mod (?B ^ j * ?V)"
  have X'v: "X' = lval lo + ?B ^ j * (lval w mod ?V)"
    using lo by (simp add: X'_def mod_mult2_eq W [symmetric]) (simp add: X)
  have "lval w' < ?B ^ ?n"
    unfolding w' using lval_less [of v] V0 by (rule less_trans [OF mod_less_divisor, rotated])
  then have tk: "lval (take (j + ?n) (lo @ w' @ hi')) = X'"
    using len l' by (simp add: X'v lval_append lval_take w')
  have "X' < ?V * ?B ^ j" using V0 by (simp add: X'_def mult.commute)
  moreover have "knuth_uncapped X' ?V ?n j"
    unfolding X'_def by (rule knuth_uncapped_mod) (use Suc.prems(4) in \<open>simp add: X_def\<close>)
  moreover have "j + ?n \<le> length (lo @ w' @ hi')" using len l' by simp
  ultimately obtain u' q where rec: "bigint_div_loop (lo @ w' @ hi') v j = (u', q)"
    and lq: "length q = j" and r: "lval (take ?n u') = X' mod ?V" and q: "lval q = X' div ?V"
    using Suc.IH [of "lo @ w' @ hi'"] Suc.prems(1) unfolding tk by blast
  have "X = X' + ?V * (?B ^ j * (lval w div ?V))"
  proof -
    have "?B ^ j * lval w = ?B ^ j * (lval w mod ?V) + ?V * (?B ^ j * (lval w div ?V))"
      by (simp only: mult.left_commute [of ?V] distrib_left [symmetric] mod_mult_div_eq)
    then show ?thesis unfolding X X'v by linarith
  qed
  then have "X div ?V = X' div ?V + ?B ^ j * (lval w div ?V)" "X mod ?V = X' mod ?V"
    using V0 by simp_all
  moreover have "unat (word_of_nat (lval w div ?V) :: u32) = lval w div ?V"
    using dig by (simp add: unsigned_of_nat take_bit_eq_mod)
  moreover have "bigint_div_loop u v (Suc j) = (u', q @ [word_of_nat (lval w div ?V)])"
    using step rec by simp
  ultimately show ?case
    unfolding X_def [symmetric] using lq r q by (simp add: lval_append)
qed

section \<open>The whole division\<close>

text \<open>\<open>divmod_ok a b (q, r)\<close>: trimmed quotient and remainder.\<close>

definition divmod_ok :: "u32 list \<Rightarrow> u32 list \<Rightarrow> u32 list \<times> u32 list \<Rightarrow> bool" where
  "divmod_ok a b qr \<longleftrightarrow> no_leading_zero (fst qr) \<and> no_leading_zero (snd qr) \<and>
     lval (fst qr) = lval a div lval b \<and> lval (snd qr) = lval a mod lval b"

lemma bigint_small_q_loop_val:
  assumes "bigint_small_q_loop k rem b q = (rem', q')" and "unat q + k < 4294967296"
    and "no_leading_zero rem" and "no_leading_zero b"
  shows "no_leading_zero rem' \<and> unat q' * lval b + lval rem' = unat q * lval b + lval rem"
  using assms
proof (induction k rem b q arbitrary: rem' q' rule: bigint_small_q_loop.induct)
  case (2 k rem b q)
  show ?case
  proof (cases "bigint_compare_abs_limbs rem b < 0")
    case False
    then have ge: "lval b \<le> lval rem"
      using "2.prems"(3,4) by (simp add: bigint_compare_abs_limbs_sgn sgn_if split: if_splits)
    have q1: "unat (q + 1) = unat q + 1" using "2.prems"(2) by (simp add: unat_word_ariths)
    have "lval (bigint_trim (bigint_sub_loop rem b 0)) = lval rem - lval b"
      using lval_sub_loop [of b 0 rem] ge by simp
    with "2.IH" [OF False, of rem' q'] "2.prems" False ge q1 show ?thesis by simp
  qed (use 2 in simp)
qed simp

lemma bigint_small_q_try_ok:
  assumes "bigint_small_q_try a b = Some qr" and "no_leading_zero a" and "no_leading_zero b"
  shows "divmod_ok a b qr"
proof -
  obtain rem q where l: "bigint_small_q_loop 16 a b 0 = (rem, q)" by fastforce
  from assms(1) have lt: "bigint_compare_abs_limbs rem b < 0"
    and qr: "qr = (if q = 0 then [] else [q], rem)"
    by (simp_all add: bigint_small_q_try_def l split: if_splits)
  have v: "no_leading_zero rem" "unat q * lval b + lval rem = lval a"
    using bigint_small_q_loop_val [OF l] assms(2,3) by simp_all
  have less: "lval rem < lval b"
    using lt v(1) assms(3) by (simp add: bigint_compare_abs_limbs_sgn sgn_if split: if_splits)
  then have "lval a div lval b = unat q" "lval a mod lval b = lval rem"
    by (simp_all flip: v(2))
  then show ?thesis using v(1) by (simp add: divmod_ok_def qr no_leading_zero_def)
qed

lemma bigint_knuth_d_val:
  assumes "b \<noteq> []" and "no_leading_zero b"
  shows "unat (bigint_knuth_d b) = 4294967296 div (unat (last b) + 1)"
    and "bigint_knuth_d b \<noteq> 0" and "lval b * unat (bigint_knuth_d b) < 4294967296 ^ length b"
proof -
  let ?t = "unat (last b)" and ?B = "4294967296 :: nat"
  have t: "1 \<le> ?t" "?t < ?B"
    using assms unat_u32_less [of "last b"] by (simp_all add: no_leading_zero_def Suc_le_eq unat_gt_0)
  have "unat (ucast (last b) + 1 :: u64) = ?t + 1"
    using t by (subst unat_add_u64) simp_all
  then have "unat ((4294967296 :: u64) div (ucast (last b) + 1)) = ?B div (?t + 1)"
    by (simp add: unat_div)
  moreover have "?B div (?t + 1) < ?B" using t by (intro div_less_dividend) auto
  ultimately show d: "unat (bigint_knuth_d b) = ?B div (?t + 1)"
    by (simp add: bigint_knuth_d_def unat_low_u64)
  have "0 < ?B div (?t + 1)" using t by (simp add: div_greater_zero_iff)
  then show "bigint_knuth_d b \<noteq> 0" using d by auto
  have "lval b < (?t + 1) * ?B ^ (length b - 1)"
    using lval_last_div [OF assms(1)] dividend_less_div_times [of "?B ^ (length b - 1)" "lval b"] by simp
  then have "lval b * (?B div (?t + 1)) < (?t + 1) * ?B ^ (length b - 1) * (?B div (?t + 1))"
    using \<open>0 < ?B div (?t + 1)\<close> by (intro mult_strict_right_mono) auto
  also have "\<dots> = ?B div (?t + 1) * (?t + 1) * ?B ^ (length b - 1)" by (simp only: ac_simps)
  also have "\<dots> \<le> ?B * ?B ^ (length b - 1)" by (intro mult_le_mono1 div_times_less_eq_dividend)
  also have "\<dots> = ?B ^ length b" using assms(1) by (cases b) simp_all
  finally show "lval b * unat (bigint_knuth_d b) < ?B ^ length b" by (simp only: d)
qed

lemma bigint_knuth_uv_val:
  assumes "b \<noteq> []" and "no_leading_zero b" and "no_leading_zero a" and "lval b \<le> lval a"
  shows "lval (bigint_knuth_v b) = lval b * unat (bigint_knuth_d b)"
    and "length (bigint_knuth_v b) = length b"
    and "lval (bigint_knuth_u a b) = lval a * unat (bigint_knuth_d b)"
    and "length (bigint_knuth_u a b) = length a + 1" and "length b \<le> length a"
proof -
  note d = bigint_knuth_d_val [OF assms(1,2)]
  note vals = bigint_mul_small_val [where m = "bigint_knuth_d b"]
  show "lval (bigint_knuth_v b) = lval b * unat (bigint_knuth_d b)"
    using d(3) by (simp add: bigint_knuth_v_def lval_take vals(1))
  show "length (bigint_knuth_v b) = length b"
    using vals(2) [OF d(2), of b] by (simp add: bigint_knuth_v_def)
  show len: "length b \<le> length a"
    using lval_less_length [of a b] assms(2,4) by (meson leD leI)
  show "length (bigint_knuth_u a b) = length a + 1"
    using vals(2) [OF d(2), of a] vals(3) [of a] len by (auto simp: bigint_knuth_u_def Let_def)
  show "lval (bigint_knuth_u a b) = lval a * unat (bigint_knuth_d b)"
    by (simp add: bigint_knuth_u_def Let_def lval_append vals(1))
qed

lemma bigint_divmod_knuth_ok:
  assumes "2 \<le> length b" and "no_leading_zero b" and "no_leading_zero a" and "lval b \<le> lval a"
    and "knuth_uncapped (lval (bigint_knuth_u a b)) (lval (bigint_knuth_v b)) (length b)
      (length a + 1 - length b)"
  shows "divmod_ok a b (bigint_divmod_knuth a b)"
proof -
  let ?u = "bigint_knuth_u a b" and ?v = "bigint_knuth_v b" and ?d = "unat (bigint_knuth_d b)"
  have b0: "b \<noteq> []" using assms(1) by auto
  note d = bigint_knuth_d_val [OF b0 assms(2)] and uv = bigint_knuth_uv_val [OF b0 assms(2-4)]
  let ?J = "length a + 1 - length b"
  have d0: "0 < ?d" using d(2) by (simp add: unat_gt_0)
  have tk: "take (?J + length ?v) ?u = ?u" using uv(2,4,5) by simp
  have "lval a < 4294967296 ^ length a" by (rule lval_less)
  also have "\<dots> = 4294967296 ^ (length b - 1) * 4294967296 ^ ?J"
    using uv(5) assms(1) by (simp flip: power_add)
  also have "\<dots> \<le> lval b * 4294967296 ^ ?J"
    using lval_lower [OF assms(2) b0] by simp
  finally have "lval ?u < lval ?v * 4294967296 ^ ?J"
    using d0 by (simp add: uv(1,3))
  then obtain u' q where loop: "bigint_div_loop ?u ?v ?J = (u', q)"
    and r: "lval (take (length b) u') = lval ?u mod lval ?v" and q: "lval q = lval ?u div lval ?v"
    using bigint_div_loop_val [of ?v ?J ?u, unfolded tk] assms(1,5) uv(2,4,5) by auto
  have q': "lval q = lval a div lval b" using q d0 by (simp add: uv(1,3))
  have r': "lval (take (length b) u') = lval a mod lval b * ?d" using r by (simp add: uv(1,3) mod_mult_mult2)
  have "lval (fst (bigint_divmod_small (take (length b) u') (bigint_knuth_d b))) = lval a mod lval b"
    using bigint_divmod_small_val(1) [OF d(2) prod.collapse [symmetric], of "take (length b) u'"] r' d0
    by simp
  moreover have "no_leading_zero (fst (bigint_divmod_small (take (length b) u') (bigint_knuth_d b)))"
    by (simp add: bigint_divmod_small_def split: prod.splits)
  moreover have m: "length ?u - length ?v - 1 + 1 = ?J" using uv(2,4,5) by simp
  have "bigint_divmod_knuth a b = (bigint_trim q,
      if bigint_knuth_d b = 1 then bigint_trim (take (length b) u')
      else fst (bigint_divmod_small (take (length b) u') (bigint_knuth_d b)))"
    by (simp only: bigint_divmod_knuth_def Let_def m [unfolded uv(2)] loop prod.case uv(2))
  ultimately show ?thesis using q' r' by (simp add: divmod_ok_def)
qed

definition bigint_divmod_uncapped :: "u32 list \<Rightarrow> u32 list \<Rightarrow> bool" where
  "bigint_divmod_uncapped a b \<longleftrightarrow>
     knuth_uncapped (lval (bigint_knuth_u a b)) (lval (bigint_knuth_v b)) (length b)
       (length a + 1 - length b)"

lemma bigint_divmod_both_ok:
  assumes "no_leading_zero a" and "no_leading_zero b" and "b \<noteq> []"
    and "length b = 1 \<or> bigint_small_q_try a b \<noteq> None \<or> bigint_divmod_uncapped a b"
  shows "divmod_ok a b (bigint_divmod_both a b)"
proof (cases "a = []")
  case True
  then show ?thesis by (simp add: bigint_divmod_both_def divmod_ok_def)
next
  case False
  have cmp: "bigint_compare_abs_limbs a b = sgn (int (lval a) - int (lval b))"
    using assms by (simp add: bigint_compare_abs_limbs_sgn)
  have b0: "lval b \<noteq> 0" using assms by (simp add: lval_0_iff)
  consider "lval a < lval b" | "lval a = lval b" | "lval b < lval a" by linarith
  then show ?thesis
  proof cases
    case 1
    then show ?thesis using False assms(1)
      by (simp add: bigint_divmod_both_def divmod_ok_def cmp)
  next
    case 2
    then show ?thesis using False b0
      by (simp add: bigint_divmod_both_def divmod_ok_def cmp no_leading_zero_def)
  next
    case 3
    then have both: "bigint_divmod_both a b = (if length b = 1
         then let (q, rem) = bigint_divmod_small a (b ! 0) in (q, if rem \<noteq> 0 then [rem] else [])
         else case bigint_small_q_try a b of Some qr \<Rightarrow> qr | None \<Rightarrow> bigint_divmod_knuth a b)"
      using False by (simp add: bigint_divmod_both_def cmp)
    show ?thesis
    proof (cases "length b = 1")
      case True
      then obtain x where b: "b = [x]" by (cases b) auto
      then have x: "x \<noteq> 0" using assms(2) by (simp add: no_leading_zero_def)
      obtain q rem where qr: "bigint_divmod_small a x = (q, rem)" by fastforce
      have "unat rem = 0" if "rem = 0" using that by simp
      then show ?thesis using bigint_divmod_small_val [OF x, of a] unfolding both qr
        by (auto simp: b qr divmod_ok_def no_leading_zero_def)
    next
      case len: False
      then have len2: "2 \<le> length b" using assms(3) by (cases b) (auto simp: Suc_le_eq)
      show ?thesis
      proof (cases "bigint_small_q_try a b")
        case None
        then show ?thesis
          using assms len2 3 len by (simp add: both bigint_divmod_knuth_ok bigint_divmod_uncapped_def)
      next
        case (Some qr)
        then show ?thesis using bigint_small_q_try_ok [OF Some assms(1,2)] len by (simp add: both)
      qed
    qed
  qed
qed


end
