(* ===== verification/Bigint_Obj.thy ===== *)
theory Bigint_Obj
  imports Bigint_Div "HOL-Library.Signed_Division"
begin

text \<open>
  Big integer objects of \<^verbatim>\<open>src/src/bigint.c\<close>: sign and magnitude, the arithmetic the interpreter
  calls, conversion from and to 64-bit integers and reference counting.  A null pointer is
  \<open>None\<close>.  The lemmas show that every operation returns a well-formed object whose value is the
  integer operation on the values of its arguments, and the locale \<open>canonical_integers\<close> derives the
  algebra the clients rely on from that contract alone.
\<close>

section \<open>The model\<close>

record ObjBigInt =
  bi_ref_count :: int
  bi_sign :: int
  bi_limbs :: "u32 list"

definition bigint_from_limbs :: "int \<Rightarrow> u32 list \<Rightarrow> ObjBigInt" where
  "bigint_from_limbs sign limbs =
     (let limbs = bigint_trim limbs
      in if limbs = [] then \<lparr>bi_ref_count = 1, bi_sign = 0, bi_limbs = []\<rparr>
         else \<lparr>bi_ref_count = 1, bi_sign = (if sign < 0 then -1 else 1), bi_limbs = limbs\<rparr>)"

definition bigint_copy :: "ObjBigInt option \<Rightarrow> ObjBigInt" where
  "bigint_copy src =
     (case src of
        None \<Rightarrow> bigint_from_limbs 0 []
      | Some s \<Rightarrow> if bi_limbs s = [] then bigint_from_limbs 0 []
                  else bigint_from_limbs (bi_sign s) (bi_limbs s))"

definition obj_bigint_compare_abs :: "ObjBigInt option \<Rightarrow> ObjBigInt option \<Rightarrow> int" where
  "obj_bigint_compare_abs a b =
     (case (a, b) of
        (Some x, Some y) \<Rightarrow> bigint_compare_abs_limbs (bi_limbs x) (bi_limbs y)
      | _ \<Rightarrow> 0)"

definition obj_bigint_compare :: "ObjBigInt option \<Rightarrow> ObjBigInt option \<Rightarrow> int" where
  "obj_bigint_compare a b =
     (case (a, b) of
        (Some x, Some y) \<Rightarrow>
          if bi_sign x \<noteq> bi_sign y then (if bi_sign x < bi_sign y then -1 else 1)
          else if bi_sign x = 0 then 0
          else let cmp = bigint_compare_abs_limbs (bi_limbs x) (bi_limbs y)
               in if bi_sign x < 0 then - cmp else cmp
      | _ \<Rightarrow> 0)"

definition obj_bigint_is_even :: "ObjBigInt option \<Rightarrow> bool" where
  "obj_bigint_is_even bigint =
     (case bigint of
        None \<Rightarrow> False
      | Some x \<Rightarrow> (case bi_limbs x of [] \<Rightarrow> True | limb # _ \<Rightarrow> limb AND 1 = 0))"

definition obj_bigint_add :: "ObjBigInt option \<Rightarrow> ObjBigInt option \<Rightarrow> ObjBigInt" where
  "obj_bigint_add a b =
     (case (a, b) of
        (Some x, Some y) \<Rightarrow>
          if bi_sign x = 0 then bigint_copy b
          else if bi_sign y = 0 then bigint_copy a
          else if bi_sign x = bi_sign y
               then bigint_from_limbs (bi_sign x) (bigint_add_abs_limbs (bi_limbs x) (bi_limbs y))
          else let cmp = bigint_compare_abs_limbs (bi_limbs x) (bi_limbs y)
               in if cmp = 0 then bigint_from_limbs 0 []
                  else if cmp > 0
                  then bigint_from_limbs (bi_sign x) (bigint_sub_abs_limbs (bi_limbs x) (bi_limbs y))
                  else bigint_from_limbs (bi_sign y) (bigint_sub_abs_limbs (bi_limbs y) (bi_limbs x))
      | _ \<Rightarrow> bigint_from_limbs 0 [])"

definition obj_bigint_sub :: "ObjBigInt option \<Rightarrow> ObjBigInt option \<Rightarrow> ObjBigInt" where
  "obj_bigint_sub a b =
     (case (a, b) of
        (Some x, Some y) \<Rightarrow> obj_bigint_add a (Some (y\<lparr>bi_sign := - bi_sign y\<rparr>))
      | _ \<Rightarrow> bigint_from_limbs 0 [])"

definition obj_bigint_mul :: "ObjBigInt option \<Rightarrow> ObjBigInt option \<Rightarrow> ObjBigInt" where
  "obj_bigint_mul a b =
     (case (a, b) of
        (Some x, Some y) \<Rightarrow>
          if bi_sign x = 0 \<or> bi_sign y = 0 then bigint_from_limbs 0 []
          else if length (bi_limbs x) = 1
               then bigint_from_limbs (bi_sign x * bi_sign y) (bigint_mul_small (bi_limbs y) (bi_limbs x ! 0))
          else if length (bi_limbs y) = 1
               then bigint_from_limbs (bi_sign x * bi_sign y) (bigint_mul_small (bi_limbs x) (bi_limbs y ! 0))
          else bigint_from_limbs (bi_sign x * bi_sign y) (bigint_mul_abs_limbs (bi_limbs x) (bi_limbs y))
      | _ \<Rightarrow> bigint_from_limbs 0 [])"

text \<open>\<^verbatim>\<open>obj_bigint_mul_small_inplace\<close>: the updated object and the C return value.\<close>

definition obj_bigint_mul_small_inplace :: "ObjBigInt option \<Rightarrow> u32 \<Rightarrow> ObjBigInt option \<times> bool" where
  "obj_bigint_mul_small_inplace a m =
     (case a of
        None \<Rightarrow> (None, False)
      | Some x \<Rightarrow>
          if bi_sign x = 0 \<or> bi_limbs x = [] then (Some x, True)
          else if m = 0 then (Some (x\<lparr>bi_limbs := [], bi_sign := 0\<rparr>), True)
          else if m = 1 then (Some x, True)
          else let limbs = bigint_mul_add_small_inplace (bi_limbs x) m 0
               in (Some (x\<lparr>bi_limbs := limbs, bi_sign := (if limbs = [] then 0 else bi_sign x)\<rparr>), True))"

text \<open>
  \<^verbatim>\<open>obj_bigint_div\<close> and \<^verbatim>\<open>obj_bigint_mod\<close>; the last argument and the second result are the flag
  \<open>*div_by_zero\<close> before and after the call.
\<close>

definition obj_bigint_div :: "ObjBigInt option \<Rightarrow> ObjBigInt option \<Rightarrow> bool \<Rightarrow> ObjBigInt \<times> bool" where
  "obj_bigint_div a b div_by_zero =
     (case (a, b) of
        (Some x, Some y) \<Rightarrow>
          if bi_sign y = 0 then (bigint_from_limbs 0 [], True)
          else if bi_sign x = 0 then (bigint_from_limbs 0 [], False)
          else let (q, _, dz) = bigint_divmod_abs_limbs (bi_limbs x) (bi_limbs y) True False;
                   sign = (if q = [] then 0 else bi_sign x * bi_sign y)
               in (bigint_from_limbs sign q, dz)
      | _ \<Rightarrow> (bigint_from_limbs 0 [], div_by_zero))"

definition obj_bigint_mod :: "ObjBigInt option \<Rightarrow> ObjBigInt option \<Rightarrow> bool \<Rightarrow> ObjBigInt \<times> bool" where
  "obj_bigint_mod a b div_by_zero =
     (case (a, b) of
        (Some x, Some y) \<Rightarrow>
          if bi_sign y = 0 then (bigint_from_limbs 0 [], True)
          else if bi_sign x = 0 then (bigint_from_limbs 0 [], False)
          else let (_, r, dz) = bigint_divmod_abs_limbs (bi_limbs x) (bi_limbs y) False True;
                   sign = (if r = [] then 0 else bi_sign x)
               in (bigint_from_limbs sign r, dz)
      | _ \<Rightarrow> (bigint_from_limbs 0 [], div_by_zero))"

definition obj_bigint_negate :: "ObjBigInt option \<Rightarrow> ObjBigInt" where
  "obj_bigint_negate a =
     (case a of
        None \<Rightarrow> bigint_from_limbs 0 []
      | Some x \<Rightarrow> if bi_sign x = 0 then bigint_copy a
                  else bigint_from_limbs (- bi_sign x) (bi_limbs x))"

text \<open>\<open>abs_limbs_loop\<close> is the loop of \<^verbatim>\<open>obj_bigint_from_int64\<close>; \<open>int64_t\<close> is a signed 64-bit word.\<close>

function bigint_abs_limbs_loop :: "u64 \<Rightarrow> u32 list" where
  "bigint_abs_limbs_loop abs_val =
     (if abs_val > 0 then ucast abs_val # bigint_abs_limbs_loop (drop_bit 32 abs_val) else [])"
  by pat_completeness auto
termination
proof (relation "measure unat", goal_cases)
  case (2 abs_val)
  then have "0 < unat abs_val" by (simp add: word_less_nat_alt)
  then show ?case by (simp add: unat_high_u64)
qed simp

declare bigint_abs_limbs_loop.simps [simp del]

definition obj_bigint_from_int64 :: "u64 \<Rightarrow> ObjBigInt" where
  "obj_bigint_from_int64 value =
     (if value = 0 then bigint_from_limbs 0 []
      else let abs_val = (if sint value < 0 then (- (value + 1)) + 1 else value)
           in bigint_from_limbs (if sint value < 0 then -1 else 1) (bigint_abs_limbs_loop abs_val))"

text \<open>The loop of \<^verbatim>\<open>obj_bigint_to_int64\<close>, over the limbs from the top.\<close>

fun bigint_to_int64_loop :: "u64 \<Rightarrow> u32 list \<Rightarrow> u64 \<Rightarrow> u64 option" where
  "bigint_to_int64_loop limit [] acc = Some acc"
| "bigint_to_int64_loop limit (limb # limbs) acc =
     (if acc > drop_bit 32 (limit - ucast limb) then None
      else bigint_to_int64_loop limit limbs (push_bit 32 acc OR ucast limb))"

definition obj_bigint_to_int64 :: "ObjBigInt option \<Rightarrow> u64 option" where
  "obj_bigint_to_int64 bigint =
     (case bigint of
        None \<Rightarrow> None
      | Some x \<Rightarrow>
          if bi_sign x = 0 then Some 0
          else let limit = (if bi_sign x < 0 then 0x7FFFFFFFFFFFFFFF + 1 else 0x7FFFFFFFFFFFFFFF)
               in case bigint_to_int64_loop limit (rev (bi_limbs x)) 0 of
                    None \<Rightarrow> None
                  | Some acc \<Rightarrow> Some (if bi_sign x < 0
                                      then (if acc = limit then 0x8000000000000000 else - acc)
                                      else acc))"

text \<open>
  Reference counts.  \<^verbatim>\<open>obj_bigint_free\<close> leaves no object (\<open>None\<close>); the count is a C \<open>int\<close> that no
  run of the program brings near its bounds.
\<close>

definition obj_bigint_free :: "ObjBigInt option \<Rightarrow> ObjBigInt option" where
  "obj_bigint_free bigint = None"

definition obj_bigint_retain :: "ObjBigInt option \<Rightarrow> ObjBigInt option" where
  "obj_bigint_retain bigint = map_option (\<lambda>x. x\<lparr>bi_ref_count := bi_ref_count x + 1\<rparr>) bigint"

definition obj_bigint_release :: "ObjBigInt option \<Rightarrow> ObjBigInt option" where
  "obj_bigint_release bigint =
     (case bigint of
        None \<Rightarrow> None
      | Some x \<Rightarrow> let x = x\<lparr>bi_ref_count := bi_ref_count x - 1\<rparr>
                  in if bi_ref_count x \<le> 0 then obj_bigint_free (Some x) else Some x)"

section \<open>Well-formed objects and their values\<close>

definition bigint_wf :: "ObjBigInt \<Rightarrow> bool" where
  "bigint_wf x \<longleftrightarrow> no_leading_zero (bi_limbs x) \<and> bi_sign x \<in> {-1, 0, 1} \<and>
     (bi_sign x = 0 \<longleftrightarrow> bi_limbs x = [])"

definition bigint_value :: "ObjBigInt \<Rightarrow> int" where
  "bigint_value x = bi_sign x * int (lval (bi_limbs x))"

text \<open>A result object: well formed, with one reference, owned by the caller.\<close>

definition bigint_fresh :: "ObjBigInt \<Rightarrow> bool" where
  "bigint_fresh x \<longleftrightarrow> bigint_wf x \<and> bi_ref_count x = 1"

named_theorems bigint_ops \<open>results of the big integer operations\<close>

lemma bigint_from_limbs_fresh [simp]: "bigint_fresh (bigint_from_limbs sign limbs)"
  by (simp add: bigint_fresh_def bigint_wf_def bigint_from_limbs_def Let_def)

lemma bigint_freshD: "bigint_fresh x \<Longrightarrow> bigint_wf x"
  by (simp add: bigint_fresh_def)

lemma bigint_from_limbs_value [bigint_ops]:
  "bigint_value (bigint_from_limbs sign limbs) = (if sign < 0 then - int (lval limbs) else int (lval limbs))"
proof (cases "bigint_trim limbs = []")
  case True
  then have "lval limbs = 0" by (metis lval_trim lval.simps(1))
  with True show ?thesis by (simp add: bigint_from_limbs_def bigint_value_def)
qed (simp add: bigint_from_limbs_def bigint_value_def Let_def)

lemma bigint_wf_cases:
  assumes "bigint_wf x"
  obtains (zero) "bi_sign x = 0" "bi_limbs x = []" "bigint_value x = 0"
    | (pos) "bi_sign x = 1" "0 < lval (bi_limbs x)" "bigint_value x = int (lval (bi_limbs x))"
    | (neg) "bi_sign x = -1" "0 < lval (bi_limbs x)" "bigint_value x = - int (lval (bi_limbs x))"
  using assms lval_0_iff [of "bi_limbs x"] by (auto simp: bigint_wf_def bigint_value_def)

lemma bigint_wf_limbs: "bigint_wf x \<Longrightarrow> no_leading_zero (bi_limbs x)"
  by (simp add: bigint_wf_def)

lemma bigint_wf_abs: "bigint_wf x \<Longrightarrow> int (lval (bi_limbs x)) = \<bar>bigint_value x\<bar>"
  by (erule bigint_wf_cases) auto

lemma bigint_wf_sign: "bigint_wf x \<Longrightarrow> bi_sign x = sgn (bigint_value x)"
  by (erule bigint_wf_cases) (auto simp: sgn_if)

lemma bigint_copy_fresh [simp]: "bigint_fresh (bigint_copy a)"
  by (simp add: bigint_copy_def split: option.splits)

lemma bigint_copy_value [bigint_ops]: "bigint_wf x \<Longrightarrow> bigint_value (bigint_copy (Some x)) = bigint_value x"
  by (erule bigint_wf_cases) (auto simp: bigint_copy_def bigint_ops)

text \<open>Two fresh objects with the same value are equal: the representation is canonical.\<close>

lemma bigint_fresh_eqI:
  assumes "bigint_fresh x" and "bigint_fresh y" and "bigint_value x = bigint_value y"
  shows "x = y"
proof -
  have wf: "bigint_wf x" "bigint_wf y" using assms by (simp_all add: bigint_freshD)
  have "lval (bi_limbs x) = lval (bi_limbs y)"
    using bigint_wf_abs [OF wf(1)] bigint_wf_abs [OF wf(2)] assms(3) by simp
  then have "bi_limbs x = bi_limbs y" using wf by (auto intro: lval_inj bigint_wf_limbs)
  moreover have "bi_sign x = bi_sign y" using wf assms(3) by (simp add: bigint_wf_sign)
  ultimately show ?thesis using assms(1,2) by (simp add: bigint_fresh_def)
qed

section \<open>Arithmetic\<close>

lemma bigint_compare_limbs_value:
  assumes "bigint_wf x" and "bigint_wf y"
  shows "bigint_compare_abs_limbs (bi_limbs x) (bi_limbs y) =
    sgn (int (lval (bi_limbs x)) - int (lval (bi_limbs y)))"
  using assms by (simp add: bigint_compare_abs_limbs_sgn bigint_wf_limbs)

lemma obj_bigint_compare_abs_value [bigint_ops]:
  assumes "bigint_wf x" and "bigint_wf y"
  shows "obj_bigint_compare_abs (Some x) (Some y) = sgn (\<bar>bigint_value x\<bar> - \<bar>bigint_value y\<bar>)"
  using assms by (simp add: obj_bigint_compare_abs_def bigint_compare_limbs_value bigint_wf_abs)

lemma obj_bigint_compare_value [bigint_ops]:
  assumes "bigint_wf x" and "bigint_wf y"
  shows "obj_bigint_compare (Some x) (Some y) = sgn (bigint_value x - bigint_value y)"
  by (rule bigint_wf_cases [OF assms(1)]; rule bigint_wf_cases [OF assms(2)];
      simp add: obj_bigint_compare_def bigint_compare_limbs_value assms Let_def sgn_if)

lemma obj_bigint_is_even_value [bigint_ops]:
  assumes "bigint_wf x"
  shows "obj_bigint_is_even (Some x) \<longleftrightarrow> even (bigint_value x)"
proof -
  have e: "(limb AND 1 = 0) \<longleftrightarrow> even (lval (limb # limbs))" for limb limbs
  proof -
    have "(limb AND 1 = 0) \<longleftrightarrow> even limb" by (simp add: and_one_eq mod_2_eq_odd)
    also have "\<dots> \<longleftrightarrow> even (unat limb)" by (simp add: even_unat_u32)
    finally show ?thesis by simp
  qed
  have "even (bigint_value x) \<longleftrightarrow> even (lval (bi_limbs x))"
    by (rule bigint_wf_cases [OF assms]) simp_all
  then show ?thesis
    using e by (cases "bi_limbs x") (simp_all only: obj_bigint_is_even_def option.case list.case, simp_all)
qed

lemma obj_bigint_add_fresh [simp]: "bigint_fresh (obj_bigint_add a b)"
  by (simp add: obj_bigint_add_def Let_def split: option.splits)

lemma obj_bigint_add_value [bigint_ops]:
  assumes "bigint_wf x" and "bigint_wf y"
  shows "bigint_value (obj_bigint_add (Some x) (Some y)) = bigint_value x + bigint_value y"
  by (rule bigint_wf_cases [OF assms(1)]; rule bigint_wf_cases [OF assms(2)];
      simp add: obj_bigint_add_def bigint_compare_limbs_value assms Let_def bigint_ops limb_simps sgn_if)

lemma bigint_wf_flip:
  assumes "bigint_wf y"
  shows "bigint_wf (y\<lparr>bi_sign := - bi_sign y\<rparr>)"
    and "bigint_value (y\<lparr>bi_sign := - bi_sign y\<rparr>) = - bigint_value y"
  using assms by (auto simp: bigint_wf_def bigint_value_def)

lemma obj_bigint_sub_fresh [simp]: "bigint_fresh (obj_bigint_sub a b)"
  by (simp add: obj_bigint_sub_def split: option.splits)

lemma obj_bigint_sub_value [bigint_ops]:
  assumes "bigint_wf x" and "bigint_wf y"
  shows "bigint_value (obj_bigint_sub (Some x) (Some y)) = bigint_value x - bigint_value y"
  using assms by (simp add: obj_bigint_sub_def obj_bigint_add_value bigint_wf_flip)

lemma obj_bigint_mul_fresh [simp]: "bigint_fresh (obj_bigint_mul a b)"
  by (simp add: obj_bigint_mul_def Let_def split: option.splits)

lemma lval_single: "length l = 1 \<Longrightarrow> unat (l ! 0) = lval l"
  by (cases l) auto

lemma obj_bigint_mul_value [bigint_ops]:
  assumes "bigint_wf x" and "bigint_wf y"
  shows "bigint_value (obj_bigint_mul (Some x) (Some y)) = bigint_value x * bigint_value y"
  by (rule bigint_wf_cases [OF assms(1)]; rule bigint_wf_cases [OF assms(2)];
      simp add: obj_bigint_mul_def bigint_ops limb_simps bigint_mul_small_val(1) lval_single [unfolded One_nat_def])

lemma obj_bigint_negate_fresh [simp]: "bigint_fresh (obj_bigint_negate a)"
  by (simp add: obj_bigint_negate_def split: option.splits)

lemma obj_bigint_negate_value [bigint_ops]:
  assumes "bigint_wf x"
  shows "bigint_value (obj_bigint_negate (Some x)) = - bigint_value x"
  by (rule bigint_wf_cases [OF assms]; simp add: obj_bigint_negate_def bigint_ops assms)

lemma obj_bigint_mul_small_inplace_value:
  assumes "bigint_wf x"
  obtains x' where "obj_bigint_mul_small_inplace (Some x) m = (Some x', True)" and "bigint_wf x'"
    and "bigint_value x' = bigint_value x * int (unat m)" and "bi_ref_count x' = bi_ref_count x"
proof -
  let ?l = "bigint_mul_add_small_inplace (bi_limbs x) m 0"
  have l: "no_leading_zero ?l" "lval ?l = lval (bi_limbs x) * unat m" by (simp_all add: limb_simps)
  consider "m = 0 \<or> m = 1 \<or> bi_sign x = 0" | "m \<noteq> 0" "m \<noteq> 1" "bi_sign x \<noteq> 0" by blast
  then show thesis
  proof cases
    case 1
    with assms that show thesis
      by (auto simp: obj_bigint_mul_small_inplace_def bigint_wf_def bigint_value_def)
  next
    case 2
    have "lval (bi_limbs x) \<noteq> 0" using 2(3) assms by (auto elim: bigint_wf_cases)
    then have "?l \<noteq> []" using l 2(1) by (auto simp: unat_eq_zero simp flip: lval_0_iff)
    moreover have "bi_limbs x \<noteq> []" using \<open>lval (bi_limbs x) \<noteq> 0\<close> by auto
    ultimately show thesis
      using assms 2 l
      by (intro that [of "x\<lparr>bi_limbs := ?l\<rparr>"])
        (auto simp: obj_bigint_mul_small_inplace_def bigint_wf_def bigint_value_def Let_def)
  qed
qed

subsection \<open>Division\<close>

text \<open>
  The pairs of limb lists the division is exact on: the divisor has one limb, the quotient is
  found by repeated subtraction, or no pass of the schoolbook loop caps its estimate.
\<close>

definition bigint_div_exact :: "ObjBigInt \<Rightarrow> ObjBigInt \<Rightarrow> bool" where
  "bigint_div_exact x y \<longleftrightarrow>
     length (bi_limbs y) = 1 \<or> bigint_small_q_try (bi_limbs x) (bi_limbs y) \<noteq> None \<or>
     bigint_divmod_uncapped (bi_limbs x) (bi_limbs y)"

lemma bigint_divmod_abs_limbs_ok:
  assumes "bigint_wf x" and "bigint_wf y" and "bigint_div_exact x y" and "bi_sign y \<noteq> 0"
  obtains q r where
    "\<And>wq wr. bigint_divmod_abs_limbs (bi_limbs x) (bi_limbs y) wq wr
       = (if wq then q else [], if wr then r else [], False)"
    "lval q = lval (bi_limbs x) div lval (bi_limbs y)" "lval r = lval (bi_limbs x) mod lval (bi_limbs y)"
    "no_leading_zero q" "no_leading_zero r"
proof -
  have y: "bi_limbs y \<noteq> []" using assms(2,4) by (simp add: bigint_wf_def)
  obtain q r where qr: "bigint_divmod_both (bi_limbs x) (bi_limbs y) = (q, r)" by fastforce
  have "divmod_ok (bi_limbs x) (bi_limbs y) (q, r)"
    using bigint_divmod_both_ok [of "bi_limbs x" "bi_limbs y"] assms y
    by (simp add: bigint_div_exact_def bigint_wf_limbs qr)
  then show thesis
    by (intro that [of q r]) (simp_all add: bigint_divmod_abs_limbs_def y qr divmod_ok_def)
qed

lemma sdiv_smod_sign_abs:
  fixes s t :: int
  assumes "s \<in> {-1, 1}" and "t \<in> {-1, 1}" and "0 < m" and "0 < n"
  shows "(s * int m) sdiv (t * int n) = s * t * int (m div n)"
    and "(s * int m) smod (t * int n) = s * int (m mod n)"
  using assms
  by (auto simp: signed_divide_int_def signed_modulo_int_def sgn_mult abs_mult zdiv_int algebra_simps
      simp flip: minus_div_mult_eq_mod zmod_int)

lemma obj_bigint_div_value:
  assumes "bigint_wf x" and "bigint_wf y" and "bigint_div_exact x y" and "bi_sign y \<noteq> 0"
  obtains z where "obj_bigint_div (Some x) (Some y) dz = (z, False)" and "bigint_fresh z"
    and "bigint_value z = bigint_value x sdiv bigint_value y"
proof (cases "bi_sign x = 0")
  case True
  then have "bigint_value x = 0" by (simp add: bigint_value_def)
  with True assms(4) that show thesis
    by (simp add: obj_bigint_div_def bigint_ops signed_divide_int_def)
next
  case False
  obtain q r where d: "\<And>wq wr. bigint_divmod_abs_limbs (bi_limbs x) (bi_limbs y) wq wr
       = (if wq then q else [], if wr then r else [], False)"
    and q: "lval q = lval (bi_limbs x) div lval (bi_limbs y)"
    using bigint_divmod_abs_limbs_ok [OF assms] by metis
  have pos: "0 < lval (bi_limbs x)" "0 < lval (bi_limbs y)"
    using False assms(1,2,4) by (auto elim: bigint_wf_cases)
  have s: "bi_sign x \<in> {-1, 1}" "bi_sign y \<in> {-1, 1}"
    using False assms(1,2,4) by (auto simp: bigint_wf_def)
  have "bigint_value (bigint_from_limbs (if q = [] then 0 else bi_sign x * bi_sign y) q)
      = bi_sign x * bi_sign y * int (lval q)"
    using s by (auto simp: bigint_ops)
  then show thesis
    using False assms(4) sdiv_smod_sign_abs(1) [OF s pos]
    by (intro that) (auto simp: obj_bigint_div_def d q bigint_value_def [of x] bigint_value_def [of y])
qed

lemma obj_bigint_mod_value:
  assumes "bigint_wf x" and "bigint_wf y" and "bigint_div_exact x y" and "bi_sign y \<noteq> 0"
  obtains z where "obj_bigint_mod (Some x) (Some y) dz = (z, False)" and "bigint_fresh z"
    and "bigint_value z = bigint_value x smod bigint_value y"
proof (cases "bi_sign x = 0")
  case True
  then have "bigint_value x = 0" by (simp add: bigint_value_def)
  with True assms(4) that show thesis
    by (simp add: obj_bigint_mod_def bigint_ops signed_modulo_int_def signed_divide_int_def)
next
  case False
  obtain q r where d: "\<And>wq wr. bigint_divmod_abs_limbs (bi_limbs x) (bi_limbs y) wq wr
       = (if wq then q else [], if wr then r else [], False)"
    and r: "lval r = lval (bi_limbs x) mod lval (bi_limbs y)"
    using bigint_divmod_abs_limbs_ok [OF assms] by metis
  have pos: "0 < lval (bi_limbs x)" "0 < lval (bi_limbs y)"
    using False assms(1,2,4) by (auto elim: bigint_wf_cases)
  have s: "bi_sign x \<in> {-1, 1}" "bi_sign y \<in> {-1, 1}"
    using False assms(1,2,4) by (auto simp: bigint_wf_def)
  have "bigint_value (bigint_from_limbs (if r = [] then 0 else bi_sign x) r) = bi_sign x * int (lval r)"
    using s by (auto simp: bigint_ops)
  then show thesis
    using False assms(4) sdiv_smod_sign_abs(2) [OF s pos]
    by (intro that) (auto simp: obj_bigint_mod_def d r bigint_value_def [of x] bigint_value_def [of y])
qed

subsection \<open>Conversion from and to 64-bit integers\<close>

lemma lval_abs_limbs_loop: "lval (bigint_abs_limbs_loop n) = unat n"
proof (induction n rule: bigint_abs_limbs_loop.induct)
  case (1 n)
  show ?case
  proof (cases "n = 0")
    case False
    then have "n > 0" by (simp add: word_gt_0)
    with 1 show ?thesis
      using u64_split [of n] by (subst bigint_abs_limbs_loop.simps) simp
  qed (simp add: bigint_abs_limbs_loop.simps)
qed


lemma unat_abs_int64:
  assumes "sint (v :: u64) < 0"
  shows "int (unat (- (v + 1) + 1)) = - sint v"
proof -
  have u: "uint v = sint v + 18446744073709551616" using assms uint_sint_u64 [of v] by simp
  then have "0 < uint v" "uint v < 18446744073709551616"
    using sint_u64_range [of v] assms by linarith+
  then have "uint (- v) = 18446744073709551616 - uint v"
    by (simp add: uint_word_ariths zmod_zminus1_eq_if)
  with u show ?thesis by (simp add: of_nat_unat)
qed

lemma obj_bigint_from_int64_fresh [simp]: "bigint_fresh (obj_bigint_from_int64 v)"
  by (simp add: obj_bigint_from_int64_def Let_def)

lemma obj_bigint_from_int64_value [bigint_ops]: "bigint_value (obj_bigint_from_int64 v) = sint v"
proof (cases "sint v < 0")
  case True
  then show ?thesis
    using unat_abs_int64 [OF True] by (auto simp: obj_bigint_from_int64_def bigint_ops lval_abs_limbs_loop)
next
  case False
  then show ?thesis
    using uint_sint_u64 [of v]
    by (auto simp: obj_bigint_from_int64_def bigint_ops lval_abs_limbs_loop of_nat_unat)
qed

lemma bigint_to_int64_loop_val:
  assumes "4294967296 \<le> unat limit" and "unat limit \<le> 9223372036854775808" and "unat acc \<le> unat limit"
  shows "bigint_to_int64_loop limit ls acc =
    (let n = unat acc * 4294967296 ^ length ls + lval (rev ls)
     in if n \<le> unat limit then Some (word_of_nat n) else None)"
  using assms
proof (induction limit ls acc rule: bigint_to_int64_loop.induct)
  case (1 limit acc)
  then show ?case by (simp add: of_nat_unat)
next
  case (2 limit limb ls acc)
  let ?s = "unat acc * 4294967296 + unat limb"
  have l: "unat (limit - ucast limb) = unat limit - unat limb"
    using "2.prems"(1) unat_u32_less [of limb] by (simp add: unat_sub_u64)
  have over: "(acc > drop_bit 32 (limit - ucast limb)) \<longleftrightarrow> unat limit < ?s"
    using "2.prems"(1) unat_u32_less [of limb]
    by (auto simp: word_less_nat_alt unat_high_u64 l div_less_iff_less_mult)
  have whole: "unat acc * 4294967296 ^ length (limb # ls) + lval (rev (limb # ls))
      = ?s * 4294967296 ^ length ls + lval (rev ls)"
    by (simp add: lval_append algebra_simps)
  show ?case
  proof (cases "unat limit < ?s")
    case True
    have "?s \<le> ?s * 4294967296 ^ length ls" by simp
    with True have "unat limit < ?s * 4294967296 ^ length ls + lval (rev ls)"
      by (intro trans_less_add1) (rule less_le_trans)
    then show ?thesis using True over unfolding whole by simp
  next
    case False
    have "unat acc < 2147483649" using False "2.prems"(2) by linarith
    then have s: "unat (push_bit 32 acc OR ucast limb) = ?s"
      by (subst unat_shift_or_u64) (simp_all add: unat_u32_less)
    then show ?thesis
      using "2.IH" [OF _ "2.prems"(1,2)] False over unfolding whole by (simp add: s)
  qed
qed

lemma obj_bigint_to_int64_value:
  assumes "bigint_wf x"
  shows "obj_bigint_to_int64 (Some x) =
    (if - 9223372036854775808 \<le> bigint_value x \<and> bigint_value x \<le> 9223372036854775807
     then Some (word_of_int (bigint_value x)) else None)"
proof (rule bigint_wf_cases [OF assms], goal_cases)
  case 1
  then show ?case by (simp add: obj_bigint_to_int64_def)
next
  case 2
  let ?n = "lval (bi_limbs x)"
  have "(- 9223372036854775808 \<le> bigint_value x \<and> bigint_value x \<le> 9223372036854775807)
      \<longleftrightarrow> ?n \<le> 9223372036854775807" using 2 by auto
  then show ?case using 2 by (simp add: obj_bigint_to_int64_def bigint_to_int64_loop_val Let_def)
next
  case 3
  let ?n = "lval (bi_limbs x)"
  have "(- 9223372036854775808 \<le> bigint_value x \<and> bigint_value x \<le> 9223372036854775807)
      \<longleftrightarrow> ?n \<le> 9223372036854775808" using 3 by auto
  moreover have "(word_of_nat 9223372036854775808 :: u64) = word_of_int (- 9223372036854775808)" by simp
  ultimately show ?case
    using 3 by (simp add: obj_bigint_to_int64_def bigint_to_int64_loop_val Let_def of_nat_unat)
qed

section \<open>The contract of the arithmetic\<close>

text \<open>
  What a client of the big integers relies on: operations on well-formed objects return fresh
  objects with the value of the integer operation, and the representation is canonical.  The
  algebraic laws hold of the objects themselves.
\<close>

locale canonical_integers =
  fixes wf :: "'a \<Rightarrow> bool" and fresh :: "'a \<Rightarrow> bool" and val :: "'a \<Rightarrow> int"
    and add :: "'a \<Rightarrow> 'a \<Rightarrow> 'a" and sub :: "'a \<Rightarrow> 'a \<Rightarrow> 'a" and mul :: "'a \<Rightarrow> 'a \<Rightarrow> 'a"
    and neg :: "'a \<Rightarrow> 'a" and cmp :: "'a \<Rightarrow> 'a \<Rightarrow> int"
  assumes fresh_wf: "fresh x \<Longrightarrow> wf x"
    and canonical: "fresh x \<Longrightarrow> fresh y \<Longrightarrow> val x = val y \<Longrightarrow> x = y"
    and fresh_ops: "fresh (add x y)" "fresh (sub x y)" "fresh (mul x y)" "fresh (neg x)"
    and val_add: "wf x \<Longrightarrow> wf y \<Longrightarrow> val (add x y) = val x + val y"
    and val_sub: "wf x \<Longrightarrow> wf y \<Longrightarrow> val (sub x y) = val x - val y"
    and val_mul: "wf x \<Longrightarrow> wf y \<Longrightarrow> val (mul x y) = val x * val y"
    and val_neg: "wf x \<Longrightarrow> val (neg x) = - val x"
    and val_cmp: "wf x \<Longrightarrow> wf y \<Longrightarrow> cmp x y = sgn (val x - val y)"
begin

lemmas ops = fresh_ops fresh_wf [OF fresh_ops(1)] fresh_wf [OF fresh_ops(2)]
  fresh_wf [OF fresh_ops(3)] fresh_wf [OF fresh_ops(4)] val_add val_sub val_mul val_neg

lemma add_commute: "wf x \<Longrightarrow> wf y \<Longrightarrow> add x y = add y x"
  by (rule canonical) (simp_all add: ops)

lemma add_assoc: "wf x \<Longrightarrow> wf y \<Longrightarrow> wf z \<Longrightarrow> add (add x y) z = add x (add y z)"
  by (rule canonical) (simp_all add: ops)

lemma mul_commute: "wf x \<Longrightarrow> wf y \<Longrightarrow> mul x y = mul y x"
  by (rule canonical) (simp_all add: ops)

lemma mul_assoc: "wf x \<Longrightarrow> wf y \<Longrightarrow> wf z \<Longrightarrow> mul (mul x y) z = mul x (mul y z)"
  by (rule canonical) (simp_all add: ops)

lemma mul_add_distrib: "wf x \<Longrightarrow> wf y \<Longrightarrow> wf z \<Longrightarrow> mul x (add y z) = add (mul x y) (mul x z)"
  by (rule canonical) (simp_all add: ops algebra_simps)

lemma sub_is_add_neg: "wf x \<Longrightarrow> wf y \<Longrightarrow> sub x y = add x (neg y)"
  by (rule canonical) (simp_all add: ops)

lemma sub_add_cancel: "fresh x \<Longrightarrow> wf y \<Longrightarrow> sub (add x y) y = x"
  by (rule canonical) (simp_all add: ops fresh_wf)

lemma cmp_swap: "wf x \<Longrightarrow> wf y \<Longrightarrow> cmp y x = - cmp x y"
  by (simp add: val_cmp sgn_if)

lemma cmp_add_right: "wf x \<Longrightarrow> wf y \<Longrightarrow> wf z \<Longrightarrow> cmp (add x z) (add y z) = cmp x y"
  by (simp add: val_cmp ops)

lemma cmp_0_eq: "fresh x \<Longrightarrow> fresh y \<Longrightarrow> cmp x y = 0 \<Longrightarrow> x = y"
  by (rule canonical) (simp_all add: val_cmp fresh_wf sgn_0_0)

end

abbreviation bigint_add :: "ObjBigInt \<Rightarrow> ObjBigInt \<Rightarrow> ObjBigInt" where
  "bigint_add x y \<equiv> obj_bigint_add (Some x) (Some y)"

abbreviation bigint_sub :: "ObjBigInt \<Rightarrow> ObjBigInt \<Rightarrow> ObjBigInt" where
  "bigint_sub x y \<equiv> obj_bigint_sub (Some x) (Some y)"

abbreviation bigint_mul :: "ObjBigInt \<Rightarrow> ObjBigInt \<Rightarrow> ObjBigInt" where
  "bigint_mul x y \<equiv> obj_bigint_mul (Some x) (Some y)"

interpretation bigint: canonical_integers bigint_wf bigint_fresh bigint_value
  bigint_add bigint_sub bigint_mul "\<lambda>x. obj_bigint_negate (Some x)"
  "\<lambda>x y. obj_bigint_compare (Some x) (Some y)"
  by unfold_locales (simp_all add: bigint_freshD bigint_fresh_eqI bigint_ops)

section \<open>Reference counts\<close>

lemma obj_bigint_release_simps:
  "obj_bigint_release None = None"
  "obj_bigint_release (Some x) =
     (if bi_ref_count x \<le> 1 then None else Some (x\<lparr>bi_ref_count := bi_ref_count x - 1\<rparr>))"
  by (simp_all add: obj_bigint_release_def obj_bigint_free_def)

lemma obj_bigint_release_iter:
  assumes "1 \<le> bi_ref_count x"
  shows "(obj_bigint_release ^^ k) (Some x) =
    (if int k < bi_ref_count x then Some (x\<lparr>bi_ref_count := bi_ref_count x - int k\<rparr>) else None)"
proof (induction k)
  case (Suc k)
  then show ?case by (simp add: obj_bigint_release_simps)
qed (use assms in simp)

lemma obj_bigint_release_retain:
  "1 \<le> bi_ref_count x \<Longrightarrow> obj_bigint_release (obj_bigint_retain (Some x)) = Some x"
  by (simp add: obj_bigint_release_simps obj_bigint_retain_def)

section \<open>Properties\<close>

text \<open>
  C14: addition, subtraction, multiplication, negation and comparison of big integers are exact, and
  their results are well-formed objects with one reference.
\<close>

theorem bigint_arith_exact:
  assumes "bigint_wf x" and "bigint_wf y"
  shows "bigint_value (obj_bigint_add (Some x) (Some y)) = bigint_value x + bigint_value y \<and>
    bigint_value (obj_bigint_sub (Some x) (Some y)) = bigint_value x - bigint_value y \<and>
    bigint_value (obj_bigint_mul (Some x) (Some y)) = bigint_value x * bigint_value y \<and>
    bigint_value (obj_bigint_negate (Some x)) = - bigint_value x \<and>
    obj_bigint_compare (Some x) (Some y) = sgn (bigint_value x - bigint_value y) \<and>
    bigint_fresh (obj_bigint_add (Some x) (Some y)) \<and> bigint_fresh (obj_bigint_sub (Some x) (Some y)) \<and>
    bigint_fresh (obj_bigint_mul (Some x) (Some y)) \<and> bigint_fresh (obj_bigint_negate (Some x))"
  using assms by (simp add: bigint_ops)

theorem bigint_arith_exact_witness:
  "bigint_value (obj_bigint_sub (Some (bigint_from_limbs 1 [0, 1])) (Some (bigint_from_limbs (-1) [4294967295])))
     = 4294967296 + 4294967295"
  using bigint_arith_exact [OF bigint_freshD bigint_freshD, of "bigint_from_limbs 1 [0, 1]" "bigint_from_limbs (-1) [4294967295]"]
  by (simp add: bigint_ops)

text \<open>
  C15: division by a non-zero big integer truncates towards zero and the remainder takes the sign of
  the dividend, as for the machine integers, provided no pass of the schoolbook loop caps its
  estimate (\<open>bigint_div_exact\<close>); no division-by-zero is reported.
\<close>

theorem bigint_division_exact:
  assumes "bigint_wf x" and "bigint_wf y" and "bigint_value y \<noteq> 0" and "bigint_div_exact x y"
  shows "bigint_value (fst (obj_bigint_div (Some x) (Some y) dz)) = bigint_value x sdiv bigint_value y \<and>
    bigint_value (fst (obj_bigint_mod (Some x) (Some y) dz)) = bigint_value x smod bigint_value y \<and>
    \<not> snd (obj_bigint_div (Some x) (Some y) dz) \<and> \<not> snd (obj_bigint_mod (Some x) (Some y) dz) \<and>
    bigint_fresh (fst (obj_bigint_div (Some x) (Some y) dz)) \<and>
    bigint_fresh (fst (obj_bigint_mod (Some x) (Some y) dz))"
proof -
  have "bi_sign y \<noteq> 0" using assms(3) by (auto simp: bigint_value_def)
  with assms obj_bigint_div_value [of x y dz] obj_bigint_mod_value [of x y dz] show ?thesis
    by (metis fst_conv snd_conv)
qed

theorem bigint_division_exact_witness:
  "bigint_value (fst (obj_bigint_div (Some (bigint_from_limbs (-1) [1, 2, 3, 4])) (Some (bigint_from_limbs 1 [5, 6])) False))
     = (- 316912650112397582603894390785) sdiv 25769803781"
proof -
  have l: "bi_limbs (bigint_from_limbs (-1) [1, 2, 3, 4]) = [1, 2, 3, 4]"
      "bi_limbs (bigint_from_limbs 1 [5, 6]) = [5, 6]"
    by code_simp+
  have uv: "bigint_knuth_u [1, 2, 3, 4] [5, 6] = [613566756, 1227133512, 1840700268, 2454267024, 0]"
      "bigint_knuth_v [5, 6] = [3067833780, 3681400536]"
    by code_simp+
  have "bigint_div_exact (bigint_from_limbs (-1) [1, 2, 3, 4]) (bigint_from_limbs 1 [5, 6])"
    by (simp add: bigint_div_exact_def bigint_divmod_uncapped_def l uv knuth_uncapped_def All_less_Suc)
  then show ?thesis
    using bigint_division_exact [OF bigint_freshD bigint_freshD, of "bigint_from_limbs (-1) [1, 2, 3, 4]" "bigint_from_limbs 1 [5, 6]" False]
    by (simp add: bigint_ops)
qed

text \<open>
  C16: where a pass caps its estimate the division can be wrong.  Dividing
  \<open>170141183469750372112\<dots>\<close> (limbs \<open>5, 2^31, 2^31\<close>) by the two-limb number \<open>2^32 - 1, 2^31\<close> yields a
  quotient one below the true one, and the remainder exceeds the divisor.
\<close>

theorem bigint_division_capped:
  "let x = bigint_from_limbs 1 [5, 0x80000000, 0x80000000]; y = bigint_from_limbs 1 [0xFFFFFFFF, 0x80000000]
   in bigint_value (fst (obj_bigint_div (Some x) (Some y) False)) = bigint_value x sdiv bigint_value y - 1 \<and>
      bigint_value (fst (obj_bigint_mod (Some x) (Some y) False)) > bigint_value y"
proof -
  have "fst (obj_bigint_div (Some (bigint_from_limbs 1 [5, 0x80000000, 0x80000000]))
      (Some (bigint_from_limbs 1 [0xFFFFFFFF, 0x80000000])) False) = bigint_from_limbs 1 [0xFFFFFFFE]"
    "fst (obj_bigint_mod (Some (bigint_from_limbs 1 [5, 0x80000000, 0x80000000]))
      (Some (bigint_from_limbs 1 [0xFFFFFFFF, 0x80000000])) False) = bigint_from_limbs 1 [3, 0x80000003]"
    by code_simp+
  then show ?thesis by (simp add: Let_def bigint_ops signed_divide_int_def)
qed

text \<open>
  C20: conversion between big integers and 64-bit integers.  Every \<open>int64_t\<close> survives the round trip,
  and \<open>obj_bigint_to_int64\<close> fails exactly on the values outside the 64-bit range.
\<close>

theorem bigint_int64_roundtrip:
  assumes "bigint_wf x"
  shows "obj_bigint_to_int64 (Some (obj_bigint_from_int64 v)) = Some v \<and>
    (obj_bigint_to_int64 (Some x) = None \<longleftrightarrow>
       bigint_value x < - 9223372036854775808 \<or> 9223372036854775807 < bigint_value x) \<and>
    (case obj_bigint_to_int64 (Some x) of None \<Rightarrow> True | Some w \<Rightarrow> sint w = bigint_value x)"
  using assms sint_u64_range [of v] bigint_freshD [OF obj_bigint_from_int64_fresh, of v]
  by (auto simp: obj_bigint_to_int64_value bigint_ops sint_word_of_int_u64)

theorem bigint_int64_roundtrip_witness:
  "obj_bigint_to_int64 (Some (bigint_from_limbs 1 [0, 0x80000000])) = None"
  using bigint_int64_roundtrip [OF bigint_freshD [OF bigint_from_limbs_fresh [of 1 "[0, 0x80000000]"]], of 0]
  by (simp add: bigint_ops)



end
