(* ===== verification/Bigint_Bits.thy ===== *)
theory Bigint_Bits
  imports Bigint_Obj
begin

text \<open>
  Bitwise operations of \<^verbatim>\<open>src/src/bigint.c\<close> on big integers: the limbs of the two's complement of
  an object are produced one at a time with a running carry, combined, and read back.  The lemmas
  show that the results are the bitwise operations on unbounded two's complement integers.
\<close>

section \<open>The model\<close>

definition bigint_abs_limb_at :: "ObjBigInt option \<Rightarrow> nat \<Rightarrow> u32" where
  "bigint_abs_limb_at bi index =
     (case bi of
        None \<Rightarrow> 0
      | Some x \<Rightarrow> if index < length (bi_limbs x) then bi_limbs x ! index else 0)"

text \<open>\<^verbatim>\<open>bigint_twos_complement_limb_at\<close> returns the limb and the updated carry.\<close>

definition bigint_twos_complement_limb_at :: "ObjBigInt option \<Rightarrow> nat \<Rightarrow> u64 \<Rightarrow> u32 \<times> u64" where
  "bigint_twos_complement_limb_at bi index carry =
     (let limb = bigint_abs_limb_at bi index
      in case bi of
           None \<Rightarrow> (limb, carry)
         | Some x \<Rightarrow>
             if bi_sign x \<ge> 0 then (limb, carry)
             else let sum = ucast (NOT limb) + carry in (ucast sum, drop_bit 32 sum))"

fun bigint_negate_limbs_loop :: "u32 list \<Rightarrow> u64 \<Rightarrow> u32 list" where
  "bigint_negate_limbs_loop [] carry = []"
| "bigint_negate_limbs_loop (limb # limbs) carry =
     (let sum = ucast (NOT limb) + carry
      in ucast sum # bigint_negate_limbs_loop limbs (drop_bit 32 sum))"

definition bigint_from_twos_complement_limbs :: "u32 list \<Rightarrow> ObjBigInt" where
  "bigint_from_twos_complement_limbs limbs =
     (if limbs = [] then bigint_from_limbs 0 []
      else if last limbs AND 0x80000000 = 0 then bigint_from_limbs 1 limbs
      else bigint_from_limbs (-1) (bigint_negate_limbs_loop limbs 1))"

datatype BigIntBitOp = BIGINT_BITOP_AND | BIGINT_BITOP_OR | BIGINT_BITOP_XOR

fun bigint_apply_bitop :: "BigIntBitOp \<Rightarrow> u32 \<Rightarrow> u32 \<Rightarrow> u32" where
  "bigint_apply_bitop BIGINT_BITOP_AND la lb = la AND lb"
| "bigint_apply_bitop BIGINT_BITOP_OR la lb = la OR lb"
| "bigint_apply_bitop BIGINT_BITOP_XOR la lb = la XOR lb"

text \<open>The loop over \<open>i\<close>, with the number of limbs still to produce.\<close>

fun bigint_bitwise_loop ::
  "BigIntBitOp \<Rightarrow> ObjBigInt option \<Rightarrow> ObjBigInt option \<Rightarrow> nat \<Rightarrow> nat \<Rightarrow> u64 \<Rightarrow> u64 \<Rightarrow> u32 list" where
  "bigint_bitwise_loop op a b i 0 carry_a carry_b = []"
| "bigint_bitwise_loop op a b i (Suc k) carry_a carry_b =
     (let (la, carry_a') = bigint_twos_complement_limb_at a i carry_a;
          (lb, carry_b') = bigint_twos_complement_limb_at b i carry_b
      in bigint_apply_bitop op la lb # bigint_bitwise_loop op a b (i + 1) k carry_a' carry_b')"

definition bigint_limb_count :: "ObjBigInt option \<Rightarrow> nat" where
  "bigint_limb_count a = (case a of None \<Rightarrow> 0 | Some x \<Rightarrow> length (bi_limbs x))"

definition bigint_initial_carry :: "ObjBigInt option \<Rightarrow> u64" where
  "bigint_initial_carry a = (case a of None \<Rightarrow> 0 | Some x \<Rightarrow> if bi_sign x < 0 then 1 else 0)"

definition bigint_bitwise_binary_op :: "ObjBigInt option \<Rightarrow> ObjBigInt option \<Rightarrow> BigIntBitOp \<Rightarrow> ObjBigInt" where
  "bigint_bitwise_binary_op a b op =
     (let a_count = bigint_limb_count a;
          b_count = bigint_limb_count b;
          out_count = (if a_count > b_count then a_count else b_count) + 1
      in bigint_from_twos_complement_limbs
           (bigint_bitwise_loop op a b 0 out_count (bigint_initial_carry a) (bigint_initial_carry b)))"

definition obj_bigint_bit_and :: "ObjBigInt option \<Rightarrow> ObjBigInt option \<Rightarrow> ObjBigInt" where
  "obj_bigint_bit_and a b = bigint_bitwise_binary_op a b BIGINT_BITOP_AND"

definition obj_bigint_bit_or :: "ObjBigInt option \<Rightarrow> ObjBigInt option \<Rightarrow> ObjBigInt" where
  "obj_bigint_bit_or a b = bigint_bitwise_binary_op a b BIGINT_BITOP_OR"

definition obj_bigint_bit_xor :: "ObjBigInt option \<Rightarrow> ObjBigInt option \<Rightarrow> ObjBigInt" where
  "obj_bigint_bit_xor a b = bigint_bitwise_binary_op a b BIGINT_BITOP_XOR"

fun bigint_bit_not_loop :: "ObjBigInt option \<Rightarrow> nat \<Rightarrow> nat \<Rightarrow> u64 \<Rightarrow> u32 list" where
  "bigint_bit_not_loop a i 0 carry = []"
| "bigint_bit_not_loop a i (Suc k) carry =
     (let (limb_tc, carry') = bigint_twos_complement_limb_at a i carry
      in NOT limb_tc # bigint_bit_not_loop a (i + 1) k carry')"

definition obj_bigint_bit_not :: "ObjBigInt option \<Rightarrow> ObjBigInt" where
  "obj_bigint_bit_not a =
     (let out_count = bigint_limb_count a + 1
      in bigint_from_twos_complement_limbs (bigint_bit_not_loop a 0 out_count (bigint_initial_carry a)))"

section \<open>Limb lists as bit strings\<close>

lemma bit_lval_Cons:
  "bit (lval (x # xs)) i \<longleftrightarrow> (if i < 32 then bit x i else bit (lval xs) (i - 32))"
proof -
  have "lval (x # xs) = unat x OR push_bit 32 (lval xs)"
  proof -
    have "unat x AND push_bit 32 (lval xs) = 0"
      by (rule bit_eqI) (auto simp: bit_and_iff bit_push_bit_iff bit_unsigned_iff dest: bit_imp_le_length)
    then show ?thesis by (simp add: disjunctive_add_eq_or [symmetric] push_bit_eq_mult)
  qed
  then show ?thesis
    by (auto simp: bit_or_iff bit_push_bit_iff bit_unsigned_iff dest: bit_imp_le_length)
qed

lemma lval_map2_bitwise:
  assumes "length xs = length ys"
  shows "lval (map2 (AND) xs ys) = lval xs AND lval ys"
    and "lval (map2 (OR) xs ys) = lval xs OR lval ys"
    and "lval (map2 (XOR) xs ys) = lval xs XOR lval ys"
  using assms
proof (induction xs ys rule: list_induct2)
  case (Cons x xs y ys)
  { case 1 then show ?case using Cons.IH(1)
      by (intro bit_eqI) (simp only: list.map zip_Cons_Cons prod.case bit_lval_Cons bit_and_iff, auto) }
  { case 2 then show ?case using Cons.IH(2)
      by (intro bit_eqI) (simp only: list.map zip_Cons_Cons prod.case bit_lval_Cons bit_or_iff, auto) }
  { case 3 then show ?case using Cons.IH(3)
      by (intro bit_eqI) (simp only: list.map zip_Cons_Cons prod.case bit_lval_Cons bit_xor_iff, auto) }
qed simp_all

lemma lval_map_not: "lval (map NOT xs) + lval xs + 1 = 4294967296 ^ length xs"
proof (induction xs)
  case (Cons x xs)
  have n: "unat (NOT x) + unat x = 4294967295"
    using unat_u32_le [of x] by (simp add: unat_not_u32)
  have "lval (map NOT (x # xs)) + lval (x # xs) + 1 = unat (NOT x) + unat x + 1 + 4294967296 * (lval (map NOT xs) + lval xs)"
    by simp
  also have "\<dots> = 4294967296 * (lval (map NOT xs) + lval xs + 1)" using n by simp
  finally show ?case using Cons by simp
qed simp

section \<open>Two's complement limbs\<close>

text \<open>The limbs a loop over \<open>bigint_twos_complement_limb_at\<close> reads.\<close>

fun bigint_tc_limbs :: "ObjBigInt option \<Rightarrow> nat \<Rightarrow> nat \<Rightarrow> u64 \<Rightarrow> u32 list" where
  "bigint_tc_limbs a i 0 carry = []"
| "bigint_tc_limbs a i (Suc k) carry =
     (let (limb, carry') = bigint_twos_complement_limb_at a i carry
      in limb # bigint_tc_limbs a (i + 1) k carry')"

lemma length_tc_limbs [simp]: "length (bigint_tc_limbs a i k c) = k"
  by (induction a i k c rule: bigint_tc_limbs.induct) (simp_all add: split: prod.splits)

lemma bigint_bitwise_loop_map2:
  "bigint_bitwise_loop op a b i k ca cb =
     map2 (bigint_apply_bitop op) (bigint_tc_limbs a i k ca) (bigint_tc_limbs b i k cb)"
  by (induction op a b i k ca cb rule: bigint_bitwise_loop.induct) (simp_all split: prod.splits)

lemma bigint_bit_not_loop_map:
  "bigint_bit_not_loop a i k c = map NOT (bigint_tc_limbs a i k c)"
  by (induction a i k c rule: bigint_bit_not_loop.induct) (simp_all split: prod.splits)

lemma lval_negate_limbs_loop:
  "unat carry \<le> 1 \<Longrightarrow>
     lval (bigint_negate_limbs_loop l carry) = (lval (map NOT l) + unat carry) mod 4294967296 ^ length l \<and>
     length (bigint_negate_limbs_loop l carry) = length l"
proof (induction l carry rule: bigint_negate_limbs_loop.induct)
  case (2 limb l carry)
  define s :: u64 where "s = ucast (NOT limb) + carry"
  have s: "unat s = unat (NOT limb) + unat carry"
    unfolding s_def using "2.prems" unat_u32_less [of "NOT limb"] by (subst unat_add_u64) simp_all
  have "unat (drop_bit 32 s) \<le> 1"
    using s "2.prems" unat_u32_less [of "NOT limb"] by (simp add: unat_high_u64)
  note IH = "2.IH" [OF s_def this]
  have "(unat (ucast s :: u32) + 4294967296 * (lval (map NOT l) + unat (drop_bit 32 s)))
        mod (4294967296 * 4294967296 ^ length l)
      = unat (ucast s :: u32) + 4294967296 * ((lval (map NOT l) + unat (drop_bit 32 s)) mod 4294967296 ^ length l)"
    by (rule limb_mod [OF unat_u32_less])
  moreover have "unat (ucast s :: u32) + 4294967296 * (lval (map NOT l) + unat (drop_bit 32 s))
      = lval (map NOT (limb # l)) + unat carry"
    using u64_split [of s] s by simp
  ultimately show ?case
    using IH by (simp add: s_def [symmetric] Let_def del: lval.simps) (simp)
qed simp

lemma lval_negate_limbs:
  "lval (bigint_negate_limbs_loop l 1) = (4294967296 ^ length l - lval l) mod 4294967296 ^ length l"
proof -
  have "lval (map NOT l) + 1 = 4294967296 ^ length l - lval l" using lval_map_not [of l] by simp
  then show ?thesis using lval_negate_limbs_loop [of 1 l] by simp
qed

lemma bigint_tc_limbs_magnitude:
  "bigint_tc_limbs (Some x) i k c =
     (let l = map (bigint_abs_limb_at (Some x)) [i..<i + k]
      in if bi_sign x < 0 then bigint_negate_limbs_loop l c else l)"
proof (induction k arbitrary: i c)
  case (Suc k)
  have "[i..<i + Suc k] = i # [i + 1..<i + 1 + k]" by (simp add: upt_rec)
  then show ?case
    using Suc [of "i + 1"] by (simp add: bigint_twos_complement_limb_at_def Let_def del: upt_Suc)
qed (simp add: Let_def)

lemma bigint_abs_limbs_padded:
  assumes "length (bi_limbs x) \<le> k"
  shows "map (bigint_abs_limb_at (Some x)) [0..<0 + k] = bi_limbs x @ replicate (k - length (bi_limbs x)) 0"
  using assms by (intro nth_equalityI) (auto simp: bigint_abs_limb_at_def nth_append)

lemma power_limb: "(4294967296 :: 'a :: comm_semiring_1) ^ k = 2 ^ (32 * k)"
  by (simp add: power_mult)

lemma bigint_tc_limbs_value:
  assumes "bigint_wf x" and "length (bi_limbs x) \<le> k"
  shows "int (lval (bigint_tc_limbs (Some x) 0 k (bigint_initial_carry (Some x)))) = take_bit (32 * k) (bigint_value x)"
proof -
  let ?B = "4294967296 :: nat" and ?n = "lval (bi_limbs x)"
  let ?l = "bi_limbs x @ replicate (k - length (bi_limbs x)) 0"
  have tc: "bigint_tc_limbs (Some x) 0 k c = (if bi_sign x < 0 then bigint_negate_limbs_loop ?l c else ?l)" for c
    using bigint_tc_limbs_magnitude [of x 0 k c] bigint_abs_limbs_padded [OF assms(2)]
    by (simp only: Let_def)
  have l: "lval ?l = ?n" "length ?l = k" using assms(2) by (simp_all add: lval_append)
  have lt: "?n < ?B ^ k" using lval_less [of ?l] unfolding l .
  show ?thesis
  proof (rule bigint_wf_cases [OF assms(1)], goal_cases)
    case 1 then show ?case unfolding tc by simp
  next
    case 2
    have "int ?n < 2 ^ (32 * k)" using lt by (simp add: power_limb flip: of_nat_power_less_of_nat_cancel_iff) 
    with 2 show ?case unfolding tc using l by (simp add: take_bit_int_eq_self)
  next
    case 3
    have "lval (bigint_negate_limbs_loop ?l 1) = ?B ^ k - ?n"
      using lval_negate_limbs [of ?l] 3(2) lt unfolding l by simp
    moreover have "take_bit (32 * k) (- int ?n) = 4294967296 ^ k - int ?n"
      using 3(2) lt int_mod_neg [of "2 ^ (32 * k)" "- int ?n"]
      by (simp add: take_bit_eq_mod power_limb)
    ultimately show ?case using 3 lt unfolding tc
      by (simp add: bigint_initial_carry_def of_nat_diff)
  qed
qed

lemma last_msb_lval:
  assumes "l \<noteq> []"
  shows "last l AND 0x80000000 = 0 \<longleftrightarrow> lval l < 2 ^ (32 * length l - 1)"
proof -
  obtain xs x where l: "l = xs @ [x]" using assms by (cases l rule: rev_cases) auto
  have msb: "x AND 0x80000000 = 0 \<longleftrightarrow> unat x < 2147483648"
  proof -
    have "x AND 0x80000000 = 0 \<longleftrightarrow> \<not> bit x 31"
      using and_exp_eq_0_iff_not_bit [of x 31] by simp
    also have "bit x 31 \<longleftrightarrow> odd (unat x div 2147483648)"
      by (simp add: bit_unsigned_iff flip: bit_iff_odd [of "unat x" 31, simplified])
    also have "\<dots> \<longleftrightarrow> \<not> unat x < 2147483648"
      using unat_u32_less [of x] by (cases "unat x < 2147483648") (simp_all add: div_if)
    finally show ?thesis by simp
  qed
  have P: "(2 :: nat) ^ (32 * length l - 1) = 4294967296 ^ length xs * 2147483648"
    by (simp add: l power_add power_limb)
  have "lval l < 4294967296 ^ length xs * 2147483648 \<longleftrightarrow> unat x < 2147483648"
  proof
    assume "lval l < 4294967296 ^ length xs * 2147483648"
    then have "4294967296 ^ length xs * unat x < 4294967296 ^ length xs * 2147483648"
      by (intro le_less_trans [OF _ \<open>lval l < _\<close>]) (simp add: l lval_append)
    then show "unat x < 2147483648" by (simp only: mult_less_cancel1)
  next
    assume "unat x < 2147483648"
    then have "4294967296 ^ length xs * (unat x + 1) \<le> 4294967296 ^ length xs * 2147483648"
      by (intro mult_le_mono2) simp
    moreover have "lval l < 4294967296 ^ length xs * (unat x + 1)"
      using lval_less [of xs] by (simp add: l lval_append)
    ultimately show "lval l < 4294967296 ^ length xs * 2147483648" by (rule less_le_trans [rotated])
  qed
  then show ?thesis unfolding P using msb by (simp add: l)
qed

lemma bigint_from_twos_complement_value:
  assumes "l \<noteq> []"
  shows "bigint_value (bigint_from_twos_complement_limbs l) = signed_take_bit (32 * length l - 1) (int (lval l))"
proof -
  let ?N = "32 * length l - 1"
  have pos: "0 < 32 * length l" using assms by simp
  have lt: "lval l < 2 ^ (32 * length l)" using lval_less [of l] by (simp add: power_limb)
  have half: "(2 :: nat) ^ (32 * length l) = 2 * 2 ^ ?N" using pos by (cases "32 * length l") simp_all
  show ?thesis
  proof (cases "lval l < 2 ^ ?N")
    case True
    then have "int (lval l) < 2 ^ ?N" by (metis of_nat_less_iff of_nat_numeral of_nat_power)
    then have "signed_take_bit ?N (int (lval l)) = int (lval l)"
      by (intro signed_take_bit_int_eq_self) (auto intro: order_trans [of _ 0])
    with True assms show ?thesis
      by (simp add: bigint_from_twos_complement_limbs_def last_msb_lval bigint_ops)
  next
    case False
    have "lval (bigint_negate_limbs_loop l 1) = 2 ^ (32 * length l) - lval l"
    proof -
      have "0 < lval l" using False by (cases "lval l = 0") simp_all
      then have "2 ^ (32 * length l) - lval l < 2 ^ (32 * length l)" by simp
      then show ?thesis using lval_negate_limbs [of l] by (simp add: power_limb)
    qed
    then have v: "bigint_value (bigint_from_twos_complement_limbs l) = int (lval l) - int (2 ^ (32 * length l))"
      using False assms lt by (simp add: bigint_from_twos_complement_limbs_def last_msb_lval bigint_ops of_nat_diff)
    have "signed_take_bit ?N (int (lval l)) = signed_take_bit ?N (int (lval l) - int (2 ^ (32 * length l)))"
      using pos by (simp add: signed_take_bit_eq_iff_take_bit_eq take_bit_eq_mod)
    also have "\<dots> = int (lval l) - int (2 ^ (32 * length l))"
    proof (rule signed_take_bit_int_eq_self)
      have "int (2 ^ ?N) \<le> int (lval l)" using False by (simp only: of_nat_le_iff not_less)
      then show "- (2 ^ ?N) \<le> int (lval l) - int (2 ^ (32 * length l))" unfolding half by simp
      have "int (lval l) < int (2 ^ (32 * length l))" using lt by (simp only: of_nat_less_iff)
      then have "int (lval l) - int (2 ^ (32 * length l)) < 0" by simp
      then show "int (lval l) - int (2 ^ (32 * length l)) < 2 ^ ?N" by (rule less_trans) simp
    qed
    finally show ?thesis using v by simp
  qed
qed

lemma bigint_from_twos_complement_fresh [simp]: "bigint_fresh (bigint_from_twos_complement_limbs l)"
  by (simp add: bigint_from_twos_complement_limbs_def)

section \<open>The operations\<close>

lemma signed_take_bit_value:
  assumes "bigint_wf x" and "length (bi_limbs x) < k"
  shows "signed_take_bit (32 * k - 1) (bigint_value x) = bigint_value x"
proof -
  have "lval (bi_limbs x) < 2 ^ (32 * length (bi_limbs x))" using lval_less [of "bi_limbs x"] by (simp add: power_limb)
  also have "\<dots> \<le> 2 ^ (32 * k - 1)" using assms(2) by (intro power_increasing) auto
  finally have "int (lval (bi_limbs x)) < 2 ^ (32 * k - 1)" by (metis of_nat_less_iff of_nat_numeral of_nat_power)
  then show ?thesis
    using bigint_wf_abs [OF assms(1)] by (intro signed_take_bit_int_eq_self) auto
qed

abbreviation bigint_op_limbs :: "nat \<Rightarrow> ObjBigInt \<Rightarrow> u32 list" where
  "bigint_op_limbs k x \<equiv> bigint_tc_limbs (Some x) 0 k (bigint_initial_carry (Some x))"

lemma signed_take_bit_take_bit_limbs:
  "0 < k \<Longrightarrow> signed_take_bit (32 * k - 1) (take_bit (32 * k) (i :: int)) = signed_take_bit (32 * k - 1) i"
  by (cases k) (simp_all add: signed_take_bit_take_bit)

lemma take_bit_limbs_value:
  assumes "bigint_wf x" and "length (bi_limbs x) < k"
  shows "signed_take_bit (32 * k - 1) (int (lval (bigint_op_limbs k x))) = bigint_value x"
  using assms by (simp add: bigint_tc_limbs_value signed_take_bit_take_bit_limbs signed_take_bit_value del: One_nat_def)

lemma signed_take_bit_bitwise:
  fixes i j :: int
  shows "signed_take_bit n (i AND j) = signed_take_bit n i AND signed_take_bit n j"
    and "signed_take_bit n (i OR j) = signed_take_bit n i OR signed_take_bit n j"
    and "signed_take_bit n (i XOR j) = signed_take_bit n i XOR signed_take_bit n j"
    and "signed_take_bit n (NOT i) = NOT (signed_take_bit n i)"
  by (rule bit_eqI, simp add: bit_signed_take_bit_iff bit_and_iff bit_or_iff bit_xor_iff bit_not_iff)+

lemma bigint_bitwise_value:
  assumes "bigint_wf x" and "bigint_wf y"
  obtains n l m where
    "bigint_value (bigint_bitwise_binary_op (Some x) (Some y) op) =
       signed_take_bit n (int (lval (map2 (bigint_apply_bitop op) l m)))"
    and "length l = length m" and "signed_take_bit n (int (lval l)) = bigint_value x"
    and "signed_take_bit n (int (lval m)) = bigint_value y"
proof -
  define k where "k = max (length (bi_limbs x)) (length (bi_limbs y)) + 1"
  let ?l = "bigint_op_limbs k x" and ?m = "bigint_op_limbs k y"
  have k: "(if bigint_limb_count (Some x) > bigint_limb_count (Some y)
      then bigint_limb_count (Some x) else bigint_limb_count (Some y)) + 1 = k"
    by (simp add: bigint_limb_count_def k_def)
  have "map2 (bigint_apply_bitop op) ?l ?m \<noteq> []" by (simp add: zip_eq_Nil_iff flip: length_0_conv) (simp add: k_def)
  then have "bigint_value (bigint_bitwise_binary_op (Some x) (Some y) op) =
      signed_take_bit (32 * k - 1) (int (lval (map2 (bigint_apply_bitop op) ?l ?m)))"
    unfolding bigint_bitwise_binary_op_def Let_def k bigint_bitwise_loop_map2
    by (subst bigint_from_twos_complement_value) simp_all
  then show thesis
    by (rule that) (use assms in \<open>simp_all only: length_tc_limbs take_bit_limbs_value k_def max.strict_coboundedI1
      max.strict_coboundedI2 less_add_one le_less_trans\<close>)
qed

lemma obj_bigint_bit_and_value [bigint_ops]:
  assumes "bigint_wf x" and "bigint_wf y"
  shows "bigint_value (obj_bigint_bit_and (Some x) (Some y)) = bigint_value x AND bigint_value y"
proof -
  have "bigint_apply_bitop BIGINT_BITOP_AND = (AND)" by (intro ext) simp
  then show ?thesis
    using bigint_bitwise_value [OF assms, of BIGINT_BITOP_AND]
    by (metis obj_bigint_bit_and_def lval_map2_bitwise(1) of_nat_and_eq signed_take_bit_bitwise(1))
qed

lemma obj_bigint_bit_or_value [bigint_ops]:
  assumes "bigint_wf x" and "bigint_wf y"
  shows "bigint_value (obj_bigint_bit_or (Some x) (Some y)) = bigint_value x OR bigint_value y"
proof -
  have "bigint_apply_bitop BIGINT_BITOP_OR = (OR)" by (intro ext) simp
  then show ?thesis
    using bigint_bitwise_value [OF assms, of BIGINT_BITOP_OR]
    by (metis obj_bigint_bit_or_def lval_map2_bitwise(2) of_nat_or_eq signed_take_bit_bitwise(2))
qed

lemma obj_bigint_bit_xor_value [bigint_ops]:
  assumes "bigint_wf x" and "bigint_wf y"
  shows "bigint_value (obj_bigint_bit_xor (Some x) (Some y)) = bigint_value x XOR bigint_value y"
proof -
  have "bigint_apply_bitop BIGINT_BITOP_XOR = (XOR)" by (intro ext) simp
  then show ?thesis
    using bigint_bitwise_value [OF assms, of BIGINT_BITOP_XOR]
    by (metis obj_bigint_bit_xor_def lval_map2_bitwise(3) of_nat_xor_eq signed_take_bit_bitwise(3))
qed

lemma obj_bigint_bit_not_value [bigint_ops]:
  assumes "bigint_wf x"
  shows "bigint_value (obj_bigint_bit_not (Some x)) = NOT (bigint_value x)"
proof -
  define k where "k = length (bi_limbs x) + 1"
  define l where "l = bigint_op_limbs k x"
  have l: "length l = k" "l \<noteq> []" "0 < k" by (auto simp: l_def k_def split: prod.splits)
  have "int (lval (map NOT l)) = 4294967296 ^ k - int (lval l) - 1"
    using arg_cong [OF lval_map_not [of l], of int] l(1) by simp
  also have "\<dots> = 2 ^ (32 * k) + NOT (int (lval l))"
    by (simp add: power_limb not_int_def)
  finally have "signed_take_bit (32 * k - 1) (int (lval (map NOT l)))
      = signed_take_bit (32 * k - 1) (NOT (int (lval l)))"
    using l(3) by (simp add: signed_take_bit_eq_iff_take_bit_eq take_bit_eq_mod)
  also have "\<dots> = NOT (bigint_value x)"
    using take_bit_limbs_value [OF assms, of k] by (simp only: signed_take_bit_bitwise l_def) (simp add: k_def)
  finally show ?thesis
    using l by (simp add: obj_bigint_bit_not_def bigint_limb_count_def bigint_bit_not_loop_map
        bigint_from_twos_complement_value k_def [symmetric, simplified] l_def [symmetric, simplified])
qed

lemma bigint_bit_fresh [simp]:
  "bigint_fresh (obj_bigint_bit_and a b)" "bigint_fresh (obj_bigint_bit_or a b)"
  "bigint_fresh (obj_bigint_bit_xor a b)" "bigint_fresh (obj_bigint_bit_not a)"
  by (simp_all add: obj_bigint_bit_and_def obj_bigint_bit_or_def obj_bigint_bit_xor_def
      obj_bigint_bit_not_def bigint_bitwise_binary_op_def Let_def)

section \<open>Properties\<close>

text \<open>
  C17: the bitwise operations on big integers are those on unbounded two's complement integers, for
  every combination of signs, and return well-formed objects with one reference.
\<close>

theorem bigint_bitwise_exact:
  assumes "bigint_wf x" and "bigint_wf y"
  shows "bigint_value (obj_bigint_bit_and (Some x) (Some y)) = bigint_value x AND bigint_value y \<and>
    bigint_value (obj_bigint_bit_or (Some x) (Some y)) = bigint_value x OR bigint_value y \<and>
    bigint_value (obj_bigint_bit_xor (Some x) (Some y)) = bigint_value x XOR bigint_value y \<and>
    bigint_value (obj_bigint_bit_not (Some x)) = NOT (bigint_value x) \<and>
    bigint_fresh (obj_bigint_bit_and (Some x) (Some y)) \<and> bigint_fresh (obj_bigint_bit_or (Some x) (Some y)) \<and>
    bigint_fresh (obj_bigint_bit_xor (Some x) (Some y)) \<and> bigint_fresh (obj_bigint_bit_not (Some x))"
  using assms by (simp add: bigint_ops)

theorem bigint_bitwise_exact_witness:
  "bigint_value (obj_bigint_bit_and (Some (bigint_from_limbs (-1) [6])) (Some (bigint_from_limbs 1 [0, 5])))
     = (- 6) AND 21474836480"
  using bigint_bitwise_exact [OF bigint_freshD bigint_freshD, of "bigint_from_limbs (-1) [6]" "bigint_from_limbs 1 [0, 5]"]
  by (simp add: bigint_ops)

end
