(* ===== verification/Bigint_Text.thy ===== *)
theory Bigint_Text
  imports Bigint_Obj
begin

text \<open>
  Text conversion of \<^verbatim>\<open>src/src/bigint.c\<close>: parsing of signed decimal and hexadecimal literals, and
  printing in both bases.  A C string is a list of characters without the terminating zero.  The
  lemmas show that the parser accepts exactly the literals and computes their value, and that
  parsing what was printed gives back the object.
\<close>

section \<open>The model\<close>

text \<open>Character arithmetic of C: the code of a character.\<close>

abbreviation char_code :: "char \<Rightarrow> int" where
  "char_code c \<equiv> of_char c"

definition bigint_hex_digit_value :: "char \<Rightarrow> int" where
  "bigint_hex_digit_value c =
     (if char_code c \<ge> char_code CHR ''0'' \<and> char_code c \<le> char_code CHR ''9''
      then char_code c - char_code CHR ''0''
      else if char_code c \<ge> char_code CHR ''a'' \<and> char_code c \<le> char_code CHR ''f''
      then char_code c - char_code CHR ''a'' + 10
      else if char_code c \<ge> char_code CHR ''A'' \<and> char_code c \<le> char_code CHR ''F''
      then char_code c - char_code CHR ''A'' + 10
      else -1)"

definition isdigit :: "char \<Rightarrow> bool" where
  "isdigit c \<longleftrightarrow> char_code CHR ''0'' \<le> char_code c \<and> char_code c \<le> char_code CHR ''9''"

text \<open>\<open>while (*p == '0' && p[1] != '\0') p++\<close>\<close>

fun bigint_skip_zeros :: "string \<Rightarrow> string" where
  "bigint_skip_zeros (c # d # p) = (if c = CHR ''0'' then bigint_skip_zeros (d # p) else c # d # p)"
| "bigint_skip_zeros p = p"

text \<open>The hexadecimal limbs, eight digits at a time from the end.\<close>

definition bigint_hex_limb :: "string \<Rightarrow> u32" where
  "bigint_hex_limb cs = foldl (\<lambda>limb c. push_bit 4 limb OR word_of_int (bigint_hex_digit_value c)) 0 cs"

function bigint_hex_limbs :: "string \<Rightarrow> nat \<Rightarrow> u32 list" where
  "bigint_hex_limbs p pos =
     (if pos > 0
      then let start = (if pos \<ge> 8 then pos - 8 else 0)
           in bigint_hex_limb (drop start (take pos p)) # bigint_hex_limbs p start
      else [])"
  by pat_completeness auto
termination by (relation "measure snd") (auto split: if_splits)

declare bigint_hex_limbs.simps [simp del]

text \<open>The decimal chunks: \<open>BIGINT_DEC_BASE = 10^9\<close>, nine digits each after the first.\<close>

definition bigint_dec_chunk :: "string \<Rightarrow> u32" where
  "bigint_dec_chunk cs = foldl (\<lambda>chunk c. chunk * 10 + word_of_int (char_code c - char_code CHR ''0'')) 0 cs"

function bigint_dec_loop :: "string \<Rightarrow> u32 list \<Rightarrow> u32 list" where
  "bigint_dec_loop p limbs =
     (if p = [] then limbs
      else bigint_dec_loop (drop 9 p)
             (bigint_mul_add_small_inplace limbs 1000000000 (bigint_dec_chunk (take 9 p))))"
  by pat_completeness auto
termination by (relation "measure (length \<circ> fst)") auto

declare bigint_dec_loop.simps [simp del]

definition bigint_dec_limbs :: "string \<Rightarrow> u32 list" where
  "bigint_dec_limbs p =
     (let first_digits = (if length p mod 9 = 0 then 9 else length p mod 9)
      in bigint_dec_loop (drop first_digits p)
           (bigint_mul_add_small_inplace [] 1000000000 (bigint_dec_chunk (take first_digits p))))"

text \<open>\<^verbatim>\<open>bigint_parse_string\<close>: sign and limbs, \<open>None\<close> where it returns \<open>false\<close>.\<close>

definition bigint_parse_unsigned :: "int \<Rightarrow> string \<Rightarrow> (int \<times> u32 list) option" where
  "bigint_parse_unsigned sign p =
     (if p = [] then None
      else if length p \<ge> 2 \<and> p ! 0 = CHR ''0'' \<and> (p ! 1 = CHR ''x'' \<or> p ! 1 = CHR ''X'')
      then let p = drop 2 p
           in if p = [] then None
              else if \<exists>c\<in>set p. bigint_hex_digit_value c < 0 then None
              else let p = bigint_skip_zeros p
                   in if p = ''0'' then Some (0, [])
                      else let limbs = bigint_hex_limbs p (length p)
                           in if limbs = [] then Some (0, []) else Some (if sign < 0 then -1 else 1, limbs)
      else if \<exists>c\<in>set p. \<not> isdigit c then None
      else let p = bigint_skip_zeros p
           in if p = ''0'' then Some (0, [])
              else let limbs = bigint_dec_limbs p
                   in if limbs = [] then Some (0, []) else Some (if sign < 0 then -1 else 1, limbs))"

definition bigint_parse_string :: "string option \<Rightarrow> (int \<times> u32 list) option" where
  "bigint_parse_string str =
     (case str of
        None \<Rightarrow> None
      | Some p \<Rightarrow>
          (case p of
             [] \<Rightarrow> bigint_parse_unsigned 1 p
           | c # p' \<Rightarrow> if c = CHR ''-'' then bigint_parse_unsigned (-1) p'
                       else if c = CHR ''+'' then bigint_parse_unsigned 1 p'
                       else bigint_parse_unsigned 1 p))"

definition obj_bigint_from_string :: "string option \<Rightarrow> ObjBigInt" where
  "obj_bigint_from_string str =
     (case bigint_parse_string str of
        None \<Rightarrow> bigint_from_limbs 0 []
      | Some (sign, limbs) \<Rightarrow> bigint_from_limbs sign limbs)"

definition obj_bigint_try_from_string :: "string option \<Rightarrow> ObjBigInt option" where
  "obj_bigint_try_from_string str =
     (case bigint_parse_string str of
        None \<Rightarrow> None
      | Some (sign, limbs) \<Rightarrow> Some (bigint_from_limbs sign limbs))"

text \<open>Printing.  \<open>printf_u\<close> is the conversion \<open>%u\<close> of C and \<open>printf_u9\<close> is \<open>%09u\<close>.\<close>

definition dec_digit_char :: "nat \<Rightarrow> char" where
  "dec_digit_char d = char_of (48 + d)"

fun printf_u :: "nat \<Rightarrow> string" where
  "printf_u n = (if n < 10 then [dec_digit_char n] else printf_u (n div 10) @ [dec_digit_char (n mod 10)])"

declare printf_u.simps [simp del]

definition printf_u9 :: "nat \<Rightarrow> string" where
  "printf_u9 n = replicate (9 - length (printf_u n)) CHR ''0'' @ printf_u n"

definition bigint_digits_u32 :: "u32 \<Rightarrow> nat" where
  "bigint_digits_u32 value =
     (if value \<ge> 100000000 then 9 else if value \<ge> 10000000 then 8
      else if value \<ge> 1000000 then 7 else if value \<ge> 100000 then 6
      else if value \<ge> 10000 then 5 else if value \<ge> 1000 then 4
      else if value \<ge> 100 then 3 else if value \<ge> 10 then 2 else 1)"

text \<open>
  The loop that peels chunks of nine digits off the magnitude, least significant first.  It ends
  because the division leaves a trimmed, smaller magnitude.
\<close>

lemma lval_divmod_inplace_less:
  assumes "limbs \<noteq> []"
  shows "lval (fst (bigint_divmod_small_inplace limbs 1000000000)) +
      length (take 1 (fst (bigint_divmod_small_inplace limbs 1000000000)))
    < lval limbs + length (take 1 limbs)"
proof -
  obtain q r where qr: "bigint_divmod_small limbs 1000000000 = (q, r)" by fastforce
  have v: "lval q = lval limbs div 1000000000" "no_leading_zero q"
    using bigint_divmod_small_val [OF _ qr] by simp_all
  have l: "length (take 1 limbs) = 1" using assms by (cases limbs) simp_all
  show ?thesis
  proof (cases "q = []")
    case True
    then show ?thesis using l by (simp add: bigint_divmod_small_inplace_eq qr)
  next
    case False
    then have "0 < lval limbs div 1000000000" using lval_0_iff [OF v(2)] by (simp flip: v(1))
    then have "lval q < lval limbs" using v(1) by (simp add: div_greater_zero_iff)
    then show ?thesis using l by (cases q) (simp_all add: bigint_divmod_small_inplace_eq qr)
  qed
qed

function bigint_dec_chunks :: "u32 list \<Rightarrow> u32 list" where
  "bigint_dec_chunks work =
     (if work = [] then []
      else let (work', rem) = bigint_divmod_small_inplace work 1000000000
           in rem # bigint_dec_chunks work')"
  by pat_completeness auto
termination
proof (relation "measure (\<lambda>work. lval work + length (take 1 work))", goal_cases)
  case (2 work x y z)
  then show ?case using lval_divmod_inplace_less [of work] by (metis fst_conv in_measure)
qed simp

declare bigint_dec_chunks.simps [simp del]

definition obj_bigint_decimal_digits :: "ObjBigInt option \<Rightarrow> nat" where
  "obj_bigint_decimal_digits bigint =
     (case bigint of
        None \<Rightarrow> 1
      | Some x \<Rightarrow>
          if bi_limbs x = [] then 1
          else let chunks = bigint_dec_chunks (bi_limbs x)
               in if chunks = [] then 1
                  else (length chunks - 1) * 9 + bigint_digits_u32 (last chunks))"

text \<open>
  \<^verbatim>\<open>snprintf\<close> into the buffer of \<open>len\<close> characters (and the final zero) stops at its end.
\<close>

definition bigint_emit :: "nat \<Rightarrow> string \<Rightarrow> string \<Rightarrow> string" where
  "bigint_emit len out s = out @ take (len - length out) s"

definition obj_bigint_to_string :: "ObjBigInt option \<Rightarrow> string" where
  "obj_bigint_to_string bigint =
     (case bigint of
        None \<Rightarrow> ''0''
      | Some x \<Rightarrow>
          if bi_limbs x = [] then ''0''
          else let chunks = bigint_dec_chunks (bi_limbs x)
               in if chunks = [] then ''0''
                  else let ms_chunk = last chunks;
                           digits = (length chunks - 1) * 9 + bigint_digits_u32 ms_chunk;
                           len = digits + (if bi_sign x < 0 then 1 else 0);
                           out = (if bi_sign x < 0 then ''-'' else []);
                           out = bigint_emit len out (printf_u (unat ms_chunk))
                       in foldl (\<lambda>out chunk. bigint_emit len out (printf_u9 (unat chunk)))
                            out (rev (butlast chunks)))"

text \<open>Hexadecimal: nibbles of a limb, most significant first.\<close>

definition hex_digits :: "string" where
  "hex_digits = ''0123456789abcdef''"

definition bigint_hex_nibble :: "u32 \<Rightarrow> nat \<Rightarrow> char" where
  "bigint_hex_nibble limb i = hex_digits ! unat (drop_bit (i * 4) limb AND 0xF)"

fun bigint_ms_nibbles :: "u32 \<Rightarrow> nat \<Rightarrow> nat" where
  "bigint_ms_nibbles ms n =
     (if n > 1 then if drop_bit ((n - 1) * 4) ms AND 0xF \<noteq> 0 then n else bigint_ms_nibbles ms (n - 1)
      else n)"

declare bigint_ms_nibbles.simps [simp del]

definition obj_bigint_to_hex_string :: "ObjBigInt option \<Rightarrow> string" where
  "obj_bigint_to_hex_string bigint =
     (case bigint of
        None \<Rightarrow> ''0x0''
      | Some x \<Rightarrow>
          if bi_limbs x = [] \<or> bi_sign x = 0 then ''0x0''
          else let ms = last (bi_limbs x);
                   ms_nibbles = bigint_ms_nibbles ms 8
               in (if bi_sign x < 0 then ''-'' else []) @ ''0x'' @
                  map (bigint_hex_nibble ms) (rev [0..<ms_nibbles]) @
                  concat (map (\<lambda>limb. map (bigint_hex_nibble limb) [7, 6, 5, 4, 3, 2, 1, 0])
                    (rev (butlast (bi_limbs x)))))"

section \<open>Values of digit strings\<close>

text \<open>Reference meaning of a digit string in a base.\<close>

definition digits_value :: "nat \<Rightarrow> (char \<Rightarrow> nat) \<Rightarrow> string \<Rightarrow> nat" where
  "digits_value base d cs = foldl (\<lambda>n c. n * base + d c) 0 cs"

lemma foldl_digits:
  "foldl (\<lambda>n c. n * base + d c) a cs = a * base ^ length cs + digits_value base d cs"
proof (induction cs arbitrary: a)
  case (Cons c cs)
  have "digits_value base d (c # cs) = d c * base ^ length cs + digits_value base d cs"
    using Cons [of "d c"] by (simp add: digits_value_def)
  then show ?case
    using Cons [of "a * base + d c"] by (simp add: algebra_simps)
qed (simp add: digits_value_def)

lemma digits_value_Nil [simp]: "digits_value base d [] = 0"
  by (simp add: digits_value_def)

lemma digits_value_append:
  "digits_value base d (xs @ ys) = digits_value base d xs * base ^ length ys + digits_value base d ys"
proof -
  have "digits_value base d (xs @ ys) = foldl (\<lambda>n c. n * base + d c) (digits_value base d xs) ys"
    by (simp add: digits_value_def)
  also have "\<dots> = digits_value base d xs * base ^ length ys + digits_value base d ys"
    by (rule foldl_digits)
  finally show ?thesis .
qed

lemma digits_value_Cons:
  "digits_value base d (c # cs) = d c * base ^ length cs + digits_value base d cs"
  using digits_value_append [of base d "[c]" cs] by (simp add: digits_value_def)

lemma digits_value_less:
  assumes "\<And>c. c \<in> set cs \<Longrightarrow> d c < base"
  shows "digits_value base d cs < base ^ length cs"
  using assms
proof (induction cs rule: rev_induct)
  case (snoc c cs)
  then have "digits_value base d cs + 1 \<le> base ^ length cs" "d c < base" by auto
  then have "(digits_value base d cs + 1) * base \<le> base ^ length cs * base" "d c < base"
    by (auto intro: mult_le_mono1 simp del: mult_Suc)
  then show ?case by (simp add: digits_value_append digits_value_Cons algebra_simps)
qed simp

abbreviation dec_digit :: "char \<Rightarrow> nat" where
  "dec_digit c \<equiv> nat (char_code c - 48)"

abbreviation hex_digit :: "char \<Rightarrow> nat" where
  "hex_digit c \<equiv> nat (bigint_hex_digit_value c)"

abbreviation dec_value :: "string \<Rightarrow> nat" where
  "dec_value \<equiv> digits_value 10 dec_digit"

abbreviation hex_value :: "string \<Rightarrow> nat" where
  "hex_value \<equiv> digits_value 16 hex_digit"

lemma isdigit_digit: "isdigit c \<Longrightarrow> dec_digit c < 10"
  by (simp add: isdigit_def nat_less_iff)

lemma hex_digit_less: "hex_digit c < 16"
  by (auto simp: bigint_hex_digit_value_def)

lemma digits_value_skip_zeros:
  assumes "d CHR ''0'' = 0"
  shows "digits_value base d (bigint_skip_zeros p) = digits_value base d p"
  by (induction p rule: bigint_skip_zeros.induct) (simp_all add: digits_value_Cons assms)

lemma skip_zeros_head:
  "p \<noteq> [] \<Longrightarrow> bigint_skip_zeros p = ''0'' \<or>
     (\<exists>c cs. bigint_skip_zeros p = c # cs \<and> c \<noteq> CHR ''0'' \<and> c \<in> set p \<and> set cs \<subseteq> set p)"
  by (induction p rule: bigint_skip_zeros.induct) auto

lemma set_skip_zeros: "set (bigint_skip_zeros p) \<subseteq> set p"
  by (induction p rule: bigint_skip_zeros.induct) auto

section \<open>Parsing\<close>

lemma unat_dec_chunk:
  assumes "length cs \<le> 9" and "\<forall>c\<in>set cs. isdigit c"
  shows "unat (bigint_dec_chunk cs) = dec_value cs"
  using assms
proof (induction cs rule: rev_induct)
  case (snoc c cs)
  have d: "dec_digit c < 10" using snoc.prems isdigit_digit by simp
  have "dec_value cs < 10 ^ length cs"
    using snoc.prems isdigit_digit by (intro digits_value_less) simp
  also have "\<dots> \<le> 10 ^ 8" using snoc.prems by (intro power_increasing) auto
  finally have lt: "dec_value cs < 100000000" by simp
  have IH: "unat (bigint_dec_chunk cs) = dec_value cs" using snoc by simp
  define w :: u32 where "w = word_of_int (char_code c - 48)"
  have w: "unat w = dec_digit c"
  proof -
    have "0 \<le> char_code c - 48" using snoc.prems by (simp add: isdigit_def)
    then have "w = word_of_nat (dec_digit c)"
      unfolding w_def by (metis of_int_of_nat_eq int_nat_eq)
    then show ?thesis using d by (simp add: unsigned_of_nat take_bit_nat_eq_self_iff)
  qed
  have "unat (bigint_dec_chunk cs * 10) = dec_value cs * 10"
    using lt by (simp add: unat_word_ariths IH)
  then have "unat (bigint_dec_chunk cs * 10 + w) = dec_value cs * 10 + dec_digit c"
    using lt d by (subst unat_word_ariths) (simp add: w)
  moreover have "bigint_dec_chunk (cs @ [c]) = bigint_dec_chunk cs * 10 + w"
    by (simp add: bigint_dec_chunk_def w_def)
  ultimately show ?case by (simp add: digits_value_append digits_value_Cons)
qed (simp add: bigint_dec_chunk_def)

lemma lval_dec_loop:
  assumes "9 dvd length p" and "\<forall>c\<in>set p. isdigit c"
  shows "lval (bigint_dec_loop p limbs) = lval limbs * 10 ^ length p + dec_value p"
  using assms
proof (induction p limbs rule: bigint_dec_loop.induct)
  case (1 p limbs)
  show ?case
  proof (cases "p = []")
    case False
    with "1.prems"(1) have "9 \<le> length p" by (auto dest: dvd_imp_le)
    then have len: "length p = 9 + length (drop 9 p)" "length (take 9 p) = 9" by simp_all
    have c: "unat (bigint_dec_chunk (take 9 p)) = dec_value (take 9 p)"
      using "1.prems"(2) by (intro unat_dec_chunk) (auto dest: in_set_takeD)
    have "dec_value p = dec_value (take 9 p @ drop 9 p)" by simp
    then have dp: "dec_value p = dec_value (take 9 p) * 10 ^ length (drop 9 p) + dec_value (drop 9 p)"
      by (simp only: digits_value_append)
    have "9 dvd length (drop 9 p)" using "1.prems"(1) len(1) by (metis dvd_add_right_iff dvd_refl)
    moreover have "\<forall>c\<in>set (drop 9 p). isdigit c" using "1.prems"(2) by (auto dest: in_set_dropD)
    ultimately have "lval (bigint_dec_loop p limbs)
        = (lval limbs * 10 ^ 9 + dec_value (take 9 p)) * 10 ^ length (drop 9 p) + dec_value (drop 9 p)"
      using "1.IH" [OF False] False by (subst bigint_dec_loop.simps) (simp add: limb_simps c del: length_drop)
    also have "\<dots> = lval limbs * 10 ^ (9 + length (drop 9 p)) + dec_value p"
      unfolding dp power_add by (simp only: add_mult_distrib mult.assoc add.assoc)
    finally show ?thesis unfolding len(1) [symmetric] .
  qed (simp add: bigint_dec_loop.simps)
qed

lemma lval_dec_limbs:
  assumes "p \<noteq> []" and "\<forall>c\<in>set p. isdigit c"
  shows "lval (bigint_dec_limbs p) = dec_value p"
proof -
  define f where "f = (if length p mod 9 = 0 then 9 else length p mod 9)"
  have f: "f \<le> 9" "f \<le> length p" "9 dvd length (drop f p)"
  proof -
    have "9 \<le> length p" if "length p mod 9 = 0"
      using that assms(1) by (intro dvd_imp_le) (simp_all add: mod_0_imp_dvd)
    then show "f \<le> 9" "f \<le> length p" "9 dvd length (drop f p)"
      unfolding f_def by (simp_all add: mod_0_imp_dvd dvd_minus_mod dvd_diff_nat less_imp_le)
  qed
  have c: "unat (bigint_dec_chunk (take f p)) = dec_value (take f p)"
    using assms(2) f(1) by (intro unat_dec_chunk) (auto dest: in_set_takeD)
  have "lval (bigint_dec_limbs p) = dec_value (take f p) * 10 ^ length (drop f p) + dec_value (drop f p)"
    unfolding bigint_dec_limbs_def Let_def f_def [symmetric] using f(3) assms(2)
    by (subst lval_dec_loop) (auto simp: limb_simps c dest: in_set_dropD)
  also have "\<dots> = dec_value (take f p @ drop f p)" by (simp only: digits_value_append)
  finally show ?thesis by simp
qed

lemma unat_shift4_or:
  assumes "unat (l :: u32) < 268435456" and "unat w < 16"
  shows "unat (push_bit 4 l OR w) = unat l * 16 + unat w"
proof -
  have "w = take_bit 4 w"
    using assms(2) by (simp add: word_unat_eq_iff unsigned_take_bit_eq) (simp add: take_bit_eq_mod)
  then have "push_bit 4 l AND w = 0"
    by (intro bit_eqI) (metis bit_and_iff bit_push_bit_iff bit_take_bit_iff not_le bit_0_eq bot_apply bot_bool_def)
  then have "push_bit 4 l OR w = l * 16 + w"
    using disjunctive_add_eq_or [of "push_bit 4 l" w] by (simp add: push_bit_eq_mult)
  then show ?thesis using assms by (simp add: unat_word_ariths)
qed

lemma unat_hex_digit:
  "0 \<le> bigint_hex_digit_value c \<Longrightarrow> unat (word_of_int (bigint_hex_digit_value c) :: u32) = hex_digit c"
proof -
  assume "0 \<le> bigint_hex_digit_value c"
  then have "(word_of_int (bigint_hex_digit_value c) :: u32) = word_of_nat (hex_digit c)"
    by (metis of_int_of_nat_eq int_nat_eq)
  then show ?thesis using hex_digit_less [of c] by (simp add: unsigned_of_nat take_bit_nat_eq_self_iff)
qed

lemma unat_hex_limb:
  assumes "length cs \<le> 8" and "\<forall>c\<in>set cs. 0 \<le> bigint_hex_digit_value c"
  shows "unat (bigint_hex_limb cs) = hex_value cs"
  using assms
proof (induction cs rule: rev_induct)
  case (snoc c cs)
  define w :: u32 where "w = word_of_int (bigint_hex_digit_value c)"
  have w: "unat w = hex_digit c" using snoc.prems unat_hex_digit by (simp add: w_def)
  have "hex_value cs < 16 ^ length cs" by (intro digits_value_less hex_digit_less)
  also have "\<dots> \<le> 16 ^ 7" using snoc.prems by (intro power_increasing) auto
  finally have lt: "hex_value cs < 268435456" by simp
  have IH: "unat (bigint_hex_limb cs) = hex_value cs" using snoc by simp
  have "bigint_hex_limb (cs @ [c]) = push_bit 4 (bigint_hex_limb cs) OR w"
    by (simp add: bigint_hex_limb_def w_def)
  then have "unat (bigint_hex_limb (cs @ [c])) = hex_value cs * 16 + hex_digit c"
    using unat_shift4_or [of "bigint_hex_limb cs" w] lt hex_digit_less [of c] by (simp add: IH w)
  then show ?case by (simp add: digits_value_append digits_value_Cons)
qed (simp add: bigint_hex_limb_def)

lemma lval_hex_limbs:
  assumes "pos \<le> length p" and "\<forall>c\<in>set p. 0 \<le> bigint_hex_digit_value c"
  shows "lval (bigint_hex_limbs p pos) = hex_value (take pos p)"
  using assms
proof (induction p pos rule: bigint_hex_limbs.induct)
  case (1 p pos)
  show ?case
  proof (cases "pos = 0")
    case False
    define start where "start = (if pos \<ge> 8 then pos - 8 else 0)"
    let ?s = "drop start (take pos p)"
    have IH: "lval (bigint_hex_limbs p start) = hex_value (take start p)"
    proof (rule "1.IH" [OF _ start_def])
      show "0 < pos" using False by simp
      show "start \<le> length p" by (rule le_trans [OF _ "1.prems"(1)]) (simp add: start_def)
    qed (rule "1.prems"(2))
    have limb: "unat (bigint_hex_limb ?s) = hex_value ?s"
      using "1.prems" by (intro unat_hex_limb) (auto simp: start_def dest!: in_set_dropD in_set_takeD)
    have "lval (bigint_hex_limbs p pos) = hex_value ?s + 4294967296 * hex_value (take start p)"
      using False limb IH by (subst bigint_hex_limbs.simps) (simp add: Let_def start_def)
    moreover have "4294967296 * hex_value (take start p) = hex_value (take start p) * 16 ^ length ?s"
      using "1.prems"(1) by (simp add: start_def)
    moreover have "take pos p = take start p @ ?s"
      by (metis append_take_drop_id diff_le_self le0 min.absorb1 start_def take_take)
    then have "hex_value (take pos p) = hex_value (take start p) * 16 ^ length ?s + hex_value ?s"
      by (metis digits_value_append)
    ultimately show ?thesis by linarith
  qed (simp add: bigint_hex_limbs.simps)
qed

text \<open>The literals of the language and their values: the specification of the parser.\<close>

definition unsigned_literal :: "string \<Rightarrow> nat option" where
  "unsigned_literal p =
     (if p \<noteq> [] \<and> (\<forall>c\<in>set p. isdigit c) then Some (dec_value p)
      else case p of
             a # b # h \<Rightarrow>
               if a = CHR ''0'' \<and> b \<in> {CHR ''x'', CHR ''X''} \<and> h \<noteq> [] \<and>
                  (\<forall>c\<in>set h. 0 \<le> bigint_hex_digit_value c)
               then Some (hex_value h) else None
           | _ \<Rightarrow> None)"

definition bigint_literal :: "string \<Rightarrow> int option" where
  "bigint_literal s =
     (case s of
        [] \<Rightarrow> None
      | c # p \<Rightarrow> if c = CHR ''-'' then map_option (\<lambda>n. - int n) (unsigned_literal p)
                 else if c = CHR ''+'' then map_option int (unsigned_literal p)
                 else map_option int (unsigned_literal s))"

lemma zero_digit_values: "dec_digit CHR ''0'' = 0" "hex_digit CHR ''0'' = 0" "\<not> isdigit CHR ''x''" "\<not> isdigit CHR ''X''"
  by (simp_all add: isdigit_def bigint_hex_digit_value_def)

text \<open>The common end of both branches of the parser.\<close>

lemma parsed_value:
  fixes sign :: int
  assumes "if limbs = [] then r = Some (0, []) else r = Some (if sign < 0 then -1 else 1, limbs)"
  shows "map_option (\<lambda>(s, l). bigint_value (bigint_from_limbs s l)) r
    = Some (if sign < 0 then - int (lval limbs) else int (lval limbs))"
  using assms by (cases "limbs = []") (simp_all add: bigint_from_limbs_value)

lemma bigint_parse_unsigned_value:
  "map_option (\<lambda>(s, l). bigint_value (bigint_from_limbs s l)) (bigint_parse_unsigned sign p)
     = map_option (\<lambda>n. if sign < 0 then - int n else int n) (unsigned_literal p)"
proof (cases "length p \<ge> 2 \<and> p ! 0 = CHR ''0'' \<and> (p ! 1 = CHR ''x'' \<or> p ! 1 = CHR ''X'')")
  case True
  then obtain a b h where p: "p = a # b # h" by (auto simp: Suc_le_length_iff numeral_2_eq_2)
  have ab: "a = CHR ''0''" "b \<in> {CHR ''x'', CHR ''X''}" using True by (auto simp: p)
  then have nd: "\<not> (\<forall>c\<in>set p. isdigit c)" using zero_digit_values by (auto simp: p)
  show ?thesis
  proof (cases "h \<noteq> [] \<and> (\<forall>c\<in>set h. 0 \<le> bigint_hex_digit_value c)")
    case h: True
    let ?p = "bigint_skip_zeros h"
    have v: "hex_value ?p = hex_value h" by (rule digits_value_skip_zeros) (simp add: zero_digit_values)
    have "\<forall>c\<in>set ?p. 0 \<le> bigint_hex_digit_value c" using h set_skip_zeros [of h] by auto
    then have l: "lval (bigint_hex_limbs ?p (length ?p)) = hex_value h"
      using lval_hex_limbs [of "length ?p" ?p] v by simp
    have "hex_value h = 0" if "?p = ''0''" using v that by (simp add: digits_value_Cons zero_digit_values)
    then show ?thesis
      using True ab nd h l parsed_value [of "bigint_hex_limbs ?p (length ?p)" _ sign]
      by (auto simp: bigint_parse_unsigned_def unsigned_literal_def p Let_def bigint_ops not_less)
  next
    case False
    then show ?thesis using True ab nd
      by (auto simp: bigint_parse_unsigned_def unsigned_literal_def p Let_def not_less not_le)
  qed
next
  case False
  show ?thesis
  proof (cases "p \<noteq> [] \<and> (\<forall>c\<in>set p. isdigit c)")
    case d: True
    let ?p = "bigint_skip_zeros p"
    have v: "dec_value ?p = dec_value p" by (rule digits_value_skip_zeros) (simp add: zero_digit_values)
    have "?p \<noteq> []" using skip_zeros_head [of p] d by auto
    then have l: "lval (bigint_dec_limbs ?p) = dec_value p"
      using lval_dec_limbs [of ?p] v d set_skip_zeros [of p] by auto
    have "dec_value p = 0" if "?p = ''0''" using v that by (simp add: digits_value_Cons zero_digit_values)
    then show ?thesis
      using False d l parsed_value [of "bigint_dec_limbs ?p" _ sign]
      by (auto simp: bigint_parse_unsigned_def unsigned_literal_def Let_def bigint_ops simp del: One_nat_def)
  next
    case nd: False
    have "unsigned_literal p = None"
      using False nd by (auto simp: unsigned_literal_def split: list.splits)
    moreover have "bigint_parse_unsigned sign p = None"
      using False nd by (auto simp: bigint_parse_unsigned_def simp del: One_nat_def)
    ultimately show ?thesis by simp
  qed
qed

lemma obj_bigint_try_from_string_value:
  "map_option bigint_value (obj_bigint_try_from_string (Some s)) = bigint_literal s"
proof -
  have "map_option bigint_value (obj_bigint_try_from_string (Some s)) =
      map_option (\<lambda>(sg, l). bigint_value (bigint_from_limbs sg l)) (bigint_parse_string (Some s))"
    by (simp add: obj_bigint_try_from_string_def split: option.splits)
  also have "\<dots> = bigint_literal s"
    by (cases s)
      (simp_all add: bigint_parse_string_def bigint_literal_def bigint_parse_unsigned_value,
        simp add: unsigned_literal_def)
  finally show ?thesis .
qed

lemma obj_bigint_try_from_string_fresh: "obj_bigint_try_from_string s = Some x \<Longrightarrow> bigint_fresh x"
  by (auto simp: obj_bigint_try_from_string_def split: option.splits)

section \<open>Printing\<close>

lemma dec_digit_char_digit:
  assumes "d < 10"
  shows "isdigit (dec_digit_char d)" and "dec_digit (dec_digit_char d) = d"
proof -
  have "char_code (dec_digit_char d) = int (of_char (char_of (48 + d) :: char))"
    unfolding dec_digit_char_def by (simp only: of_nat_of_char)
  also have "\<dots> = 48 + int d" using assms by (subst of_char_of) simp
  finally show "isdigit (dec_digit_char d)" and "dec_digit (dec_digit_char d) = d"
    using assms by (simp_all add: isdigit_def)
qed

lemma printf_u_value: "dec_value (printf_u n) = n \<and> (\<forall>c\<in>set (printf_u n). isdigit c) \<and> printf_u n \<noteq> []"
proof (induction n rule: less_induct)
  case (less n)
  show ?case
  proof (cases "n < 10")
    case True
    then show ?thesis
      by (subst (1 2 3) printf_u.simps) (simp add: digits_value_Cons dec_digit_char_digit)
  next
    case False
    then have IH: "dec_value (printf_u (n div 10)) = n div 10" "\<forall>c\<in>set (printf_u (n div 10)). isdigit c"
      using less [of "n div 10"] by auto
    have "printf_u n = printf_u (n div 10) @ [dec_digit_char (n mod 10)]"
      using False by (subst printf_u.simps) simp
    then show ?thesis
      using IH dec_digit_char_digit [of "n mod 10"] by (simp add: digits_value_append digits_value_Cons)
  qed
qed

lemma printf_u_length: "10 ^ k \<le> n \<Longrightarrow> n < 10 ^ (k + 1) \<Longrightarrow> length (printf_u n) = k + 1"
proof (induction k arbitrary: n)
  case 0
  then show ?case by (subst printf_u.simps) simp
next
  case (Suc k)
  have "10 * 1 \<le> 10 * (10 :: nat) ^ k" by (intro mult_le_mono2) simp
  then have "\<not> n < 10" using Suc.prems(1) unfolding power_Suc by linarith
  moreover have "10 ^ k \<le> n div 10" "n div 10 < 10 ^ (k + 1)"
    using Suc.prems by (simp_all add: less_eq_div_iff_mult_less_eq div_less_iff_less_mult mult.commute)
  ultimately show ?case using Suc.IH [of "n div 10"] by (subst printf_u.simps) simp
qed

lemma bigint_digits_u32_length:
  assumes "unat v < 1000000000"
  shows "bigint_digits_u32 v = length (printf_u (unat v))"
proof (cases "unat v < 10")
  case True
  then show ?thesis by (subst printf_u.simps) (simp add: bigint_digits_u32_def word_le_nat_alt)
next
  case False
  then show ?thesis
    using assms printf_u_length [of 1 "unat v"] printf_u_length [of 2 "unat v"] printf_u_length [of 3 "unat v"]
      printf_u_length [of 4 "unat v"] printf_u_length [of 5 "unat v"] printf_u_length [of 6 "unat v"]
      printf_u_length [of 7 "unat v"] printf_u_length [of 8 "unat v"]
    by (simp add: bigint_digits_u32_def word_le_nat_alt not_le)
qed

lemma printf_u_length_le:
  assumes "n < 1000000000"
  shows "length (printf_u n) \<le> 9"
proof -
  have "unat (word_of_nat n :: u32) = n" using assms by (simp add: unsigned_of_nat take_bit_nat_eq_self_iff)
  then have "length (printf_u n) = bigint_digits_u32 (word_of_nat n)"
    using bigint_digits_u32_length [of "word_of_nat n"] assms by simp
  then show ?thesis by (simp add: bigint_digits_u32_def)
qed

lemma printf_u9_value:
  assumes "n < 1000000000"
  shows "length (printf_u9 n) = 9" and "dec_value (printf_u9 n) = n" and "\<forall>c\<in>set (printf_u9 n). isdigit c"
proof -
  have z: "dec_value (replicate k CHR ''0'') = 0" for k
    by (induction k) (simp_all add: digits_value_Cons)
  have "isdigit CHR ''0''" by (simp add: isdigit_def)
  then show "length (printf_u9 n) = 9" and "dec_value (printf_u9 n) = n" and "\<forall>c\<in>set (printf_u9 n). isdigit c"
    using printf_u_length_le [OF assms] printf_u_value [of n]
    by (auto simp: printf_u9_def digits_value_append z)
qed

text \<open>The chunks, least significant first, in base \<open>10^9\<close>.\<close>

fun chunks_value :: "u32 list \<Rightarrow> nat" where
  "chunks_value [] = 0"
| "chunks_value (c # cs) = unat c + 1000000000 * chunks_value cs"

lemma bigint_dec_chunks_value:
  "chunks_value (bigint_dec_chunks work) = lval work \<and>
     (\<forall>c\<in>set (bigint_dec_chunks work). unat c < 1000000000) \<and> (bigint_dec_chunks work = [] \<longleftrightarrow> work = [])"
proof (induction work rule: bigint_dec_chunks.induct)
  case (1 work)
  show ?case
  proof (cases "work = []")
    case False
    obtain q r where qr: "bigint_divmod_small work 1000000000 = (q, r)" by fastforce
    then have qr': "bigint_divmod_small_inplace work 1000000000 = (q, r)"
      by (simp add: bigint_divmod_small_inplace_eq)
    have v: "lval q = lval work div 1000000000" "unat r = lval work mod 1000000000"
      using bigint_divmod_small_val [OF _ qr] by simp_all
    have "bigint_dec_chunks work = r # bigint_dec_chunks q"
      using False by (subst bigint_dec_chunks.simps) (simp add: qr')
    then show ?thesis using "1.IH" [OF False qr' [symmetric] refl] v False by simp
  qed (simp add: bigint_dec_chunks.simps)
qed

lemma foldl_emit:
  assumes "\<forall>c\<in>set cs. unat c < 1000000000" and "length out + 9 * length cs \<le> len"
  shows "foldl (\<lambda>out chunk. bigint_emit len out (printf_u9 (unat chunk))) out cs
    = out @ concat (map (\<lambda>c. printf_u9 (unat c)) cs)"
  using assms
proof (induction cs arbitrary: out)
  case (Cons c cs)
  have "bigint_emit len out (printf_u9 (unat c)) = out @ printf_u9 (unat c)"
    using Cons.prems printf_u9_value(1) [of "unat c"] by (simp add: bigint_emit_def)
  then show ?case
    using Cons.IH [of "out @ printf_u9 (unat c)"] Cons.prems printf_u9_value(1) [of "unat c"] by simp
qed simp

lemma dec_value_chunks:
  assumes "\<forall>c\<in>set rest. unat c < 1000000000"
  shows "dec_value (printf_u n @ concat (map (\<lambda>c. printf_u9 (unat c)) (rev rest)))
    = foldr (\<lambda>c v. unat c + 1000000000 * v) rest n"
  using assms
proof (induction rest)
  case Nil
  then show ?case using printf_u_value [of n] by simp
next
  case (Cons c rest)
  have "dec_value ((printf_u n @ concat (map (\<lambda>c. printf_u9 (unat c)) (rev rest))) @ printf_u9 (unat c))
      = foldr (\<lambda>c v. unat c + 1000000000 * v) rest n * 10 ^ 9 + unat c"
    using Cons printf_u9_value [of "unat c"] by (subst digits_value_append) simp
  then show ?case by simp
qed

lemma chunks_value_snoc: "chunks_value (rest @ [ms]) = foldr (\<lambda>c v. unat c + 1000000000 * v) rest (unat ms)"
  by (induction rest) simp_all


text \<open>The printed text: no character is cut off, and its length is the digit count.\<close>

lemma obj_bigint_to_string_text:
  assumes "bi_limbs x \<noteq> []"
  obtains ms rest where "bigint_dec_chunks (bi_limbs x) = rest @ [ms]"
    and "\<forall>c\<in>set (rest @ [ms]). unat c < 1000000000"
    and "obj_bigint_to_string (Some x) = (if bi_sign x < 0 then ''-'' else []) @
      (printf_u (unat ms) @ concat (map (\<lambda>c. printf_u9 (unat c)) (rev rest)))"
proof -
  note ch = bigint_dec_chunks_value [of "bi_limbs x"]
  obtain rest ms where c: "bigint_dec_chunks (bi_limbs x) = rest @ [ms]"
    using ch assms by (metis rev_exhaust)
  have lt: "\<forall>c\<in>set (rest @ [ms]). unat c < 1000000000" using ch unfolding c by blast
  let ?sg = "if bi_sign x < 0 then ''-'' else []"
  let ?len = "length rest * 9 + length (printf_u (unat ms)) + (if bi_sign x < 0 then 1 else 0)"
  have d: "bigint_digits_u32 ms = length (printf_u (unat ms))"
    using lt by (intro bigint_digits_u32_length) simp
  have "bigint_emit ?len ?sg (printf_u (unat ms)) = ?sg @ printf_u (unat ms)"
    by (simp add: bigint_emit_def)
  then have "obj_bigint_to_string (Some x) =
      foldl (\<lambda>out chunk. bigint_emit ?len out (printf_u9 (unat chunk))) (?sg @ printf_u (unat ms)) (rev rest)"
    using assms by (simp add: obj_bigint_to_string_def c d Let_def)
  also have "\<dots> = (?sg @ printf_u (unat ms)) @ concat (map (\<lambda>c. printf_u9 (unat c)) (rev rest))"
    using lt by (intro foldl_emit) auto
  finally show thesis using that [OF c lt] by simp
qed

lemma obj_bigint_to_string_literal:
  assumes "bigint_wf x"
  shows "bigint_literal (obj_bigint_to_string (Some x)) = Some (bigint_value x)"
proof (cases "bi_limbs x = []")
  case True
  then have "bigint_value x = 0" by (simp add: bigint_value_def)
  with True show ?thesis
    by (simp add: obj_bigint_to_string_def bigint_literal_def unsigned_literal_def isdigit_def digits_value_Cons)
next
  case False
  then obtain ms rest where c: "bigint_dec_chunks (bi_limbs x) = rest @ [ms]"
    and lt: "\<forall>c\<in>set (rest @ [ms]). unat c < 1000000000"
    and s: "obj_bigint_to_string (Some x) = (if bi_sign x < 0 then ''-'' else []) @
      (printf_u (unat ms) @ concat (map (\<lambda>c. printf_u9 (unat c)) (rev rest)))"
    by (rule obj_bigint_to_string_text)
  let ?t = "printf_u (unat ms) @ concat (map (\<lambda>c. printf_u9 (unat c)) (rev rest))"
  have "dec_value ?t = lval (bi_limbs x)"
    using dec_value_chunks [of rest "unat ms"] lt chunks_value_snoc [of rest ms]
      bigint_dec_chunks_value [of "bi_limbs x"] by (simp add: c)
  moreover have t: "?t \<noteq> []" "\<forall>c\<in>set ?t. isdigit c"
    using printf_u_value [of "unat ms"] printf_u9_value(3) lt by auto
  ultimately have u: "unsigned_literal ?t = Some (lval (bi_limbs x))"
    unfolding unsigned_literal_def by simp
  have hd: "hd ?t \<noteq> CHR ''-''" "hd ?t \<noteq> CHR ''+''"
  proof -
    have "isdigit (hd ?t)" using t(2) hd_in_set [OF t(1)] by blast
    moreover have "\<not> isdigit CHR ''-''" "\<not> isdigit CHR ''+''" by (simp_all add: isdigit_def)
    ultimately show "hd ?t \<noteq> CHR ''-''" "hd ?t \<noteq> CHR ''+''" by metis+
  qed
  have v: "bigint_value x = (if bi_sign x < 0 then - int (lval (bi_limbs x)) else int (lval (bi_limbs x)))"
    by (rule bigint_wf_cases [OF assms]) (use False in simp_all)
  show ?thesis
  proof (cases "bi_sign x < 0")
    case True
    then show ?thesis using u v by (simp add: s bigint_literal_def del: append_assoc)
  next
    case pos: False
    have "bigint_literal ?t = map_option int (unsigned_literal ?t)"
      using hd t(1) unfolding bigint_literal_def by (cases ?t) simp_all
    then show ?thesis using pos u v by (simp add: s)
  qed
qed

lemma obj_bigint_decimal_digits_length:
  assumes "bigint_wf x"
  shows "length (obj_bigint_to_string (Some x)) =
    obj_bigint_decimal_digits (Some x) + (if bi_sign x < 0 then 1 else 0)"
proof (cases "bi_limbs x = []")
  case True
  then show ?thesis using assms by (simp add: obj_bigint_to_string_def obj_bigint_decimal_digits_def bigint_wf_def)
next
  case False
  then obtain ms rest where c: "bigint_dec_chunks (bi_limbs x) = rest @ [ms]"
    and lt: "\<forall>c\<in>set (rest @ [ms]). unat c < 1000000000"
    and s: "obj_bigint_to_string (Some x) = (if bi_sign x < 0 then ''-'' else []) @
      (printf_u (unat ms) @ concat (map (\<lambda>c. printf_u9 (unat c)) (rev rest)))"
    by (rule obj_bigint_to_string_text)
  have "length (concat (map (\<lambda>c. printf_u9 (unat c)) (rev rest))) = length rest * 9"
    using lt by (induction rest) (simp_all add: printf_u9_value(1))
  moreover have "bigint_digits_u32 ms = length (printf_u (unat ms))"
    using lt by (intro bigint_digits_u32_length) simp
  ultimately show ?thesis using False by (simp add: s obj_bigint_decimal_digits_def c)
qed

subsection \<open>Hexadecimal\<close>

lemma unat_nibble: "unat (drop_bit (i * 4) (w :: u32) AND 0xF) = unat w div 16 ^ i mod 16"
proof -
  have "drop_bit (i * 4) w AND 0xF = take_bit 4 (drop_bit (i * 4) w)"
    unfolding take_bit_eq_mask by (simp add: mask_eq_exp_minus_1)
  then have "unat (drop_bit (i * 4) w AND 0xF) = take_bit 4 (unat (drop_bit (i * 4) w))"
    by (simp only: unsigned_take_bit_eq)
  also have "\<dots> = unat w div 2 ^ (i * 4) mod 16"
    unfolding unat_drop_bit_eq by (simp add: take_bit_eq_mod drop_bit_eq_div)
  also have "(2 :: nat) ^ (i * 4) = 16 ^ i" by (subst mult.commute) (simp add: power_mult)
  finally show ?thesis .
qed

lemma hex_nibble_value:
  "bigint_hex_digit_value (bigint_hex_nibble limb i) = int (unat limb div 16 ^ i mod 16)"
proof -
  let ?n = "unat (drop_bit (i * 4) limb AND 0xF)"
  note n = unat_nibble [of i limb]
  have "?n < 16" by (simp add: n)
  moreover have "\<forall>k\<in>set [0..<16]. bigint_hex_digit_value (hex_digits ! k) = int k"
    by code_simp
  ultimately show ?thesis unfolding bigint_hex_nibble_def n by simp
qed

lemma hex_value_nibbles:
  "hex_value (map (bigint_hex_nibble limb) (rev [0..<k])) = unat limb mod 16 ^ k"
proof (induction k)
  case (Suc k)
  have "hex_value (map (bigint_hex_nibble limb) (rev [0..<Suc k])) =
      unat limb div 16 ^ k mod 16 * 16 ^ k + unat limb mod 16 ^ k"
    using Suc by (simp add: digits_value_Cons hex_nibble_value)
  also have "\<dots> = unat limb mod (16 ^ k * 16)"
    by (simp only: mod_mult2_eq [of "unat limb" "16 ^ k" 16]) simp
  also have "\<dots> = unat limb mod 16 ^ Suc k" by (simp only: power_Suc2)
  finally show ?case .
qed simp

lemma bigint_ms_nibbles_bound: "1 \<le> n \<Longrightarrow> unat ms < 16 ^ n \<Longrightarrow>
    unat ms < 16 ^ bigint_ms_nibbles ms n \<and> 1 \<le> bigint_ms_nibbles ms n"
proof (induction ms n rule: bigint_ms_nibbles.induct)
  case (1 ms n)
  note nib = unat_nibble [of "n - 1" ms]
  show ?case
  proof (cases "n > 1 \<and> drop_bit ((n - 1) * 4) ms AND 0xF = 0")
    case True
    then have "unat ms div 16 ^ (n - 1) mod 16 = 0" using nib by simp
    moreover have "unat ms div 16 ^ (n - 1) < 16"
      using "1.prems" True by (cases n) (simp_all add: div_less_iff_less_mult)
    ultimately have "unat ms < 16 ^ (n - 1)" by (simp add: div_eq_0_iff)
    moreover have "1 \<le> n - 1" "n > 1" using True by linarith+
    ultimately show ?thesis using "1.IH" True by (subst (1 2) bigint_ms_nibbles.simps) simp
  next
    case False
    then show ?thesis using "1.prems" by (subst (1 2) bigint_ms_nibbles.simps) auto
  qed
qed

lemma obj_bigint_to_hex_string_literal:
  assumes "bigint_wf x"
  shows "bigint_literal (obj_bigint_to_hex_string (Some x)) = Some (bigint_value x)"
proof (cases "bi_limbs x = []")
  case True
  then have "bigint_value x = 0" by (simp add: bigint_value_def)
  with True show ?thesis
    by (simp add: obj_bigint_to_hex_string_def bigint_literal_def unsigned_literal_def isdigit_def
        digits_value_Cons bigint_hex_digit_value_def)
next
  case False
  then obtain rest ms where l: "bi_limbs x = rest @ [ms]" by (metis rev_exhaust)
  have sg: "bi_sign x \<noteq> 0" using assms False by (simp add: bigint_wf_def)
  define k where "k = bigint_ms_nibbles ms 8"
  have k: "unat ms < 16 ^ k" "1 \<le> k"
    using bigint_ms_nibbles_bound [of 8 ms] unat_u32_less [of ms] by (simp_all add: k_def)
  define h where "h = map (bigint_hex_nibble ms) (rev [0..<k]) @
      concat (map (\<lambda>limb. map (bigint_hex_nibble limb) (rev [0..<8])) (rev rest))"
  have "rev [0..<8] = [7, 6, 5, 4, 3, 2, 1, 0 :: nat]" by (simp add: upt_rec)
  then have s: "obj_bigint_to_hex_string (Some x) = (if bi_sign x < 0 then ''-'' else []) @ ''0x'' @ h"
    using sg by (simp add: obj_bigint_to_hex_string_def l Let_def k_def h_def)
  have "hex_value h = lval (rest @ [ms])"
    unfolding h_def
  proof (induction rest)
    case Nil
    then show ?case using k(1) by (simp add: hex_value_nibbles)
  next
    case (Cons c rest)
    have "hex_value ((map (bigint_hex_nibble ms) (rev [0..<k]) @
        concat (map (\<lambda>limb. map (bigint_hex_nibble limb) (rev [0..<8])) (rev rest))) @
        map (bigint_hex_nibble c) (rev [0..<8])) = lval (rest @ [ms]) * 16 ^ 8 + unat c"
      using Cons.IH hex_value_nibbles [of c 8] unat_u32_less [of c] by (subst digits_value_append) simp
    then show ?case by simp
  qed
  moreover have "h \<noteq> []" "\<forall>c\<in>set h. 0 \<le> bigint_hex_digit_value c"
    using k(2) by (auto simp: h_def hex_nibble_value simp del: upt_Suc)
  ultimately have u: "unsigned_literal (''0x'' @ h) = Some (lval (bi_limbs x))"
    by (simp add: unsigned_literal_def isdigit_def l)
  have v: "bigint_value x = (if bi_sign x < 0 then - int (lval (bi_limbs x)) else int (lval (bi_limbs x)))"
    by (rule bigint_wf_cases [OF assms]) (use False in simp_all)
  show ?thesis using u v by (simp add: s bigint_literal_def)
qed

text \<open>What is printed parses back to the same object.\<close>

lemma bigint_literal_parse:
  assumes "bigint_fresh x" and "bigint_literal s = Some (bigint_value x)"
  shows "obj_bigint_try_from_string (Some s) = Some x"
proof -
  obtain y where y: "obj_bigint_try_from_string (Some s) = Some y" "bigint_value y = bigint_value x"
    using obj_bigint_try_from_string_value [of s] assms(2) by auto
  then show ?thesis
    using bigint_fresh_eqI [OF obj_bigint_try_from_string_fresh [OF y(1)] assms(1)] by simp
qed

section \<open>Properties\<close>


text \<open>
  C19: printing and parsing are inverse.  Parsing the decimal or the hexadecimal text of an object
  gives the object back, and the decimal text is as long as \<open>obj_bigint_decimal_digits\<close> says, plus
  the sign, so the buffer that \<open>obj_bigint_to_string\<close> allocates holds it.
\<close>

theorem bigint_text_roundtrip:
  assumes "bigint_fresh x"
  shows "obj_bigint_try_from_string (Some (obj_bigint_to_string (Some x))) = Some x \<and>
    obj_bigint_try_from_string (Some (obj_bigint_to_hex_string (Some x))) = Some x \<and>
    length (obj_bigint_to_string (Some x)) =
      obj_bigint_decimal_digits (Some x) + (if bigint_value x < 0 then 1 else 0)"
proof -
  have wf: "bigint_wf x" using assms by (rule bigint_freshD)
  have "bi_sign x < 0 \<longleftrightarrow> bigint_value x < 0" using bigint_wf_sign [OF wf] by simp
  then show ?thesis
    using wf assms by (simp add: bigint_literal_parse obj_bigint_to_string_literal
        obj_bigint_to_hex_string_literal obj_bigint_decimal_digits_length)
qed

theorem bigint_text_roundtrip_witness:
  "obj_bigint_try_from_string (Some (obj_bigint_to_string (Some (bigint_from_limbs (-1) [7, 1]))))
     = Some (bigint_from_limbs (-1) [7, 1]) \<and>
   obj_bigint_to_hex_string (Some (bigint_from_limbs (-1) [7, 1])) = ''-0x100000007''"
proof
  show "obj_bigint_try_from_string (Some (obj_bigint_to_string (Some (bigint_from_limbs (-1) [7, 1]))))
     = Some (bigint_from_limbs (-1) [7, 1])"
    using bigint_text_roundtrip [OF bigint_from_limbs_fresh [of "-1" "[7, 1]"]] by blast
  show "obj_bigint_to_hex_string (Some (bigint_from_limbs (-1) [7, 1])) = ''-0x100000007''"
    by code_simp
qed

end
