(* ===== verification/VM_Value.thy ===== *)
theory VM_Value
  imports Bigint_Obj
begin

text \<open>
  Runtime values of \<^verbatim>\<open>src/src/vm.h\<close> and \<^verbatim>\<open>src/src/vm.c\<close>: the value type, strings with their cached
  hash, the hash functions, and the equality tests.  Objects that are compared by identity only
  (arrays, records, maps, files and so on) are addresses.
\<close>

section \<open>The model\<close>

text \<open>
  \<open>chars\<close> of a string object is never null once the object exists, and its \<open>length\<close> is the length of
  the list.
\<close>

record ObjString =
  os_chars :: string
  os_hash :: u32
  os_ref_count :: int

type_synonym addr = nat

text \<open>A double is its IEEE bit pattern; a tuple carries its address and its elements.\<close>

datatype Value =
    VAL_INT u64
  | VAL_BOOL bool
  | VAL_DOUBLE u64
  | VAL_BIGINT "ObjBigInt option"
  | VAL_STRING "ObjString option"
  | VAL_BYTES addr
  | VAL_ARRAY addr
  | VAL_NIL
  | VAL_FUNCTION addr
  | VAL_NATIVE addr
  | VAL_RECORD addr
  | VAL_TUPLE "(addr \<times> Value list) option"
  | VAL_MAP addr
  | VAL_SET addr
  | VAL_SOCKET addr
  | VAL_FILE addr

text \<open>
  What an operation does to the objects behind values: \<^verbatim>\<open>value_retain\<close>, \<^verbatim>\<open>value_free\<close>, and the filling
  of a string's cached hash.
\<close>

datatype obj_event = Retain Value | Release Value | CacheHash ObjString

definition UINT32_MAX :: u32 where
  "UINT32_MAX = 0xFFFFFFFF"

definition obj_string_create :: "string \<Rightarrow> ObjString" where
  "obj_string_create chars = \<lparr>os_chars = chars, os_hash = UINT32_MAX, os_ref_count = 1\<rparr>"

definition obj_string_retain :: "ObjString option \<Rightarrow> ObjString option" where
  "obj_string_retain str = map_option (\<lambda>s. s\<lparr>os_ref_count := os_ref_count s + 1\<rparr>) str"

definition obj_string_release :: "ObjString option \<Rightarrow> ObjString option" where
  "obj_string_release str =
     (case str of
        None \<Rightarrow> None
      | Some s \<Rightarrow> let s = s\<lparr>os_ref_count := os_ref_count s - 1\<rparr>
                  in if os_ref_count s \<le> 0 then None else Some s)"

subsection \<open>Hashing\<close>

definition hash_mix64 :: "u64 \<Rightarrow> u64" where
  "hash_mix64 h =
     (let h = h XOR drop_bit 30 h;
          h = h * 0xbf58476d1ce4e5b9;
          h = h XOR drop_bit 27 h;
          h = h * 0x94d049bb133111eb
      in h XOR drop_bit 31 h)"

definition hash_mix32 :: "u32 \<Rightarrow> u32" where
  "hash_mix32 h =
     (let h = h XOR drop_bit 16 h;
          h = h * 0x7feb352d;
          h = h XOR drop_bit 15 h;
          h = h * 0x846ca68b
      in h XOR drop_bit 16 h)"

definition hash_fold64_to32 :: "u64 \<Rightarrow> u32" where
  "hash_fold64_to32 h =
     (let mixed = hash_mix64 h in hash_mix32 (ucast (mixed XOR drop_bit 32 mixed)))"

definition hash_string_internal64 :: "string \<Rightarrow> u64" where
  "hash_string_internal64 str =
     (let hash = foldl (\<lambda>hash c. (hash XOR of_char c) * 1099511628211) 1469598103934665603 str
      in hash_mix64 (hash XOR word_of_nat (length str)))"

definition map_string_hash_chars :: "string option \<Rightarrow> u32" where
  "map_string_hash_chars chars =
     (case chars of None \<Rightarrow> 0 | Some cs \<Rightarrow> hash_fold64_to32 (hash_string_internal64 cs))"

text \<open>The cached hash of a string object: the hash, and the object with its cache filled.\<close>

definition map_string_hash_obj :: "ObjString option \<Rightarrow> u32 \<times> ObjString option" where
  "map_string_hash_obj key =
     (case key of
        None \<Rightarrow> (0, None)
      | Some s \<Rightarrow>
          let s = (if os_hash s = UINT32_MAX then s\<lparr>os_hash := map_string_hash_chars (Some (os_chars s))\<rparr> else s)
          in (os_hash s, Some s))"

definition bigint_hash_limb :: "u64 \<Rightarrow> u32 \<Rightarrow> u64" where
  "bigint_hash_limb hash limb =
     foldl (\<lambda>hash sh. (hash XOR ucast (drop_bit sh limb AND 0xFF)) * 1099511628211) hash [0, 8, 16, 24]"

definition value_hash :: "Value \<Rightarrow> u32 \<times> Value" where
  "value_hash val =
     (case val of
        VAL_INT i \<Rightarrow> (hash_fold64_to32 (i XOR 0x9e3779b97f4a7c15), val)
      | VAL_STRING str \<Rightarrow> (case map_string_hash_obj str of (h, str') \<Rightarrow> (h, VAL_STRING str'))
      | VAL_BIGINT (Some b) \<Rightarrow>
          if bi_limbs b = [] then (0, val)
          else let hash = foldl bigint_hash_limb 1469598103934665603 (bi_limbs b);
                   hash = hash XOR (if bi_sign b < 0 then 0xa5a5a5a5a5a5a5a5 else 0x5a5a5a5a5a5a5a5a)
               in (hash_fold64_to32 hash, val)
      | _ \<Rightarrow> (0, val))"

subsection \<open>Equality\<close>

text \<open>\<open>strcmp\<close> compares up to the first zero character.\<close>

definition cstr :: "string \<Rightarrow> string" where
  "cstr s = takeWhile (\<lambda>c. c \<noteq> CHR 0x00) s"

definition value_equals_strict :: "Value \<Rightarrow> Value \<Rightarrow> bool" where
  "value_equals_strict a b =
     (case (a, b) of
        (VAL_INT i, VAL_INT j) \<Rightarrow> i = j
      | (VAL_BIGINT x, VAL_BIGINT y) \<Rightarrow> x = y \<or> obj_bigint_compare x y = 0
      | (VAL_STRING x, VAL_STRING y) \<Rightarrow>
          (case (x, y) of
             (None, None) \<Rightarrow> True
           | (Some s, Some t) \<Rightarrow> s = t \<or> length (os_chars s) = length (os_chars t) \<and> cstr (os_chars s) = cstr (os_chars t)
           | _ \<Rightarrow> False)
      | _ \<Rightarrow> False)"

text \<open>\<open>memcmp\<close> over the common length is equality of the character lists.\<close>

definition value_equals_key_fast :: "Value \<Rightarrow> Value \<Rightarrow> bool" where
  "value_equals_key_fast a b =
     (case (a, b) of
        (VAL_INT i, VAL_INT j) \<Rightarrow> i = j
      | (VAL_STRING x, VAL_STRING y) \<Rightarrow>
          (case (x, y) of
             (None, None) \<Rightarrow> True
           | (Some s, Some t) \<Rightarrow> os_chars s = os_chars t
           | _ \<Rightarrow> False)
      | _ \<Rightarrow> False)"

text \<open>Equality of doubles on their bit patterns: no NaN equals anything, and the zeros are equal.\<close>

definition double_is_nan :: "u64 \<Rightarrow> bool" where
  "double_is_nan b \<longleftrightarrow> b AND 0x7FF0000000000000 = 0x7FF0000000000000 \<and> b AND 0x000FFFFFFFFFFFFF \<noteq> 0"

definition double_equals :: "u64 \<Rightarrow> u64 \<Rightarrow> bool" where
  "double_equals a b \<longleftrightarrow> \<not> double_is_nan a \<and> \<not> double_is_nan b \<and>
     (a = b \<or> a AND 0x7FFFFFFFFFFFFFFF = 0 \<and> b AND 0x7FFFFFFFFFFFFFFF = 0)"

text \<open>
  The elements of two tuples, left to right; the first \<open>false\<close> ends the comparison.  \<open>None\<close> is a
  comparison that the C code makes on a payload of the wrong type.
\<close>

fun value_equals_elements :: "('a \<Rightarrow> 'a \<Rightarrow> bool option) \<Rightarrow> 'a list \<Rightarrow> 'a list \<Rightarrow> bool option" where
  "value_equals_elements eq (x # xs) (y # ys) =
     (case eq x y of
        None \<Rightarrow> None
      | Some False \<Rightarrow> Some False
      | Some True \<Rightarrow> value_equals_elements eq xs ys)"
| "value_equals_elements eq xs ys = Some True"

text \<open>
  \<^verbatim>\<open>value_equals_internal\<close>; \<open>n\<close> counts down from 65, where the C code counts \<open>depth\<close> up and gives
  up above 64.  For byte arrays, arrays, records and tuples the code does not test the type of \<open>b\<close>:
  it reads the payload of \<open>b\<close> as a pointer whatever \<open>b\<close> is, and the result is \<open>None\<close> here.
\<close>

fun value_equals_internal :: "nat \<Rightarrow> Value \<Rightarrow> Value \<Rightarrow> bool option" where
  "value_equals_internal 0 a b = Some False"
| "value_equals_internal (Suc n) a b =
     (case (a, b) of
        (VAL_INT i, VAL_BIGINT big) \<Rightarrow> Some (obj_bigint_compare big (Some (obj_bigint_from_int64 i)) = 0)
      | (VAL_BIGINT big, VAL_INT i) \<Rightarrow> Some (obj_bigint_compare big (Some (obj_bigint_from_int64 i)) = 0)
      | (VAL_NIL, _) \<Rightarrow> Some (b = VAL_NIL)
      | (_, VAL_NIL) \<Rightarrow> Some False
      | (VAL_INT i, VAL_INT j) \<Rightarrow> Some (i = j)
      | (VAL_BOOL p, VAL_BOOL q) \<Rightarrow> Some (p = q)
      | (VAL_BIGINT x, VAL_BIGINT y) \<Rightarrow> Some (obj_bigint_compare x y = 0)
      | (VAL_DOUBLE x, VAL_DOUBLE y) \<Rightarrow> Some (double_equals x y)
      | (VAL_STRING (Some s), VAL_STRING (Some t)) \<Rightarrow> Some (cstr (os_chars s) = cstr (os_chars t))
      | (VAL_BYTES x, VAL_BYTES y) \<Rightarrow> Some (x = y)
      | (VAL_BYTES x, _) \<Rightarrow> None
      | (VAL_ARRAY x, VAL_ARRAY y) \<Rightarrow> Some (x = y)
      | (VAL_ARRAY x, _) \<Rightarrow> None
      | (VAL_RECORD x, VAL_RECORD y) \<Rightarrow> Some (x = y)
      | (VAL_RECORD x, _) \<Rightarrow> None
      | (VAL_TUPLE x, VAL_TUPLE y) \<Rightarrow>
          (case (x, y) of
             (None, None) \<Rightarrow> Some True
           | (Some (p, xs), Some (q, ys)) \<Rightarrow>
               if p = q then Some True
               else if length xs \<noteq> length ys then Some False
               else value_equals_elements (value_equals_internal n) xs ys
           | _ \<Rightarrow> Some False)
      | (VAL_TUPLE x, _) \<Rightarrow> None
      | _ \<Rightarrow> Some False)"

definition value_equals :: "Value \<Rightarrow> Value \<Rightarrow> bool option" where
  "value_equals a b = value_equals_internal 65 a b"

end
