(* ===== verification/Probe_Table.thy ===== *)
theory Probe_Table
  imports Tablo_Prelude "HOL-Library.Multiset"
begin

text \<open>
  Open addressing with linear probing and backward-shift deletion, as the maps, the sets and the
  table of globals of \<^verbatim>\<open>src/src/vm.c\<close> use it.  The three copies of the C code differ in the slot
  type and in the key test only, so the loops are functions of the slot predicates here.  A table
  is a list of slots whose length is a power of two; an index is a 32-bit word.
\<close>

section \<open>The model\<close>

text \<open>\<open>mask = (uint32_t)(capacity - 1)\<close>\<close>

definition table_mask :: "'s list \<Rightarrow> u32" where
  "table_mask slots = word_of_nat (length slots - 1)"

text \<open>
  The probe loop \<open>while (true)\<close>: stops at an empty slot or at a slot that matches.  It visits every
  slot in \<open>capacity\<close> passes, so with that much fuel \<open>None\<close> is the loop that never ends.
\<close>

fun table_probe :: "('s \<Rightarrow> bool) \<Rightarrow> ('s \<Rightarrow> bool) \<Rightarrow> 's list \<Rightarrow> u32 \<Rightarrow> nat \<Rightarrow> u32 \<Rightarrow> (u32 \<times> bool) option" where
  "table_probe vacant match slots msk 0 idx = None"
| "table_probe vacant match slots msk (Suc fuel) idx =
     (let slot = slots ! unat idx
      in if vacant slot then Some (idx, False)
         else if match slot then Some (idx, True)
         else table_probe vacant match slots msk fuel ((idx + 1) AND msk))"

definition table_find :: "('s \<Rightarrow> bool) \<Rightarrow> ('s \<Rightarrow> bool) \<Rightarrow> 's list \<Rightarrow> u32 \<Rightarrow> (u32 \<times> bool) option" where
  "table_find vacant match slots hash =
     table_probe vacant match slots (table_mask slots) (length slots) (hash AND table_mask slots)"

text \<open>Moving the live slots into a fresh table of another capacity.\<close>

fun table_rehash :: "('s \<Rightarrow> bool) \<Rightarrow> ('s \<Rightarrow> bool) \<Rightarrow> ('s \<Rightarrow> u32) \<Rightarrow> 's list \<Rightarrow> 's list \<Rightarrow> 's list option" where
  "table_rehash vacant live hash [] new_slots = Some new_slots"
| "table_rehash vacant live hash (old # olds) new_slots =
     (if \<not> live old then table_rehash vacant live hash olds new_slots
      else case table_find vacant (\<lambda>_. False) new_slots (hash old) of
             None \<Rightarrow> None
           | Some (idx, _) \<Rightarrow> table_rehash vacant live hash olds (new_slots[unat idx := old]))"

text \<open>The backward shift: the slots and the final hole.\<close>

fun table_backshift :: "('s \<Rightarrow> bool) \<Rightarrow> ('s \<Rightarrow> u32) \<Rightarrow> u32 \<Rightarrow> nat \<Rightarrow> 's list \<Rightarrow> u32 \<Rightarrow> u32 \<Rightarrow> ('s list \<times> u32) option" where
  "table_backshift live hash msk 0 slots hole scan = None"
| "table_backshift live hash msk (Suc fuel) slots hole scan =
     (if live (slots ! unat scan)
      then let home = hash (slots ! unat scan) AND msk;
               dist_scan = (scan - home) AND msk;
               dist_hole = (hole - home) AND msk
           in if dist_hole < dist_scan
              then table_backshift live hash msk fuel
                     (slots[unat hole := slots ! unat scan]) scan ((scan + 1) AND msk)
              else table_backshift live hash msk fuel slots hole ((scan + 1) AND msk)
      else Some (slots, hole))"

section \<open>Cyclic distance\<close>

definition cdist :: "nat \<Rightarrow> nat \<Rightarrow> nat \<Rightarrow> nat" where
  "cdist N a b = (b + N - a) mod N"

lemma cdist_if: "a < N \<Longrightarrow> b < N \<Longrightarrow> cdist N a b = (if a \<le> b then b - a else b + N - a)"
  by (auto simp: cdist_def mod_if)

lemma cdist_less: "0 < N \<Longrightarrow> cdist N a b < N"
  by (simp add: cdist_def)

lemma cdist_0_iff: "a < N \<Longrightarrow> b < N \<Longrightarrow> cdist N a b = 0 \<longleftrightarrow> a = b"
  by (auto simp: cdist_if split: if_splits)

lemma cdist_inj: "a < N \<Longrightarrow> b < N \<Longrightarrow> c < N \<Longrightarrow> cdist N a b = cdist N a c \<Longrightarrow> b = c"
  by (auto simp: cdist_if split: if_splits)

lemma cdist_add: "a < N \<Longrightarrow> d < N \<Longrightarrow> cdist N a ((a + d) mod N) = d"
  by (cases "a + d < N") (auto simp: cdist_if mod_if)

lemma add_cdist: "a < N \<Longrightarrow> b < N \<Longrightarrow> (a + cdist N a b) mod N = b"
  by (auto simp: cdist_if mod_if)

lemma cdist_Suc:
  "a < N \<Longrightarrow> b < N \<Longrightarrow> cdist N a ((b + 1) mod N) = (if (b + 1) mod N = a then 0 else cdist N a b + 1)"
  by (cases "b + 1 < N") (auto simp: cdist_if mod_if)

lemma cdist_shift:
  assumes "a < N" and "b < N" and "c < N" and "cdist N a b \<le> cdist N a c"
  shows "cdist N b c = cdist N a c - cdist N a b"
  using assms by (auto simp: cdist_if split: if_splits)

section \<open>Index words\<close>

lemma table_mask_and:
  assumes "length slots = 2 ^ k" and "k \<le> 31"
  shows "unat (x AND table_mask slots) = unat x mod length slots"
proof -
  have "table_mask slots = mask k"
    by (simp add: table_mask_def assms(1) mask_eq_exp_minus_1 of_nat_diff)
  then have "x AND table_mask slots = take_bit k x" by (simp add: take_bit_eq_mask)
  then have "unat (x AND table_mask slots) = take_bit k (unat x)" by (simp only: unsigned_take_bit_eq)
  then show ?thesis by (simp add: take_bit_eq_mod assms(1))
qed

lemma dvd_word_mod:
  assumes "length slots = 2 ^ k" and "k \<le> 31"
  shows "n mod 4294967296 mod length slots = n mod length slots"
proof -
  have "length slots dvd 2 ^ 32" unfolding assms(1) using assms(2) by (intro le_imp_power_dvd) simp
  then show ?thesis by (simp add: mod_mod_cancel)
qed

lemma table_next_index:
  assumes "length slots = 2 ^ k" and "k \<le> 31"
  shows "unat ((idx + 1) AND table_mask slots) = (unat idx + 1) mod length slots"
  unfolding table_mask_and [OF assms] by (simp add: unat_word_ariths dvd_word_mod [OF assms])

lemma table_dist_index:
  assumes "length slots = 2 ^ k" and "k \<le> 31"
    and "unat home < length slots" and "unat scan < length slots"
  shows "unat ((scan - home) AND table_mask slots) = cdist (length slots) (unat home) (unat scan)"
proof -
  let ?N = "length slots"
  have N: "?N \<le> 2 ^ 31" unfolding assms(1) using assms(2) by (intro power_increasing) auto
  show ?thesis
  proof (cases "unat home \<le> unat scan")
    case True
    then have "unat (scan - home) = unat scan - unat home" by (simp add: unat_sub_if')
    with True assms(3,4) show ?thesis unfolding table_mask_and [OF assms(1,2)] by (simp add: cdist_if)
  next
    case False
    have "unat (scan - home) = unat scan + 4294967296 - unat home" using False by (simp add: unat_sub_if')
    also have "\<dots> mod ?N = (unat scan + ?N - unat home) mod ?N"
    proof -
      obtain q where q: "4294967296 = ?N * q"
        using assms(2) le_imp_power_dvd [of k 32 "2 :: nat"] by (auto simp: assms(1))
      have "0 < q" using q by (cases q) simp_all
      then have "unat scan + 4294967296 - unat home = (unat scan + ?N - unat home) + ?N * (q - 1)"
        using False assms(3) q by (cases q) simp_all
      then show ?thesis by simp
    qed
    finally show ?thesis unfolding table_mask_and [OF assms(1,2)] by (simp add: cdist_def)
  qed
qed

section \<open>Well-formed tables\<close>

definition table_home :: "('s \<Rightarrow> u32) \<Rightarrow> 's list \<Rightarrow> 's \<Rightarrow> nat" where
  "table_home hash slots s = unat (hash s) mod length slots"

text \<open>Every slot on the way from the home of an entry to the entry is live.\<close>

definition probe_ok :: "('s \<Rightarrow> bool) \<Rightarrow> ('s \<Rightarrow> u32) \<Rightarrow> 's list \<Rightarrow> bool" where
  "probe_ok live hash slots \<longleftrightarrow>
     (\<forall>i<length slots. \<forall>p<length slots. live (slots ! i) \<longrightarrow>
        cdist (length slots) (table_home hash slots (slots ! i)) p
          < cdist (length slots) (table_home hash slots (slots ! i)) i \<longrightarrow> live (slots ! p))"

definition keys_unique :: "('s \<Rightarrow> bool) \<Rightarrow> ('s \<Rightarrow> 'k) \<Rightarrow> 's list \<Rightarrow> bool" where
  "keys_unique live key slots \<longleftrightarrow>
     (\<forall>i<length slots. \<forall>j<length slots. live (slots ! i) \<longrightarrow> live (slots ! j) \<longrightarrow>
        key (slots ! i) = key (slots ! j) \<longrightarrow> i = j)"

definition table_size_ok :: "'s list \<Rightarrow> bool" where
  "table_size_ok slots \<longleftrightarrow> (\<exists>k\<in>{4..30}. length slots = 2 ^ k)"

text \<open>\<open>kh\<close> is the stored hash of a key.\<close>

definition table_wf ::
  "('s \<Rightarrow> bool) \<Rightarrow> ('s \<Rightarrow> bool) \<Rightarrow> ('s \<Rightarrow> u32) \<Rightarrow> ('s \<Rightarrow> 'k) \<Rightarrow> ('k \<Rightarrow> u32) \<Rightarrow> 's list \<Rightarrow> bool" where
  "table_wf vacant live hash key kh slots \<longleftrightarrow>
     table_size_ok slots \<and> (\<forall>s\<in>set slots. vacant s \<longleftrightarrow> \<not> live s) \<and>
     (\<forall>s\<in>set slots. live s \<longrightarrow> hash s = kh (key s)) \<and>
     keys_unique live key slots \<and> probe_ok live hash slots"

definition live_count :: "('s \<Rightarrow> bool) \<Rightarrow> 's list \<Rightarrow> nat" where
  "live_count live slots = length (filter live slots)"

definition live_slots :: "('s \<Rightarrow> bool) \<Rightarrow> 's list \<Rightarrow> 's set" where
  "live_slots live slots = {s \<in> set slots. live s}"

lemma table_size_okE:
  assumes "table_size_ok slots"
  obtains k where "length slots = 2 ^ k" and "k \<le> 31" and "0 < length slots"
    and "length slots \<le> 1073741824"
proof -
  obtain k where k: "k \<in> {4..30}" "length slots = 2 ^ k" using assms by (auto simp: table_size_ok_def)
  have "(2 :: nat) ^ k \<le> 2 ^ 30" using k(1) by (intro power_increasing) auto
  with k that show thesis by auto
qed

lemma table_home_less: "0 < length slots \<Longrightarrow> table_home hash slots s < length slots"
  by (simp add: table_home_def)

lemma probe_okD:
  assumes "probe_ok live hash slots" and "i < length slots" and "live (slots ! i)" and "p < length slots"
    and "cdist (length slots) (table_home hash slots (slots ! i)) p
      < cdist (length slots) (table_home hash slots (slots ! i)) i"
  shows "live (slots ! p)"
  using assms unfolding probe_ok_def by blast

lemma live_count_room: "live_count live slots < length slots \<Longrightarrow> \<exists>e<length slots. \<not> live (slots ! e)"
  unfolding live_count_def by (metis filter_True in_set_conv_nth nat_neq_iff)

lemma live_count_update:
  assumes "i < length slots"
  shows "live_count live (slots[i := s]) + (if live (slots ! i) then 1 else 0)
    = live_count live slots + (if live s then 1 else 0)"
proof -
  have u: "slots[i := s] = take i slots @ s # drop (Suc i) slots"
    and o: "slots = take i slots @ slots ! i # drop (Suc i) slots"
    using assms by (simp_all add: upd_conv_take_nth_drop id_take_nth_drop)
  show ?thesis unfolding live_count_def u by (subst (2) o) simp
qed

section \<open>Probing\<close>

text \<open>The probe from \<open>home + d\<close> reaches the first stopping slot.\<close>

lemma table_probe_first:
  assumes size: "length slots = 2 ^ k" "k \<le> 31" and h: "h < length slots"
    and idx: "unat idx = (h + d) mod length slots" and e: "d \<le> e" "e < d + fuel"
    and skip: "\<And>j. d \<le> j \<Longrightarrow> j < e \<Longrightarrow>
      \<not> vacant (slots ! ((h + j) mod length slots)) \<and> \<not> match (slots ! ((h + j) mod length slots))"
    and stop: "vacant (slots ! ((h + e) mod length slots)) \<or> match (slots ! ((h + e) mod length slots))"
  shows "\<exists>idx'. unat idx' = (h + e) mod length slots \<and>
    table_probe vacant match slots (table_mask slots) fuel idx
      = Some (idx', \<not> vacant (slots ! ((h + e) mod length slots)))"
  using idx e skip
proof (induction fuel arbitrary: d idx)
  case (Suc fuel)
  show ?case
  proof (cases "d = e")
    case True
    then show ?thesis using Suc.prems(1) stop by (intro exI [of _ idx]) (auto simp: Let_def)
  next
    case False
    have no: "\<not> vacant (slots ! unat idx)" "\<not> match (slots ! unat idx)"
      using Suc.prems(4) [of d] False Suc.prems(1,2) by simp_all
    have "unat ((idx + 1) AND table_mask slots) = (h + (d + 1)) mod length slots"
      using table_next_index [OF size, of idx] Suc.prems(1) by (simp add: mod_simps)
    from Suc.IH [OF this] Suc.prems False no show ?thesis by (simp add: Let_def)
  qed
qed simp

text \<open>The same for a whole search: \<open>j\<close> is the position where it stops.\<close>

lemma table_find_stop:
  assumes size: "table_size_ok slots" and j: "j < length slots"
    and skip: "\<And>p. p < length slots \<Longrightarrow>
      cdist (length slots) (unat hash mod length slots) p < cdist (length slots) (unat hash mod length slots) j \<Longrightarrow>
      \<not> vacant (slots ! p) \<and> \<not> match (slots ! p)"
    and stop: "vacant (slots ! j) \<or> match (slots ! j)"
  shows "\<exists>idx. unat idx = j \<and> table_find vacant match slots hash = Some (idx, \<not> vacant (slots ! j))"
proof -
  obtain k where k: "length slots = 2 ^ k" "k \<le> 31" and N0: "0 < length slots"
    using size by (rule table_size_okE)
  let ?N = "length slots" and ?h = "unat hash mod length slots"
  have h: "?h < ?N" using N0 by simp
  let ?e = "cdist ?N ?h j"
  have e: "?e < ?N" using N0 by (rule cdist_less)
  have at: "(?h + ?e) mod ?N = j" using h j by (rule add_cdist)
  have "\<not> vacant (slots ! ((?h + i) mod ?N)) \<and> \<not> match (slots ! ((?h + i) mod ?N))" if "i < ?e" for i
    using skip [of "(?h + i) mod ?N"] that N0 cdist_add [OF h, of i] e by simp
  moreover have "unat (hash AND table_mask slots) = (?h + 0) mod ?N"
    using table_mask_and [OF k, of hash] by simp
  ultimately show ?thesis
    using table_probe_first [OF k h, of "hash AND table_mask slots" 0 ?e ?N vacant match] e stop at
    unfolding table_find_def by auto
qed

text \<open>A key that is in the table is found; for a key that is not, the search ends at a free slot.\<close>

lemma table_find_present:
  assumes wf: "table_wf vacant live hash key kh slots"
    and i: "i < length slots" "live (slots ! i)"
    and match: "\<And>s. s \<in> set slots \<Longrightarrow> live s \<Longrightarrow> match s \<longleftrightarrow> key s = key (slots ! i)"
  shows "\<exists>idx. unat idx = i \<and> table_find vacant match slots (kh (key (slots ! i))) = Some (idx, True)"
proof -
  let ?h = "unat (kh (key (slots ! i))) mod length slots"
  have home: "table_home hash slots (slots ! i) = ?h"
    using wf i by (simp add: table_home_def table_wf_def)
  have "\<not> vacant (slots ! p) \<and> \<not> match (slots ! p)"
    if p: "p < length slots" "cdist (length slots) ?h p < cdist (length slots) ?h i" for p
  proof -
    have live: "live (slots ! p)"
      using wf i p unfolding table_wf_def by (auto intro: probe_okD simp: home)
    moreover have "key (slots ! p) \<noteq> key (slots ! i)"
      using wf i p live by (auto simp: table_wf_def keys_unique_def)
    ultimately show ?thesis using wf p match [of "slots ! p"] by (simp add: table_wf_def)
  qed
  moreover have "\<not> vacant (slots ! i)" "match (slots ! i)"
    using wf i match [of "slots ! i"] by (simp_all add: table_wf_def)
  ultimately show ?thesis
    using table_find_stop [of slots i "kh (key (slots ! i))" vacant match] wf i by (simp add: table_wf_def)
qed

lemma table_find_absent:
  assumes wf: "table_wf vacant live hash key kh slots" and room: "live_count live slots < length slots"
    and absent: "\<And>s. s \<in> set slots \<Longrightarrow> live s \<Longrightarrow> \<not> match s"
  shows "\<exists>idx. unat idx < length slots \<and> \<not> live (slots ! unat idx) \<and>
    (\<forall>p<length slots. cdist (length slots) (unat hs mod length slots) p
        < cdist (length slots) (unat hs mod length slots) (unat idx) \<longrightarrow> live (slots ! p)) \<and>
    table_find vacant match slots hs = Some (idx, False)"
proof -
  let ?N = "length slots" and ?h = "unat hs mod length slots"
  define free where "free = (\<lambda>d. \<exists>p<?N. cdist ?N ?h p = d \<and> \<not> live (slots ! p))"
  obtain e where "e < ?N" "\<not> live (slots ! e)" using live_count_room [OF room] by blast
  then have "free (cdist ?N ?h e)" by (auto simp: free_def)
  then have "free (LEAST d. free d)" by (rule LeastI)
  then obtain j where j: "j < ?N" "cdist ?N ?h j = (LEAST d. free d)" "\<not> live (slots ! j)"
    by (auto simp: free_def)
  have before: "live (slots ! p)" if "p < ?N" "cdist ?N ?h p < cdist ?N ?h j" for p
    using that not_less_Least [of "cdist ?N ?h p" free] by (auto simp: free_def j(2))
  have "vacant (slots ! j)" using wf j by (simp add: table_wf_def)
  moreover have "\<not> vacant (slots ! p) \<and> \<not> match (slots ! p)" if "p < ?N" "cdist ?N ?h p < cdist ?N ?h j" for p
    using before [OF that] wf absent [of "slots ! p"] that(1) by (simp add: table_wf_def)
  ultimately obtain idx where "unat idx = j" "table_find vacant match slots hs = Some (idx, False)"
    using table_find_stop [of slots j hs vacant match] wf j(1) by (auto simp: table_wf_def)
  then show ?thesis using j before by auto
qed

section \<open>Updates\<close>

lemma live_slots_update:
  assumes "i < length slots"
  shows "live_slots live (slots[i := s]) =
    {t. \<exists>p<length slots. p \<noteq> i \<and> slots ! p = t \<and> live t} \<union> (if live s then {s} else {})"
  using assms by (auto simp: live_slots_def in_set_conv_nth nth_list_update split: if_splits)

lemma live_slots_nth: "live_slots live slots = {t. \<exists>p<length slots. slots ! p = t \<and> live t}"
  by (auto simp: live_slots_def in_set_conv_nth)

lemma table_size_ok_update [simp]: "table_size_ok (slots[i := s]) = table_size_ok slots"
  by (simp add: table_size_ok_def)

lemma table_home_update [simp]: "table_home hash (slots[i := s]) t = table_home hash slots t"
  by (simp add: table_home_def)

text \<open>Inserting at the free slot where the search ended.\<close>

lemma table_insert_ok:
  assumes wf: "table_wf vacant live hash key kh slots" and i: "i < length slots" "\<not> live (slots ! i)"
    and path: "\<forall>p<length slots. cdist (length slots) (table_home hash slots s) p
        < cdist (length slots) (table_home hash slots s) i \<longrightarrow> live (slots ! p)"
    and s: "live s" "\<not> vacant s" "hash s = kh (key s)"
    and absent: "\<forall>t\<in>set slots. live t \<longrightarrow> key t \<noteq> key s"
  shows "table_wf vacant live hash key kh (slots[i := s])"
    and "live_slots live (slots[i := s]) = insert s (live_slots live slots)"
    and "live_count live (slots[i := s]) = live_count live slots + 1"
proof -
  note wfs = wf [unfolded table_wf_def]
  have "probe_ok live hash (slots[i := s])"
    unfolding probe_ok_def
  proof (intro allI impI)
    fix a p assume a: "a < length (slots[i := s])" and p: "p < length (slots[i := s])"
      and l: "live (slots[i := s] ! a)"
      and d: "cdist (length (slots[i := s])) (table_home hash (slots[i := s]) (slots[i := s] ! a)) p
        < cdist (length (slots[i := s])) (table_home hash (slots[i := s]) (slots[i := s] ! a)) a"
    show "live (slots[i := s] ! p)"
    proof (cases "p = i")
      case False
      have "live (slots ! p)"
      proof (cases "a = i")
        case True
        with d p i path show ?thesis by simp
      next
        case False
        with a p l d wfs show ?thesis by (auto intro: probe_okD)
      qed
      with False show ?thesis by simp
    qed (use i s in simp)
  qed
  moreover have "keys_unique live key (slots[i := s])"
    using wfs i absent unfolding keys_unique_def by (auto simp: nth_list_update)
  moreover have "\<forall>t\<in>set (slots[i := s]). (vacant t \<longleftrightarrow> \<not> live t) \<and> (live t \<longrightarrow> hash t = kh (key t))"
    using wfs s set_update_subset_insert [of slots i s] by auto
  ultimately show "table_wf vacant live hash key kh (slots[i := s])"
    using wfs by (simp add: table_wf_def)
  show "live_slots live (slots[i := s]) = insert s (live_slots live slots)"
    unfolding live_slots_update [OF i(1)] live_slots_nth [of live slots] using i s by auto
  show "live_count live (slots[i := s]) = live_count live slots + 1"
    using live_count_update [OF i(1), of live s] i s by simp
qed

text \<open>Replacing an entry by one with the same key.\<close>

lemma table_replace_ok:
  assumes wf: "table_wf vacant live hash key kh slots" and i: "i < length slots" "live (slots ! i)"
    and s: "live s" "\<not> vacant s" "hash s = hash (slots ! i)" "key s = key (slots ! i)"
  shows "table_wf vacant live hash key kh (slots[i := s])"
    and "live_slots live (slots[i := s]) = insert s (live_slots live slots - {slots ! i})"
    and "live_count live (slots[i := s]) = live_count live slots"
proof -
  note wfs = wf [unfolded table_wf_def]
  have live: "live (slots[i := s] ! p) \<longleftrightarrow> live (slots ! p)" and home:
      "table_home hash slots (slots[i := s] ! p) = table_home hash slots (slots ! p)"
      and key: "key (slots[i := s] ! p) = key (slots ! p)" for p
    using i s by (cases "p = i"; simp add: table_home_def)+
  have "probe_ok live hash (slots[i := s])"
    using wfs unfolding probe_ok_def length_list_update table_home_update live home by blast
  moreover have "keys_unique live key (slots[i := s])"
    using wfs unfolding keys_unique_def length_list_update live key by blast
  moreover have "\<forall>t\<in>set (slots[i := s]). (vacant t \<longleftrightarrow> \<not> live t) \<and> (live t \<longrightarrow> hash t = kh (key t))"
    using wfs s i set_update_subset_insert [of slots i s] by auto
  ultimately show "table_wf vacant live hash key kh (slots[i := s])"
    using wfs by (simp add: table_wf_def)
  show "live_slots live (slots[i := s]) = insert s (live_slots live slots - {slots ! i})"
    unfolding live_slots_update [OF i(1)] live_slots_nth [of live slots]
    using i s wfs unfolding keys_unique_def by auto
  show "live_count live (slots[i := s]) = live_count live slots"
    using live_count_update [OF i(1), of live s] i s by simp
qed

section \<open>Backward-shift deletion\<close>

lemma cdist_trans:
  assumes "a < N" and "b < N" and "c < N" and "cdist N a b + cdist N b c < N"
  shows "cdist N a c = cdist N a b + cdist N b c"
  using assms by (auto simp: cdist_if split: if_splits)

text \<open>
  The state of the scan, for the table \<open>T\<close> read with its hole filled by the empty slot \<open>z\<close>: the
  invariants of a table hold, except that an entry not yet scanned may have the hole on its way.
\<close>

definition shift_path :: "('s \<Rightarrow> bool) \<Rightarrow> ('s \<Rightarrow> u32) \<Rightarrow> 's list \<Rightarrow> nat \<Rightarrow> nat \<Rightarrow> bool" where
  "shift_path live hash T hole scan \<longleftrightarrow>
     (\<forall>i<length T. \<forall>p<length T. live (T ! i) \<longrightarrow>
        cdist (length T) (table_home hash T (T ! i)) p < cdist (length T) (table_home hash T (T ! i)) i \<longrightarrow>
        live (T ! p) \<or> p = hole \<and> cdist (length T) hole scan \<le> cdist (length T) hole i)"

definition shift_inv ::
  "('s \<Rightarrow> bool) \<Rightarrow> ('s \<Rightarrow> bool) \<Rightarrow> ('s \<Rightarrow> u32) \<Rightarrow> ('s \<Rightarrow> 'k) \<Rightarrow> ('k \<Rightarrow> u32) \<Rightarrow> 's list \<Rightarrow> nat \<Rightarrow> nat \<Rightarrow> bool" where
  "shift_inv vacant live hash key kh T hole scan \<longleftrightarrow>
     table_size_ok T \<and> (\<forall>s\<in>set T. vacant s \<longleftrightarrow> \<not> live s) \<and>
     (\<forall>s\<in>set T. live s \<longrightarrow> hash s = kh (key s)) \<and> keys_unique live key T \<and>
     shift_path live hash T hole scan"

lemma shift_pathI:
  assumes "\<And>i p. i < length T \<Longrightarrow> p < length T \<Longrightarrow> live (T ! i) \<Longrightarrow>
    cdist (length T) (table_home hash T (T ! i)) p < cdist (length T) (table_home hash T (T ! i)) i \<Longrightarrow>
    live (T ! p) \<or> p = hole \<and> cdist (length T) hole scan \<le> cdist (length T) hole i"
  shows "shift_path live hash T hole scan"
  using assms unfolding shift_path_def by blast

lemma shift_inv_path:
  assumes "shift_inv vacant live hash key kh T hole scan" and "i < length T" and "p < length T"
    and "live (T ! i)"
    and "cdist (length T) (table_home hash T (T ! i)) p < cdist (length T) (table_home hash T (T ! i)) i"
  shows "live (T ! p) \<or> p = hole \<and> cdist (length T) hole scan \<le> cdist (length T) hole i"
  using assms unfolding shift_inv_def shift_path_def by blast

text \<open>Scanning ends at a free slot; then nothing has the hole on its way.\<close>

lemma shift_inv_end:
  assumes inv: "shift_inv vacant live hash key kh T hole scan"
    and b: "hole < length T" "scan < length T" "scan \<noteq> hole" and free: "\<not> live (T ! scan)"
  shows "table_wf vacant live hash key kh T"
proof -
  let ?N = "length T"
  have N0: "0 < ?N" using b(1) by linarith
  have "live (T ! p)" if i: "i < ?N" and p: "p < ?N" and l: "live (T ! i)"
    and d: "cdist ?N (table_home hash T (T ! i)) p < cdist ?N (table_home hash T (T ! i)) i" for i p
  proof (rule ccontr)
    assume n: "\<not> live (T ! p)"
    let ?h = "table_home hash T (T ! i)"
    have h: "?h < ?N" using N0 by (rule table_home_less)
    from shift_inv_path [OF inv i p l d] n have p': "p = hole" "cdist ?N hole scan \<le> cdist ?N hole i" by simp_all
    have "i \<noteq> scan" using l free by auto
    then have lt: "cdist ?N hole scan < cdist ?N hole i"
      using p'(2) cdist_inj [OF b(1,2) i] by (cases "cdist ?N hole scan = cdist ?N hole i") auto
    have hi: "cdist ?N hole i = cdist ?N ?h i - cdist ?N ?h hole"
      using d p'(1) by (intro cdist_shift [OF h b(1) i]) simp
    have "cdist ?N ?h scan = cdist ?N ?h hole + cdist ?N hole scan"
      using lt hi d p'(1) cdist_less [OF N0, of ?h i] by (intro cdist_trans [OF h b(1,2)]) linarith
    then have "cdist ?N ?h scan < cdist ?N ?h i" using lt hi d p'(1) by linarith
    from shift_inv_path [OF inv i b(2) l this] free b(3) show False by simp
  qed
  then have "probe_ok live hash T" unfolding probe_ok_def by blast
  then show ?thesis using inv by (simp add: shift_inv_def table_wf_def)
qed

lemma cdist_pred: "b < N \<Longrightarrow> (b + 1) mod N = a \<Longrightarrow> cdist N a b = N - 1"
proof (cases "b + 1 < N")
  case False
  assume "b < N" and "(b + 1) mod N = a"
  moreover from this have "N = b + 1" using False by linarith
  ultimately show ?thesis by (simp add: cdist_if)
qed (auto simp: cdist_if)

lemma cdist_next: "a < N \<Longrightarrow> cdist N a ((a + 1) mod N) = (if N = 1 then 0 else 1)"
  by (cases "a + 1 < N") (auto simp: cdist_if mod_if)

lemma shift_inv_swap:
  assumes inv: "shift_inv vacant live hash key kh R hole scan"
    and b: "hole < length R" "scan < length R" "scan \<noteq> hole"
    and z: "\<not> live (R ! hole)" and l: "live (R ! scan)"
    and d: "cdist (length R) (table_home hash R (R ! scan)) hole
      < cdist (length R) (table_home hash R (R ! scan)) scan"
  shows "shift_inv vacant live hash key kh (R[hole := R ! scan, scan := R ! hole]) scan ((scan + 1) mod length R)"
proof -
  let ?N = "length R" and ?R = "R[hole := R ! scan, scan := R ! hole]"
  let ?f = "\<lambda>a. if a = hole then scan else if a = scan then hole else a"
  have nth: "?R ! a = R ! ?f a" if "a < ?N" for a using that b by (simp add: nth_list_update)
  have f: "?f a < ?N" if "a < ?N" for a using that b by simp
  have inj: "?f a = ?f a' \<Longrightarrow> a = a'" for a a' using b(3) by (auto split: if_splits)
  have len: "length ?R = ?N" and home: "table_home hash ?R = table_home hash R" by (auto simp: table_home_def)
  have uniq: "keys_unique live key ?R"
    unfolding keys_unique_def len
  proof (intro allI impI)
    fix a a' assume a: "a < ?N" "a' < ?N" and "live (?R ! a)" "live (?R ! a')" "key (?R ! a) = key (?R ! a')"
    then have "live (R ! ?f a)" "live (R ! ?f a')" "key (R ! ?f a) = key (R ! ?f a')"
      by (simp_all only: nth [OF a(1)] nth [OF a(2)])
    then have "?f a = ?f a'" using inv f [OF a(1)] f [OF a(2)] unfolding shift_inv_def keys_unique_def by blast
    then show "a = a'" by (rule inj)
  qed
  have sub: "set ?R \<subseteq> set R"
  proof
    fix x assume "x \<in> set ?R"
    then obtain a where "a < ?N" "x = ?R ! a" by (auto simp: in_set_conv_nth len simp del: nth_list_update_neq)
    then show "x \<in> set R" using f [of a] by (simp only: nth nth_mem)
  qed
  have path: "live (?R ! p) \<or> p = scan \<and> cdist ?N scan ((scan + 1) mod ?N) \<le> cdist ?N scan i"
    if i: "i < ?N" and p: "p < ?N" and li: "live (?R ! i)"
      and di: "cdist ?N (table_home hash R (?R ! i)) p < cdist ?N (table_home hash R (?R ! i)) i" for i p
  proof (cases "i = hole")
    case True
    then have x: "?R ! i = R ! scan" using nth [OF i] by simp
    then have "cdist ?N (table_home hash R (R ! scan)) p < cdist ?N (table_home hash R (R ! scan)) scan"
      using di d True by simp
    moreover from this have ps: "p \<noteq> scan" by auto
    moreover have ph: "p \<noteq> hole" using di True x by auto
    ultimately have "live (R ! p)" using shift_inv_path [OF inv b(2) p l] by simp
    then show ?thesis using nth [OF p] ps ph by simp
  next
    case False
    have "i \<noteq> scan" using li z nth [OF i] False by auto
    then have x: "?R ! i = R ! i" using nth [OF i] False by simp
    have lp: "live (R ! p) \<or> p = hole"
      using shift_inv_path [OF inv i p] li di unfolding x by blast
    show ?thesis
    proof (cases "p = scan")
      case True
      have "0 < cdist ?N scan i" using \<open>i \<noteq> scan\<close> cdist_0_iff [OF b(2) i] by auto
      moreover have "cdist ?N scan ((scan + 1) mod ?N) \<le> 1"
        using cdist_next [OF b(2)] by simp
      ultimately show ?thesis using True by linarith
    next
      case False
      then show ?thesis using lp l nth [OF p] by auto
    qed
  qed
  have "shift_path live hash ?R scan ((scan + 1) mod ?N)"
    by (rule shift_pathI) (use path in \<open>simp only: len home\<close>)
  then show ?thesis
    using inv uniq sub unfolding shift_inv_def by (simp only: table_size_ok_update) blast
qed

lemma shift_inv_skip:
  assumes inv: "shift_inv vacant live hash key kh R hole scan"
    and b: "hole < length R" "scan < length R" and nx: "(scan + 1) mod length R \<noteq> hole"
    and d: "\<not> cdist (length R) (table_home hash R (R ! scan)) hole
      < cdist (length R) (table_home hash R (R ! scan)) scan"
  shows "shift_inv vacant live hash key kh R hole ((scan + 1) mod length R)"
proof -
  let ?N = "length R"
  have next': "cdist ?N hole ((scan + 1) mod ?N) = cdist ?N hole scan + 1"
    using cdist_Suc [OF b] nx by simp
  have "live (R ! p) \<or> p = hole \<and> cdist ?N hole ((scan + 1) mod ?N) \<le> cdist ?N hole i"
    if i: "i < ?N" and p: "p < ?N" and li: "live (R ! i)"
      and di: "cdist ?N (table_home hash R (R ! i)) p < cdist ?N (table_home hash R (R ! i)) i" for i p
  proof (cases "live (R ! p)")
    case False
    then have ph: "p = hole" "cdist ?N hole scan \<le> cdist ?N hole i"
      using shift_inv_path [OF inv i p li di] by simp_all
    then have "i \<noteq> scan" using d di by auto
    then have "cdist ?N hole scan \<noteq> cdist ?N hole i" using cdist_inj [OF b i] by auto
    with ph next' show ?thesis by linarith
  qed simp
  then have "shift_path live hash R hole ((scan + 1) mod ?N)" by (rule shift_pathI)
  then show ?thesis using inv by (simp add: shift_inv_def)
qed

lemma swap_live:
  assumes "hole < length R" and "scan < length R" and "scan \<noteq> hole"
  shows "live_slots live (R[hole := R ! scan, scan := R ! hole]) = live_slots live R"
    and "live_count live (R[hole := R ! scan, scan := R ! hole]) = live_count live R"
proof -
  have m: "mset (R[hole := R ! scan, scan := R ! hole]) = mset R"
    using assms mset_swap [of scan R hole] by simp
  show "live_slots live (R[hole := R ! scan, scan := R ! hole]) = live_slots live R"
    using mset_eq_setD [OF m] by (simp add: live_slots_def)
  show "live_count live (R[hole := R ! scan, scan := R ! hole]) = live_count live R"
    using m by (metis live_count_def mset_filter size_mset)
qed

lemma table_backshift_ok:
  assumes "shift_inv vacant live hash key kh (T[unat hole := z]) (unat hole) (unat scan)"
    and "table_size_ok T" and "\<not> live z"
    and "unat hole < length T" and "unat scan < length T" and "unat scan \<noteq> unat hole"
    and "e < length T" and "\<not> live (T ! e)" and "e \<noteq> unat hole"
    and "cdist (length T) (unat hole) (unat scan) \<le> cdist (length T) (unat hole) e"
    and "cdist (length T) (unat scan) e < fuel"
  shows "\<exists>T' hole'. table_backshift live hash (table_mask T) fuel T hole scan = Some (T', hole') \<and>
    unat hole' < length T' \<and> length T' = length T \<and>
    table_wf vacant live hash key kh (T'[unat hole' := z]) \<and>
    live_slots live (T'[unat hole' := z]) = live_slots live (T[unat hole := z]) \<and>
    live_count live (T'[unat hole' := z]) = live_count live (T[unat hole := z])"
  using assms
proof (induction fuel arbitrary: T hole scan)
  case (Suc fuel)
  obtain k where k: "length T = 2 ^ k" "k \<le> 31" and N0: "0 < length T"
    using Suc.prems(2) by (rule table_size_okE)
  let ?N = "length T" and ?h = "unat hole" and ?s = "unat scan"
  let ?R = "T[?h := z]" and ?scan' = "(scan + 1) AND table_mask T"
  have R: "?R ! ?s = T ! ?s" "?R ! ?h = z" "length ?R = ?N" using Suc.prems(4,6) by simp_all
  show ?case
  proof (cases "live (T ! ?s)")
    case False
    then show ?thesis
      using shift_inv_end [OF Suc.prems(1)] Suc.prems(4,5,6) by (simp add: R)
  next
    case True
    have se: "?s \<noteq> e" using True Suc.prems(8) by auto
    have s': "unat ?scan' = (?s + 1) mod ?N" by (rule table_next_index [OF k])
    define home where "home = hash (T ! ?s) AND table_mask T"
    have home: "unat home = table_home hash T (T ! ?s)"
      unfolding home_def table_home_def by (rule table_mask_and [OF k])
    have hN: "unat home < ?N" using table_home_less [OF N0] by (simp add: home)
    have lt: "((hole - home) AND table_mask T < (scan - home) AND table_mask T) \<longleftrightarrow>
        cdist ?N (unat home) ?h < cdist ?N (unat home) ?s"
      using table_dist_index [OF k hN Suc.prems(4)] table_dist_index [OF k hN Suc.prems(5)]
      by (simp add: word_less_nat_alt)
    have sdist: "cdist ?N ((?s + 1) mod ?N) e < fuel"
    proof -
      have le: "cdist ?N ?s ((?s + 1) mod ?N) \<le> cdist ?N ?s e"
        using se cdist_next [OF Suc.prems(5)] cdist_0_iff [OF Suc.prems(5,7)] by auto
      then have "cdist ?N ((?s + 1) mod ?N) e = cdist ?N ?s e - cdist ?N ?s ((?s + 1) mod ?N)"
        using N0 by (intro cdist_shift [OF Suc.prems(5) _ Suc.prems(7)]) simp_all
      moreover have "0 < cdist ?N ?s ((?s + 1) mod ?N)"
        using se cdist_next [OF Suc.prems(5)] Suc.prems(5,7) by auto
      ultimately show ?thesis using le Suc.prems(11) by linarith
    qed
    have nx: "(?s + 1) mod ?N \<noteq> ?h \<and> cdist ?N ?h ((?s + 1) mod ?N) \<le> cdist ?N ?h e"
    proof -
      have "cdist ?N ?h ?s < cdist ?N ?h e"
        using Suc.prems(10) se cdist_inj [OF Suc.prems(4,5,7)] by (cases "cdist ?N ?h ?s = cdist ?N ?h e") auto
      moreover have "(?s + 1) mod ?N \<noteq> ?h"
      proof
        assume w: "(?s + 1) mod ?N = ?h"
        have "cdist ?N ?h ?s = ?N - 1" by (rule cdist_pred [OF Suc.prems(5) w])
        with calculation cdist_less [OF N0, of ?h e] show False by linarith
      qed
      ultimately show ?thesis using cdist_Suc [OF Suc.prems(4,5)] by simp
    qed
    show ?thesis
    proof (cases "cdist ?N (unat home) ?h < cdist ?N (unat home) ?s")
      case move: True
      let ?T = "T[?h := T ! ?s]"
      have sw: "?T[?s := z] = ?R[?h := ?R ! ?s, ?s := ?R ! ?h]"
        using Suc.prems(4,6) by (simp add: R)
      have inv: "shift_inv vacant live hash key kh (?T[?s := z]) ?s (unat ?scan')"
        unfolding sw s' using shift_inv_swap [OF Suc.prems(1)] Suc.prems(3-6) move True
        by (simp add: R home)
      have s1: "unat ?scan' \<noteq> ?s" "cdist ?N ?s (unat ?scan') \<le> cdist ?N ?s e"
        unfolding s' using se Suc.prems(5,7) cdist_next [OF Suc.prems(5)] cdist_0_iff [OF Suc.prems(5,7)]
          cdist_0_iff [OF Suc.prems(5), of ?s] by auto
      have m: "table_mask ?T = table_mask T" by (simp add: table_mask_def)
      have step: "table_backshift live hash (table_mask T) (Suc fuel) T hole scan
          = table_backshift live hash (table_mask ?T) fuel ?T scan ?scan'"
        unfolding m using True move lt by (simp add: Let_def flip: home_def)
      have "\<exists>T' hole'. table_backshift live hash (table_mask ?T) fuel ?T scan ?scan' = Some (T', hole') \<and>
          unat hole' < length T' \<and> length T' = length ?T \<and>
          table_wf vacant live hash key kh (T'[unat hole' := z]) \<and>
          live_slots live (T'[unat hole' := z]) = live_slots live (?T[?s := z]) \<and>
          live_count live (T'[unat hole' := z]) = live_count live (?T[?s := z])"
      proof (rule Suc.IH [OF inv])
        show "cdist (length ?T) (unat ?scan') e < fuel" using sdist by (simp add: s')
        show "unat ?scan' < length ?T" using N0 by (simp add: s')
        show "cdist (length ?T) ?s (unat ?scan') \<le> cdist (length ?T) ?s e" using s1 by simp
        show "\<not> live (?T ! e)" using Suc.prems(8,9) by simp
      qed (use Suc.prems(2,3,5,7) s1 se in simp_all)
      then show ?thesis
        unfolding step sw using swap_live [of ?h ?R ?s live] Suc.prems(4-6) by (simp add: R)
    next
      case stay: False
      have inv: "shift_inv vacant live hash key kh ?R ?h (unat ?scan')"
        unfolding s' using shift_inv_skip [OF Suc.prems(1)] Suc.prems(4,5) nx stay
        by (simp add: R home)
      have step: "table_backshift live hash (table_mask T) (Suc fuel) T hole scan
          = table_backshift live hash (table_mask T) fuel T hole ?scan'"
        using True stay lt by (simp add: Let_def flip: home_def)
      show ?thesis
        unfolding step
      proof (rule Suc.IH [OF inv])
        show "cdist ?N (unat ?scan') e < fuel" using sdist by (simp add: s')
        show "unat ?scan' < ?N" using N0 by (simp add: s')
      qed (use Suc.prems(2-4,7-9) nx s' in simp_all)
    qed
  qed
qed simp

text \<open>Deleting the entry at \<open>hole\<close>: the entry is gone, all others are still found.\<close>

lemma table_delete_ok:
  assumes wf: "table_wf vacant live hash key kh slots" and room: "live_count live slots < length slots"
    and hole: "unat hole < length slots" "live (slots ! unat hole)" and z: "\<not> live z" "vacant z"
  shows "\<exists>T' hole'. table_backshift live hash (table_mask slots) (length slots) slots hole ((hole + 1) AND table_mask slots)
      = Some (T', hole') \<and> unat hole' < length T' \<and> length T' = length slots \<and>
    table_wf vacant live hash key kh (T'[unat hole' := z]) \<and>
    live_slots live (T'[unat hole' := z]) = live_slots live slots - {slots ! unat hole} \<and>
    live_count live (T'[unat hole' := z]) + 1 = live_count live slots"
proof -
  let ?N = "length slots" and ?h = "unat hole"
  note wfs = wf [unfolded table_wf_def]
  have size: "table_size_ok slots" using wfs by simp
  obtain k where k: "?N = 2 ^ k" "k \<le> 31" and N0: "0 < ?N" using size by (rule table_size_okE)
  obtain e where e: "e < ?N" "\<not> live (slots ! e)" using live_count_room [OF room] by blast
  have eh: "e \<noteq> ?h" using e hole by auto
  let ?scan = "(hole + 1) AND table_mask slots" and ?R = "slots[?h := z]"
  have s: "unat ?scan = (?h + 1) mod ?N" by (rule table_next_index [OF k])
  have N1: "?N \<noteq> 1" using e(1) hole(1) eh by auto
  have d1: "cdist ?N ?h (unat ?scan) = 1" using cdist_next [OF hole(1)] N1 by (simp add: s)
  have len: "length ?R = ?N" and home: "table_home hash ?R = table_home hash slots"
    by (auto simp: table_home_def)
  have live: "live (?R ! p) \<longleftrightarrow> p \<noteq> ?h \<and> live (slots ! p)" if "p < ?N" for p
    using that z by (cases "p = ?h") simp_all
  have "shift_path live hash ?R ?h (unat ?scan)"
  proof (rule shift_pathI, unfold len home)
    fix i p assume i: "i < ?N" and p: "p < ?N" and l: "live (?R ! i)"
      and d: "cdist ?N (table_home hash slots (?R ! i)) p < cdist ?N (table_home hash slots (?R ! i)) i"
    have ih: "i \<noteq> ?h" "live (slots ! i)" "?R ! i = slots ! i" using l live [OF i] by auto
    then have "live (slots ! p)" using wfs i p d by (auto intro: probe_okD)
    moreover have "1 \<le> cdist ?N ?h i" using ih(1) cdist_0_iff [OF hole(1) i] by (simp add: Suc_le_eq)
    ultimately show "live (?R ! p) \<or> p = ?h \<and> cdist ?N ?h (unat ?scan) \<le> cdist ?N ?h i"
      using live [OF p] d1 by auto
  qed
  moreover have "keys_unique live key ?R"
    unfolding keys_unique_def len
  proof (intro allI impI)
    fix i j assume i: "i < ?N" and j: "j < ?N" and l: "live (?R ! i)" "live (?R ! j)" "key (?R ! i) = key (?R ! j)"
    then have "live (slots ! i)" "live (slots ! j)" "key (slots ! i) = key (slots ! j)"
      using live [OF i] live [OF j] by auto
    then show "i = j" using wfs i j unfolding keys_unique_def by blast
  qed
  moreover have "\<forall>t\<in>set ?R. (vacant t \<longleftrightarrow> \<not> live t) \<and> (live t \<longrightarrow> hash t = kh (key t))"
    using wfs z set_update_subset_insert [of slots ?h z] by auto
  ultimately have inv: "shift_inv vacant live hash key kh ?R ?h (unat ?scan)"
    using size by (simp add: shift_inv_def)
  have "1 \<le> cdist ?N ?h e" using eh cdist_0_iff [OF hole(1) e(1)] by (simp add: Suc_le_eq)
  moreover have "unat ?scan \<noteq> ?h" using d1 cdist_0_iff [OF hole(1) hole(1)] by auto
  ultimately have ex: "\<exists>T' hole'. table_backshift live hash (table_mask slots) ?N slots hole ?scan = Some (T', hole') \<and>
    unat hole' < length T' \<and> length T' = ?N \<and> table_wf vacant live hash key kh (T'[unat hole' := z]) \<and>
    live_slots live (T'[unat hole' := z]) = live_slots live ?R \<and>
    live_count live (T'[unat hole' := z]) = live_count live ?R"
    using table_backshift_ok [OF inv size z(1) hole(1) _ _ e eh] d1 N0 cdist_less [OF N0] by (simp add: s)
  have "live_slots live ?R = live_slots live slots - {slots ! ?h}"
    unfolding live_slots_update [OF hole(1)] live_slots_nth [of live slots]
    using wfs z hole unfolding keys_unique_def by auto
  moreover have "live_count live ?R + 1 = live_count live slots"
    using live_count_update [OF hole(1), of live z] hole z by simp
  ultimately show ?thesis using ex by auto
qed

section \<open>Rehashing\<close>

lemma keys_unique_distinct: "keys_unique live key xs \<Longrightarrow> distinct (map key (filter live xs))"
proof (induction xs)
  case (Cons x xs)
  have "keys_unique live key xs"
    unfolding keys_unique_def
  proof (intro allI impI)
    fix i j assume "i < length xs" "j < length xs" "live (xs ! i)" "live (xs ! j)" "key (xs ! i) = key (xs ! j)"
    then have "Suc i = Suc j" using Cons.prems unfolding keys_unique_def by (metis Suc_less_eq length_Cons nth_Cons_Suc)
    then show "i = j" by simp
  qed
  moreover have "key x \<noteq> key y" if x: "live x" and y: "y \<in> set xs" "live y" for y
  proof
    assume eq: "key x = key y"
    obtain j where j: "j < length xs" "xs ! j = y" using y(1) by (auto simp: in_set_conv_nth)
    then have "0 = Suc j" using Cons.prems x y eq unfolding keys_unique_def
      by (metis Suc_less_eq length_Cons nth_Cons_0 nth_Cons_Suc zero_less_Suc)
    then show False by simp
  qed
  ultimately show ?case using Cons.IH by auto
qed simp

lemma table_fresh_wf:
  assumes "n \<in> {4..30}" and "\<not> live z" and "vacant z"
  shows "table_wf vacant live hash key kh (replicate (2 ^ n) z)"
    and "live_slots live (replicate (2 ^ n) z) = {}" and "live_count live (replicate (2 ^ n) z) = 0"
  using assms
  by (auto simp: table_wf_def table_size_ok_def keys_unique_def probe_ok_def live_slots_def live_count_def)

lemma table_rehash_ok:
  assumes "table_wf vacant live hash key kh new"
    and "\<forall>s\<in>set olds. vacant s \<longleftrightarrow> \<not> live s" and "\<forall>s\<in>set olds. live s \<longrightarrow> hash s = kh (key s)"
    and "distinct (map key (filter live olds))"
    and "\<forall>s\<in>set olds. live s \<longrightarrow> key s \<notin> key ` live_slots live new"
    and "live_count live new + live_count live olds < length new"
  shows "\<exists>new'. table_rehash vacant live hash olds new = Some new' \<and> length new' = length new \<and>
    table_wf vacant live hash key kh new' \<and>
    live_slots live new' = live_slots live new \<union> live_slots live olds \<and>
    live_count live new' = live_count live new + live_count live olds"
  using assms
proof (induction olds arbitrary: new)
  case Nil
  then show ?case by (simp add: live_slots_def live_count_def)
next
  case (Cons s olds)
  show ?case
  proof (cases "live s")
    case False
    then have "live_slots live (s # olds) = live_slots live olds" "live_count live (s # olds) = live_count live olds"
      by (auto simp: live_slots_def live_count_def)
    with Cons False show ?thesis by simp
  next
    case True
    have cnt: "live_count live (s # olds) = live_count live olds + 1" and
      ent: "live_slots live (s # olds) = insert s (live_slots live olds)"
      using True by (auto simp: live_slots_def live_count_def)
    have h: "hash s = kh (key s)" and nk: "key s \<notin> key ` live_slots live new" and nv: "\<not> vacant s"
      using Cons.prems True by auto
    obtain idx where idx: "unat idx < length new" "\<not> live (new ! unat idx)"
      and path: "\<forall>p<length new. cdist (length new) (unat (hash s) mod length new) p
        < cdist (length new) (unat (hash s) mod length new) (unat idx) \<longrightarrow> live (new ! p)"
      and find: "table_find vacant (\<lambda>_. False) new (hash s) = Some (idx, False)"
      using table_find_absent [OF Cons.prems(1), of "\<lambda>_. False" "hash s"] Cons.prems(6) by auto
    let ?new = "new[unat idx := s]"
    have abs: "\<forall>t\<in>set new. live t \<longrightarrow> key t \<noteq> key s"
      using nk by (auto simp: live_slots_def image_iff)
    have path': "\<forall>p<length new. cdist (length new) (table_home hash new s) p
        < cdist (length new) (table_home hash new s) (unat idx) \<longrightarrow> live (new ! p)"
      using path by (simp add: table_home_def)
    note ins = table_insert_ok [OF Cons.prems(1) idx path' True nv h abs]
    have "\<exists>new'. table_rehash vacant live hash olds ?new = Some new' \<and> length new' = length ?new \<and>
      table_wf vacant live hash key kh new' \<and> live_slots live new' = live_slots live ?new \<union> live_slots live olds \<and>
      live_count live new' = live_count live ?new + live_count live olds"
    proof (rule Cons.IH [OF ins(1)])
      show "\<forall>t\<in>set olds. live t \<longrightarrow> key t \<notin> key ` live_slots live ?new"
      proof (intro ballI impI)
        fix t assume t: "t \<in> set olds" "live t"
        then have "key t \<in> set (map key (filter live olds))" by simp
        then have "key t \<noteq> key s" using Cons.prems(4) True by auto
        moreover have "key t \<notin> key ` live_slots live new" using Cons.prems(5) t by simp
        ultimately show "key t \<notin> key ` live_slots live ?new" unfolding ins(2) by simp
      qed
      show "live_count live ?new + live_count live olds < length ?new"
        using Cons.prems(6) by (simp add: ins(3) cnt)
    qed (use Cons.prems(2-4) True in auto)
    then show ?thesis using True find by (simp add: ins(2,3) cnt ent)
  qed
qed

end
