(* ===== verification/Slot_Table.thy ===== *)
theory Slot_Table
  imports Probe_Table
begin

text \<open>
  Probe tables read as finite maps.  The locale \<open>probe_slots\<close> says what the slots of a table are (which
  are vacant, their hash, key and value); in it the loops of \<^verbatim>\<open>Probe_Table\<close> become operations on
  the map \<open>entries\<close>.  The second half is the resizing code that the maps and the sets of
  \<^verbatim>\<open>src/src/vm.c\<close> have in two copies: growing, compaction after a deletion, and deletion itself, on a record
  of the slots and the two counters.
\<close>

section \<open>Entries of a table\<close>

definition table_entries :: "('s \<Rightarrow> bool) \<Rightarrow> ('s \<Rightarrow> 'k) \<Rightarrow> ('s \<Rightarrow> 'v) \<Rightarrow> 's list \<Rightarrow> 'k \<rightharpoonup> 'v" where
  "table_entries live key val slots = map_of (map (\<lambda>s. (key s, val s)) (filter live slots))"

definition live_mset :: "('s \<Rightarrow> bool) \<Rightarrow> 's list \<Rightarrow> 's multiset" where
  "live_mset live slots = mset (filter live slots)"

lemma live_mset_eq:
  assumes "keys_unique live key slots"
  shows "live_mset live slots = mset_set (live_slots live slots)"
proof -
  have "distinct (filter live slots)" using keys_unique_distinct [OF assms] by (auto simp: distinct_map)
  then show ?thesis using mset_set_set [of "filter live slots"] by (simp add: live_mset_def live_slots_def del: mset_filter)
qed

lemma table_entries_Some:
  assumes "keys_unique live key slots"
  shows "table_entries live key val slots k = Some v \<longleftrightarrow> (\<exists>s\<in>live_slots live slots. key s = k \<and> val s = v)"
proof -
  have "distinct (map fst (map (\<lambda>s. (key s, val s)) (filter live slots)))"
    using keys_unique_distinct [OF assms] by (simp add: comp_def)
  from map_of_eq_Some_iff [OF this] show ?thesis by (auto simp: table_entries_def live_slots_def)
qed

lemma table_entries_dom: "dom (table_entries live key val slots) = key ` live_slots live slots"
  by (force simp: table_entries_def dom_map_of_conv_image_fst live_slots_def)

lemma finite_live_slots [simp]: "finite (live_slots live slots)"
  by (simp add: live_slots_def)

lemma table_entries_cong:
  assumes "keys_unique live key slots" and "keys_unique live key slots'"
    and "live_slots live slots = live_slots live slots'"
  shows "table_entries live key val slots = table_entries live key val slots'"
proof
  fix k
  show "table_entries live key val slots k = table_entries live key val slots' k"
    using table_entries_Some [OF assms(1), of val k] table_entries_Some [OF assms(2), of val k] assms(3)
    by (metis not_Some_eq)
qed

lemma table_entries_card:
  assumes "keys_unique live key slots"
  shows "card (dom (table_entries live key val slots)) = live_count live slots"
proof -
  have "dom (table_entries live key val slots) = set (map key (filter live slots))"
    by (auto simp: table_entries_dom live_slots_def)
  then show ?thesis using distinct_card [OF keys_unique_distinct [OF assms]] by (simp add: live_count_def)
qed

lemma live_slots_key_inj:
  assumes "keys_unique live key slots" and "s \<in> live_slots live slots" and "t \<in> live_slots live slots" and "key s = key t"
  shows "s = t"
  using assms unfolding keys_unique_def live_slots_def by (auto simp: in_set_conv_nth)

section \<open>Slots of a table\<close>

locale probe_slots =
  fixes vacant live :: "'s \<Rightarrow> bool" and hash :: "'s \<Rightarrow> u32" and key :: "'s \<Rightarrow> 'k"
    and val :: "'s \<Rightarrow> 'v" and kh :: "'k \<Rightarrow> u32" and zero :: 's
  assumes zero_vacant: "vacant zero" and zero_dead: "\<not> live zero"
    and live_taken: "live s \<Longrightarrow> \<not> vacant s"
begin

abbreviation wf :: "'s list \<Rightarrow> bool" where
  "wf slots \<equiv> table_wf vacant live hash key kh slots"

abbreviation entries :: "'s list \<Rightarrow> 'k \<rightharpoonup> 'v" where
  "entries slots \<equiv> table_entries live key val slots"

text \<open>The result of a search for \<open>k\<close>: the slot that holds it, or the vacant slot where it belongs.\<close>

definition found_at :: "'s list \<Rightarrow> 'k \<Rightarrow> u32 \<Rightarrow> bool \<Rightarrow> bool" where
  "found_at slots k idx found \<longleftrightarrow>
     unat idx < length slots \<and> (found \<longleftrightarrow> k \<in> dom (entries slots)) \<and>
     (if found then live (slots ! unat idx) \<and> key (slots ! unat idx) = k
      else \<not> live (slots ! unat idx) \<and>
        (\<forall>p<length slots. cdist (length slots) (unat (kh k) mod length slots) p
           < cdist (length slots) (unat (kh k) mod length slots) (unat idx) \<longrightarrow> live (slots ! p)))"

lemma wf_unique: "wf slots \<Longrightarrow> keys_unique live key slots"
  by (simp add: table_wf_def)

lemma find_ok:
  assumes wf: "wf slots" and room: "live_count live slots < length slots"
    and match: "\<And>s. s \<in> set slots \<Longrightarrow> live s \<Longrightarrow> match s \<longleftrightarrow> key s = k"
  shows "\<exists>idx found. table_find vacant match slots (kh k) = Some (idx, found) \<and> found_at slots k idx found"
proof (cases "k \<in> dom (entries slots)")
  case True
  then obtain i where i: "i < length slots" "live (slots ! i)" "key (slots ! i) = k"
    by (auto simp: table_entries_dom live_slots_nth)
  obtain idx where "unat idx = i" "table_find vacant match slots (kh k) = Some (idx, True)"
    using table_find_present [OF wf i(1,2), of match] match i(3) by auto
  with i True show ?thesis by (auto simp: found_at_def)
next
  case False
  then have absent: "\<not> match s" if "s \<in> set slots" "live s" for s
    using match that by (auto simp: table_entries_dom live_slots_def)
  obtain idx where "unat idx < length slots" "\<not> live (slots ! unat idx)"
    "\<forall>p<length slots. cdist (length slots) (unat (kh k) mod length slots) p
        < cdist (length slots) (unat (kh k) mod length slots) (unat idx) \<longrightarrow> live (slots ! p)"
    "table_find vacant match slots (kh k) = Some (idx, False)"
    using table_find_absent [OF wf room, of match "kh k"] absent by blast
  with False show ?thesis unfolding found_at_def by (intro exI [of _ idx] exI [of _ False]) auto
qed

lemma entries_insert:
  assumes "keys_unique live key slots" and "keys_unique live key slots'"
    and "live_slots live slots' = insert s (live_slots live slots)" and "key s \<notin> dom (entries slots)"
  shows "entries slots' = (entries slots)(key s \<mapsto> val s)"
proof
  fix k
  have absent: "\<forall>t\<in>live_slots live slots. key t \<noteq> key s" using assms(4) unfolding table_entries_dom by (metis imageI)
  have "entries slots' k = Some v \<longleftrightarrow> ((entries slots)(key s \<mapsto> val s)) k = Some v" for v
    using assms(3) absent table_entries_Some [OF assms(1), of val k v] table_entries_Some [OF assms(2), of val k v]
    by auto
  then show "entries slots' k = ((entries slots)(key s \<mapsto> val s)) k" by (metis not_Some_eq)
qed

lemma entries_remove:
  assumes "keys_unique live key slots" and "keys_unique live key slots'"
    and "live_slots live slots' = live_slots live slots - {t}" and "t \<in> live_slots live slots"
  shows "entries slots' = (entries slots)(key t := None)"
proof
  fix k
  have "entries slots' k = Some v \<longleftrightarrow> ((entries slots)(key t := None)) k = Some v" for v
    using assms(3,4) table_entries_Some [OF assms(1), of val k v] table_entries_Some [OF assms(2), of val k v]
      live_slots_key_inj [OF assms(1) _ assms(4)]
    by auto
  then show "entries slots' k = ((entries slots)(key t := None)) k" by (metis not_Some_eq)
qed

lemma insert_ok:
  assumes wf: "wf slots" and at: "found_at slots (key s) idx False"
    and s: "live s" "hash s = kh (key s)"
  defines "slots' \<equiv> slots[unat idx := s]"
  shows "wf slots'" and "entries slots' = (entries slots)(key s \<mapsto> val s)"
    and "live_count live slots' = live_count live slots + 1"
    and "live_mset live slots' = add_mset s (live_mset live slots)"
proof -
  have i: "unat idx < length slots" "\<not> live (slots ! unat idx)" and k: "key s \<notin> dom (entries slots)"
    and p: "\<forall>p<length slots. cdist (length slots) (table_home hash slots s) p
      < cdist (length slots) (table_home hash slots s) (unat idx) \<longrightarrow> live (slots ! p)"
    using at s(2) by (simp_all add: found_at_def table_home_def)
  have a: "\<forall>t\<in>set slots. live t \<longrightarrow> key t \<noteq> key s" using k unfolding table_entries_dom live_slots_def by (metis (mono_tags, lifting) imageI mem_Collect_eq)
  note ins = table_insert_ok [OF wf i p s(1) live_taken [OF s(1)] s(2) a, folded slots'_def]
  show "wf slots'" and "live_count live slots' = live_count live slots + 1" by (rule ins)+
  have u: "keys_unique live key slots" "keys_unique live key slots'" using wf ins(1) by (auto simp: wf_unique)
  show "entries slots' = (entries slots)(key s \<mapsto> val s)" by (rule entries_insert [OF u ins(2) k])
  have "s \<notin> live_slots live slots" using k by (auto simp: table_entries_dom)
  then show "live_mset live slots' = add_mset s (live_mset live slots)"
    by (simp add: live_mset_eq [OF u(1)] live_mset_eq [OF u(2)] ins(2))
qed

lemma replace_ok:
  assumes wf: "wf slots" and at: "found_at slots (key s) idx True"
    and s: "live s" "hash s = hash (slots ! unat idx)"
  defines "slots' \<equiv> slots[unat idx := s]"
  shows "wf slots'" and "entries slots' = (entries slots)(key s \<mapsto> val s)"
    and "live_count live slots' = live_count live slots"
    and "add_mset (slots ! unat idx) (live_mset live slots') = add_mset s (live_mset live slots)"
proof -
  let ?t = "slots ! unat idx"
  have i: "unat idx < length slots" "live ?t" and k: "key s = key ?t"
    using at by (simp_all add: found_at_def)
  note rep = table_replace_ok [OF wf i s(1) live_taken [OF s(1)] s(2) k, folded slots'_def]
  show "wf slots'" and "live_count live slots' = live_count live slots" by (rule rep)+
  have u: "keys_unique live key slots" "keys_unique live key slots'" using wf rep(1) by (auto simp: wf_unique)
  have t: "?t \<in> live_slots live slots" using i by (auto simp: live_slots_def)
  have "entries slots' k' = Some v \<longleftrightarrow> ((entries slots)(key s \<mapsto> val s)) k' = Some v" for k' v
    using table_entries_Some [OF u(1), of val k' v] table_entries_Some [OF u(2), of val k' v] rep(2)
      live_slots_key_inj [OF u(1) _ t] t k by auto
  then show "entries slots' = (entries slots)(key s \<mapsto> val s)" by (intro ext) (metis not_Some_eq)
  have old: "slots = take (unat idx) slots @ ?t # drop (Suc (unat idx)) slots" using i(1) by (rule id_take_nth_drop)
  have new: "slots' = take (unat idx) slots @ s # drop (Suc (unat idx)) slots"
    using i(1) by (simp add: slots'_def upd_conv_take_nth_drop)
  have "live_mset live slots = add_mset ?t (live_mset live (take (unat idx) slots) + live_mset live (drop (Suc (unat idx)) slots))"
    by (subst old) (simp add: live_mset_def i(2))
  moreover have "live_mset live slots' = add_mset s (live_mset live (take (unat idx) slots) + live_mset live (drop (Suc (unat idx)) slots))"
    by (subst new) (simp add: live_mset_def s(1))
  ultimately show "add_mset ?t (live_mset live slots') = add_mset s (live_mset live slots)" by simp
qed

lemma delete_ok:
  assumes wf: "wf slots" and room: "live_count live slots < length slots"
    and at: "found_at slots k idx True" and z: "\<not> live z" "vacant z"
  shows "\<exists>slots' hole. table_backshift live hash (table_mask slots) (length slots) slots idx ((idx + 1) AND table_mask slots)
      = Some (slots', hole) \<and> length slots' = length slots \<and> wf (slots'[unat hole := z]) \<and>
    entries (slots'[unat hole := z]) = (entries slots)(k := None) \<and>
    live_count live (slots'[unat hole := z]) + 1 = live_count live slots \<and>
    add_mset (slots ! unat idx) (live_mset live (slots'[unat hole := z])) = live_mset live slots"
proof -
  let ?t = "slots ! unat idx"
  have i: "unat idx < length slots" "live ?t" and k: "key ?t = k" using at by (simp_all add: found_at_def)
  obtain T hole where T: "table_backshift live hash (table_mask slots) (length slots) slots idx ((idx + 1) AND table_mask slots)
      = Some (T, hole)" "length T = length slots" "wf (T[unat hole := z])"
    "live_slots live (T[unat hole := z]) = live_slots live slots - {?t}"
    "live_count live (T[unat hole := z]) + 1 = live_count live slots"
    using table_delete_ok [OF wf room i z] by blast
  have t: "?t \<in> live_slots live slots" using i by (auto simp: live_slots_def)
  have u: "keys_unique live key slots" "keys_unique live key (T[unat hole := z])"
    using wf T(3) by (auto simp: wf_unique)
  have "entries (T[unat hole := z]) = (entries slots)(k := None)"
    using entries_remove [OF u T(4) t] k by simp
  moreover have "add_mset ?t (live_mset live (T[unat hole := z])) = live_mset live slots"
    using t by (simp add: live_mset_eq [OF u(1)] live_mset_eq [OF u(2)] T(4) mset_set.remove [symmetric])
  ultimately show ?thesis using T by blast
qed

lemma fresh_ok:
  assumes "n \<in> {4..30}"
  shows "wf (replicate (2 ^ n) zero)" and "entries (replicate (2 ^ n) zero) = Map.empty"
    and "live_count live (replicate (2 ^ n) zero) = 0" and "live_mset live (replicate (2 ^ n) zero) = {#}"
  using table_fresh_wf(1) [where n = n and live = live and z = zero and vacant = vacant and hash = hash and key = key and kh = kh]
    assms zero_vacant zero_dead
  by (auto simp: table_entries_def live_mset_def live_count_def)

lemma rehash_ok:
  assumes wf: "wf slots" and n: "n \<in> {4..30}" and room: "live_count live slots < 2 ^ n"
  shows "\<exists>slots'. table_rehash vacant live hash slots (replicate (2 ^ n) zero) = Some slots' \<and>
    length slots' = 2 ^ n \<and> wf slots' \<and> entries slots' = entries slots \<and>
    live_count live slots' = live_count live slots \<and> live_mset live slots' = live_mset live slots"
proof -
  let ?new = "replicate (2 ^ n) zero"
  have d: "live_slots live ?new = {}" using zero_dead by (auto simp: live_slots_def)
  obtain T where T: "table_rehash vacant live hash slots ?new = Some T" "length T = 2 ^ n" "wf T"
    "live_slots live T = live_slots live slots" "live_count live T = live_count live slots"
    using table_rehash_ok [OF fresh_ok(1) [OF n], of slots] wf room d fresh_ok(3) [OF n]
      keys_unique_distinct [OF wf_unique [OF wf]]
    by (auto simp: table_wf_def)
  have u: "keys_unique live key slots" "keys_unique live key T" using wf T(3) by (auto simp: wf_unique)
  have "entries T = entries slots" using table_entries_cong [OF u(2,1) T(4)] .
  moreover have "live_mset live T = live_mset live slots"
    by (simp add: live_mset_eq [OF u(1)] live_mset_eq [OF u(2)] T(4))
  ultimately show ?thesis using T by blast
qed

end

section \<open>Slots with counters: the code of maps and sets\<close>

text \<open>
  The maps and the sets of the virtual machine have the same fields and the same resizing code; they
  differ in the slot.  A slot has a hash: 0 is a vacant slot, and the hash of an entry is at least
  2.  \<open>capacity\<close> is the length of \<open>slots\<close>.  \<open>zero\<close> is a slot from \<open>calloc\<close>, \<open>nil\<close> the slot a deletion leaves.
\<close>

record 's slot_table =
  st_slots :: "'s list"
  st_count :: int
  st_used :: int

abbreviation (input) slot_vacant :: "('s \<Rightarrow> u32) \<Rightarrow> 's \<Rightarrow> bool" where
  "slot_vacant hash slot \<equiv> hash slot = 0"

abbreviation (input) slot_live :: "('s \<Rightarrow> u32) \<Rightarrow> 's \<Rightarrow> bool" where
  "slot_live hash slot \<equiv> 2 \<le> hash slot"

text \<open>
  Adjusting the capacity: the guards on the new capacity, then the rehash; \<open>count\<close> and \<open>used\<close>
  become the number of slots moved.
\<close>

definition slot_table_adjust_capacity ::
  "('s \<Rightarrow> u32) \<Rightarrow> 's \<Rightarrow> ('s, 'z) slot_table_scheme \<Rightarrow> nat \<Rightarrow> ('s, 'z) slot_table_scheme option" where
  "slot_table_adjust_capacity hash zero t new_capacity =
     (if new_capacity < 16 then Some t
      else if (word_of_nat new_capacity :: u32) AND (word_of_nat new_capacity - 1) \<noteq> 0 then Some t
      else case table_rehash (slot_vacant hash) (slot_live hash) hash (st_slots t) (replicate new_capacity zero) of
             None \<Rightarrow> None
           | Some new_slots \<Rightarrow>
               let moved = int (length (filter (slot_live hash) (st_slots t)))
               in Some (t\<lparr>st_slots := new_slots, st_count := moved, st_used := moved\<rparr>))"

text \<open>The \<open>do ... while\<close> loop that doubles the capacity; a capacity is never zero.\<close>

function slot_table_grow :: "int \<Rightarrow> nat \<Rightarrow> nat" where
  "slot_table_grow needed capacity =
     (let new_capacity = capacity * 2; max_load = int (new_capacity * 3 div 4)
      in if needed > max_load \<and> new_capacity > 0 then slot_table_grow needed new_capacity else new_capacity)"
  by pat_completeness auto
termination
  by (relation "measure (\<lambda>(needed, capacity). nat (needed * 2) - capacity)") (auto simp: Let_def)

declare slot_table_grow.simps [simp del]

definition slot_table_ensure_capacity ::
  "('s \<Rightarrow> u32) \<Rightarrow> 's \<Rightarrow> ('s, 'z) slot_table_scheme \<Rightarrow> int \<Rightarrow> ('s, 'z) slot_table_scheme option" where
  "slot_table_ensure_capacity hash zero t additional =
     (if additional \<le> 0 then Some t
      else let max_load = int (length (st_slots t) * 3 div 4);
               needed = st_count t + additional
           in if needed \<le> max_load \<and> st_used t \<le> max_load then Some t
              else slot_table_adjust_capacity hash zero t
                     (if needed > max_load then slot_table_grow needed (length (st_slots t))
                      else length (st_slots t)))"

text \<open>The shrinking loop of the compaction.\<close>

function slot_table_shrink :: "int \<Rightarrow> nat \<Rightarrow> nat" where
  "slot_table_shrink cnt capacity =
     (if capacity > 16 \<and> cnt \<le> int (capacity div 8) then slot_table_shrink cnt (capacity div 2) else capacity)"
  by pat_completeness auto
termination by (relation "measure snd") auto

declare slot_table_shrink.simps [simp del]

definition slot_table_maybe_compact ::
  "('s \<Rightarrow> u32) \<Rightarrow> 's \<Rightarrow> ('s, 'z) slot_table_scheme \<Rightarrow> ('s, 'z) slot_table_scheme option" where
  "slot_table_maybe_compact hash zero t =
     (let capacity = length (st_slots t)
      in if capacity < 16 then Some t
         else if st_count t = 0
         then if capacity > 16 then slot_table_adjust_capacity hash zero t 16
              else Some (t\<lparr>st_slots := replicate capacity zero, st_used := 0\<rparr>)
         else if capacity > 16 \<and> st_count t \<le> int (capacity div 8)
         then let new_capacity = slot_table_shrink (st_count t) capacity
              in if new_capacity \<noteq> capacity then slot_table_adjust_capacity hash zero t new_capacity else Some t
         else Some t)"

definition slot_table_backshift_at ::
  "('s \<Rightarrow> u32) \<Rightarrow> 's \<Rightarrow> ('s, 'z) slot_table_scheme \<Rightarrow> u32 \<Rightarrow> ('s, 'z) slot_table_scheme option" where
  "slot_table_backshift_at hash nil t hole_idx =
     (let slots = st_slots t; msk = table_mask slots
      in case table_backshift (slot_live hash) hash msk (length slots) slots hole_idx ((hole_idx + 1) AND msk) of
           None \<Rightarrow> None
         | Some (slots', hole) \<Rightarrow>
             Some (t\<lparr>st_slots := slots'[unat hole := nil],
                     st_count := (if st_count t > 0 then st_count t - 1 else st_count t),
                     st_used := (if st_used t > 0 then st_used t - 1 else st_used t)\<rparr>))"

subsection \<open>Arithmetic of the capacities\<close>

lemma power2_and: "(word_of_nat (2 ^ k) :: u32) AND (word_of_nat (2 ^ k) - 1) = 0"
proof -
  have "(word_of_nat (2 ^ k) :: u32) - 1 = mask k" by (simp add: mask_eq_exp_minus_1)
  then show ?thesis by (simp add: take_bit_eq_mask [symmetric]) (rule bit_word_eqI, simp add: bit_take_bit_iff bit_exp_iff)
qed

lemma load_floor: "4 * int (n * 3 div 4) \<le> 3 * int n"
  by linarith

lemma slot_table_grow_ok:
  assumes "needed \<le> int (2 ^ n * 3 div 4)" and "k < n" and "needed > int (2 ^ k * 3 div 4)"
  shows "\<exists>j. k < j \<and> j \<le> n \<and> slot_table_grow needed (2 ^ k) = 2 ^ j \<and> needed \<le> int (2 ^ j * 3 div 4)"
  using assms(2,3)
proof (induction "n - k" arbitrary: k)
  case (Suc d)
  show ?case
  proof (cases "needed > int (2 ^ Suc k * 3 div 4)")
    case True
    then have "Suc k < n" using assms(1) Suc.prems(1) by (cases "Suc k = n") auto
    moreover have "d = n - Suc k" using Suc.hyps(2) by simp
    ultimately obtain j where "Suc k < j" "j \<le> n" "slot_table_grow needed (2 ^ Suc k) = 2 ^ j" "needed \<le> int (2 ^ j * 3 div 4)"
      using Suc.hyps(1) [of "Suc k"] True by blast
    moreover have "slot_table_grow needed (2 ^ k) = slot_table_grow needed (2 ^ Suc k)"
      using True by (subst slot_table_grow.simps) (simp add: Let_def mult.commute)
    ultimately show ?thesis by (intro exI [of _ j]) simp
  next
    case False
    then have "slot_table_grow needed (2 ^ k) = 2 ^ Suc k"
      by (subst slot_table_grow.simps) (simp add: Let_def mult.commute)
    with False Suc.prems(1) show ?thesis by (intro exI [of _ "Suc k"]) simp
  qed
qed simp

lemma slot_table_shrink_ok:
  assumes "4 \<le> k" and "4 * c \<le> 3 * 2 ^ k"
  shows "\<exists>j. 4 \<le> j \<and> j \<le> k \<and> slot_table_shrink (int c) (2 ^ k) = 2 ^ j \<and> 4 * c \<le> 3 * 2 ^ j"
  using assms
proof (induction k)
  case (Suc k)
  show ?case
  proof (cases "2 ^ Suc k > (16 :: nat) \<and> int c \<le> int (2 ^ Suc k div 8)")
    case True
    have "4 \<le> k"
    proof (rule ccontr)
      assume "\<not> 4 \<le> k"
      with Suc.prems(1) have "Suc k = 4" by simp
      then have "(2 :: nat) ^ Suc k = 2 ^ 4" by (simp only:)
      with True show False by simp
    qed
    moreover have "4 * c \<le> 3 * 2 ^ k"
    proof -
      have "c \<le> 2 ^ k div 4" using True by simp
      then show ?thesis by linarith
    qed
    ultimately obtain j where "4 \<le> j" "j \<le> k" "slot_table_shrink (int c) (2 ^ k) = 2 ^ j" "4 * c \<le> 3 * 2 ^ j"
      using Suc.IH by blast
    moreover have "slot_table_shrink (int c) (2 ^ Suc k) = slot_table_shrink (int c) (2 ^ k)"
      using True by (subst slot_table_shrink.simps) auto
    ultimately show ?thesis by (intro exI [of _ j]) simp
  next
    case False
    then have "slot_table_shrink (int c) (2 ^ Suc k) = 2 ^ Suc k" by (subst slot_table_shrink.simps) auto
    with Suc.prems show ?thesis by (intro exI [of _ "Suc k"]) simp
  qed
qed simp

subsection \<open>The invariant\<close>

text \<open>
  The slots form a well-formed table of at most \<open>2\<^sup>2\<^sup>9\<close> slots, the two counters are the number of
  entries, and at most three quarters of the slots are taken.
\<close>

definition slot_table_inv ::
  "('s \<Rightarrow> u32) \<Rightarrow> ('s \<Rightarrow> 'k) \<Rightarrow> ('k \<Rightarrow> u32) \<Rightarrow> ('s, 'z) slot_table_scheme \<Rightarrow> bool" where
  "slot_table_inv hash key kh t \<longleftrightarrow>
     table_wf (slot_vacant hash) (slot_live hash) hash key kh (st_slots t) \<and>
     length (st_slots t) \<le> 2 ^ 29 \<and>
     st_count t = int (live_count (slot_live hash) (st_slots t)) \<and> st_used t = st_count t \<and>
     4 * live_count (slot_live hash) (st_slots t) \<le> 3 * length (st_slots t)"

text \<open>The largest number of entries for which the doubling stays below \<open>2\<^sup>2\<^sup>9\<close> slots.\<close>

abbreviation slot_table_limit :: int where
  "slot_table_limit \<equiv> 402653184"

locale slot_table_ops =
  fixes hash :: "'s \<Rightarrow> u32" and key :: "'s \<Rightarrow> 'k" and val :: "'s \<Rightarrow> 'v" and kh :: "'k \<Rightarrow> u32"
    and zero nil :: 's
  assumes hash_zero: "hash zero = 0" and hash_nil: "hash nil = 0"

sublocale slot_table_ops < probe_slots "\<lambda>s. hash s = 0" "\<lambda>s. 2 \<le> hash s" hash key val kh zero
  by unfold_locales (auto simp: hash_zero)

context slot_table_ops
begin

abbreviation inv :: "('s, 'z) slot_table_scheme \<Rightarrow> bool" where
  "inv t \<equiv> slot_table_inv hash key kh t"

abbreviation ents :: "('s, 'z) slot_table_scheme \<Rightarrow> 'k \<rightharpoonup> 'v" where
  "ents t \<equiv> entries (st_slots t)"

abbreviation held :: "('s, 'z) slot_table_scheme \<Rightarrow> 's multiset" where
  "held t \<equiv> live_mset (\<lambda>s. 2 \<le> hash s) (st_slots t)"

text \<open>The same entries, counters and further fields, in possibly other slots.\<close>

definition same :: "('s, 'z) slot_table_scheme \<Rightarrow> ('s, 'z) slot_table_scheme \<Rightarrow> bool" where
  "same t t' \<longleftrightarrow> ents t' = ents t \<and> held t' = held t \<and> st_count t' = st_count t \<and>
     slot_table.more t' = slot_table.more t"

lemma invD:
  assumes "inv t"
  shows "wf (st_slots t)" and "live_count (\<lambda>s. 2 \<le> hash s) (st_slots t) < length (st_slots t)"
    and "st_count t = int (card (dom (ents t)))" and "0 \<le> st_count t" and "st_used t = st_count t"
    and "\<exists>k. 4 \<le> k \<and> k \<le> 29 \<and> length (st_slots t) = 2 ^ k"
proof -
  show w: "wf (st_slots t)" using assms by (simp add: slot_table_inv_def)
  then obtain k where k: "k \<in> {4..30}" "length (st_slots t) = 2 ^ k" by (auto simp: table_wf_def table_size_ok_def)
  then have "0 < length (st_slots t)" by simp
  then show "live_count (\<lambda>s. 2 \<le> hash s) (st_slots t) < length (st_slots t)"
    using assms unfolding slot_table_inv_def by linarith
  have "2 ^ k \<le> (2 :: nat) ^ 29" using assms k(2) by (simp add: slot_table_inv_def)
  then have "k \<le> 29" by (rule power_le_imp_le_exp [rotated]) simp
  with k show "\<exists>k. 4 \<le> k \<and> k \<le> 29 \<and> length (st_slots t) = 2 ^ k" by auto
  show "st_count t = int (card (dom (ents t)))" "0 \<le> st_count t" "st_used t = st_count t"
    using assms table_entries_card [OF wf_unique [OF w], of val] by (simp_all add: slot_table_inv_def)
qed

lemma adjust_ok:
  assumes t: "inv t" and k: "4 \<le> k" "k \<le> 29" and load: "4 * card (dom (ents t)) \<le> 3 * 2 ^ k"
  shows "\<exists>t'. slot_table_adjust_capacity hash zero t (2 ^ k) = Some t' \<and> inv t' \<and> same t t' \<and>
    length (st_slots t') = 2 ^ k"
proof -
  let ?live = "\<lambda>s. 2 \<le> hash s"
  have wf: "wf (st_slots t)" using t by (rule invD)
  have c: "card (dom (ents t)) = live_count ?live (st_slots t)" by (rule table_entries_card [OF wf_unique [OF wf]])
  have "0 < (2 :: nat) ^ k" by simp
  then have room: "live_count ?live (st_slots t) < 2 ^ k" using load c by linarith
  obtain T where T: "table_rehash (\<lambda>s. hash s = 0) ?live hash (st_slots t) (replicate (2 ^ k) zero) = Some T"
    "length T = 2 ^ k" "wf T" "entries T = entries (st_slots t)" "live_count ?live T = live_count ?live (st_slots t)"
    "live_mset ?live T = live_mset ?live (st_slots t)"
    using rehash_ok [OF wf _ room] k by auto
  have "(16 :: nat) = 2 ^ 4" by simp
  also have "\<dots> \<le> 2 ^ k" using k(1) by (intro power_increasing) simp_all
  finally have big: "\<not> 2 ^ k < (16 :: nat)" by simp
  have "(2 :: nat) ^ k \<le> 2 ^ 29" using k(2) by (intro power_increasing) simp_all
  then show ?thesis
    using t T big load c power2_and [of k]
    by (simp add: slot_table_adjust_capacity_def same_def slot_table_inv_def live_count_def Let_def)
qed

lemma ensure_ok:
  assumes t: "inv t" and lim: "st_count t < slot_table_limit"
  shows "\<exists>t'. slot_table_ensure_capacity hash zero t 1 = Some t' \<and> inv t' \<and> same t t' \<and>
    4 * (st_count t' + 1) \<le> 3 * int (length (st_slots t'))"
proof -
  obtain k where k: "4 \<le> k" "k \<le> 29" "length (st_slots t) = 2 ^ k" using invD(6) [OF t] by blast
  have cnt: "st_count t = int (card (dom (ents t)))" "st_used t = st_count t" using invD [OF t] by simp_all
  show ?thesis
  proof (cases "st_count t + 1 \<le> int (2 ^ k * 3 div 4)")
    case True
    then have "slot_table_ensure_capacity hash zero t 1 = Some t"
      by (simp add: slot_table_ensure_capacity_def k(3) cnt(2) Let_def)
    moreover have "4 * (st_count t + 1) \<le> 3 * int (length (st_slots t))"
      using load_floor [of "2 ^ k"] True unfolding k(3) by simp
    ultimately show ?thesis using t by (auto simp: same_def)
  next
    case False
    have "st_count t + 1 \<le> int (2 ^ 29 * 3 div 4)" using lim by simp
    moreover have "k < 29" using False lim k(2) by (cases "k = 29") simp_all
    ultimately obtain j where j: "k < j" "j \<le> 29" "slot_table_grow (st_count t + 1) (2 ^ k) = 2 ^ j"
      "st_count t + 1 \<le> int (2 ^ j * 3 div 4)"
      using slot_table_grow_ok [of "st_count t + 1" 29 k] False by auto
    have l: "4 * (st_count t + 1) \<le> 3 * 2 ^ j"
      using load_floor [of "2 ^ j"] j(4) by simp
    then have "int (4 * card (dom (ents t))) \<le> int (3 * 2 ^ j)" using cnt(1) by simp
    then have "4 * card (dom (ents t)) \<le> 3 * 2 ^ j" by (simp only: of_nat_le_iff)
    then obtain t' where "slot_table_adjust_capacity hash zero t (2 ^ j) = Some t'" "inv t'" "same t t'"
      "length (st_slots t') = 2 ^ j" using adjust_ok [OF t _ j(2)] j(1) k(1) by auto
    then show ?thesis using False l j(3)
      by (auto simp: slot_table_ensure_capacity_def k(3) cnt(2) Let_def same_def)
  qed
qed

lemma compact_ok:
  assumes t: "inv t"
  shows "\<exists>t'. slot_table_maybe_compact hash zero t = Some t' \<and> inv t' \<and> same t t'"
proof -
  obtain k where k: "4 \<le> k" "k \<le> 29" "length (st_slots t) = 2 ^ k" using invD(6) [OF t] by blast
  have wf: "wf (st_slots t)" using t by (rule invD)
  have cnt: "st_count t = int (card (dom (ents t)))" using invD [OF t] by simp
  have load: "4 * card (dom (ents t)) \<le> 3 * 2 ^ k"
    using t k(3) table_entries_card [OF wf_unique [OF wf], of val] by (simp add: slot_table_inv_def)
  have "(16 :: nat) = 2 ^ 4" by simp
  also have "\<dots> \<le> 2 ^ k" using k(1) by (intro power_increasing) simp_all
  finally have big: "\<not> 2 ^ k < (16 :: nat)" by simp
  consider (empty_big) "st_count t = 0" "2 ^ k > (16 :: nat)" | (empty) "st_count t = 0" "\<not> 2 ^ k > (16 :: nat)"
    | (shrink) "st_count t \<noteq> 0" "2 ^ k > (16 :: nat) \<and> st_count t \<le> int (2 ^ k div 8)"
    | (keep) "st_count t \<noteq> 0" "\<not> (2 ^ k > (16 :: nat) \<and> st_count t \<le> int (2 ^ k div 8))"
    by blast
  then show ?thesis
  proof cases
    case empty_big
    then have "4 * card (dom (ents t)) \<le> 3 * 2 ^ 4" using cnt by simp
    from adjust_ok [OF t _ _ this] obtain t' where "slot_table_adjust_capacity hash zero t 16 = Some t'" "inv t'" "same t t'"
      by auto
    then show ?thesis using empty_big by (simp add: slot_table_maybe_compact_def k(3) Let_def)
  next
    case empty
    let ?t = "t\<lparr>st_slots := replicate 16 zero, st_used := 0\<rparr>"
    have 16: "2 ^ k = (16 :: nat)" using empty big by simp
    have e: "ents t = Map.empty" "held t = {#}"
      using empty t table_entries_card [OF wf_unique [OF wf], of val] cnt
      by (simp_all add: live_mset_def live_count_def slot_table_inv_def table_entries_def)
    have "inv ?t \<and> same t ?t"
      using fresh_ok [of 4] empty t e by (simp add: slot_table_inv_def same_def)
    then show ?thesis using empty big by (simp add: slot_table_maybe_compact_def k(3) 16 Let_def)
  next
    case shrink
    obtain j where j: "4 \<le> j" "j \<le> k" "slot_table_shrink (st_count t) (2 ^ k) = 2 ^ j"
      "4 * card (dom (ents t)) \<le> 3 * 2 ^ j"
      using slot_table_shrink_ok [OF k(1) load] cnt by auto
    then obtain t' where "slot_table_adjust_capacity hash zero t (2 ^ j) = Some t'" "inv t'" "same t t'"
      using adjust_ok [OF t j(1) _ j(4)] k(2) by auto
    then show ?thesis using shrink big t j(3) by (auto simp: slot_table_maybe_compact_def k(3) Let_def same_def)
  next
    case keep
    then have "slot_table_maybe_compact hash zero t = Some t"
      using big by (auto simp: slot_table_maybe_compact_def k(3) Let_def)
    then show ?thesis using t by (simp add: same_def)
  qed
qed

lemma backshift_ok:
  assumes t: "inv t" and at: "found_at (st_slots t) k idx True"
  shows "\<exists>t'. slot_table_backshift_at hash nil t idx = Some t' \<and> inv t' \<and> ents t' = (ents t)(k := None) \<and>
    add_mset (st_slots t ! unat idx) (held t') = held t \<and> st_count t' = st_count t - 1 \<and>
    slot_table.more t' = slot_table.more t"
proof -
  let ?live = "\<lambda>s. 2 \<le> hash s"
  obtain T hole where T: "table_backshift ?live hash (table_mask (st_slots t)) (length (st_slots t)) (st_slots t) idx
      ((idx + 1) AND table_mask (st_slots t)) = Some (T, hole)" "length T = length (st_slots t)" "wf (T[unat hole := nil])"
    "entries (T[unat hole := nil]) = (ents t)(k := None)"
    "live_count ?live (T[unat hole := nil]) + 1 = live_count ?live (st_slots t)"
    "add_mset (st_slots t ! unat idx) (live_mset ?live (T[unat hole := nil])) = held t"
    using delete_ok [OF invD(1,2) [OF t] at, of nil] hash_nil by auto
  then show ?thesis using t by (auto simp: slot_table_backshift_at_def slot_table_inv_def Let_def)
qed

lemma find_slot_ok:
  assumes t: "inv t" and match: "\<And>s. s \<in> set (st_slots t) \<Longrightarrow> 2 \<le> hash s \<Longrightarrow> match s \<longleftrightarrow> key s = k"
  shows "\<exists>idx found. table_find (\<lambda>s. hash s = 0) match (st_slots t) (kh k) = Some (idx, found) \<and>
    found_at (st_slots t) k idx found"
  using find_ok [OF invD(1,2) [OF t] match] by blast

lemma fill_ok:
  assumes t: "inv t" and at: "found_at (st_slots t) (key s) idx False"
    and s: "2 \<le> hash s" "hash s = kh (key s)" and room: "4 * (st_count t + 1) \<le> 3 * int (length (st_slots t))"
    and t': "st_slots t' = (st_slots t)[unat idx := s]" "st_count t' = st_count t + 1" "st_used t' = st_used t + 1"
  shows "inv t'" and "ents t' = (ents t)(key s \<mapsto> val s)" and "held t' = add_mset s (held t)"
proof -
  note ins = insert_ok [OF invD(1) [OF t] at s]
  show "ents t' = (ents t)(key s \<mapsto> val s)" "held t' = add_mset s (held t)" using ins t' by simp_all
  show "inv t'" using ins t' t room by (simp add: slot_table_inv_def)
qed

lemma overwrite_ok:
  assumes t: "inv t" and at: "found_at (st_slots t) (key s) idx True"
    and s: "2 \<le> hash s" "hash s = hash (st_slots t ! unat idx)"
    and t': "st_slots t' = (st_slots t)[unat idx := s]" "st_count t' = st_count t" "st_used t' = st_used t"
  shows "inv t'" and "ents t' = (ents t)(key s \<mapsto> val s)"
    and "add_mset (st_slots t ! unat idx) (held t') = add_mset s (held t)"
proof -
  note rep = replace_ok [OF invD(1) [OF t] at s]
  show "ents t' = (ents t)(key s \<mapsto> val s)" "add_mset (st_slots t ! unat idx) (held t') = add_mset s (held t)"
    using rep t' by simp_all
  show "inv t'" using rep t' t by (simp add: slot_table_inv_def)
qed

end

end
