(* ===== verification/Store_Spec.thy ===== *)
theory Store_Spec
  imports Tablo_Prelude
begin

text \<open>
  What the virtual machine relies on in its keyed tables: the interface of a finite map whose operations
  may fail to return.  The client lemma, proved once here, says that any sequence of commands below the
  capacity limit returns, and has the effect it has on a finite map.  The table of globals and the
  string pool have no deletion; maps and sets do.
\<close>

datatype ('c, 'v) kv_cmd = Put 'c 'v | Del 'c

fun kv_cmd_key :: "('c, 'v) kv_cmd \<Rightarrow> 'c" where
  "kv_cmd_key (Put c v) = c"
| "kv_cmd_key (Del c) = c"

text \<open>The commands on a finite map, and their execution with operations that may not return.\<close>

fun kv_spec :: "('c \<Rightarrow> 'k option) \<Rightarrow> ('k \<rightharpoonup> 'v) \<Rightarrow> ('c, 'v) kv_cmd \<Rightarrow> ('k \<rightharpoonup> 'v)" where
  "kv_spec key f (Put c v) = (case key c of None \<Rightarrow> f | Some k \<Rightarrow> f(k \<mapsto> v))"
| "kv_spec key f (Del c) = (case key c of None \<Rightarrow> f | Some k \<Rightarrow> f(k := None))"

fun kv_run :: "('m \<Rightarrow> 'c \<Rightarrow> 'v \<Rightarrow> 'm option) \<Rightarrow> ('m \<Rightarrow> 'c \<Rightarrow> 'm option) \<Rightarrow> 'm \<Rightarrow> ('c, 'v) kv_cmd list \<Rightarrow> 'm option" where
  "kv_run put del m [] = Some m"
| "kv_run put del m (Put c v # cmds) =
     (case put m c v of None \<Rightarrow> None | Some m \<Rightarrow> kv_run put del m cmds)"
| "kv_run put del m (Del c # cmds) =
     (case del m c of None \<Rightarrow> None | Some m \<Rightarrow> kv_run put del m cmds)"

locale kv_table =
  fixes inv :: "'m \<Rightarrow> bool" and abs :: "'m \<Rightarrow> 'k \<rightharpoonup> 'v" and key :: "'c \<Rightarrow> 'k option"
    and create :: 'm and put :: "'m \<Rightarrow> 'c \<Rightarrow> 'v \<Rightarrow> 'm option" and look :: "'m \<Rightarrow> 'c \<Rightarrow> 'v option option"
    and limit :: nat
  assumes create_inv: "inv create" and create_abs: "abs create = Map.empty"
    and finite_dom: "inv m \<Longrightarrow> finite (dom (abs m))"
    and put_ok: "inv m \<Longrightarrow> key c = Some k \<Longrightarrow> card (dom (abs m)) < limit \<Longrightarrow>
      \<exists>m'. put m c v = Some m' \<and> inv m' \<and> abs m' = (abs m)(k \<mapsto> v)"
    and look_ok: "inv m \<Longrightarrow> key c = Some k \<Longrightarrow> look m c = Some (abs m k)"
begin

lemma put_then_look:
  assumes "inv m" and "key c = Some k" and "card (dom (abs m)) < limit" and "key c' = Some k'"
  shows "\<exists>m'. put m c v = Some m' \<and> look m' c' = (if k' = k then Some (Some v) else look m c')"
proof -
  obtain m' where "put m c v = Some m'" "inv m'" "abs m' = (abs m)(k \<mapsto> v)" using put_ok [OF assms(1-3)] by blast
  then show ?thesis using look_ok [OF _ assms(4)] assms(1) by auto
qed

end

locale kv_table_delete = kv_table +
  fixes del :: "'m \<Rightarrow> 'c \<Rightarrow> 'm option"
  assumes del_ok: "inv m \<Longrightarrow> key c = Some k \<Longrightarrow> \<exists>m'. del m c = Some m' \<and> inv m' \<and> abs m' = (abs m)(k := None)"
begin

lemma run_step:
  assumes "inv m" and "card (dom (abs m)) + length cmds \<le> limit" and "\<forall>cmd\<in>set cmds. key (kv_cmd_key cmd) \<noteq> None"
  shows "\<exists>m'. kv_run put del m cmds = Some m' \<and> inv m' \<and> abs m' = foldl (kv_spec key) (abs m) cmds"
  using assms
proof (induction cmds arbitrary: m)
  case (Cons cmd cmds)
  show ?case
  proof (cases cmd)
    case (Put c v)
    with Cons.prems(3) obtain k where k: "key c = Some k" by auto
    obtain m' where m': "put m c v = Some m'" "inv m'" "abs m' = (abs m)(k \<mapsto> v)"
      using put_ok [OF Cons.prems(1) k] Cons.prems(2) by auto
    have "card (dom (abs m')) \<le> card (dom (abs m)) + 1"
      unfolding m'(3) using finite_dom [OF Cons.prems(1)] by (simp add: card_insert_if)
    then have "card (dom (abs m')) + length cmds \<le> limit" using Cons.prems(2) by simp
    moreover have "foldl (kv_spec key) (abs m) (cmd # cmds) = foldl (kv_spec key) (abs m') cmds"
      unfolding m'(3) using Put k by simp
    ultimately show ?thesis using Cons.IH [OF m'(2)] Cons.prems(3) Put m'(1) by simp
  next
    case (Del c)
    with Cons.prems(3) obtain k where k: "key c = Some k" by auto
    obtain m' where m': "del m c = Some m'" "inv m'" "abs m' = (abs m)(k := None)"
      using del_ok [OF Cons.prems(1) k] by blast
    have "card (dom (abs m')) \<le> card (dom (abs m))"
      unfolding m'(3) using finite_dom [OF Cons.prems(1)] by (simp add: card_mono)
    then have "card (dom (abs m')) + length cmds \<le> limit" using Cons.prems(2) by simp
    moreover have "foldl (kv_spec key) (abs m) (cmd # cmds) = foldl (kv_spec key) (abs m') cmds"
      unfolding m'(3) using Del k by simp
    ultimately show ?thesis using Cons.IH [OF m'(2)] Cons.prems(3) Del m'(1) by simp
  qed
qed simp

lemma run_ok:
  assumes "length cmds \<le> limit" and "\<forall>cmd\<in>set cmds. key (kv_cmd_key cmd) \<noteq> None"
  shows "\<exists>m. kv_run put del create cmds = Some m \<and> inv m \<and> abs m = foldl (kv_spec key) Map.empty cmds"
  using run_step [OF create_inv _ assms(2)] assms(1) by (simp add: create_abs)

end

end
