(* ===== verification/Obj_Map.thy ===== *)
theory Obj_Map
  imports Obj_Array Slot_Table Store_Spec
begin

text \<open>
  Maps of \<^verbatim>\<open>src/src/vm.c\<close> (\<^verbatim>\<open>obj_map_*\<close>): hash tables from integer and string keys to values.  Every
  operation returns its result and the object events it causes, in order; \<open>None\<close> is a probe loop
  that never ends.  A null pointer is \<open>None\<close> in an argument.  The lemmas show that the operations implement a
  finite map, that the loops end, that the counters are right, and that the references a map holds are
  those to its entries.  The probe statistics (\<^verbatim>\<open>hash_probe_record_*\<close>) and the registration with the
  cycle collector are not part of the model.
\<close>

section \<open>The model\<close>

record MapSlot =
  ms_hash :: u32
  ms_key :: Value
  ms_value :: Value

record ObjMap = "MapSlot slot_table" +
  om_ref_count :: int

definition map_zero_slot :: MapSlot where
  "map_zero_slot = \<lparr>ms_hash = 0, ms_key = VAL_INT 0, ms_value = VAL_INT 0\<rparr>"

definition map_nil_slot :: MapSlot where
  "map_nil_slot = \<lparr>ms_hash = 0, ms_key = VAL_NIL, ms_value = VAL_NIL\<rparr>"

definition obj_map_create :: "ObjMap" where
  "obj_map_create = \<lparr>st_slots = replicate 16 map_zero_slot, st_count = 0, st_used = 0, om_ref_count = 1\<rparr>"

definition obj_map_retain :: "ObjMap option \<Rightarrow> ObjMap option" where
  "obj_map_retain om = map_option (\<lambda>m. m\<lparr>om_ref_count := om_ref_count m + 1\<rparr>) om"

definition obj_map_free :: "ObjMap option \<Rightarrow> obj_event list" where
  "obj_map_free om =
     (case om of
        None \<Rightarrow> []
      | Some m \<Rightarrow>
          concat (map (\<lambda>slot. if ms_hash slot < 2 then [] else [Release (ms_key slot), Release (ms_value slot)]) (st_slots m)))"

definition obj_map_release :: "ObjMap option \<Rightarrow> ObjMap option \<times> obj_event list" where
  "obj_map_release om =
     (case om of
        None \<Rightarrow> (None, [])
      | Some m \<Rightarrow>
          let m = m\<lparr>om_ref_count := om_ref_count m - 1\<rparr>
          in if om_ref_count m \<le> 0 then (None, obj_map_free (Some m)) else (Some m, []))"

definition map_slot_key_equals_string_chars :: "MapSlot \<Rightarrow> string \<Rightarrow> bool" where
  "map_slot_key_equals_string_chars slot key_chars =
     (if ms_hash slot < 2 then False
      else case ms_key slot of VAL_STRING (Some slot_key) \<Rightarrow> os_chars slot_key = key_chars | _ \<Rightarrow> False)"

definition map_slot_key_equals_string_obj :: "MapSlot \<Rightarrow> ObjString \<Rightarrow> bool" where
  "map_slot_key_equals_string_obj slot key =
     (if ms_hash slot < 2 then False
      else case ms_key slot of VAL_STRING (Some slot_key) \<Rightarrow> os_chars slot_key = os_chars key | _ \<Rightarrow> False)"

definition obj_map_adjust_capacity :: "ObjMap \<Rightarrow> nat \<Rightarrow> ObjMap option" where
  "obj_map_adjust_capacity = slot_table_adjust_capacity ms_hash map_zero_slot"

definition obj_map_ensure_capacity :: "ObjMap \<Rightarrow> int \<Rightarrow> ObjMap option" where
  "obj_map_ensure_capacity = slot_table_ensure_capacity ms_hash map_zero_slot"

definition obj_map_maybe_compact_after_delete :: "ObjMap \<Rightarrow> ObjMap option" where
  "obj_map_maybe_compact_after_delete = slot_table_maybe_compact ms_hash map_zero_slot"

definition obj_map_backshift_delete_at :: "ObjMap \<Rightarrow> u32 \<Rightarrow> ObjMap option" where
  "obj_map_backshift_delete_at = slot_table_backshift_at ms_hash map_nil_slot"

definition obj_map_find_slot :: "ObjMap \<Rightarrow> Value \<Rightarrow> u32 \<Rightarrow> (u32 \<times> bool) option" where
  "obj_map_find_slot om key hash =
     table_find (\<lambda>slot. ms_hash slot = 0) (\<lambda>slot. ms_hash slot = hash \<and> value_equals_key_fast (ms_key slot) key)
       (st_slots om) hash"

definition obj_map_find_slot_string :: "ObjMap \<Rightarrow> ObjString \<Rightarrow> u32 \<Rightarrow> (u32 \<times> bool) option" where
  "obj_map_find_slot_string om key hash =
     table_find (\<lambda>slot. ms_hash slot = 0) (\<lambda>slot. ms_hash slot = hash \<and> map_slot_key_equals_string_obj slot key)
       (st_slots om) hash"

definition obj_map_find_slot_string_chars :: "ObjMap \<Rightarrow> string \<Rightarrow> u32 \<Rightarrow> (u32 \<times> bool) option" where
  "obj_map_find_slot_string_chars om key_chars hash =
     table_find (\<lambda>slot. ms_hash slot = 0) (\<lambda>slot. ms_hash slot = hash \<and> map_slot_key_equals_string_chars slot key_chars)
       (st_slots om) hash"

text \<open>The hash of a string key: filling the cache of the key object is an event.\<close>

definition key_hash_events :: "ObjString \<Rightarrow> obj_event list" where
  "key_hash_events key = (if os_hash key = UINT32_MAX then [CacheHash key] else [])"

subsection \<open>Setting\<close>

text \<open>
  The common end of the three setters: store over the old value, or fill the free slot.  \<open>retain_key\<close>
  are the events for the new key: a key that was just created already carries its reference.
\<close>

definition obj_map_store ::
  "ObjMap \<Rightarrow> u32 \<Rightarrow> bool \<Rightarrow> u32 \<Rightarrow> Value \<Rightarrow> obj_event list \<Rightarrow> Value \<Rightarrow> ObjMap \<times> obj_event list" where
  "obj_map_store om idx found hash key retain_key value =
     (let slot = st_slots om ! unat idx
      in if found
         then (om\<lparr>st_slots := (st_slots om)[unat idx := slot\<lparr>ms_value := value\<rparr>]\<rparr>,
               [Release (ms_value slot), Retain value])
         else (om\<lparr>st_slots := (st_slots om)[unat idx := \<lparr>ms_hash = hash, ms_key = key, ms_value = value\<rparr>],
                  st_used := (if ms_hash slot = 0 then st_used om + 1 else st_used om),
                  st_count := st_count om + 1\<rparr>,
               retain_key @ [Retain value]))"

definition obj_map_set_string :: "ObjMap option \<Rightarrow> ObjString option \<Rightarrow> Value \<Rightarrow> (ObjMap option \<times> obj_event list) option" where
  "obj_map_set_string om key value =
     (case (om, key) of
        (Some m, Some k) \<Rightarrow>
          (case obj_map_ensure_capacity m 1 of
             None \<Rightarrow> None
           | Some m \<Rightarrow>
               (case map_string_hash_obj key of
                  (h, key') \<Rightarrow>
                    let hash = h OR 2
                    in case obj_map_find_slot_string m k hash of
                         None \<Rightarrow> None
                       | Some (idx, found) \<Rightarrow>
                           (case obj_map_store m idx found hash (VAL_STRING key') [Retain (VAL_STRING key')] value of
                              (m', ev) \<Rightarrow> Some (Some m', key_hash_events k @ ev))))
      | _ \<Rightarrow> Some (om, []))"

definition obj_map_set :: "ObjMap option \<Rightarrow> Value \<Rightarrow> Value \<Rightarrow> (ObjMap option \<times> obj_event list) option" where
  "obj_map_set om key value =
     (case om of
        None \<Rightarrow> Some (None, [])
      | Some m \<Rightarrow>
          (case key of
             VAL_STRING str \<Rightarrow> obj_map_set_string om str value
           | VAL_INT i \<Rightarrow>
               (case obj_map_ensure_capacity m 1 of
                  None \<Rightarrow> None
                | Some m \<Rightarrow>
                    let hash = fst (value_hash key) OR 2
                    in case obj_map_find_slot m key hash of
                         None \<Rightarrow> None
                       | Some (idx, found) \<Rightarrow>
                           (case obj_map_store m idx found hash key [Retain key] value of (m', ev) \<Rightarrow> Some (Some m', ev)))
           | _ \<Rightarrow> Some (om, [])))"

text \<open>The characters carry their length, which is never negative here.\<close>

definition obj_map_set_cstr_n :: "ObjMap option \<Rightarrow> string option \<Rightarrow> Value \<Rightarrow> (ObjMap option \<times> obj_event list) option" where
  "obj_map_set_cstr_n om key_chars value =
     (case (om, key_chars) of
        (Some m, Some cs) \<Rightarrow>
          (case obj_map_ensure_capacity m 1 of
             None \<Rightarrow> None
           | Some m \<Rightarrow>
               let hash = map_string_hash_chars (Some cs) OR 2
               in case obj_map_find_slot_string_chars m cs hash of
                    None \<Rightarrow> None
                  | Some (idx, found) \<Rightarrow>
                      (case obj_map_store m idx found hash (VAL_STRING (Some (obj_string_create cs))) [] value of
                         (m', ev) \<Rightarrow> Some (Some m', ev)))
      | _ \<Rightarrow> Some (om, []))"

definition obj_map_set_cstr :: "ObjMap option \<Rightarrow> string option \<Rightarrow> Value \<Rightarrow> (ObjMap option \<times> obj_event list) option" where
  "obj_map_set_cstr om key_chars value =
     (case key_chars of None \<Rightarrow> Some (om, []) | Some cs \<Rightarrow> obj_map_set_cstr_n om (Some (cstr cs)) value)"

subsection \<open>Reading\<close>

text \<open>
  The probe loop of the getters and of \<^verbatim>\<open>obj_map_has\<close> and its variants: the value of the matching slot,
  or \<open>None\<close> at an empty slot.
\<close>

definition obj_map_lookup :: "ObjMap \<Rightarrow> (MapSlot \<Rightarrow> bool) \<Rightarrow> u32 \<Rightarrow> Value option option" where
  "obj_map_lookup om match hash =
     (case table_find (\<lambda>slot. ms_hash slot = 0) (\<lambda>slot. ms_hash slot = hash \<and> match slot) (st_slots om) hash of
        None \<Rightarrow> None
      | Some (idx, found) \<Rightarrow> Some (if found then Some (ms_value (st_slots om ! unat idx)) else None))"

text \<open>The result of a getter: the value with a reference for the caller, or nil.\<close>

definition obj_map_result :: "Value option \<Rightarrow> Value \<times> obj_event list" where
  "obj_map_result v = (case v of None \<Rightarrow> (VAL_NIL, []) | Some v \<Rightarrow> (v, [Retain v]))"

definition obj_map_get_string :: "ObjMap option \<Rightarrow> ObjString option \<Rightarrow> (Value \<times> obj_event list) option" where
  "obj_map_get_string om key =
     (case (om, key) of
        (Some m, Some k) \<Rightarrow>
          let hash = fst (map_string_hash_obj key) OR 2
          in map_option (\<lambda>v. case obj_map_result v of (r, ev) \<Rightarrow> (r, key_hash_events k @ ev))
               (obj_map_lookup m (\<lambda>slot. map_slot_key_equals_string_obj slot k) hash)
      | _ \<Rightarrow> Some (VAL_NIL, []))"

definition obj_map_get :: "ObjMap option \<Rightarrow> Value \<Rightarrow> (Value \<times> obj_event list) option" where
  "obj_map_get om key =
     (case om of
        None \<Rightarrow> Some (VAL_NIL, [])
      | Some m \<Rightarrow>
          (case key of
             VAL_STRING str \<Rightarrow> obj_map_get_string om str
           | VAL_INT i \<Rightarrow>
               let hash = fst (value_hash key) OR 2
               in map_option obj_map_result (obj_map_lookup m (\<lambda>slot. value_equals_key_fast (ms_key slot) key) hash)
           | _ \<Rightarrow> Some (VAL_NIL, [])))"

definition obj_map_get_cstr_n :: "ObjMap option \<Rightarrow> string option \<Rightarrow> (Value \<times> obj_event list) option" where
  "obj_map_get_cstr_n om key_chars =
     (case (om, key_chars) of
        (Some m, Some cs) \<Rightarrow>
          let hash = map_string_hash_chars (Some cs) OR 2
          in map_option obj_map_result (obj_map_lookup m (\<lambda>slot. map_slot_key_equals_string_chars slot cs) hash)
      | _ \<Rightarrow> Some (VAL_NIL, []))"

definition obj_map_get_cstr :: "ObjMap option \<Rightarrow> string option \<Rightarrow> (Value \<times> obj_event list) option" where
  "obj_map_get_cstr om key_chars =
     (case key_chars of None \<Rightarrow> Some (VAL_NIL, []) | Some cs \<Rightarrow> obj_map_get_cstr_n om (Some (cstr cs)))"

definition obj_map_has_string :: "ObjMap option \<Rightarrow> ObjString option \<Rightarrow> (bool \<times> obj_event list) option" where
  "obj_map_has_string om key =
     (case (om, key) of
        (Some m, Some k) \<Rightarrow>
          let hash = fst (map_string_hash_obj key) OR 2
          in map_option (\<lambda>v. (v \<noteq> None, key_hash_events k))
               (obj_map_lookup m (\<lambda>slot. map_slot_key_equals_string_obj slot k) hash)
      | _ \<Rightarrow> Some (False, []))"

definition obj_map_has :: "ObjMap option \<Rightarrow> Value \<Rightarrow> (bool \<times> obj_event list) option" where
  "obj_map_has om key =
     (case om of
        None \<Rightarrow> Some (False, [])
      | Some m \<Rightarrow>
          (case key of
             VAL_STRING str \<Rightarrow> obj_map_has_string om str
           | VAL_INT i \<Rightarrow>
               let hash = fst (value_hash key) OR 2
               in map_option (\<lambda>v. (v \<noteq> None, []))
                    (obj_map_lookup m (\<lambda>slot. value_equals_key_fast (ms_key slot) key) hash)
           | _ \<Rightarrow> Some (False, [])))"

definition obj_map_has_cstr_n :: "ObjMap option \<Rightarrow> string option \<Rightarrow> bool option" where
  "obj_map_has_cstr_n om key_chars =
     (case (om, key_chars) of
        (Some m, Some cs) \<Rightarrow>
          let hash = map_string_hash_chars (Some cs) OR 2
          in map_option (\<lambda>v. v \<noteq> None) (obj_map_lookup m (\<lambda>slot. map_slot_key_equals_string_chars slot cs) hash)
      | _ \<Rightarrow> Some False)"

definition obj_map_has_cstr :: "ObjMap option \<Rightarrow> string option \<Rightarrow> bool option" where
  "obj_map_has_cstr om key_chars =
     (case key_chars of None \<Rightarrow> Some False | Some cs \<Rightarrow> obj_map_has_cstr_n om (Some (cstr cs)))"

text \<open>The flag, what is written to \<open>out\<close>, and the events; \<open>out\<close> is given.\<close>

definition obj_map_try_get_cstr :: "ObjMap option \<Rightarrow> string option \<Rightarrow> (bool \<times> Value \<times> obj_event list) option" where
  "obj_map_try_get_cstr om key =
     (case (om, key) of
        (Some m, Some cs) \<Rightarrow>
          let key_chars = cstr cs; hash = map_string_hash_chars (Some key_chars) OR 2
          in map_option (\<lambda>v. (v \<noteq> None, obj_map_result v))
               (obj_map_lookup m (\<lambda>slot. map_slot_key_equals_string_chars slot key_chars) hash)
      | _ \<Rightarrow> Some (False, VAL_NIL, []))"

subsection \<open>Deleting and listing\<close>

text \<open>The probe loop of the three deletions with its exit at the matching slot.\<close>

definition obj_map_delete_slot :: "ObjMap \<Rightarrow> (MapSlot \<Rightarrow> bool) \<Rightarrow> u32 \<Rightarrow> (ObjMap \<times> obj_event list) option" where
  "obj_map_delete_slot om match hash =
     (case table_find (\<lambda>slot. ms_hash slot = 0) (\<lambda>slot. ms_hash slot = hash \<and> match slot) (st_slots om) hash of
        None \<Rightarrow> None
      | Some (idx, found) \<Rightarrow>
          if \<not> found then Some (om, [])
          else let slot = st_slots om ! unat idx
               in case obj_map_backshift_delete_at om idx of
                    None \<Rightarrow> None
                  | Some om \<Rightarrow>
                      map_option (\<lambda>om. (om, [Release (ms_key slot), Release (ms_value slot)]))
                        (obj_map_maybe_compact_after_delete om))"

definition obj_map_delete_string :: "ObjMap option \<Rightarrow> ObjString option \<Rightarrow> (ObjMap option \<times> obj_event list) option" where
  "obj_map_delete_string om key =
     (case (om, key) of
        (Some m, Some k) \<Rightarrow>
          let hash = fst (map_string_hash_obj key) OR 2
          in map_option (\<lambda>(m, ev). (Some m, key_hash_events k @ ev))
               (obj_map_delete_slot m (\<lambda>slot. map_slot_key_equals_string_obj slot k) hash)
      | _ \<Rightarrow> Some (om, []))"

definition obj_map_delete :: "ObjMap option \<Rightarrow> Value \<Rightarrow> (ObjMap option \<times> obj_event list) option" where
  "obj_map_delete om key =
     (case om of
        None \<Rightarrow> Some (None, [])
      | Some m \<Rightarrow>
          (case key of
             VAL_STRING str \<Rightarrow> obj_map_delete_string om str
           | VAL_INT i \<Rightarrow>
               let hash = fst (value_hash key) OR 2
               in map_option (\<lambda>(m, ev). (Some m, ev))
                    (obj_map_delete_slot m (\<lambda>slot. value_equals_key_fast (ms_key slot) key) hash)
           | _ \<Rightarrow> Some (om, [])))"

definition obj_map_delete_cstr_n :: "ObjMap option \<Rightarrow> string option \<Rightarrow> (ObjMap option \<times> obj_event list) option" where
  "obj_map_delete_cstr_n om key_chars =
     (case (om, key_chars) of
        (Some m, Some cs) \<Rightarrow>
          let hash = map_string_hash_chars (Some cs) OR 2
          in map_option (\<lambda>(m, ev). (Some m, ev))
               (obj_map_delete_slot m (\<lambda>slot. map_slot_key_equals_string_chars slot cs) hash)
      | _ \<Rightarrow> Some (om, []))"

definition obj_map_delete_cstr :: "ObjMap option \<Rightarrow> string option \<Rightarrow> (ObjMap option \<times> obj_event list) option" where
  "obj_map_delete_cstr om key_chars =
     (case key_chars of None \<Rightarrow> Some (om, []) | Some cs \<Rightarrow> obj_map_delete_cstr_n om (Some (cstr cs)))"

definition obj_map_count :: "ObjMap option \<Rightarrow> int" where
  "obj_map_count om = (case om of None \<Rightarrow> 0 | Some m \<Rightarrow> st_count m)"

definition obj_map_keys :: "ObjMap option \<Rightarrow> ObjArray \<Rightarrow> ObjArray \<times> obj_event list" where
  "obj_map_keys om result =
     (case om of
        None \<Rightarrow> (result, [])
      | Some m \<Rightarrow>
          foldl (\<lambda>(result, ev) slot.
              if ms_hash slot < 2 then (result, ev) else (obj_array_push result (ms_key slot), ev @ [Retain (ms_key slot)]))
            (result, []) (st_slots m))"

definition obj_map_values :: "ObjMap option \<Rightarrow> ObjArray \<Rightarrow> ObjArray \<times> obj_event list" where
  "obj_map_values om result =
     (case om of
        None \<Rightarrow> (result, [])
      | Some m \<Rightarrow>
          foldl (\<lambda>(result, ev) slot.
              if ms_hash slot < 2 then (result, ev) else (obj_array_push result (ms_value slot), ev @ [Retain (ms_value slot)]))
            (result, []) (st_slots m))"

section \<open>Maps as finite maps\<close>

datatype map_key = IntKey u64 | StrKey string

text \<open>The cached hash of a string object is unset or right.\<close>

definition string_ok :: "ObjString \<Rightarrow> bool" where
  "string_ok s \<longleftrightarrow> os_hash s = UINT32_MAX \<or> os_hash s = map_string_hash_chars (Some (os_chars s))"

fun value_key :: "Value \<Rightarrow> map_key option" where
  "value_key (VAL_INT i) = Some (IntKey i)"
| "value_key (VAL_STRING (Some s)) = (if string_ok s then Some (StrKey (os_chars s)) else None)"
| "value_key v = None"

fun key_hash :: "map_key option \<Rightarrow> u32" where
  "key_hash None = 0"
| "key_hash (Some (IntKey i)) = fst (value_hash (VAL_INT i)) OR 2"
| "key_hash (Some (StrKey cs)) = map_string_hash_chars (Some cs) OR 2"

abbreviation slot_key :: "MapSlot \<Rightarrow> map_key option" where
  "slot_key s \<equiv> value_key (ms_key s)"

definition obj_map_inv :: "ObjMap \<Rightarrow> bool" where
  "obj_map_inv m \<longleftrightarrow> slot_table_inv ms_hash slot_key key_hash m"

definition obj_map_entries :: "ObjMap \<Rightarrow> map_key \<rightharpoonup> Value" where
  "obj_map_entries m k = table_entries (\<lambda>s. 2 \<le> ms_hash s) slot_key ms_value (st_slots m) (Some k)"

interpretation om: slot_table_ops ms_hash slot_key ms_value key_hash map_zero_slot map_nil_slot
  by unfold_locales (simp_all add: map_zero_slot_def map_nil_slot_def)

lemma word_or_2_ge: "2 \<le> x OR (2 :: u32)"
proof (rule ccontr)
  assume "\<not> 2 \<le> x OR 2"
  then have "unat (x OR 2) < 2" by (simp add: word_le_nat_alt)
  then have "x OR 2 = 0 \<or> x OR 2 = 1" by (auto simp: word_unat_eq_iff)
  then have "\<not> bit (x OR 2) 1" by (auto simp: bit_1_iff)
  then show False by (simp add: bit_or_iff bit_numeral_rec)
qed

lemma key_hash_ge: "2 \<le> key_hash (Some k)"
  by (cases k) (simp_all add: word_or_2_ge)

lemma string_hash_ok: "string_ok s \<Longrightarrow> fst (map_string_hash_obj (Some s)) = map_string_hash_chars (Some (os_chars s))"
  by (auto simp: string_ok_def map_string_hash_obj_def Let_def)

lemma string_hash_key:
  assumes "string_ok s"
  shows "map_string_hash_obj (Some s) = (map_string_hash_chars (Some (os_chars s)), Some s') \<Longrightarrow> value_key (VAL_STRING (Some s')) = Some (StrKey (os_chars s))"
  using assms by (auto simp: string_ok_def map_string_hash_obj_def Let_def split: if_splits)

text \<open>A live slot of a well-formed map has a key and the hash of that key.\<close>

lemma live_slot_key:
  assumes "obj_map_inv m" and "s \<in> set (st_slots m)" and "2 \<le> ms_hash s"
  shows "ms_hash s = key_hash (slot_key s)" and "\<exists>k. slot_key s = Some k"
proof -
  show h: "ms_hash s = key_hash (slot_key s)"
    using assms om.invD(1) [of m] by (auto simp: obj_map_inv_def table_wf_def)
  then show "\<exists>k. slot_key s = Some k" using assms(3) by (cases "slot_key s") auto
qed

text \<open>A key test that decides the key \<open>k\<close> on slots that have a key.\<close>

definition key_test :: "(MapSlot \<Rightarrow> bool) \<Rightarrow> map_key \<Rightarrow> bool" where
  "key_test match k \<longleftrightarrow> (\<forall>s. 2 \<le> ms_hash s \<longrightarrow> slot_key s \<noteq> None \<longrightarrow> match s = (slot_key s = Some k))"

lemma key_test_value: "value_key key = Some k \<Longrightarrow> key_test (\<lambda>s. value_equals_key_fast (ms_key s) key) k"
  unfolding key_test_def
proof (intro allI impI)
  fix s
  assume "value_key key = Some k" and "slot_key s \<noteq> None"
  then show "value_equals_key_fast (ms_key s) key = (slot_key s = Some k)"
    by (cases key rule: value_key.cases; cases "ms_key s" rule: value_key.cases)
      (auto simp: value_equals_key_fast_def split: if_splits)
qed

lemma key_test_chars: "key_test (\<lambda>s. map_slot_key_equals_string_chars s cs) (StrKey cs)"
  unfolding key_test_def
proof (intro allI impI)
  fix s
  assume "2 \<le> ms_hash s" and "slot_key s \<noteq> None"
  then show "map_slot_key_equals_string_chars s cs = (slot_key s = Some (StrKey cs))"
    by (cases "ms_key s" rule: value_key.cases) (auto simp: map_slot_key_equals_string_chars_def split: if_splits)
qed

lemma key_test_obj: "key_test (\<lambda>s. map_slot_key_equals_string_obj s key) (StrKey (os_chars key))"
  using key_test_chars [of "os_chars key"]
  by (simp add: map_slot_key_equals_string_chars_def map_slot_key_equals_string_obj_def)

lemma obj_map_find:
  assumes inv: "obj_map_inv m" and test: "key_test match k"
  shows "\<exists>idx found. table_find (\<lambda>s. ms_hash s = 0) (\<lambda>s. ms_hash s = key_hash (Some k) \<and> match s)
      (st_slots m) (key_hash (Some k)) = Some (idx, found) \<and> om.found_at (st_slots m) (Some k) idx found"
proof (rule om.find_slot_ok)
  show "slot_table_inv ms_hash slot_key key_hash m" using inv by (simp add: obj_map_inv_def)
  fix s
  assume "s \<in> set (st_slots m)" "2 \<le> ms_hash s"
  with live_slot_key [OF inv this] test
  show "(ms_hash s = key_hash (Some k) \<and> match s) = (slot_key s = Some k)" by (auto simp: key_test_def)
qed

lemma obj_map_found:
  assumes "obj_map_inv m" and "om.found_at (st_slots m) (Some k) idx found"
  shows "obj_map_entries m k = (if found then Some (ms_value (st_slots m ! unat idx)) else None)"
proof -
  have u: "keys_unique (\<lambda>s. 2 \<le> ms_hash s) slot_key (st_slots m)"
    using om.invD(1) [of m] assms(1) by (simp add: obj_map_inv_def om.wf_unique)
  show ?thesis
  proof (cases found)
    case True
    with assms(2) have "st_slots m ! unat idx \<in> live_slots (\<lambda>s. 2 \<le> ms_hash s) (st_slots m)"
      "slot_key (st_slots m ! unat idx) = Some k" by (auto simp: om.found_at_def live_slots_def)
    then show ?thesis using True table_entries_Some [OF u, of ms_value "Some k"] by (auto simp: obj_map_entries_def)
  qed (use assms(2) in \<open>auto simp: om.found_at_def obj_map_entries_def\<close>)
qed

lemma obj_map_lookup_ok:
  assumes "obj_map_inv m" and "key_test match k"
  shows "obj_map_lookup m match (key_hash (Some k)) = Some (obj_map_entries m k)"
proof -
  obtain idx found where "table_find (\<lambda>s. ms_hash s = 0) (\<lambda>s. ms_hash s = key_hash (Some k) \<and> match s)
      (st_slots m) (key_hash (Some k)) = Some (idx, found)" "om.found_at (st_slots m) (Some k) idx found"
    using obj_map_find [OF assms] by blast
  then show ?thesis using obj_map_found [OF assms(1)] by (auto simp: obj_map_lookup_def)
qed

text \<open>The values a map refers to, and the effect of events on references.\<close>

definition obj_map_held :: "ObjMap \<Rightarrow> Value multiset" where
  "obj_map_held m =
     image_mset ms_key (live_mset (\<lambda>s. 2 \<le> ms_hash s) (st_slots m)) +
     image_mset ms_value (live_mset (\<lambda>s. 2 \<le> ms_hash s) (st_slots m))"

fun retained :: "obj_event list \<Rightarrow> Value multiset" where
  "retained [] = {#}"
| "retained (Retain v # ev) = add_mset v (retained ev)"
| "retained (e # ev) = retained ev"

fun released :: "obj_event list \<Rightarrow> Value multiset" where
  "released [] = {#}"
| "released (Release v # ev) = add_mset v (released ev)"
| "released (e # ev) = released ev"

lemma retained_append [simp]: "retained (ev @ ev') = retained ev + retained ev'"
  by (induction ev rule: retained.induct) simp_all

lemma released_append [simp]: "released (ev @ ev') = released ev + released ev'"
  by (induction ev rule: released.induct) simp_all

lemma key_hash_events_refs [simp]: "retained (key_hash_events k) = {#}" "released (key_hash_events k) = {#}"
  by (simp_all add: key_hash_events_def)

lemma obj_map_entries_upd:
  assumes "om.ents m' = (om.ents m)(Some k := v)"
  shows "obj_map_entries m' = (obj_map_entries m)(k := v)"
  using assms by (intro ext) (simp add: obj_map_entries_def)

lemma obj_map_same:
  assumes "om.same m m'"
  shows "obj_map_entries m' = obj_map_entries m" and "obj_map_held m' = obj_map_held m"
    and "om_ref_count m' = om_ref_count m"
proof -
  show "obj_map_entries m' = obj_map_entries m" "obj_map_held m' = obj_map_held m"
    using assms by (simp_all add: om.same_def obj_map_entries_def fun_eq_iff obj_map_held_def)
  have "ObjMap.more m' = ObjMap.more m \<and> om_ref_count m' = om_ref_count m"
    using assms by (cases m, cases m') (simp add: om.same_def)
  then show "om_ref_count m' = om_ref_count m" ..
qed

text \<open>
  The end of a setter after the search: \<open>created\<close> is the key that the setter made itself.
\<close>

lemma obj_map_store_ok:
  assumes inv: "obj_map_inv m" and key: "value_key key = Some k"
    and at: "om.found_at (st_slots m) (Some k) idx found"
    and room: "4 * (st_count m + 1) \<le> 3 * int (length (st_slots m))"
    and st: "obj_map_store m idx found (key_hash (Some k)) key rk v = (m', ev)"
    and rk: "released rk = {#}" "retained rk + created = {#key#}"
  shows "obj_map_inv m'" and "obj_map_entries m' = (obj_map_entries m)(k \<mapsto> v)"
    and "om_ref_count m' = om_ref_count m"
    and "obj_map_held m' + released ev = obj_map_held m + retained ev + (if found then {#} else created)"
proof -
  let ?old = "st_slots m ! unat idx"
  note i = inv [unfolded obj_map_inv_def]
  have "obj_map_inv m' \<and> obj_map_entries m' = (obj_map_entries m)(k \<mapsto> v) \<and>
    obj_map_held m' + released ev = obj_map_held m + retained ev + (if found then {#} else created)"
  proof (cases found)
    case True
    let ?s = "?old\<lparr>ms_value := v\<rparr>"
    have m': "st_slots m' = (st_slots m)[unat idx := ?s]" "st_count m' = st_count m" "st_used m' = st_used m"
      and ev: "ev = [Release (ms_value ?old), Retain v]"
      using st True by (auto simp: obj_map_store_def Let_def)
    have k: "slot_key ?s = Some k" "2 \<le> ms_hash ?s" using at True by (auto simp: om.found_at_def)
    have at': "om.found_at (st_slots m) (slot_key ?s) idx True" using at True k(1) by simp
    note w = om.overwrite_ok [OF i at' k(2) _ m']
    have "obj_map_entries m' = (obj_map_entries m)(k \<mapsto> v)"
      using w(2) k(1) by (intro obj_map_entries_upd) simp
    moreover have "image_mset ms_key (add_mset ?old (om.held m')) = image_mset ms_key (add_mset ?s (om.held m))"
      "image_mset ms_value (add_mset ?old (om.held m')) = image_mset ms_value (add_mset ?s (om.held m))"
      using w(3) by simp_all
    then have "obj_map_held m' + released ev = obj_map_held m + retained ev"
      unfolding ev obj_map_held_def by simp
    ultimately show ?thesis using w(1) True by (simp add: obj_map_inv_def)
  next
    case False
    let ?s = "\<lparr>ms_hash = key_hash (Some k), ms_key = key, ms_value = v\<rparr>"
    have "\<not> 2 \<le> ms_hash ?old" "?old \<in> set (st_slots m)" using at False by (auto simp: om.found_at_def)
    then have "ms_hash ?old = 0" using om.invD(1) [OF i] by (auto simp: table_wf_def)
    then have m': "st_slots m' = (st_slots m)[unat idx := ?s]" "st_count m' = st_count m + 1" "st_used m' = st_used m + 1"
      and ev: "ev = rk @ [Retain v]"
      using st False by (auto simp: obj_map_store_def Let_def)
    have at': "om.found_at (st_slots m) (slot_key ?s) idx False" using at False key by simp
    have s: "2 \<le> ms_hash ?s" "ms_hash ?s = key_hash (slot_key ?s)" using key by (simp_all add: key_hash_ge)
    note w = om.fill_ok [OF i at' s room m']
    have "obj_map_entries m' = (obj_map_entries m)(k \<mapsto> v)"
      using w(2) key by (intro obj_map_entries_upd) simp
    moreover have "obj_map_held m' + released ev = obj_map_held m + retained ev + created"
      unfolding ev obj_map_held_def using w(3) rk key by (simp add: ac_simps)
    ultimately show ?thesis using w(1) False key by (simp add: obj_map_inv_def)
  qed
  then show "obj_map_inv m'" "obj_map_entries m' = (obj_map_entries m)(k \<mapsto> v)"
    "obj_map_held m' + released ev = obj_map_held m + retained ev + (if found then {#} else created)"
    by blast+
  show "om_ref_count m' = om_ref_count m" using st by (auto simp: obj_map_store_def Let_def split: if_splits)
qed

text \<open>What a setter achieves.\<close>

definition map_put_ok :: "ObjMap \<Rightarrow> map_key \<Rightarrow> Value \<Rightarrow> Value multiset \<Rightarrow> ObjMap \<times> obj_event list \<Rightarrow> bool" where
  "map_put_ok m k v created r \<longleftrightarrow>
     (case r of (m', ev) \<Rightarrow>
        obj_map_inv m' \<and> obj_map_entries m' = (obj_map_entries m)(k \<mapsto> v) \<and> om_ref_count m' = om_ref_count m \<and>
        obj_map_held m' + released ev =
          obj_map_held m + retained ev + (if k \<in> dom (obj_map_entries m) then {#} else created))"

lemma obj_map_put:
  assumes inv: "obj_map_inv m" and lim: "st_count m < slot_table_limit" and test: "key_test match k"
    and key: "value_key key = Some k" and rk: "released rk = {#}" "retained rk + created = {#key#}"
  shows "\<exists>m1 idx found m' ev. obj_map_ensure_capacity m 1 = Some m1 \<and>
    table_find (\<lambda>s. ms_hash s = 0) (\<lambda>s. ms_hash s = key_hash (Some k) \<and> match s) (st_slots m1) (key_hash (Some k)) = Some (idx, found) \<and>
    obj_map_store m1 idx found (key_hash (Some k)) key rk v = (m', ev) \<and> map_put_ok m k v created (m', ev)"
proof -
  obtain m1 where m1: "obj_map_ensure_capacity m 1 = Some m1" "obj_map_inv m1" "om.same m m1"
    "4 * (st_count m1 + 1) \<le> 3 * int (length (st_slots m1))"
    using om.ensure_ok [OF inv [unfolded obj_map_inv_def] lim] by (auto simp: obj_map_inv_def obj_map_ensure_capacity_def)
  obtain idx found where f: "table_find (\<lambda>s. ms_hash s = 0) (\<lambda>s. ms_hash s = key_hash (Some k) \<and> match s)
      (st_slots m1) (key_hash (Some k)) = Some (idx, found)" "om.found_at (st_slots m1) (Some k) idx found"
    using obj_map_find [OF m1(2) test] by blast
  obtain m' ev where s: "obj_map_store m1 idx found (key_hash (Some k)) key rk v = (m', ev)" by fastforce
  have "found \<longleftrightarrow> k \<in> dom (obj_map_entries m)"
    using obj_map_found [OF m1(2) f(2)] obj_map_same(1) [OF m1(3)] by (auto simp: domIff)
  then have "map_put_ok m k v created (m', ev)"
    using obj_map_store_ok [OF m1(2) key f(2) m1(4) s rk] obj_map_same [OF m1(3)] by (simp add: map_put_ok_def)
  with m1(1) f(1) s show ?thesis by blast
qed

lemma obj_map_set_string_ok:
  assumes "obj_map_inv m" and "st_count m < slot_table_limit" and s: "string_ok s"
  shows "\<exists>m' ev. obj_map_set_string (Some m) (Some s) v = Some (Some m', ev) \<and>
    map_put_ok m (StrKey (os_chars s)) v {#} (m', ev)"
proof -
  obtain s' where h: "map_string_hash_obj (Some s) = (map_string_hash_chars (Some (os_chars s)), Some s')"
    using string_hash_ok [OF s] by (cases "map_string_hash_obj (Some s)") (auto simp: map_string_hash_obj_def Let_def)
  have k: "value_key (VAL_STRING (Some s')) = Some (StrKey (os_chars s))" using string_hash_key [OF s h] .
  from obj_map_put [OF assms(1,2) key_test_obj [of s] k, of "[Retain (VAL_STRING (Some s'))]" "{#}" v]
  obtain m1 idx found m' ev where
    "obj_map_ensure_capacity m 1 = Some m1"
    "obj_map_find_slot_string m1 s (map_string_hash_chars (Some (os_chars s)) OR 2) = Some (idx, found)"
    "obj_map_store m1 idx found (map_string_hash_chars (Some (os_chars s)) OR 2) (VAL_STRING (Some s'))
      [Retain (VAL_STRING (Some s'))] v = (m', ev)"
    "map_put_ok m (StrKey (os_chars s)) v {#} (m', ev)"
    by (auto simp: obj_map_find_slot_string_def)
  then show ?thesis by (auto simp: obj_map_set_string_def h Let_def map_put_ok_def)
qed

lemma obj_map_set_ok:
  assumes "obj_map_inv m" and "st_count m < slot_table_limit" and key: "value_key key = Some k"
  shows "\<exists>m' ev. obj_map_set (Some m) key v = Some (Some m', ev) \<and> map_put_ok m k v {#} (m', ev)"
proof (cases key rule: value_key.cases)
  case (1 i)
  from obj_map_put [OF assms(1,2) key_test_value [OF key] key, of "[Retain key]" "{#}" v] 1 key
  show ?thesis by (auto simp: obj_map_set_def obj_map_find_slot_def Let_def)
next
  case (2 s)
  then show ?thesis using obj_map_set_string_ok [OF assms(1,2), of s v] key by (auto simp: obj_map_set_def split: if_splits)
qed (use key in simp_all)

lemma string_ok_create: "value_key (VAL_STRING (Some (obj_string_create cs))) = Some (StrKey cs)"
  by (simp add: obj_string_create_def string_ok_def)

lemma obj_map_set_cstr_n_ok:
  assumes "obj_map_inv m" and "st_count m < slot_table_limit"
  shows "\<exists>m' ev. obj_map_set_cstr_n (Some m) (Some cs) v = Some (Some m', ev) \<and>
    map_put_ok m (StrKey cs) v {#VAL_STRING (Some (obj_string_create cs))#} (m', ev)"
  using obj_map_put [OF assms key_test_chars string_ok_create [of cs], where rk = "[]" and v = v]
  by (auto simp: obj_map_set_cstr_n_def obj_map_find_slot_string_chars_def Let_def)

text \<open>What a deletion achieves.\<close>

definition map_delete_ok :: "ObjMap \<Rightarrow> map_key \<Rightarrow> ObjMap \<times> obj_event list \<Rightarrow> bool" where
  "map_delete_ok m k r \<longleftrightarrow>
     (case r of (m', ev) \<Rightarrow>
        obj_map_inv m' \<and> obj_map_entries m' = (obj_map_entries m)(k := None) \<and> om_ref_count m' = om_ref_count m \<and>
        retained ev = {#} \<and> obj_map_held m' + released ev = obj_map_held m)"

lemma obj_map_delete_slot_ok:
  assumes inv: "obj_map_inv m" and test: "key_test match k"
  shows "\<exists>m' ev. obj_map_delete_slot m match (key_hash (Some k)) = Some (m', ev) \<and> map_delete_ok m k (m', ev)"
proof -
  note i = inv [unfolded obj_map_inv_def]
  obtain idx found where f: "table_find (\<lambda>s. ms_hash s = 0) (\<lambda>s. ms_hash s = key_hash (Some k) \<and> match s)
      (st_slots m) (key_hash (Some k)) = Some (idx, found)" "om.found_at (st_slots m) (Some k) idx found"
    using obj_map_find [OF assms] by blast
  show ?thesis
  proof (cases found)
    case False
    then have "obj_map_entries m k = None" using obj_map_found [OF inv f(2)] by simp
    then have "(obj_map_entries m)(k := None) = obj_map_entries m" by (auto simp: fun_eq_iff)
    with False f(1) inv show ?thesis by (simp add: obj_map_delete_slot_def map_delete_ok_def)
  next
    case True
    let ?old = "st_slots m ! unat idx"
    obtain m1 where m1: "obj_map_backshift_delete_at m idx = Some m1" "om.inv m1" "om.ents m1 = (om.ents m)(Some k := None)"
      "add_mset ?old (om.held m1) = om.held m" "slot_table.more m1 = slot_table.more m"
      using om.backshift_ok [OF i] f(2) True by (auto simp: obj_map_backshift_delete_at_def)
    obtain m' where m': "obj_map_maybe_compact_after_delete m1 = Some m'" "om.inv m'" "om.same m1 m'"
      using om.compact_ok [OF m1(2)] by (auto simp: obj_map_maybe_compact_after_delete_def)
    have "om_ref_count m1 = om_ref_count m" using m1(5) by (cases m, cases m1) simp
    moreover have "image_mset ms_key (om.held m) = image_mset ms_key (add_mset ?old (om.held m1))"
      "image_mset ms_value (om.held m) = image_mset ms_value (add_mset ?old (om.held m1))"
      using m1(4) by simp_all
    then have "obj_map_held m1 + {#ms_key ?old, ms_value ?old#} = obj_map_held m"
      by (simp add: obj_map_held_def)
    ultimately show ?thesis
      using True f(1) m1(1) m' obj_map_same [OF m'(3)] obj_map_entries_upd [OF m1(3)]
      by (simp add: obj_map_delete_slot_def map_delete_ok_def Let_def obj_map_inv_def)
  qed
qed

lemma obj_map_delete_string_ok:
  assumes "obj_map_inv m" and s: "string_ok s"
  shows "\<exists>m' ev. obj_map_delete_string (Some m) (Some s) = Some (Some m', ev) \<and>
    map_delete_ok m (StrKey (os_chars s)) (m', ev)"
  using obj_map_delete_slot_ok [OF assms(1) key_test_obj [of s]] string_hash_ok [OF s]
  by (auto simp: obj_map_delete_string_def Let_def map_delete_ok_def)

lemma obj_map_delete_ok:
  assumes "obj_map_inv m" and key: "value_key key = Some k"
  shows "\<exists>m' ev. obj_map_delete (Some m) key = Some (Some m', ev) \<and> map_delete_ok m k (m', ev)"
proof (cases key rule: value_key.cases)
  case (1 i)
  then show ?thesis using obj_map_delete_slot_ok [OF assms(1) key_test_value [OF key]] key
    by (auto simp: obj_map_delete_def Let_def)
next
  case (2 s)
  then show ?thesis using obj_map_delete_string_ok [OF assms(1), of s] key by (auto simp: obj_map_delete_def split: if_splits)
qed (use key in simp_all)

lemma obj_map_delete_cstr_n_ok:
  assumes "obj_map_inv m"
  shows "\<exists>m' ev. obj_map_delete_cstr_n (Some m) (Some cs) = Some (Some m', ev) \<and> map_delete_ok m (StrKey cs) (m', ev)"
  using obj_map_delete_slot_ok [OF assms key_test_chars [of cs]] by (auto simp: obj_map_delete_cstr_n_def Let_def)

text \<open>What the readers return.\<close>

lemma obj_map_get_ok:
  assumes "obj_map_inv m" and key: "value_key key = Some k"
  shows "map_option fst (obj_map_get (Some m) key) = Some (case obj_map_entries m k of None \<Rightarrow> VAL_NIL | Some v \<Rightarrow> v)"
    and "map_option fst (obj_map_has (Some m) key) = Some (k \<in> dom (obj_map_entries m))"
proof -
  have "map_option fst (obj_map_get (Some m) key) = Some (case obj_map_entries m k of None \<Rightarrow> VAL_NIL | Some v \<Rightarrow> v) \<and>
    map_option fst (obj_map_has (Some m) key) = Some (k \<in> dom (obj_map_entries m))"
  proof (cases key rule: value_key.cases)
    case (1 i)
    then show ?thesis using obj_map_lookup_ok [OF assms(1) key_test_value [OF key]] key
      by (cases "obj_map_entries m k") (auto simp: obj_map_get_def obj_map_has_def obj_map_result_def Let_def)
  next
    case (2 s)
    then have "string_ok s" "k = StrKey (os_chars s)" using key by (auto split: if_splits)
    then show ?thesis using 2 obj_map_lookup_ok [OF assms(1) key_test_obj [of s]] string_hash_ok [of s]
      by (cases "obj_map_entries m k")
        (auto simp: obj_map_get_def obj_map_has_def obj_map_get_string_def obj_map_has_string_def obj_map_result_def Let_def)
  qed (use key in simp_all)
  then show "map_option fst (obj_map_get (Some m) key) = Some (case obj_map_entries m k of None \<Rightarrow> VAL_NIL | Some v \<Rightarrow> v)"
    "map_option fst (obj_map_has (Some m) key) = Some (k \<in> dom (obj_map_entries m))" by blast+
qed

lemma obj_map_create_inv: "obj_map_inv obj_map_create" "obj_map_entries obj_map_create = Map.empty"
  "obj_map_held obj_map_create = {#}"
  using om.fresh_ok [of 4]
  by (simp_all add: obj_map_inv_def obj_map_create_def slot_table_inv_def obj_map_entries_def fun_eq_iff obj_map_held_def)

lemma obj_map_dom:
  assumes "obj_map_inv m"
  shows "dom (om.ents m) = Some ` dom (obj_map_entries m)" and "st_count m = int (card (dom (obj_map_entries m)))"
    and "finite (dom (obj_map_entries m))"
proof -
  note i = assms [unfolded obj_map_inv_def]
  show d: "dom (om.ents m) = Some ` dom (obj_map_entries m)"
  proof (intro set_eqI iffI)
    fix x
    assume x: "x \<in> dom (om.ents m)"
    then obtain s where "s \<in> set (st_slots m)" "2 \<le> ms_hash s" "x = slot_key s"
      by (auto simp: table_entries_dom live_slots_def)
    then obtain k where "x = Some k" using live_slot_key(2) [OF assms] by blast
    then show "x \<in> Some ` dom (obj_map_entries m)" using x by (auto simp: obj_map_entries_def domIff)
  qed (auto simp: obj_map_entries_def domIff)
  then have "card (dom (om.ents m)) = card (dom (obj_map_entries m))" by (simp add: card_image)
  then show "st_count m = int (card (dom (obj_map_entries m)))" using om.invD(3) [OF i] by simp
  have "finite (dom (om.ents m))" by (simp add: table_entries_dom)
  then show "finite (dom (obj_map_entries m))" unfolding d by (simp add: finite_image_iff)
qed

section \<open>Properties\<close>

text \<open>The maps provide the keyed-table interface.\<close>

definition map_put :: "ObjMap \<Rightarrow> Value \<Rightarrow> Value \<Rightarrow> ObjMap option" where
  "map_put m key v = (case obj_map_set (Some m) key v of Some (m', ev) \<Rightarrow> m' | None \<Rightarrow> None)"

definition map_del :: "ObjMap \<Rightarrow> Value \<Rightarrow> ObjMap option" where
  "map_del m key = (case obj_map_delete (Some m) key of Some (m', ev) \<Rightarrow> m' | None \<Rightarrow> None)"

definition map_look :: "ObjMap \<Rightarrow> Value \<Rightarrow> Value option option" where
  "map_look m key =
     (case obj_map_has (Some m) key of
        None \<Rightarrow> None
      | Some (h, ev) \<Rightarrow> if h then map_option (\<lambda>(v, ev). Some v) (obj_map_get (Some m) key) else Some None)"

interpretation map_store: kv_table_delete obj_map_inv obj_map_entries value_key obj_map_create map_put map_look 402653184 map_del
proof unfold_locales
  show "obj_map_inv obj_map_create" "obj_map_entries obj_map_create = Map.empty" by (rule obj_map_create_inv)+
next
  fix m
  assume "obj_map_inv m"
  then show "finite (dom (obj_map_entries m))" by (rule obj_map_dom)
next
  fix m key k v
  assume "obj_map_inv m" and k: "value_key key = Some k" and "card (dom (obj_map_entries m)) < 402653184"
  then have "st_count m < slot_table_limit" using obj_map_dom(2) by simp
  from obj_map_set_ok [OF \<open>obj_map_inv m\<close> this k, of v]
  show "\<exists>m'. map_put m key v = Some m' \<and> obj_map_inv m' \<and> obj_map_entries m' = (obj_map_entries m)(k \<mapsto> v)"
    by (auto simp: map_put_def map_put_ok_def)
next
  fix m key k
  assume "obj_map_inv m" and "value_key key = Some k"
  from obj_map_get_ok [OF this] show "map_look m key = Some (obj_map_entries m k)"
    by (auto simp: map_look_def split: option.splits)
next
  fix m key k
  assume "obj_map_inv m" and "value_key key = Some k"
  from obj_map_delete_ok [OF this]
  show "\<exists>m'. map_del m key = Some m' \<and> obj_map_inv m' \<and> obj_map_entries m' = (obj_map_entries m)(k := None)"
    by (auto simp: map_del_def map_delete_ok_def)
qed

text \<open>
  Claim C22.  Any sequence of at most 402653184 insertions and deletions with integer and string keys,
  started on a new map, returns (every probe loop, rehash and backward shift on the way ends), and the map
  then holds exactly what the sequence leaves in a finite map; its count is the number of entries.
\<close>

theorem obj_map_run_refines:
  assumes "length cmds \<le> 402653184" and "\<forall>cmd\<in>set cmds. value_key (kv_cmd_key cmd) \<noteq> None"
  shows "\<exists>m. kv_run map_put map_del obj_map_create cmds = Some m \<and> obj_map_inv m \<and>
    obj_map_entries m = foldl (kv_spec value_key) Map.empty cmds \<and>
    obj_map_count (Some m) = int (card (dom (obj_map_entries m)))"
  using map_store.run_ok [OF assms] obj_map_dom(2) by (auto simp: obj_map_count_def)

theorem obj_map_run_refines_witness:
  "\<exists>m. kv_run map_put map_del obj_map_create [Put (VAL_INT 7) VAL_NIL, Put (VAL_INT 8) (VAL_BOOL True), Del (VAL_INT 7)] = Some m \<and>
    obj_map_entries m = [IntKey 8 \<mapsto> VAL_BOOL True]"
  using obj_map_run_refines [of "[Put (VAL_INT 7) VAL_NIL, Put (VAL_INT 8) (VAL_BOOL True), Del (VAL_INT 7)]"]
  by (auto simp: fun_upd_twist)

text \<open>
  Claim C23.  On a well-formed map with room, each operation returns and does what it does on a finite
  map: setting binds the key, getting returns the bound value or nil, testing tells whether the key is bound,
  and deleting unbinds it.  The well-formedness is kept.
\<close>

theorem obj_map_operations:
  assumes "obj_map_inv m" and "st_count m < slot_table_limit" and "value_key key = Some k"
  shows "(\<exists>m' ev. obj_map_set (Some m) key v = Some (Some m', ev) \<and> obj_map_inv m' \<and>
      obj_map_entries m' = (obj_map_entries m)(k \<mapsto> v)) \<and>
    (\<exists>ev. obj_map_get (Some m) key = Some (case obj_map_entries m k of None \<Rightarrow> VAL_NIL | Some v \<Rightarrow> v, ev)) \<and>
    (\<exists>ev. obj_map_has (Some m) key = Some (k \<in> dom (obj_map_entries m), ev)) \<and>
    (\<exists>m' ev. obj_map_delete (Some m) key = Some (Some m', ev) \<and> obj_map_inv m' \<and>
      obj_map_entries m' = (obj_map_entries m)(k := None))"
  using obj_map_set_ok [OF assms, of v] obj_map_get_ok [OF assms(1,3)] obj_map_delete_ok [OF assms(1,3)]
  by (auto simp: map_put_ok_def map_delete_ok_def)

theorem obj_map_operations_witness:
  "\<exists>m' ev. obj_map_set (Some obj_map_create) (VAL_INT 5) VAL_NIL = Some (Some m', ev) \<and> obj_map_entries m' = [IntKey 5 \<mapsto> VAL_NIL]"
  using obj_map_operations [of obj_map_create "VAL_INT 5" "IntKey 5" VAL_NIL] obj_map_create_inv
  by (auto simp: obj_map_create_def)

lemma obj_map_get_refs:
  assumes "obj_map_inv m" and key: "value_key key = Some k"
  shows "\<exists>r ev. obj_map_get (Some m) key = Some (r, ev) \<and> released ev = {#} \<and>
      retained ev = (if k \<in> dom (obj_map_entries m) then {#r#} else {#})"
proof (cases key rule: value_key.cases)
  case (1 i)
  then show ?thesis using obj_map_lookup_ok [OF assms(1) key_test_value [OF key]] key
    by (cases "obj_map_entries m k") (auto simp: obj_map_get_def obj_map_result_def Let_def domIff)
next
  case (2 s)
  then have "string_ok s" "k = StrKey (os_chars s)" using key by (auto split: if_splits)
  then show ?thesis using 2 obj_map_lookup_ok [OF assms(1) key_test_obj [of s]] string_hash_ok [of s]
    by (cases "obj_map_entries m k") (auto simp: obj_map_get_def obj_map_get_string_def obj_map_result_def Let_def domIff)
qed (use key in simp_all)

lemma obj_map_free_held: "released (obj_map_free (Some m)) = obj_map_held m" "retained (obj_map_free (Some m)) = {#}"
proof -
  have "released (concat (map (\<lambda>s. if ms_hash s < 2 then [] else [Release (ms_key s), Release (ms_value s)]) xs)) =
      image_mset ms_key (live_mset (\<lambda>s. 2 \<le> ms_hash s) xs) + image_mset ms_value (live_mset (\<lambda>s. 2 \<le> ms_hash s) xs) \<and>
    retained (concat (map (\<lambda>s. if ms_hash s < 2 then [] else [Release (ms_key s), Release (ms_value s)]) xs)) = {#}"
    for xs :: "MapSlot list"
    by (induction xs) (auto simp: live_mset_def not_less)
  then show "released (obj_map_free (Some m)) = obj_map_held m" "retained (obj_map_free (Some m)) = {#}"
    by (simp_all add: obj_map_free_def obj_map_held_def)
qed

text \<open>
  Claim C24.  The references a map holds are exactly those to the keys and values of its entries:
  over a set or a delete, the values retained and released are the change of what the map holds; a get
  retains its result once; and freeing the map releases all it holds.
\<close>

theorem obj_map_references:
  assumes "obj_map_inv m" and "st_count m < slot_table_limit" and "value_key key = Some k"
  shows "(\<exists>m' ev. obj_map_set (Some m) key v = Some (Some m', ev) \<and>
      obj_map_held m' + released ev = obj_map_held m + retained ev) \<and>
    (\<exists>m' ev. obj_map_delete (Some m) key = Some (Some m', ev) \<and>
      obj_map_held m' + released ev = obj_map_held m + retained ev) \<and>
    (\<exists>r ev. obj_map_get (Some m) key = Some (r, ev) \<and> released ev = {#} \<and>
      retained ev = (if k \<in> dom (obj_map_entries m) then {#r#} else {#})) \<and>
    released (obj_map_free (Some m)) = obj_map_held m \<and> retained (obj_map_free (Some m)) = {#}"
proof (intro conjI)
  show "\<exists>m' ev. obj_map_set (Some m) key v = Some (Some m', ev) \<and>
      obj_map_held m' + released ev = obj_map_held m + retained ev"
    using obj_map_set_ok [OF assms, of v] by (auto simp: map_put_ok_def split: if_splits)
  show "\<exists>m' ev. obj_map_delete (Some m) key = Some (Some m', ev) \<and>
      obj_map_held m' + released ev = obj_map_held m + retained ev"
    using obj_map_delete_ok [OF assms(1,3)] by (auto simp: map_delete_ok_def)
  show "\<exists>r ev. obj_map_get (Some m) key = Some (r, ev) \<and> released ev = {#} \<and>
      retained ev = (if k \<in> dom (obj_map_entries m) then {#r#} else {#})"
    by (rule obj_map_get_refs [OF assms(1,3)])
qed (rule obj_map_free_held)+

theorem obj_map_references_witness:
  "\<exists>m' ev. obj_map_set (Some obj_map_create) (VAL_INT 5) (VAL_ARRAY 3) = Some (Some m', ev) \<and>
    obj_map_held m' + released ev = retained ev"
  using obj_map_references [of obj_map_create "VAL_INT 5" "IntKey 5" "VAL_ARRAY 3"] obj_map_create_inv
  by (auto simp: obj_map_create_def)



text \<open>Listing.\<close>

lemma obj_map_list_fold:
  assumes "F = (\<lambda>(result, ev) s. if ms_hash s < 2 then (result, ev) else (obj_array_push result (f s), ev @ [Retain (f s)]))"
  shows "array_values (fst (foldl F (result, ev) slots)) = array_values result @ map f (filter (\<lambda>s. 2 \<le> ms_hash s) slots) \<and>
    snd (foldl F (result, ev) slots) = ev @ map (\<lambda>s. Retain (f s)) (filter (\<lambda>s. 2 \<le> ms_hash s) slots)"
  by (induction slots arbitrary: result ev) (auto simp: assms push_values not_less)



end
