(* ===== verification/Obj_Set.thy ===== *)
theory Obj_Set
  imports Obj_Map
begin

text \<open>
  Sets of \<^verbatim>\<open>src/src/vm.c\<close> (\<^verbatim>\<open>obj_set_*\<close>): the table of the maps with slots that hold a value only.  The
  operations implement a finite set of integers and strings.
\<close>

section \<open>The model\<close>

record SetSlot =
  ss_hash :: u32
  ss_value :: Value

record ObjSet = "SetSlot slot_table" +
  oset_ref_count :: int

definition set_zero_slot :: SetSlot where
  "set_zero_slot = \<lparr>ss_hash = 0, ss_value = VAL_INT 0\<rparr>"

definition set_nil_slot :: SetSlot where
  "set_nil_slot = \<lparr>ss_hash = 0, ss_value = VAL_NIL\<rparr>"

definition obj_set_create :: "ObjSet" where
  "obj_set_create = \<lparr>st_slots = replicate 16 set_zero_slot, st_count = 0, st_used = 0, oset_ref_count = 1\<rparr>"

definition obj_set_retain :: "ObjSet option \<Rightarrow> ObjSet option" where
  "obj_set_retain os = map_option (\<lambda>s. s\<lparr>oset_ref_count := oset_ref_count s + 1\<rparr>) os"

definition obj_set_free :: "ObjSet option \<Rightarrow> obj_event list" where
  "obj_set_free os =
     (case os of
        None \<Rightarrow> []
      | Some s \<Rightarrow> concat (map (\<lambda>slot. if ss_hash slot < 2 then [] else [Release (ss_value slot)]) (st_slots s)))"

definition obj_set_release :: "ObjSet option \<Rightarrow> ObjSet option \<times> obj_event list" where
  "obj_set_release os =
     (case os of
        None \<Rightarrow> (None, [])
      | Some s \<Rightarrow>
          let s = s\<lparr>oset_ref_count := oset_ref_count s - 1\<rparr>
          in if oset_ref_count s \<le> 0 then (None, obj_set_free (Some s)) else (Some s, []))"

definition set_slot_value_equals_string_chars :: "SetSlot \<Rightarrow> string \<Rightarrow> bool" where
  "set_slot_value_equals_string_chars slot value_chars =
     (if ss_hash slot < 2 then False
      else case ss_value slot of VAL_STRING (Some slot_value) \<Rightarrow> os_chars slot_value = value_chars | _ \<Rightarrow> False)"

definition obj_set_adjust_capacity :: "ObjSet \<Rightarrow> nat \<Rightarrow> ObjSet option" where
  "obj_set_adjust_capacity = slot_table_adjust_capacity ss_hash set_zero_slot"

definition obj_set_ensure_capacity :: "ObjSet \<Rightarrow> int \<Rightarrow> ObjSet option" where
  "obj_set_ensure_capacity = slot_table_ensure_capacity ss_hash set_zero_slot"

definition obj_set_maybe_compact_after_remove :: "ObjSet \<Rightarrow> ObjSet option" where
  "obj_set_maybe_compact_after_remove = slot_table_maybe_compact ss_hash set_zero_slot"

definition obj_set_backshift_remove_at :: "ObjSet \<Rightarrow> u32 \<Rightarrow> ObjSet option" where
  "obj_set_backshift_remove_at = slot_table_backshift_at ss_hash set_nil_slot"

definition obj_set_find_slot :: "ObjSet \<Rightarrow> Value \<Rightarrow> u32 \<Rightarrow> (u32 \<times> bool) option" where
  "obj_set_find_slot os val hash =
     table_find (\<lambda>slot. ss_hash slot = 0) (\<lambda>slot. ss_hash slot = hash \<and> value_equals_key_fast (ss_value slot) val)
       (st_slots os) hash"

text \<open>Filling the vacant slot that a search found; nothing changes when the value is there.\<close>

definition obj_set_store :: "ObjSet \<Rightarrow> u32 \<Rightarrow> bool \<Rightarrow> u32 \<Rightarrow> Value \<Rightarrow> ObjSet \<times> obj_event list" where
  "obj_set_store os idx found hash val =
     (if found then (os, [])
      else (os\<lparr>st_used := (if ss_hash (st_slots os ! unat idx) = 0 then st_used os + 1 else st_used os),
               st_slots := (st_slots os)[unat idx := \<lparr>ss_hash = hash, ss_value = val\<rparr>],
               st_count := st_count os + 1\<rparr>,
            [Retain val]))"

definition obj_set_add_string :: "ObjSet option \<Rightarrow> ObjString option \<Rightarrow> (ObjSet option \<times> obj_event list) option" where
  "obj_set_add_string os val =
     (case (os, val) of
        (Some s, Some str) \<Rightarrow>
          (case obj_set_ensure_capacity s 1 of
             None \<Rightarrow> None
           | Some s \<Rightarrow>
               (case map_string_hash_obj val of
                  (h, val') \<Rightarrow>
                    let hash = h OR 2
                    in case table_find (\<lambda>slot. ss_hash slot = 0)
                              (\<lambda>slot. ss_hash slot = hash \<and> set_slot_value_equals_string_chars slot (os_chars str))
                              (st_slots s) hash of
                         None \<Rightarrow> None
                       | Some (idx, found) \<Rightarrow>
                           (case obj_set_store s idx found hash (VAL_STRING val') of
                              (s', ev) \<Rightarrow> Some (Some s', key_hash_events str @ ev))))
      | _ \<Rightarrow> Some (os, []))"

definition obj_set_add :: "ObjSet option \<Rightarrow> Value \<Rightarrow> (ObjSet option \<times> obj_event list) option" where
  "obj_set_add os val =
     (case os of
        None \<Rightarrow> Some (None, [])
      | Some s \<Rightarrow>
          (case val of
             VAL_STRING (Some str) \<Rightarrow> obj_set_add_string os (Some str)
           | VAL_INT i \<Rightarrow>
               (case obj_set_ensure_capacity s 1 of
                  None \<Rightarrow> None
                | Some s \<Rightarrow>
                    let hash = fst (value_hash val) OR 2
                    in case obj_set_find_slot s val hash of
                         None \<Rightarrow> None
                       | Some (idx, found) \<Rightarrow>
                           (case obj_set_store s idx found hash val of (s', ev) \<Rightarrow> Some (Some s', ev)))
           | _ \<Rightarrow> Some (os, [])))"

text \<open>The probe loop of the two removals with its exit at the matching slot.\<close>

definition obj_set_remove_slot :: "ObjSet \<Rightarrow> (SetSlot \<Rightarrow> bool) \<Rightarrow> u32 \<Rightarrow> (ObjSet \<times> obj_event list) option" where
  "obj_set_remove_slot os match hash =
     (case table_find (\<lambda>slot. ss_hash slot = 0) (\<lambda>slot. ss_hash slot = hash \<and> match slot) (st_slots os) hash of
        None \<Rightarrow> None
      | Some (idx, found) \<Rightarrow>
          if \<not> found then Some (os, [])
          else let slot = st_slots os ! unat idx
               in case obj_set_backshift_remove_at os idx of
                    None \<Rightarrow> None
                  | Some os \<Rightarrow>
                      map_option (\<lambda>os. (os, [Release (ss_value slot)])) (obj_set_maybe_compact_after_remove os))"

definition obj_set_remove_string :: "ObjSet option \<Rightarrow> ObjString option \<Rightarrow> (ObjSet option \<times> obj_event list) option" where
  "obj_set_remove_string os val =
     (case (os, val) of
        (Some s, Some str) \<Rightarrow>
          let hash = fst (map_string_hash_obj val) OR 2
          in map_option (\<lambda>(s, ev). (Some s, key_hash_events str @ ev))
               (obj_set_remove_slot s (\<lambda>slot. set_slot_value_equals_string_chars slot (os_chars str)) hash)
      | _ \<Rightarrow> Some (os, []))"

definition obj_set_remove :: "ObjSet option \<Rightarrow> Value \<Rightarrow> (ObjSet option \<times> obj_event list) option" where
  "obj_set_remove os val =
     (case os of
        None \<Rightarrow> Some (None, [])
      | Some s \<Rightarrow>
          (case val of
             VAL_STRING (Some str) \<Rightarrow> obj_set_remove_string os (Some str)
           | VAL_INT i \<Rightarrow>
               let hash = fst (value_hash val) OR 2
               in map_option (\<lambda>(s, ev). (Some s, ev))
                    (obj_set_remove_slot s (\<lambda>slot. value_equals_key_fast (ss_value slot) val) hash)
           | _ \<Rightarrow> Some (os, [])))"

text \<open>The probe loop of the two membership tests.\<close>

definition obj_set_lookup :: "ObjSet \<Rightarrow> (SetSlot \<Rightarrow> bool) \<Rightarrow> u32 \<Rightarrow> bool option" where
  "obj_set_lookup os match hash =
     map_option snd (table_find (\<lambda>slot. ss_hash slot = 0) (\<lambda>slot. ss_hash slot = hash \<and> match slot) (st_slots os) hash)"

definition obj_set_has_string :: "ObjSet option \<Rightarrow> ObjString option \<Rightarrow> (bool \<times> obj_event list) option" where
  "obj_set_has_string os val =
     (case (os, val) of
        (Some s, Some str) \<Rightarrow>
          let hash = fst (map_string_hash_obj val) OR 2
          in map_option (\<lambda>found. (found, key_hash_events str))
               (obj_set_lookup s (\<lambda>slot. set_slot_value_equals_string_chars slot (os_chars str)) hash)
      | _ \<Rightarrow> Some (False, []))"

definition obj_set_has :: "ObjSet option \<Rightarrow> Value \<Rightarrow> (bool \<times> obj_event list) option" where
  "obj_set_has os val =
     (case os of
        None \<Rightarrow> Some (False, [])
      | Some s \<Rightarrow>
          (case val of
             VAL_STRING (Some str) \<Rightarrow> obj_set_has_string os (Some str)
           | VAL_INT i \<Rightarrow>
               let hash = fst (value_hash val) OR 2
               in map_option (\<lambda>found. (found, []))
                    (obj_set_lookup s (\<lambda>slot. value_equals_key_fast (ss_value slot) val) hash)
           | _ \<Rightarrow> Some (False, [])))"

definition obj_set_count :: "ObjSet option \<Rightarrow> int" where
  "obj_set_count os = (case os of None \<Rightarrow> 0 | Some s \<Rightarrow> st_count s)"

definition obj_set_to_array :: "ObjSet option \<Rightarrow> ObjArray \<Rightarrow> ObjArray \<times> obj_event list" where
  "obj_set_to_array os result =
     (case os of
        None \<Rightarrow> (result, [])
      | Some s \<Rightarrow>
          foldl (\<lambda>(result, ev) slot.
              if ss_hash slot < 2 then (result, ev) else (obj_array_push result (ss_value slot), ev @ [Retain (ss_value slot)]))
            (result, []) (st_slots s))"

section \<open>Sets as finite sets\<close>

abbreviation member_key :: "SetSlot \<Rightarrow> map_key option" where
  "member_key s \<equiv> value_key (ss_value s)"

definition obj_set_inv :: "ObjSet \<Rightarrow> bool" where
  "obj_set_inv s \<longleftrightarrow> slot_table_inv ss_hash member_key key_hash s"

definition obj_set_entries :: "ObjSet \<Rightarrow> map_key \<rightharpoonup> unit" where
  "obj_set_entries s k = table_entries (\<lambda>s. 2 \<le> ss_hash s) member_key (\<lambda>_. ()) (st_slots s) (Some k)"

definition obj_set_elems :: "ObjSet \<Rightarrow> map_key set" where
  "obj_set_elems s = dom (obj_set_entries s)"

definition obj_set_held :: "ObjSet \<Rightarrow> Value multiset" where
  "obj_set_held s = image_mset ss_value (live_mset (\<lambda>s. 2 \<le> ss_hash s) (st_slots s))"

interpretation oset: slot_table_ops ss_hash member_key "\<lambda>_. ()" key_hash set_zero_slot set_nil_slot
  by unfold_locales (simp_all add: set_zero_slot_def set_nil_slot_def)

definition member_test :: "(SetSlot \<Rightarrow> bool) \<Rightarrow> map_key \<Rightarrow> bool" where
  "member_test match k \<longleftrightarrow> (\<forall>s. 2 \<le> ss_hash s \<longrightarrow> member_key s \<noteq> None \<longrightarrow> match s = (member_key s = Some k))"

text \<open>A slot of a set seen as a slot of a map: the key tests carry over.\<close>

definition as_map_slot :: "SetSlot \<Rightarrow> MapSlot" where
  "as_map_slot s = \<lparr>ms_hash = ss_hash s, ms_key = ss_value s, ms_value = VAL_NIL\<rparr>"

lemma member_test_value: "value_key val = Some k \<Longrightarrow> member_test (\<lambda>s. value_equals_key_fast (ss_value s) val) k"
  using key_test_value [of val k] unfolding key_test_def member_test_def
  by (metis MapSlot.select_convs(1,2) as_map_slot_def)

lemma member_test_chars: "member_test (\<lambda>s. set_slot_value_equals_string_chars s cs) (StrKey cs)"
proof -
  have "set_slot_value_equals_string_chars s cs = map_slot_key_equals_string_chars (as_map_slot s) cs" for s
    by (simp add: set_slot_value_equals_string_chars_def map_slot_key_equals_string_chars_def as_map_slot_def)
  then show ?thesis using key_test_chars [of cs] unfolding key_test_def member_test_def
    by (metis MapSlot.select_convs(1,2) as_map_slot_def)
qed

lemma live_member_key:
  assumes "obj_set_inv s" and "t \<in> set (st_slots s)" and "2 \<le> ss_hash t"
  shows "ss_hash t = key_hash (member_key t)" and "\<exists>k. member_key t = Some k"
proof -
  show h: "ss_hash t = key_hash (member_key t)"
    using assms oset.invD(1) [of s] by (auto simp: obj_set_inv_def table_wf_def)
  then show "\<exists>k. member_key t = Some k" using assms(3) by (cases "member_key t") auto
qed

lemma obj_set_find:
  assumes inv: "obj_set_inv s" and test: "member_test match k"
  shows "\<exists>idx found. table_find (\<lambda>t. ss_hash t = 0) (\<lambda>t. ss_hash t = key_hash (Some k) \<and> match t)
      (st_slots s) (key_hash (Some k)) = Some (idx, found) \<and> oset.found_at (st_slots s) (Some k) idx found"
proof (rule oset.find_slot_ok)
  show "slot_table_inv ss_hash member_key key_hash s" using inv by (simp add: obj_set_inv_def)
  fix t
  assume "t \<in> set (st_slots s)" "2 \<le> ss_hash t"
  with live_member_key [OF inv this] test
  show "(ss_hash t = key_hash (Some k) \<and> match t) = (member_key t = Some k)" by (auto simp: member_test_def)
qed

lemma obj_set_found: "oset.found_at (st_slots s) (Some k) idx found \<Longrightarrow> found \<longleftrightarrow> k \<in> obj_set_elems s"
  by (auto simp: oset.found_at_def obj_set_elems_def obj_set_entries_def domIff)

lemma obj_set_lookup_ok:
  "obj_set_inv s \<Longrightarrow> member_test match k \<Longrightarrow> obj_set_lookup s match (key_hash (Some k)) = Some (k \<in> obj_set_elems s)"
  using obj_set_find [of s match k] obj_set_found [of s k] by (auto simp: obj_set_lookup_def)

lemma obj_set_entries_upd:
  assumes "oset.ents s' = (oset.ents s)(Some k := v)"
  shows "obj_set_entries s' = (obj_set_entries s)(k := v)"
  using assms by (intro ext) (simp add: obj_set_entries_def)

lemma obj_set_same:
  assumes "oset.same s s'"
  shows "obj_set_entries s' = obj_set_entries s" and "obj_set_held s' = obj_set_held s"
    and "oset_ref_count s' = oset_ref_count s"
proof -
  show "obj_set_entries s' = obj_set_entries s" "obj_set_held s' = obj_set_held s"
    using assms by (simp_all add: oset.same_def obj_set_entries_def fun_eq_iff obj_set_held_def)
  have "ObjSet.more s' = ObjSet.more s \<and> oset_ref_count s' = oset_ref_count s"
    using assms by (cases s, cases s') (simp add: oset.same_def)
  then show "oset_ref_count s' = oset_ref_count s" ..
qed

text \<open>What an operation achieves: the entry of the key becomes \<open>v\<close>, and the references balance.\<close>

definition set_update_ok :: "ObjSet \<Rightarrow> map_key \<Rightarrow> unit option \<Rightarrow> ObjSet \<times> obj_event list \<Rightarrow> bool" where
  "set_update_ok s k v r \<longleftrightarrow>
     (case r of (s', ev) \<Rightarrow>
        obj_set_inv s' \<and> obj_set_entries s' = (obj_set_entries s)(k := v) \<and> oset_ref_count s' = oset_ref_count s \<and>
        obj_set_held s' + released ev = obj_set_held s + retained ev)"

lemma obj_set_store_ok:
  assumes inv: "obj_set_inv s" and key: "value_key val = Some k"
    and at: "oset.found_at (st_slots s) (Some k) idx found"
    and room: "4 * (st_count s + 1) \<le> 3 * int (length (st_slots s))"
    and st: "obj_set_store s idx found (key_hash (Some k)) val = (s', ev)"
  shows "set_update_ok s k (Some ()) (s', ev)"
proof (cases found)
  case True
  then have "obj_set_entries s k = Some ()" using obj_set_found [OF at] by (auto simp: obj_set_elems_def)
  then have "(obj_set_entries s)(k \<mapsto> ()) = obj_set_entries s" by (auto simp: fun_eq_iff)
  then show ?thesis using True st inv by (auto simp: obj_set_store_def set_update_ok_def)
next
  case False
  note i = inv [unfolded obj_set_inv_def]
  let ?t = "\<lparr>ss_hash = key_hash (Some k), ss_value = val\<rparr>" and ?old = "st_slots s ! unat idx"
  have "\<not> 2 \<le> ss_hash ?old" "?old \<in> set (st_slots s)" using at False by (auto simp: oset.found_at_def)
  then have "ss_hash ?old = 0" using oset.invD(1) [OF i] by (auto simp: table_wf_def)
  then have s': "st_slots s' = (st_slots s)[unat idx := ?t]" "st_count s' = st_count s + 1" "st_used s' = st_used s + 1"
    and ev: "ev = [Retain val]" and rc: "oset_ref_count s' = oset_ref_count s"
    using st False by (auto simp: obj_set_store_def Let_def)
  have at': "oset.found_at (st_slots s) (member_key ?t) idx False" using at False key by simp
  have t: "2 \<le> ss_hash ?t" "ss_hash ?t = key_hash (member_key ?t)" using key by (simp_all add: key_hash_ge)
  note w = oset.fill_ok [OF i at' t room s']
  have "obj_set_entries s' = (obj_set_entries s)(k \<mapsto> ())" using w(2) key by (intro obj_set_entries_upd) simp
  then show ?thesis using w rc by (simp add: set_update_ok_def obj_set_inv_def obj_set_held_def ev)
qed

lemma obj_set_put:
  assumes inv: "obj_set_inv s" and lim: "st_count s < slot_table_limit" and test: "member_test match k"
    and key: "value_key val = Some k"
  shows "\<exists>s1 idx found s' ev. obj_set_ensure_capacity s 1 = Some s1 \<and>
    table_find (\<lambda>t. ss_hash t = 0) (\<lambda>t. ss_hash t = key_hash (Some k) \<and> match t) (st_slots s1) (key_hash (Some k)) = Some (idx, found) \<and>
    obj_set_store s1 idx found (key_hash (Some k)) val = (s', ev) \<and> set_update_ok s k (Some ()) (s', ev)"
proof -
  obtain s1 where s1: "obj_set_ensure_capacity s 1 = Some s1" "obj_set_inv s1" "oset.same s s1"
    "4 * (st_count s1 + 1) \<le> 3 * int (length (st_slots s1))"
    using oset.ensure_ok [OF inv [unfolded obj_set_inv_def] lim] by (auto simp: obj_set_inv_def obj_set_ensure_capacity_def)
  obtain idx found where f: "table_find (\<lambda>t. ss_hash t = 0) (\<lambda>t. ss_hash t = key_hash (Some k) \<and> match t)
      (st_slots s1) (key_hash (Some k)) = Some (idx, found)" "oset.found_at (st_slots s1) (Some k) idx found"
    using obj_set_find [OF s1(2) test] by blast
  obtain s' ev where r: "obj_set_store s1 idx found (key_hash (Some k)) val = (s', ev)" by fastforce
  have "set_update_ok s k (Some ()) (s', ev)"
    using obj_set_store_ok [OF s1(2) key f(2) s1(4) r] obj_set_same [OF s1(3)] by (simp add: set_update_ok_def)
  with s1(1) f(1) r show ?thesis by blast
qed

lemma obj_set_add_ok:
  assumes inv: "obj_set_inv s" "st_count s < slot_table_limit" and key: "value_key val = Some k"
  shows "\<exists>s' ev. obj_set_add (Some s) val = Some (Some s', ev) \<and> set_update_ok s k (Some ()) (s', ev)"
proof (cases val rule: value_key.cases)
  case (1 i)
  from obj_set_put [OF inv member_test_value [OF key] key] 1 key
  show ?thesis by (auto simp: obj_set_add_def obj_set_find_slot_def Let_def)
next
  case (2 str)
  then have str: "string_ok str" and k: "k = StrKey (os_chars str)" using key by (auto split: if_splits)
  obtain str' where h: "map_string_hash_obj (Some str) = (map_string_hash_chars (Some (os_chars str)), Some str')"
    using string_hash_ok [OF str] by (cases "map_string_hash_obj (Some str)") (auto simp: map_string_hash_obj_def Let_def)
  from obj_set_put [OF inv member_test_chars string_hash_key [OF str h]]
  show ?thesis by (auto simp: 2 obj_set_add_def obj_set_add_string_def h k Let_def set_update_ok_def)
qed (use key in simp_all)

lemma obj_set_remove_slot_ok:
  assumes inv: "obj_set_inv s" and test: "member_test match k"
  shows "\<exists>s' ev. obj_set_remove_slot s match (key_hash (Some k)) = Some (s', ev) \<and> set_update_ok s k None (s', ev)"
proof -
  note i = inv [unfolded obj_set_inv_def]
  obtain idx found where f: "table_find (\<lambda>t. ss_hash t = 0) (\<lambda>t. ss_hash t = key_hash (Some k) \<and> match t)
      (st_slots s) (key_hash (Some k)) = Some (idx, found)" "oset.found_at (st_slots s) (Some k) idx found"
    using obj_set_find [OF assms] by blast
  show ?thesis
  proof (cases found)
    case False
    then have "(obj_set_entries s)(k := None) = obj_set_entries s"
      using obj_set_found [OF f(2)] by (auto simp: obj_set_elems_def fun_eq_iff domIff)
    with False f(1) inv show ?thesis by (simp add: obj_set_remove_slot_def set_update_ok_def)
  next
    case True
    let ?old = "st_slots s ! unat idx"
    obtain s1 where s1: "obj_set_backshift_remove_at s idx = Some s1" "oset.inv s1" "oset.ents s1 = (oset.ents s)(Some k := None)"
      "add_mset ?old (oset.held s1) = oset.held s" "slot_table.more s1 = slot_table.more s"
      using oset.backshift_ok [OF i] f(2) True by (auto simp: obj_set_backshift_remove_at_def)
    obtain s' where s': "obj_set_maybe_compact_after_remove s1 = Some s'" "oset.inv s'" "oset.same s1 s'"
      using oset.compact_ok [OF s1(2)] by (auto simp: obj_set_maybe_compact_after_remove_def)
    have "oset_ref_count s1 = oset_ref_count s" using s1(5) by (cases s, cases s1) simp
    moreover have "add_mset (ss_value ?old) (obj_set_held s1) = obj_set_held s"
      using arg_cong [OF s1(4), of "image_mset ss_value"] by (simp add: obj_set_held_def)
    ultimately show ?thesis
      using True f(1) s1(1) s' obj_set_same [OF s'(3)] obj_set_entries_upd [OF s1(3)]
      by (simp add: obj_set_remove_slot_def set_update_ok_def Let_def obj_set_inv_def)
  qed
qed

lemma obj_set_remove_ok:
  assumes inv: "obj_set_inv s" and key: "value_key val = Some k"
  shows "\<exists>s' ev. obj_set_remove (Some s) val = Some (Some s', ev) \<and> set_update_ok s k None (s', ev)"
proof (cases val rule: value_key.cases)
  case (1 i)
  then show ?thesis using obj_set_remove_slot_ok [OF inv member_test_value [OF key]] key
    by (auto simp: obj_set_remove_def Let_def)
next
  case (2 str)
  then have "string_ok str" "k = StrKey (os_chars str)" using key by (auto split: if_splits)
  then show ?thesis using 2 obj_set_remove_slot_ok [OF inv member_test_chars [of "os_chars str"]] string_hash_ok [of str]
    by (auto simp: obj_set_remove_def obj_set_remove_string_def Let_def set_update_ok_def)
qed (use key in simp_all)

lemma obj_set_has_ok:
  assumes inv: "obj_set_inv s" and key: "value_key val = Some k"
  shows "map_option fst (obj_set_has (Some s) val) = Some (k \<in> obj_set_elems s)"
proof (cases val rule: value_key.cases)
  case (1 i)
  then show ?thesis using obj_set_lookup_ok [OF inv member_test_value [OF key]] key by (auto simp: obj_set_has_def Let_def)
next
  case (2 str)
  then have "string_ok str" "k = StrKey (os_chars str)" using key by (auto split: if_splits)
  then show ?thesis using 2 obj_set_lookup_ok [OF inv member_test_chars [of "os_chars str"]] string_hash_ok [of str]
    by (auto simp: obj_set_has_def obj_set_has_string_def Let_def)
qed (use key in simp_all)

lemma obj_set_create_inv: "obj_set_inv obj_set_create" "obj_set_entries obj_set_create = Map.empty"
  "obj_set_held obj_set_create = {#}"
  using oset.fresh_ok [of 4]
  by (simp_all add: obj_set_inv_def obj_set_create_def slot_table_inv_def obj_set_entries_def fun_eq_iff obj_set_held_def)

lemma obj_set_dom:
  assumes "obj_set_inv s"
  shows "dom (oset.ents s) = Some ` obj_set_elems s" and "st_count s = int (card (obj_set_elems s))"
    and "finite (obj_set_elems s)"
proof -
  note i = assms [unfolded obj_set_inv_def]
  show d: "dom (oset.ents s) = Some ` obj_set_elems s"
  proof (intro set_eqI iffI)
    fix x
    assume x: "x \<in> dom (oset.ents s)"
    then obtain t where "t \<in> set (st_slots s)" "2 \<le> ss_hash t" "x = member_key t"
      by (auto simp: table_entries_dom live_slots_def)
    then obtain k where "x = Some k" using live_member_key(2) [OF assms] by blast
    then show "x \<in> Some ` obj_set_elems s" using x by (auto simp: obj_set_elems_def obj_set_entries_def domIff)
  qed (auto simp: obj_set_elems_def obj_set_entries_def domIff)
  then have "card (dom (oset.ents s)) = card (obj_set_elems s)" by (simp add: card_image)
  then show "st_count s = int (card (obj_set_elems s))" using oset.invD(3) [OF i] by simp
  have "finite (dom (oset.ents s))" by (simp add: table_entries_dom)
  then show "finite (obj_set_elems s)" unfolding d by (simp add: finite_image_iff)
qed

section \<open>Properties\<close>

definition set_put :: "ObjSet \<Rightarrow> Value \<Rightarrow> unit \<Rightarrow> ObjSet option" where
  "set_put s val u = (case obj_set_add (Some s) val of Some (s', ev) \<Rightarrow> s' | None \<Rightarrow> None)"

definition set_del :: "ObjSet \<Rightarrow> Value \<Rightarrow> ObjSet option" where
  "set_del s val = (case obj_set_remove (Some s) val of Some (s', ev) \<Rightarrow> s' | None \<Rightarrow> None)"

definition set_look :: "ObjSet \<Rightarrow> Value \<Rightarrow> unit option option" where
  "set_look s val = map_option (\<lambda>(found, ev). if found then Some () else None) (obj_set_has (Some s) val)"

lemma set_put_law:
  assumes "obj_set_inv s" and k: "value_key val = Some k" and "card (dom (obj_set_entries s)) < 402653184"
  shows "\<exists>s'. set_put s val u = Some s' \<and> obj_set_inv s' \<and> obj_set_entries s' = (obj_set_entries s)(k \<mapsto> u)"
proof -
  have "st_count s < slot_table_limit" using assms(1,3) obj_set_dom(2) by (simp add: obj_set_elems_def)
  from obj_set_add_ok [OF assms(1) this k]
  obtain s' ev where "obj_set_add (Some s) val = Some (Some s', ev)" "set_update_ok s k (Some ()) (s', ev)" by blast
  then show ?thesis by (cases u) (auto simp: set_put_def set_update_ok_def)
qed

lemma set_look_law:
  assumes "obj_set_inv s" and "value_key val = Some k"
  shows "set_look s val = Some (obj_set_entries s k)"
proof -
  obtain ev where "obj_set_has (Some s) val = Some (k \<in> obj_set_elems s, ev)" using obj_set_has_ok [OF assms] by auto
  then have "set_look s val = Some (if k \<in> obj_set_elems s then Some () else None)" by (simp add: set_look_def)
  also have "(if k \<in> obj_set_elems s then Some () else None) = obj_set_entries s k"
    unfolding obj_set_elems_def domIff by (cases "obj_set_entries s k") simp_all
  finally show ?thesis .
qed

lemma set_del_law:
  "obj_set_inv s \<Longrightarrow> value_key val = Some k \<Longrightarrow>
    \<exists>s'. set_del s val = Some s' \<and> obj_set_inv s' \<and> obj_set_entries s' = (obj_set_entries s)(k := None)"
  using obj_set_remove_ok [of s val k] by (auto simp: set_del_def set_update_ok_def)

interpretation set_store: kv_table_delete obj_set_inv obj_set_entries value_key obj_set_create set_put set_look 402653184 set_del
proof (unfold_locales, goal_cases)
  case 1 show ?case by (rule obj_set_create_inv)
next
  case 2 show ?case by (rule obj_set_create_inv)
next
  case (3 s) then show ?case using obj_set_dom(3) by (simp add: obj_set_elems_def)
next
  case (4 s val k u) then show ?case by (rule set_put_law)
next
  case (5 s val k) then show ?case by (rule set_look_law)
next
  case (6 s val k) then show ?case by (rule set_del_law)
qed

text \<open>
  Claim C27.  Any sequence of at most 402653184 additions and removals of integers and strings, started on
  a new set, returns, and the set then has exactly the elements that the sequence leaves in a finite set;
  its count is the number of elements.
\<close>

theorem obj_set_run_refines:
  assumes "length cmds \<le> 402653184" and "\<forall>cmd\<in>set cmds. value_key (kv_cmd_key cmd) \<noteq> None"
  shows "\<exists>s. kv_run set_put set_del obj_set_create cmds = Some s \<and> obj_set_inv s \<and>
    obj_set_elems s = dom (foldl (kv_spec value_key) Map.empty cmds) \<and>
    obj_set_count (Some s) = int (card (obj_set_elems s))"
  using set_store.run_ok [OF assms] obj_set_dom(2) by (auto simp: obj_set_count_def obj_set_elems_def)

theorem obj_set_run_refines_witness:
  "\<exists>s. kv_run set_put set_del obj_set_create [Put (VAL_INT 7) (), Put (VAL_INT 8) (), Del (VAL_INT 7)] = Some s \<and>
    obj_set_elems s = {IntKey 8}"
  using obj_set_run_refines [of "[Put (VAL_INT 7) (), Put (VAL_INT 8) (), Del (VAL_INT 7)]"]
  by auto

lemma obj_set_free_held: "released (obj_set_free (Some s)) = obj_set_held s" "retained (obj_set_free (Some s)) = {#}"
proof -
  have "released (concat (map (\<lambda>t. if ss_hash t < 2 then [] else [Release (ss_value t)]) xs)) =
      image_mset ss_value (live_mset (\<lambda>s. 2 \<le> ss_hash s) xs) \<and>
    retained (concat (map (\<lambda>t. if ss_hash t < 2 then [] else [Release (ss_value t)]) xs)) = {#}"
    for xs :: "SetSlot list"
    by (induction xs) (auto simp: live_mset_def not_less)
  then show "released (obj_set_free (Some s)) = obj_set_held s" "retained (obj_set_free (Some s)) = {#}"
    by (simp_all add: obj_set_free_def obj_set_held_def)
qed

text \<open>
  Claim C28.  On a well-formed set with room, adding and removing a value return, add and remove exactly
  that element, keep the well-formedness, and take and drop exactly the references by which the set's
  contents change; the membership test is right; and freeing the set releases what it holds.
\<close>

theorem obj_set_operations:
  assumes "obj_set_inv s" and "st_count s < slot_table_limit" and "value_key val = Some k"
  shows "(\<exists>s' ev. obj_set_add (Some s) val = Some (Some s', ev) \<and> obj_set_inv s' \<and>
      obj_set_elems s' = insert k (obj_set_elems s) \<and>
      obj_set_held s' + released ev = obj_set_held s + retained ev) \<and>
    (\<exists>s' ev. obj_set_remove (Some s) val = Some (Some s', ev) \<and> obj_set_inv s' \<and>
      obj_set_elems s' = obj_set_elems s - {k} \<and>
      obj_set_held s' + released ev = obj_set_held s + retained ev) \<and>
    (\<exists>ev. obj_set_has (Some s) val = Some (k \<in> obj_set_elems s, ev)) \<and>
    released (obj_set_free (Some s)) = obj_set_held s \<and> retained (obj_set_free (Some s)) = {#}"
proof (intro conjI)
  show "\<exists>s' ev. obj_set_add (Some s) val = Some (Some s', ev) \<and> obj_set_inv s' \<and>
      obj_set_elems s' = insert k (obj_set_elems s) \<and> obj_set_held s' + released ev = obj_set_held s + retained ev"
    using obj_set_add_ok [OF assms] by (auto simp: set_update_ok_def obj_set_elems_def)
  show "\<exists>s' ev. obj_set_remove (Some s) val = Some (Some s', ev) \<and> obj_set_inv s' \<and>
      obj_set_elems s' = obj_set_elems s - {k} \<and> obj_set_held s' + released ev = obj_set_held s + retained ev"
    using obj_set_remove_ok [OF assms(1,3)] by (auto simp: set_update_ok_def obj_set_elems_def)
  show "\<exists>ev. obj_set_has (Some s) val = Some (k \<in> obj_set_elems s, ev)"
    using obj_set_has_ok [OF assms(1,3)] by auto
qed (rule obj_set_free_held)+

theorem obj_set_operations_witness:
  "\<exists>s' ev. obj_set_add (Some obj_set_create) (VAL_INT 5) = Some (Some s', ev) \<and> obj_set_elems s' = {IntKey 5}"
proof -
  have "st_count obj_set_create < slot_table_limit" by (simp add: obj_set_create_def)
  from obj_set_operations [OF obj_set_create_inv(1) this, of "VAL_INT 5" "IntKey 5"]
  show ?thesis by (simp add: obj_set_elems_def obj_set_create_inv(2)) blast
qed

end
