(* ===== verification/Hash_Table.thy ===== *)
theory Hash_Table
  imports Obj_Set
begin

text \<open>
  The string-keyed hash table of \<^verbatim>\<open>src/src/vm.c\<close> (\<^verbatim>\<open>hash_table_*\<close>) and its two uses: the pool of interned
  strings, and the global variables, which the virtual machine keeps in three structures at once (an array of
  values, an array of names, and the table, whose entries know their array slot).  The lemmas
  show that the table is a finite map, and that the three views of the globals always agree.
\<close>

section \<open>The table\<close>

record HashEntry =
  he_hash :: u32
  he_global_slot :: int
  he_key :: string
  he_value :: Value

text \<open>\<open>entries\<close> is \<open>None\<close> after the table was freed; \<open>capacity\<close> is the length of the list.\<close>

record HashTable =
  ht_entries :: "HashEntry option list option"
  ht_count :: int

definition hash_table_hash_key :: "string option \<Rightarrow> u32" where
  "hash_table_hash_key key =
     (case key of
        None \<Rightarrow> 0
      | Some k \<Rightarrow>
          let hash = foldl (\<lambda>hash c. (hash XOR of_char c) * 1099511628211) 1469598103934665603 (cstr k)
          in hash_fold64_to32 (hash XOR word_of_nat (length (cstr k))))"

abbreviation entry_hash :: "HashEntry option \<Rightarrow> u32" where
  "entry_hash e \<equiv> he_hash (the e)"

definition entry_live :: "HashEntry option \<Rightarrow> bool" where
  "entry_live e \<longleftrightarrow> e \<noteq> None"

definition hash_table_adjust_capacity :: "HashTable \<Rightarrow> nat \<Rightarrow> HashTable option" where
  "hash_table_adjust_capacity t new_capacity =
     (case ht_entries t of
        None \<Rightarrow> Some t
      | Some old_entries \<Rightarrow>
          if new_capacity < 16 then Some t
          else if (word_of_nat new_capacity :: u32) AND (word_of_nat new_capacity - 1) \<noteq> 0 then Some t
          else case table_rehash (\<lambda>e. e = None) entry_live entry_hash old_entries (replicate new_capacity None) of
                 None \<Rightarrow> None
               | Some new_entries \<Rightarrow> Some (t\<lparr>ht_entries := Some new_entries\<rparr>))"

text \<open>The doubling loop; a capacity is never zero.\<close>

function hash_table_grow :: "int \<Rightarrow> nat \<Rightarrow> nat" where
  "hash_table_grow needed capacity =
     (if needed > int (capacity * 7 div 10) \<and> capacity > 0 then hash_table_grow needed (capacity * 2) else capacity)"
  by pat_completeness auto
termination
  by (relation "measure (\<lambda>(needed, capacity). nat (needed * 2) - capacity)") auto

declare hash_table_grow.simps [simp del]

definition hash_table_max_load :: "nat \<Rightarrow> int" where
  "hash_table_max_load capacity = (let max_load = int (capacity * 7 div 10) in if max_load < 1 then 1 else max_load)"

definition hash_table_ensure_capacity :: "HashTable \<Rightarrow> int \<Rightarrow> HashTable option" where
  "hash_table_ensure_capacity t additional =
     (case ht_entries t of
        None \<Rightarrow> Some t
      | Some entries \<Rightarrow>
          if additional \<le> 0 then Some t
          else let needed = ht_count t + additional
               in if needed \<le> hash_table_max_load (length entries) then Some t
                  else hash_table_adjust_capacity t (hash_table_grow needed (length entries)))"

text \<open>The search for a C string; \<open>None\<close> is a search that never ends.\<close>

definition hash_table_find_slot :: "HashEntry option list \<Rightarrow> string \<Rightarrow> u32 \<Rightarrow> (u32 \<times> bool) option" where
  "hash_table_find_slot entries key hash =
     table_find (\<lambda>e. e = None) (\<lambda>e. entry_hash e = hash \<and> cstr (he_key (the e)) = cstr key) entries hash"

definition hash_table_init :: HashTable where
  "hash_table_init = \<lparr>ht_entries = Some (replicate 16 None), ht_count = 0\<rparr>"

definition hash_table_free :: "HashTable \<Rightarrow> HashTable \<times> obj_event list" where
  "hash_table_free t =
     (case ht_entries t of
        None \<Rightarrow> (t, [])
      | Some entries \<Rightarrow>
          (t\<lparr>ht_entries := None, ht_count := 0\<rparr>,
           concat (map (\<lambda>e. case e of None \<Rightarrow> [] | Some e \<Rightarrow> [Release (he_value e)]) entries)))"

text \<open>Storing over the value of an entry; the table takes over the caller's reference.\<close>

definition hash_table_replace :: "HashTable \<Rightarrow> HashEntry option list \<Rightarrow> u32 \<Rightarrow> Value \<Rightarrow> HashTable \<times> obj_event list" where
  "hash_table_replace t entries idx val =
     (let entry = the (entries ! unat idx)
      in (t\<lparr>ht_entries := Some (entries[unat idx := Some (entry\<lparr>he_value := val\<rparr>)])\<rparr>, [Release (he_value entry)]))"

definition hash_table_insert :: "HashTable \<Rightarrow> HashEntry option list \<Rightarrow> u32 \<Rightarrow> u32 \<Rightarrow> string \<Rightarrow> Value \<Rightarrow> HashTable \<times> obj_event list" where
  "hash_table_insert t entries idx hash key val =
     (t\<lparr>ht_entries := Some (entries[unat idx := Some \<lparr>he_hash = hash, he_global_slot = - 1, he_key = cstr key, he_value = val\<rparr>]),
        ht_count := ht_count t + 1\<rparr>, [])"

definition hash_table_set :: "HashTable \<Rightarrow> string option \<Rightarrow> Value \<Rightarrow> (HashTable \<times> obj_event list) option" where
  "hash_table_set t key val =
     (case (ht_entries t, key) of
        (Some entries, Some k) \<Rightarrow>
          let hash = hash_table_hash_key key
          in (case hash_table_find_slot entries k hash of
                None \<Rightarrow> None
              | Some (idx, found) \<Rightarrow>
                  if found then Some (hash_table_replace t entries idx val)
                  else if ht_count t + 1 > hash_table_max_load (length entries)
                  then (case hash_table_ensure_capacity t 1 of
                          None \<Rightarrow> None
                        | Some t \<Rightarrow>
                            let entries = the (ht_entries t)
                            in case hash_table_find_slot entries k hash of
                                 None \<Rightarrow> None
                               | Some (idx, found) \<Rightarrow>
                                   if found then Some (hash_table_replace t entries idx val)
                                   else Some (hash_table_insert t entries idx hash k val))
                  else Some (hash_table_insert t entries idx hash k val))
      | _ \<Rightarrow> Some (t, []))"

text \<open>The entry of a key: \<open>Some None\<close> is a null pointer.\<close>

definition hash_table_get_entry :: "HashTable \<Rightarrow> string option \<Rightarrow> HashEntry option option" where
  "hash_table_get_entry t key =
     (case (ht_entries t, key) of
        (Some entries, Some k) \<Rightarrow>
          (case hash_table_find_slot entries k (hash_table_hash_key key) of
             None \<Rightarrow> None
           | Some (idx, found) \<Rightarrow> Some (if found then entries ! unat idx else None))
      | _ \<Rightarrow> Some None)"

definition hash_table_get :: "HashTable \<Rightarrow> string option \<Rightarrow> Value option" where
  "hash_table_get t key =
     map_option (\<lambda>e. case e of None \<Rightarrow> VAL_NIL | Some e \<Rightarrow> he_value e) (hash_table_get_entry t key)"

subsection \<open>The table is a finite map\<close>

text \<open>The keys are C strings: characters up to the first zero.\<close>

definition entry_key_hash :: "string \<Rightarrow> u32" where
  "entry_key_hash k = hash_table_hash_key (Some k)"

abbreviation entry_key :: "HashEntry option \<Rightarrow> string" where
  "entry_key e \<equiv> he_key (the e)"

text \<open>The entries without the bookkeeping field \<open>global_slot\<close> are the finite map.\<close>

interpretation ht: probe_slots "\<lambda>e. e = None" entry_live entry_hash entry_key "\<lambda>e. the e" entry_key_hash None
  by unfold_locales (simp_all add: entry_live_def)

lemma cstr_idem [simp]: "cstr (cstr s) = cstr s"
  by (simp add: cstr_def takeWhile_takeWhile)

definition hash_table_inv :: "HashTable \<Rightarrow> bool" where
  "hash_table_inv t \<longleftrightarrow>
     (\<exists>entries. ht_entries t = Some entries \<and> ht.wf entries \<and> length entries \<le> 2 ^ 28 \<and>
        (\<forall>e. Some e \<in> set entries \<longrightarrow> cstr (he_key e) = he_key e) \<and>
        ht_count t = int (live_count entry_live entries) \<and>
        ht_count t \<le> int (length entries * 7 div 10))"

text \<open>The entry of a key, and the value of a key.\<close>

definition hash_table_entries :: "HashTable \<Rightarrow> string \<rightharpoonup> HashEntry" where
  "hash_table_entries t = (case ht_entries t of None \<Rightarrow> Map.empty | Some entries \<Rightarrow> ht.entries entries)"

lemma hash_key_cstr: "hash_table_hash_key (Some k) = entry_key_hash (cstr k)"
  by (simp add: hash_table_hash_key_def entry_key_hash_def)

lemma hash_table_invE:
  assumes "hash_table_inv t"
  obtains es where "ht_entries t = Some es" and "ht.wf es" and "length es \<le> 2 ^ 28"
    and "\<forall>e. Some e \<in> set es \<longrightarrow> cstr (he_key e) = he_key e"
    and "ht_count t = int (live_count entry_live es)" and "ht_count t \<le> int (length es * 7 div 10)"
    and "live_count entry_live es < length es"
proof -
  obtain es where es: "ht_entries t = Some es" "ht.wf es" "length es \<le> 2 ^ 28"
    "\<forall>e. Some e \<in> set es \<longrightarrow> cstr (he_key e) = he_key e"
    "ht_count t = int (live_count entry_live es)" "ht_count t \<le> int (length es * 7 div 10)"
    using assms by (auto simp: hash_table_inv_def)
  have "0 < length es" using es(2) by (auto simp: table_wf_def elim: table_size_okE)
  then have "live_count entry_live es < length es" using es(5,6) by linarith
  with es that show thesis by blast
qed

lemma hash_table_find_ok:
  assumes "ht.wf es" and "live_count entry_live es < length es" and c: "\<forall>e. Some e \<in> set es \<longrightarrow> cstr (he_key e) = he_key e"
  shows "\<exists>idx found. hash_table_find_slot es k (hash_table_hash_key (Some k)) = Some (idx, found) \<and>
    ht.found_at es (cstr k) idx found"
  unfolding hash_table_find_slot_def hash_key_cstr
proof (rule ht.find_ok [OF assms(1,2)])
  fix e
  assume e: "e \<in> set es" "entry_live e"
  then have "entry_hash e = entry_key_hash (entry_key e)" using assms(1) by (auto simp: table_wf_def)
  moreover have "cstr (entry_key e) = entry_key e" using c e by (auto simp: entry_live_def)
  ultimately show "(entry_hash e = entry_key_hash (cstr k) \<and> cstr (entry_key e) = cstr k) = (entry_key e = cstr k)" by auto
qed

lemma hash_table_found:
  assumes "ht.wf es" and "ht.found_at es k idx found"
  shows "ht.entries es k = (if found then es ! unat idx else None)"
proof (cases found)
  case True
  then have s: "es ! unat idx \<in> live_slots entry_live es" "entry_key (es ! unat idx) = k"
    using assms(2) by (auto simp: ht.found_at_def live_slots_def)
  then obtain e where e: "es ! unat idx = Some e" by (auto simp: live_slots_def entry_live_def)
  have "ht.entries es k = Some e" using table_entries_Some [OF ht.wf_unique [OF assms(1)], of the k e] s e by force
  with True e show ?thesis by simp
qed (use assms(2) in \<open>auto simp: ht.found_at_def\<close>)

lemma hash_table_get_entry_ok:
  assumes "hash_table_inv t"
  shows "hash_table_get_entry t (Some k) = Some (hash_table_entries t (cstr k))"
proof -
  obtain es where es: "ht_entries t = Some es" "ht.wf es" "live_count entry_live es < length es"
    "\<forall>e. Some e \<in> set es \<longrightarrow> cstr (he_key e) = he_key e" using assms by (rule hash_table_invE)
  from hash_table_find_ok [OF es(2,3,4), of k]
  obtain idx found where "hash_table_find_slot es k (hash_table_hash_key (Some k)) = Some (idx, found)"
    "ht.found_at es (cstr k) idx found" by blast
  then show ?thesis using hash_table_found [OF es(2)] es(1) by (simp add: hash_table_get_entry_def hash_table_entries_def)
qed

lemma hash_table_grow_ok:
  assumes "needed \<le> int (2 ^ n * 7 div 10)" and "k \<le> n"
  shows "\<exists>j. k \<le> j \<and> j \<le> n \<and> hash_table_grow needed (2 ^ k) = 2 ^ j \<and> needed \<le> int (2 ^ j * 7 div 10)"
  using assms(2)
proof (induction "n - k" arbitrary: k)
  case 0
  then have "k = n" by simp
  with assms(1) show ?case by (subst hash_table_grow.simps) auto
next
  case (Suc d)
  show ?case
  proof (cases "needed > int (2 ^ k * 7 div 10)")
    case True
    have "d = n - Suc k" "Suc k \<le> n" using Suc.hyps(2) by simp_all
    from Suc.hyps(1) [OF this] obtain j where "Suc k \<le> j" "j \<le> n" "hash_table_grow needed (2 ^ Suc k) = 2 ^ j"
      "needed \<le> int (2 ^ j * 7 div 10)" by blast
    moreover have "hash_table_grow needed (2 ^ k) = hash_table_grow needed (2 ^ Suc k)"
      using True by (subst hash_table_grow.simps) (simp add: mult.commute)
    ultimately show ?thesis by (intro exI [of _ j]) simp
  next
    case False
    then have "hash_table_grow needed (2 ^ k) = 2 ^ k" by (subst hash_table_grow.simps) simp
    with False Suc.prems show ?thesis by (intro exI [of _ k]) simp
  qed
qed

text \<open>The entry that a table holds for \<open>k\<close> after storing \<open>v\<close>, and the references it drops.\<close>

definition stored_entry :: "HashTable \<Rightarrow> string \<Rightarrow> Value \<Rightarrow> HashEntry" where
  "stored_entry t k v =
     (case hash_table_entries t k of
        Some e \<Rightarrow> e\<lparr>he_value := v\<rparr>
      | None \<Rightarrow> \<lparr>he_hash = entry_key_hash k, he_global_slot = - 1, he_key = k, he_value = v\<rparr>)"

definition replaced_value :: "HashTable \<Rightarrow> string \<Rightarrow> obj_event list" where
  "replaced_value t k = (case hash_table_entries t k of Some e \<Rightarrow> [Release (he_value e)] | None \<Rightarrow> [])"

lemma hash_table_inv_length:
  assumes "ht.wf es" and "length es \<le> 2 ^ 28"
  shows "\<exists>k. 4 \<le> k \<and> k \<le> 28 \<and> length es = 2 ^ k"
proof -
  obtain k where k: "k \<in> {4..30}" "length es = 2 ^ k" using assms(1) by (auto simp: table_wf_def table_size_ok_def)
  then have "2 ^ k \<le> (2 :: nat) ^ 28" using assms(2) by simp
  then have "k \<le> 28" by (rule power_le_imp_le_exp [rotated]) simp
  with k show ?thesis by auto
qed

lemma hash_table_ensure_ok:
  assumes inv: "hash_table_inv t" and lim: "ht_count t < 187904819"
  shows "\<exists>t'. hash_table_ensure_capacity t 1 = Some t' \<and> hash_table_inv t' \<and>
    hash_table_entries t' = hash_table_entries t \<and> ht_count t' = ht_count t \<and>
    ht_count t' + 1 \<le> int (length (the (ht_entries t')) * 7 div 10)"
proof -
  obtain es where es: "ht_entries t = Some es" "ht.wf es" "length es \<le> 2 ^ 28"
    "\<forall>e. Some e \<in> set es \<longrightarrow> cstr (he_key e) = he_key e"
    "ht_count t = int (live_count entry_live es)" "ht_count t \<le> int (length es * 7 div 10)" "live_count entry_live es < length es"
    using inv by (rule hash_table_invE)
  obtain k where k: "4 \<le> k" "k \<le> 28" "length es = 2 ^ k" using hash_table_inv_length [OF es(2,3)] by blast
  have "(16 :: nat) = 2 ^ 4" by simp
  also have "\<dots> \<le> 2 ^ k" using k(1) by (intro power_increasing) simp_all
  finally have big: "16 \<le> (2 :: nat) ^ k" .
  then have "11 \<le> (2 ^ k * 7 div 10 :: nat)" by linarith
  then have ml: "hash_table_max_load (length es) = int (length es * 7 div 10)" by (simp add: hash_table_max_load_def k(3))
  show ?thesis
  proof (cases "ht_count t + 1 \<le> int (length es * 7 div 10)")
    case True
    then show ?thesis using inv es(1) by (simp add: hash_table_ensure_capacity_def ml)
  next
    case False
    obtain j where j: "k \<le> j" "j \<le> 28" "hash_table_grow (ht_count t + 1) (2 ^ k) = 2 ^ j"
      "ht_count t + 1 \<le> int (2 ^ j * 7 div 10)"
      using hash_table_grow_ok [of "ht_count t + 1" 28 k] lim k(2) by auto
    have "(2 :: nat) ^ k \<le> 2 ^ j" using j(1) by (intro power_increasing) simp_all
    then have room: "live_count entry_live es < 2 ^ j" and big': "\<not> 2 ^ j < (16 :: nat)" using es(7) k(3) big by linarith+
    have "j \<in> {4..30}" using j k by simp
    from ht.rehash_ok [OF es(2) this room]
    obtain T where T: "table_rehash (\<lambda>e. e = None) entry_live entry_hash es (replicate (2 ^ j) None) = Some T" "length T = 2 ^ j"
      "ht.wf T" "ht.entries T = ht.entries es" "live_count entry_live T = live_count entry_live es" "live_mset entry_live T = live_mset entry_live es"
      by blast
    have "set (filter entry_live T) = set (filter entry_live es)" using T(6) unfolding live_mset_def by (rule mset_eq_setD)
    then have "\<forall>e. Some e \<in> set T \<longrightarrow> cstr (he_key e) = he_key e" using es(4) by (auto simp: set_eq_iff entry_live_def)
    moreover have "(2 :: nat) ^ j \<le> 2 ^ 28" using j(2) by (intro power_increasing) simp_all
    moreover have "hash_table_ensure_capacity t 1 = Some (t\<lparr>ht_entries := Some T\<rparr>)"
      using False es(1) T(1) big' power2_and [of j] j(3) ml k(3)
      by (simp add: hash_table_ensure_capacity_def hash_table_adjust_capacity_def)
    ultimately show ?thesis using T es j(4) by (simp add: hash_table_inv_def hash_table_entries_def)
  qed
qed

definition table_stored :: "HashTable \<Rightarrow> string \<Rightarrow> Value \<Rightarrow> HashTable \<times> obj_event list \<Rightarrow> bool" where
  "table_stored t k v r \<longleftrightarrow>
     (case r of (t', ev) \<Rightarrow>
        hash_table_inv t' \<and> hash_table_entries t' = (hash_table_entries t)(k \<mapsto> stored_entry t k v) \<and> ev = replaced_value t k)"

lemma hash_table_replace_ok:
  assumes inv: "hash_table_inv t" and es: "ht_entries t = Some es" and at: "ht.found_at es (cstr k) idx True"
  shows "table_stored t (cstr k) v (hash_table_replace t es idx v)"
proof -
  have p: "ht.wf es" "length es \<le> 2 ^ 28" "\<forall>e. Some e \<in> set es \<longrightarrow> cstr (he_key e) = he_key e"
    "ht_count t = int (live_count entry_live es)" "ht_count t \<le> int (length es * 7 div 10)"
    using inv es by (auto simp: hash_table_inv_def)
  obtain e where e: "es ! unat idx = Some e" "unat idx < length es" "he_key e = cstr k"
    using at by (auto simp: ht.found_at_def entry_live_def)
  let ?s = "Some (e\<lparr>he_value := v\<rparr>)"
  have at': "ht.found_at es (entry_key ?s) idx True" using at e(3) by simp
  have s: "entry_live ?s" "entry_hash ?s = entry_hash (es ! unat idx)" by (simp_all add: entry_live_def e(1))
  note r = ht.replace_ok [OF p(1) at' s]
  have "hash_table_entries t (cstr k) = Some e"
    using hash_table_found [OF p(1) at] es e(1) by (simp add: hash_table_entries_def)
  moreover have "\<forall>e'. Some e' \<in> set (es[unat idx := ?s]) \<longrightarrow> cstr (he_key e') = he_key e'"
    using p(3) e by (auto dest!: set_update_subset_insert [THEN subsetD])
  ultimately show ?thesis using r p es e
    by (simp add: table_stored_def hash_table_replace_def hash_table_inv_def hash_table_entries_def stored_entry_def
        replaced_value_def Let_def)
qed

lemma hash_table_insert_ok:
  assumes inv: "hash_table_inv t" and es: "ht_entries t = Some es" and at: "ht.found_at es (cstr k) idx False"
    and room: "ht_count t + 1 \<le> int (length es * 7 div 10)"
  shows "table_stored t (cstr k) v (hash_table_insert t es idx (hash_table_hash_key (Some k)) k v)"
proof -
  have p: "ht.wf es" "length es \<le> 2 ^ 28" "\<forall>e. Some e \<in> set es \<longrightarrow> cstr (he_key e) = he_key e"
    "ht_count t = int (live_count entry_live es)"
    using inv es by (auto simp: hash_table_inv_def)
  let ?s = "Some \<lparr>he_hash = entry_key_hash (cstr k), he_global_slot = - 1, he_key = cstr k, he_value = v\<rparr>"
  have at': "ht.found_at es (entry_key ?s) idx False" using at by simp
  have s: "entry_live ?s" "entry_hash ?s = entry_key_hash (entry_key ?s)" by (simp_all add: entry_live_def)
  note r = ht.insert_ok [OF p(1) at' s]
  have "hash_table_entries t (cstr k) = None"
    using hash_table_found [OF p(1) at] es by (simp add: hash_table_entries_def)
  moreover have "\<forall>e'. Some e' \<in> set (es[unat idx := ?s]) \<longrightarrow> cstr (he_key e') = he_key e'"
    using p(3) by (auto dest!: set_update_subset_insert [THEN subsetD])
  ultimately show ?thesis using r p es room
    by (simp add: table_stored_def hash_table_insert_def hash_key_cstr hash_table_inv_def hash_table_entries_def stored_entry_def
        replaced_value_def Let_def)
qed

lemma hash_table_set_ok:
  assumes inv: "hash_table_inv t" and lim: "ht_count t < 187904819"
  shows "\<exists>r. hash_table_set t (Some k) v = Some r \<and> table_stored t (cstr k) v r"
proof -
  obtain es where es: "ht_entries t = Some es" "ht.wf es" "live_count entry_live es < length es"
    "\<forall>e. Some e \<in> set es \<longrightarrow> cstr (he_key e) = he_key e" "length es \<le> 2 ^ 28" using inv by (rule hash_table_invE)
  obtain idx found where f: "hash_table_find_slot es k (hash_table_hash_key (Some k)) = Some (idx, found)"
    "ht.found_at es (cstr k) idx found" using hash_table_find_ok [OF es(2,3,4)] by blast
  have ml: "int (length es * 7 div 10) = hash_table_max_load (length es)"
  proof -
    obtain n where "4 \<le> n" "length es = 2 ^ n" using hash_table_inv_length [OF es(2,5)] by blast
    moreover have "(2 :: nat) ^ 4 \<le> 2 ^ n" using \<open>4 \<le> n\<close> by (intro power_increasing) simp_all
    ultimately have "11 \<le> length es * 7 div 10" by simp
    then show ?thesis by (simp add: hash_table_max_load_def)
  qed
  consider (found) found | (room) "\<not> found" "ht_count t + 1 \<le> hash_table_max_load (length es)"
    | (grow) "\<not> found" "\<not> ht_count t + 1 \<le> hash_table_max_load (length es)" by blast
  then show ?thesis
  proof cases
    case found
    then show ?thesis using f es(1) hash_table_replace_ok [OF inv es(1)] by (simp add: hash_table_set_def Let_def)
  next
    case room
    then show ?thesis using f es(1) hash_table_insert_ok [OF inv es(1), of k idx v] ml
      by (simp add: hash_table_set_def Let_def)
  next
    case grow
    obtain t1 where t1: "hash_table_ensure_capacity t 1 = Some t1" "hash_table_inv t1" "hash_table_entries t1 = hash_table_entries t"
      "ht_count t1 + 1 \<le> int (length (the (ht_entries t1)) * 7 div 10)"
      using hash_table_ensure_ok [OF inv lim] by blast
    obtain es1 where es1: "ht_entries t1 = Some es1" "ht.wf es1" "live_count entry_live es1 < length es1"
      "\<forall>e. Some e \<in> set es1 \<longrightarrow> cstr (he_key e) = he_key e" using t1(2) by (rule hash_table_invE)
    obtain idx1 found1 where f1: "hash_table_find_slot es1 k (hash_table_hash_key (Some k)) = Some (idx1, found1)"
      "ht.found_at es1 (cstr k) idx1 found1" using hash_table_find_ok [OF es1(2,3,4)] by blast
    have "\<not> found1"
    proof
      assume "found1"
      then have "ht.entries es1 (cstr k) \<noteq> None" using f1(2) by (auto simp: ht.found_at_def)
      moreover have "ht.entries es (cstr k) = None" using f(2) grow(1) by (auto simp: ht.found_at_def)
      moreover have "ht.entries es1 = ht.entries es" using t1(3) es(1) es1(1) by (simp add: hash_table_entries_def)
      ultimately show False by simp
    qed
    then have "hash_table_set t (Some k) v = Some (hash_table_insert t1 es1 idx1 (hash_table_hash_key (Some k)) k v)"
      using grow f(1) es(1) t1(1) es1(1) f1(1) by (simp add: hash_table_set_def Let_def)
    moreover have "table_stored t1 (cstr k) v (hash_table_insert t1 es1 idx1 (hash_table_hash_key (Some k)) k v)"
      using hash_table_insert_ok [OF t1(2) es1(1), of k idx1 v] f1(2) \<open>\<not> found1\<close> t1(4) es1(1) by simp
    then have "table_stored t (cstr k) v (hash_table_insert t1 es1 idx1 (hash_table_hash_key (Some k)) k v)"
      using t1(3) by (simp add: table_stored_def stored_entry_def replaced_value_def)
    ultimately show ?thesis by blast
  qed
qed

lemma hash_table_init_ok: "hash_table_inv hash_table_init" "hash_table_entries hash_table_init = Map.empty" "ht_count hash_table_init = 0"
  using ht.fresh_ok [of 4]
  by (simp_all add: hash_table_init_def hash_table_inv_def hash_table_entries_def set_replicate_conv_if)

lemma hash_table_count:
  assumes "hash_table_inv t"
  shows "ht_count t = int (card (dom (hash_table_entries t)))" and "finite (dom (hash_table_entries t))"
proof -
  obtain es where es: "ht_entries t = Some es" "ht.wf es" "ht_count t = int (live_count entry_live es)"
    using assms by (rule hash_table_invE)
  show "ht_count t = int (card (dom (hash_table_entries t)))"
    using es table_entries_card [OF ht.wf_unique [OF es(2)], of the] by (simp add: hash_table_entries_def)
  show "finite (dom (hash_table_entries t))" using es(1) by (simp add: hash_table_entries_def table_entries_dom)
qed

text \<open>The table provides the keyed-table interface; it has no deletion.\<close>

definition table_put :: "HashTable \<Rightarrow> string \<Rightarrow> Value \<Rightarrow> HashTable option" where
  "table_put t k v = map_option fst (hash_table_set t (Some k) v)"

definition table_look :: "HashTable \<Rightarrow> string \<Rightarrow> Value option option" where
  "table_look t k = map_option (map_option he_value) (hash_table_get_entry t (Some k))"

definition table_values :: "HashTable \<Rightarrow> string \<rightharpoonup> Value" where
  "table_values t = map_option he_value \<circ> hash_table_entries t"

lemma table_values_put: "(map_option he_value \<circ> m)(k \<mapsto> he_value e) = map_option he_value \<circ> m(k \<mapsto> e)"
  by (simp add: fun_eq_iff)

interpretation ht_store: kv_table hash_table_inv table_values "\<lambda>k. Some (cstr k)" hash_table_init table_put table_look 187904819
proof unfold_locales
  show "hash_table_inv hash_table_init" "table_values hash_table_init = Map.empty"
    using hash_table_init_ok by (simp_all add: table_values_def fun_eq_iff)
next
  fix t
  assume "hash_table_inv t"
  then show "finite (dom (table_values t))" using hash_table_count(2) by (simp add: table_values_def dom_def)
next
  fix t k k' v
  assume inv: "hash_table_inv t" and k: "Some (cstr k) = Some k'" and "card (dom (table_values t)) < 187904819"
  then have "ht_count t < 187904819" using hash_table_count(1) [OF inv] by (simp add: table_values_def dom_def)
  from hash_table_set_ok [OF inv this, of k v] obtain t' ev where
    "hash_table_set t (Some k) v = Some (t', ev)" "table_stored t (cstr k) v (t', ev)" by auto
  moreover have "he_value (stored_entry t (cstr k) v) = v" by (simp add: stored_entry_def split: option.split)
  ultimately show "\<exists>t'. table_put t k v = Some t' \<and> hash_table_inv t' \<and> table_values t' = (table_values t)(k' \<mapsto> v)"
    using k by (auto simp: table_put_def table_stored_def table_values_def)
next
  fix t k k'
  assume "hash_table_inv t" and "Some (cstr k) = Some k'"
  then show "table_look t k = Some (table_values t k')" by (simp add: table_look_def table_values_def hash_table_get_entry_ok)
qed

lemma hash_table_get_ok:
  "hash_table_inv t \<Longrightarrow> hash_table_get t (Some k) = Some (case table_values t (cstr k) of None \<Rightarrow> VAL_NIL | Some v \<Rightarrow> v)"
  by (simp add: hash_table_get_def hash_table_get_entry_ok table_values_def split: option.split)

text \<open>
  Claim C33.  The string-keyed table is a finite map from C strings to values: below 187904819 entries, setting
  a key returns, binds exactly that key and releases exactly the value it replaces; getting returns the
  bound value or nil; and a key set is found again under every string with the same characters before
  its first zero.
\<close>

theorem hash_table_refines:
  assumes "hash_table_inv t" and "ht_count t < 187904819"
  shows "\<exists>t' ev. hash_table_set t (Some k) v = Some (t', ev) \<and> hash_table_inv t' \<and>
    table_values t' = (table_values t)(cstr k \<mapsto> v) \<and>
    ev = (case table_values t (cstr k) of None \<Rightarrow> [] | Some old \<Rightarrow> [Release old]) \<and>
    hash_table_get t' (Some k') =
      (if cstr k' = cstr k then Some v else hash_table_get t (Some k'))"
proof -
  from hash_table_set_ok [OF assms, of k v] obtain t' ev where s:
    "hash_table_set t (Some k) v = Some (t', ev)" "table_stored t (cstr k) v (t', ev)" by auto
  then have inv': "hash_table_inv t'" and ev: "ev = replaced_value t (cstr k)"
    and e: "hash_table_entries t' = (hash_table_entries t)(cstr k \<mapsto> stored_entry t (cstr k) v)"
    by (simp_all add: table_stored_def)
  have "he_value (stored_entry t (cstr k) v) = v" by (simp add: stored_entry_def split: option.split)
  then have v: "table_values t' = (table_values t)(cstr k \<mapsto> v)" by (simp add: table_values_def e)
  moreover have "ev = (case table_values t (cstr k) of None \<Rightarrow> [] | Some old \<Rightarrow> [Release old])"
    by (simp add: ev replaced_value_def table_values_def split: option.split)
  moreover have "hash_table_get t' (Some k') = (if cstr k' = cstr k then Some v else hash_table_get t (Some k'))"
    by (simp add: hash_table_get_ok [OF inv'] hash_table_get_ok [OF assms(1)] v)
  ultimately show ?thesis using s(1) inv' by blast
qed

theorem hash_table_refines_witness:
  "\<exists>t' ev. hash_table_set hash_table_init (Some ''x'') (VAL_INT 1) = Some (t', ev) \<and> hash_table_get t' (Some ''x'') = Some (VAL_INT 1)"
  using hash_table_refines [OF hash_table_init_ok(1), of "''x''" "VAL_INT 1" "''x''"] hash_table_init_ok(3) by auto

end
