(* ===== verification/VM_Globals.thy ===== *)
theory VM_Globals
  imports Hash_Table
begin

text \<open>
  The pool of interned strings and the global variables of the virtual machine (\<^verbatim>\<open>src/src/vm.c\<close>), over the
  string-keyed table.  A pointer to a table entry is the key of the entry: keys are unique, never
  change, and entries stay allocated as long as the table.
\<close>

section \<open>The model\<close>

text \<open>Writing through a pointer to the entry of a key.\<close>

definition entry_write :: "HashTable \<Rightarrow> string \<Rightarrow> (HashEntry \<Rightarrow> HashEntry) \<Rightarrow> HashTable" where
  "entry_write t k f =
     t\<lparr>ht_entries := map_option (map (map_option (\<lambda>e. if he_key e = k then f e else e))) (ht_entries t)\<rparr>"

text \<open>
  \<^verbatim>\<open>vm_intern_string\<close>: the pool and the string with one more reference for the caller.  The pool and the caller
  share the object, so the pool holds it with its new count.
\<close>

definition vm_intern_string :: "HashTable \<Rightarrow> string \<Rightarrow> (HashTable \<times> ObjString option) option" where
  "vm_intern_string pool chars =
     (case hash_table_get pool (Some chars) of
        None \<Rightarrow> None
      | Some existing \<Rightarrow>
          (case existing of
             VAL_STRING s \<Rightarrow>
               let s = obj_string_retain s
               in Some (entry_write pool (cstr chars) (\<lambda>e. e\<lparr>he_value := VAL_STRING s\<rparr>), s)
           | _ \<Rightarrow>
               let s = obj_string_retain (Some (obj_string_create chars))
               in map_option (\<lambda>(pool, ev). (pool, s)) (hash_table_set pool (Some chars) (VAL_STRING s))))"

text \<open>
  The fields of the machine that hold the globals; \<open>global_count\<close> is the length of the lists.  An element of
  \<open>globals_hash_entries\<close> is a pointer to a table entry or null.
\<close>

record vm_globals =
  vg_globals :: "Value list"
  vg_names :: "string list"
  vg_hash_entries :: "string option list"
  vg_capacity :: int
  vg_hash :: HashTable

definition vg_count :: "vm_globals \<Rightarrow> int" where
  "vg_count vg = int (length (vg_names vg))"

definition vm_globals_init :: vm_globals where
  "vm_globals_init = \<lparr>vg_globals = [], vg_names = [], vg_hash_entries = [], vg_capacity = 0, vg_hash = hash_table_init\<rparr>"

text \<open>The test that the slot recorded in an entry is the slot of the name.\<close>

definition entry_slot_valid :: "vm_globals \<Rightarrow> HashEntry \<Rightarrow> string \<Rightarrow> bool" where
  "entry_slot_valid vg e name \<longleftrightarrow>
     he_global_slot e \<ge> 0 \<and> he_global_slot e < vg_count vg \<and> vg_names vg ! nat (he_global_slot e) = cstr name"

text \<open>The loops that search the names from slot 0 on.\<close>

fun find_name_from :: "string list \<Rightarrow> string \<Rightarrow> nat \<Rightarrow> nat option" where
  "find_name_from [] name i = None"
| "find_name_from (n # ns) name i = (if n = cstr name then Some i else find_name_from ns name (i + 1))"

text \<open>A value through an entry pointer: the old value is released, the new one moves in.\<close>

definition entry_store :: "HashTable \<Rightarrow> string \<Rightarrow> Value \<Rightarrow> HashTable \<times> obj_event list" where
  "entry_store t k val =
     (entry_write t k (\<lambda>e. e\<lparr>he_value := val\<rparr>),
      case hash_table_entries t k of None \<Rightarrow> [] | Some e \<Rightarrow> [Release (he_value e)])"

text \<open>Setting a key, looking the entry up and recording its slot; the pointer that results.\<close>

definition hash_set_slot :: "HashTable \<Rightarrow> string \<Rightarrow> Value \<Rightarrow> int \<Rightarrow> (HashTable \<times> string option \<times> obj_event list) option" where
  "hash_set_slot t name val slot =
     (case hash_table_set t (Some name) val of
        None \<Rightarrow> None
      | Some (t, ev) \<Rightarrow>
          (case hash_table_get_entry t (Some name) of
             None \<Rightarrow> None
           | Some None \<Rightarrow> Some (t, None, ev)
           | Some (Some e) \<Rightarrow> Some (entry_write t (he_key e) (\<lambda>e. e\<lparr>he_global_slot := slot\<rparr>), Some (he_key e), ev)))"

definition vm_set_global :: "vm_globals \<Rightarrow> string option \<Rightarrow> Value \<Rightarrow> (vm_globals \<times> obj_event list) option" where
  "vm_set_global vg name val =
     (case name of
        None \<Rightarrow> Some (vg, [])
      | Some n \<Rightarrow>
          (case hash_table_get_entry (vg_hash vg) name of
             None \<Rightarrow> None
           | Some hashed_entry \<Rightarrow>
               if (case hashed_entry of Some e \<Rightarrow> entry_slot_valid vg e n | None \<Rightarrow> False)
               then let e = the hashed_entry; slot = nat (he_global_slot e);
                        (t, ev) = entry_store (vg_hash vg) (he_key e) val
                    in Some (vg\<lparr>vg_globals := (vg_globals vg)[slot := val], vg_hash := t,
                                vg_hash_entries := (vg_hash_entries vg)[slot := Some (he_key e)]\<rparr>, ev)
               else (case find_name_from (vg_names vg) n 0 of
                       Some i \<Rightarrow>
                         let entry = vg_hash_entries vg ! i;
                             entry = (if entry \<noteq> Some (cstr n) then map_option he_key hashed_entry else entry)
                         in (case entry of
                               Some k \<Rightarrow>
                                 let (t, ev) = entry_store (entry_write (vg_hash vg) k (\<lambda>e. e\<lparr>he_global_slot := int i\<rparr>)) k val
                                 in Some (vg\<lparr>vg_globals := (vg_globals vg)[i := val], vg_hash := t,
                                             vg_hash_entries := (vg_hash_entries vg)[i := Some k]\<rparr>, ev)
                             | None \<Rightarrow>
                                 map_option (\<lambda>(t, entry, ev).
                                     (vg\<lparr>vg_globals := (vg_globals vg)[i := val], vg_hash := t,
                                         vg_hash_entries := (vg_hash_entries vg)[i := entry]\<rparr>, ev))
                                   (hash_set_slot (vg_hash vg) n val (int i)))
                     | None \<Rightarrow>
                         let count = vg_count vg + 1;
                             capacity = (if count > vg_capacity vg then count * 2 else vg_capacity vg)
                         in map_option (\<lambda>(t, inserted, ev).
                                (vg\<lparr>vg_globals := vg_globals vg @ [val], vg_names := vg_names vg @ [cstr n],
                                    vg_hash_entries := vg_hash_entries vg @ [inserted], vg_capacity := capacity, vg_hash := t\<rparr>, ev))
                              (hash_set_slot (vg_hash vg) n val (count - 1)))))"

definition vm_get_global :: "vm_globals \<Rightarrow> string option \<Rightarrow> Value option" where
  "vm_get_global vg name = hash_table_get (vg_hash vg) name"

definition vm_find_global_slot :: "vm_globals \<Rightarrow> string option \<Rightarrow> int" where
  "vm_find_global_slot vg name =
     (case name of
        None \<Rightarrow> - 1
      | Some n \<Rightarrow> (case find_name_from (vg_names vg) n 0 of None \<Rightarrow> - 1 | Some i \<Rightarrow> int i))"

text \<open>The flag is \<open>True\<close> for the result 0 and \<open>False\<close> for -1 with a runtime error.\<close>

definition vm_set_global_slot_value :: "vm_globals \<Rightarrow> u8 \<Rightarrow> Value \<Rightarrow> (bool \<times> vm_globals \<times> obj_event list) option" where
  "vm_set_global_slot_value vg slot val =
     (if int (unat slot) \<ge> vg_count vg then Some (False, vg, [Release val])
      else let i = unat slot; vg = vg\<lparr>vg_globals := (vg_globals vg)[i := val]\<rparr>
           in case vg_hash_entries vg ! i of
                Some k \<Rightarrow>
                  let (t, ev) = entry_store (vg_hash vg) k val in Some (True, vg\<lparr>vg_hash := t\<rparr>, ev)
              | None \<Rightarrow>
                  map_option (\<lambda>(t, resolved, ev).
                      (True, vg\<lparr>vg_hash := t, vg_hash_entries := (vg_hash_entries vg)[i := resolved]\<rparr>, ev))
                    (hash_set_slot (vg_hash vg) (vg_names vg ! i) val (int i)))"

text \<open>A constant as far as it matters here: its type index and its string.\<close>

record name_constant =
  nc_type_index :: int
  nc_as_string :: "string option"

text \<open>The slot cache of a function is null or a list; it is rebuilt when its length is not the number of constants.\<close>

definition global_slot_cache_ready :: "int list option \<Rightarrow> nat \<Rightarrow> int list" where
  "global_slot_cache_ready cache const_count =
     (case cache of
        Some c \<Rightarrow> if length c = const_count then c else replicate const_count (- 1)
      | None \<Rightarrow> replicate const_count (- 1))"

definition vm_resolve_global_slot_cached ::
  "vm_globals \<Rightarrow> name_constant list \<Rightarrow> int list option \<Rightarrow> int \<Rightarrow> (int \<times> vm_globals \<times> int list option) option" where
  "vm_resolve_global_slot_cached vg constants cache name_idx =
     (if name_idx < 0 \<or> name_idx \<ge> int (length constants) then Some (- 1, vg, cache)
      else let cache = global_slot_cache_ready cache (length constants);
               cached = cache ! nat name_idx
           in if cached \<ge> 0 \<and> cached < vg_count vg then Some (cached, vg, Some cache)
              else let c = constants ! nat name_idx
                   in if nc_type_index c \<noteq> 2 \<or> nc_as_string c = None then Some (- 1, vg, Some cache)
                      else let name = the (nc_as_string c)
                           in case hash_table_get_entry (vg_hash vg) (Some name) of
                                None \<Rightarrow> None
                              | Some entry \<Rightarrow>
                                  if (case entry of Some e \<Rightarrow> entry_slot_valid vg e name | None \<Rightarrow> False)
                                  then let slot = he_global_slot (the entry)
                                       in Some (slot, vg, Some (cache[nat name_idx := slot]))
                                  else let slot = vm_find_global_slot vg (Some name);
                                           vg = (case entry of
                                                   Some e \<Rightarrow>
                                                     if slot \<ge> 0
                                                     then vg\<lparr>vg_hash := entry_write (vg_hash vg) (he_key e) (\<lambda>e. e\<lparr>he_global_slot := slot\<rparr>)\<rparr>
                                                     else vg
                                                 | None \<Rightarrow> vg)
                                       in if slot < 0 then Some (- 1, vg, Some cache)
                                          else Some (slot, vg, Some (cache[nat name_idx := slot])))"

section \<open>Writing through entry pointers\<close>

lemma table_wf_map:
  assumes wf: "table_wf vacant live hash key kh slots"
    and g: "\<forall>s\<in>set slots. live (g s) = live s \<and> vacant (g s) = vacant s \<and> (live s \<longrightarrow> hash (g s) = hash s \<and> key (g s) = key s)"
  shows "table_wf vacant live hash key kh (map g slots)"
proof -
  have p: "table_size_ok slots" "\<forall>s\<in>set slots. vacant s \<longleftrightarrow> \<not> live s" "\<forall>s\<in>set slots. live s \<longrightarrow> hash s = kh (key s)"
    "keys_unique live key slots" "probe_ok live hash slots"
    using wf by (simp_all add: table_wf_def)
  have n: "live (g (slots ! i)) = live (slots ! i)" "live (slots ! i) \<Longrightarrow> hash (g (slots ! i)) = hash (slots ! i)"
    "live (slots ! i) \<Longrightarrow> key (g (slots ! i)) = key (slots ! i)" if "i < length slots" for i
    using g nth_mem [OF that] by auto
  have "keys_unique live key (map g slots)"
    unfolding keys_unique_def
  proof (intro allI impI)
    fix i j
    assume i: "i < length (map g slots)" and j: "j < length (map g slots)"
      and "live (map g slots ! i)" "live (map g slots ! j)" "key (map g slots ! i) = key (map g slots ! j)"
    with n [of i] n [of j] show "i = j"
      using p(4) [unfolded keys_unique_def, rule_format, of i j] by simp
  qed
  moreover have "probe_ok live hash (map g slots)"
    unfolding probe_ok_def
  proof (intro allI impI)
    fix i q
    assume iq: "i < length (map g slots)" "q < length (map g slots)" and l: "live (map g slots ! i)"
      and d: "cdist (length (map g slots)) (table_home hash (map g slots) (map g slots ! i)) q
        < cdist (length (map g slots)) (table_home hash (map g slots) (map g slots ! i)) i"
    have "table_home hash (map g slots) (map g slots ! i) = table_home hash slots (slots ! i)"
      using n(1,2) [of i] iq l by (simp add: table_home_def)
    then have "live (slots ! q)" using probe_okD [OF p(5), of i q] n(1) [of i] iq l d by simp
    then show "live (map g slots ! q)" using n(1) [of q] iq by simp
  qed
  ultimately show ?thesis using p g by (simp add: table_wf_def table_size_ok_def)
qed

lemma map_of_map_key:
  assumes "\<forall>x\<in>set xs. key (g x) = key x \<and> val (g x) = (if key x = k then f (val x) else val x)"
  shows "map_of (map (\<lambda>x. (key (g x), val (g x))) xs) j =
    (if j = k then map_option f (map_of (map (\<lambda>x. (key x, val x)) xs) j) else map_of (map (\<lambda>x. (key x, val x)) xs) j)"
  using assms by (induction xs) auto

lemma entry_write_ok:
  assumes inv: "hash_table_inv t" and f: "\<And>e. he_key (f e) = he_key e" "\<And>e. he_hash (f e) = he_hash e"
  shows "hash_table_inv (entry_write t k f)"
    and "hash_table_entries (entry_write t k f) = (hash_table_entries t)(k := map_option f (hash_table_entries t k))"
    and "ht_count (entry_write t k f) = ht_count t"
proof -
  let ?g = "map_option (\<lambda>e. if he_key e = k then f e else e)"
  obtain es where es: "ht_entries t = Some es" "ht.wf es" "length es \<le> 2 ^ 28"
    "\<forall>e. Some e \<in> set es \<longrightarrow> cstr (he_key e) = he_key e" "ht_count t = int (live_count entry_live es)"
    "ht_count t \<le> int (length es * 7 div 10)"
    using inv by (rule hash_table_invE)
  have g: "entry_live (?g e) = entry_live e" "?g e = None \<longleftrightarrow> e = None"
    "entry_live e \<Longrightarrow> entry_hash (?g e) = entry_hash e" "entry_live e \<Longrightarrow> entry_key (?g e) = entry_key e" for e
    by (cases e; simp add: entry_live_def f)+
  have fl: "filter entry_live (map ?g es) = map ?g (filter entry_live es)"
    by (simp add: filter_map comp_def g(1))
  have "ht.wf (map ?g es)" using es(2) by (rule table_wf_map) (simp add: g)
  moreover have "\<forall>e. Some e \<in> set (map ?g es) \<longrightarrow> cstr (he_key e) = he_key e"
    using es(4) by (auto simp: f map_option_case split: option.splits if_splits)
  moreover have "live_count entry_live (map ?g es) = live_count entry_live es" by (simp add: live_count_def fl)
  ultimately show "hash_table_inv (entry_write t k f)"
    using es by (simp add: hash_table_inv_def entry_write_def)
  have "\<forall>e\<in>set (filter entry_live es). entry_key (?g e) = entry_key e \<and> the (?g e) = (if entry_key e = k then f (the e) else the e)"
    by (auto simp: entry_live_def f)
  from map_of_map_key [OF this]
  have "ht.entries (map ?g es) j = (if j = k then map_option f (ht.entries es j) else ht.entries es j)" for j
    by (simp add: table_entries_def fl comp_def)
  then show "hash_table_entries (entry_write t k f) = (hash_table_entries t)(k := map_option f (hash_table_entries t k))"
    using es(1) by (auto simp: hash_table_entries_def entry_write_def)
  show "ht_count (entry_write t k f) = ht_count t" by (simp add: entry_write_def)
qed

section \<open>Interned strings\<close>

text \<open>Every entry of the pool is a string object with the characters of its key.\<close>

definition pool_inv :: "HashTable \<Rightarrow> bool" where
  "pool_inv pool \<longleftrightarrow>
     hash_table_inv pool \<and>
     (\<forall>k v. table_values pool k = Some v \<longrightarrow> (\<exists>s. v = VAL_STRING (Some s) \<and> os_chars s = k))"

definition pool_refs :: "HashTable \<Rightarrow> string \<Rightarrow> int" where
  "pool_refs pool k = (case table_values pool k of Some (VAL_STRING (Some s)) \<Rightarrow> os_ref_count s | _ \<Rightarrow> 0)"

lemma stored_value: "he_value (stored_entry t k v) = v"
  by (simp add: stored_entry_def split: option.split)

lemma table_stored_values: "table_stored t k v (t', ev) \<Longrightarrow> table_values t' = (table_values t)(k \<mapsto> v)"
  by (simp add: table_stored_def table_values_def stored_value)

lemma vm_intern_spec:
  assumes "pool_inv pool" and "ht_count pool < 187904819" and "cstr chars = chars"
  shows "\<exists>pool' s. vm_intern_string pool chars = Some (pool', Some s) \<and> pool_inv pool' \<and> os_chars s = chars \<and>
    table_values pool' = (table_values pool)(chars \<mapsto> VAL_STRING (Some s)) \<and>
    os_ref_count s = (if chars \<in> dom (table_values pool) then pool_refs pool chars + 1 else 2)"
proof (cases "table_values pool chars")
  case None
  have inv: "hash_table_inv pool" using assms(1) by (simp add: pool_inv_def)
  let ?s = "\<lparr>os_chars = chars, os_hash = UINT32_MAX, os_ref_count = 2\<rparr>"
  have g: "hash_table_get pool (Some chars) = Some VAL_NIL" using None hash_table_get_ok [OF inv, of chars] assms(3) by simp
  obtain pool' ev where p: "hash_table_set pool (Some chars) (VAL_STRING (Some ?s)) = Some (pool', ev)"
    "table_stored pool chars (VAL_STRING (Some ?s)) (pool', ev)"
    using hash_table_set_ok [OF inv assms(2), of chars "VAL_STRING (Some ?s)"] assms(3) by auto
  have i: "vm_intern_string pool chars = Some (pool', Some ?s)"
    using g p(1) by (simp add: vm_intern_string_def obj_string_retain_def obj_string_create_def)
  have v: "table_values pool' = (table_values pool)(chars \<mapsto> VAL_STRING (Some ?s))" by (rule table_stored_values [OF p(2)])
  have "hash_table_inv pool'" using p(2) by (simp add: table_stored_def)
  then have "pool_inv pool'" using assms(1) v by (simp add: pool_inv_def)
  with i v None show ?thesis by (intro exI [of _ pool'] exI [of _ ?s]) (simp add: domIff)
next
  case (Some v)
  have inv: "hash_table_inv pool" using assms(1) by (simp add: pool_inv_def)
  obtain s where s: "v = VAL_STRING (Some s)" "os_chars s = chars" using assms(1) Some by (auto simp: pool_inv_def)
  let ?s = "s\<lparr>os_ref_count := os_ref_count s + 1\<rparr>"
  let ?p = "entry_write pool chars (\<lambda>e. e\<lparr>he_value := VAL_STRING (Some ?s)\<rparr>)"
  have g: "hash_table_get pool (Some chars) = Some (VAL_STRING (Some s))"
    using Some s hash_table_get_ok [OF inv, of chars] assms(3) by simp
  have i: "vm_intern_string pool chars = Some (?p, Some ?s)"
    using g assms(3) by (simp add: vm_intern_string_def obj_string_retain_def Let_def)
  have w: "hash_table_inv ?p" "hash_table_entries ?p = (hash_table_entries pool)(chars := map_option (\<lambda>e. e\<lparr>he_value := VAL_STRING (Some ?s)\<rparr>) (hash_table_entries pool chars))"
    using entry_write_ok [OF inv, of "\<lambda>e. e\<lparr>he_value := VAL_STRING (Some ?s)\<rparr>" chars] by simp_all
  obtain e where "hash_table_entries pool chars = Some e" using Some by (auto simp: table_values_def)
  then have v: "table_values ?p = (table_values pool)(chars \<mapsto> VAL_STRING (Some ?s))" using w(2) by (simp add: table_values_def)
  then have "pool_inv ?p" using w(1) assms(1) s(2) by (simp add: pool_inv_def)
  with i v Some s show ?thesis by (intro exI [of _ ?p] exI [of _ ?s]) (simp add: domIff pool_refs_def)
qed

text \<open>
  Claim C34.  Interning a C string returns, gives a string object with exactly these characters, which the
  pool holds under them, and keeps all other interned strings.  The object gains one reference for the
  caller: two when it is new (the pool's and the caller's), one more each further time.
\<close>

theorem vm_intern_string_ok:
  assumes "pool_inv pool" and "ht_count pool < 187904819" and "cstr chars = chars"
  shows "\<exists>pool' s. vm_intern_string pool chars = Some (pool', Some s) \<and> pool_inv pool' \<and> os_chars s = chars \<and>
    table_values pool' = (table_values pool)(chars \<mapsto> VAL_STRING (Some s)) \<and>
    os_ref_count s = (if chars \<in> dom (table_values pool) then pool_refs pool chars + 1 else 2)"
  by (rule vm_intern_spec [OF assms])

theorem vm_intern_string_ok_witness:
  "\<exists>pool' s. vm_intern_string hash_table_init ''id'' = Some (pool', Some s) \<and> os_chars s = ''id'' \<and> os_ref_count s = 2"
proof -
  have "pool_inv hash_table_init" using hash_table_init_ok by (simp add: pool_inv_def table_values_def)
  moreover have "cstr ''id'' = ''id''" by (simp add: cstr_def)
  ultimately show ?thesis using vm_intern_string_ok [of hash_table_init "''id''"] hash_table_init_ok
    by (auto simp: table_values_def)
qed

section \<open>Global variables\<close>

text \<open>The value of a global by its name.\<close>

definition globals_map :: "vm_globals \<Rightarrow> string \<rightharpoonup> Value" where
  "globals_map vg = map_of (zip (vg_names vg) (vg_globals vg))"

text \<open>
  The views agree: the table has an entry exactly for the names, and the entry of the name in slot \<open>i\<close>
  records \<open>i\<close>, holds the value of slot \<open>i\<close>, and is the one the slot points to.
\<close>

definition slot_coherent :: "vm_globals \<Rightarrow> nat \<Rightarrow> bool" where
  "slot_coherent vg i \<longleftrightarrow>
     cstr (vg_names vg ! i) = vg_names vg ! i \<and> vg_hash_entries vg ! i = Some (vg_names vg ! i) \<and>
     (\<exists>e. hash_table_entries (vg_hash vg) (vg_names vg ! i) = Some e \<and> he_global_slot e = int i \<and> he_value e = vg_globals vg ! i)"

definition globals_inv :: "vm_globals \<Rightarrow> bool" where
  "globals_inv vg \<longleftrightarrow>
     hash_table_inv (vg_hash vg) \<and> length (vg_globals vg) = length (vg_names vg) \<and>
     length (vg_hash_entries vg) = length (vg_names vg) \<and> vg_count vg \<le> vg_capacity vg \<and> distinct (vg_names vg) \<and>
     dom (hash_table_entries (vg_hash vg)) = set (vg_names vg) \<and> (\<forall>i<length (vg_names vg). slot_coherent vg i)"

lemma globals_invD:
  assumes "globals_inv vg"
  shows "hash_table_inv (vg_hash vg)" and "length (vg_globals vg) = length (vg_names vg)"
    and "length (vg_hash_entries vg) = length (vg_names vg)" and "vg_count vg \<le> vg_capacity vg"
    and "distinct (vg_names vg)" and "dom (hash_table_entries (vg_hash vg)) = set (vg_names vg)"
    and "i < length (vg_names vg) \<Longrightarrow> slot_coherent vg i"
  using assms by (simp_all add: globals_inv_def)

lemma hash_table_entries_key: "hash_table_inv t \<Longrightarrow> hash_table_entries t k = Some e \<Longrightarrow> he_key e = k"
proof -
  assume "hash_table_inv t" and e: "hash_table_entries t k = Some e"
  then obtain es where es: "ht_entries t = Some es" "ht.wf es" by (auto elim: hash_table_invE)
  then show "he_key e = k"
    using e table_entries_Some [OF ht.wf_unique [OF es(2)], of the k e] by (auto simp: hash_table_entries_def)
qed

lemma find_name_from_Some: "find_name_from ns name j = Some i \<Longrightarrow> j \<le> i \<and> i < j + length ns \<and> ns ! (i - j) = cstr name"
  by (induction ns name j rule: find_name_from.induct) (auto simp: nth_Cons' split: if_splits)

lemma find_name_from_None: "find_name_from ns name j = None \<longleftrightarrow> cstr name \<notin> set ns"
  by (induction ns name j rule: find_name_from.induct) auto

lemma globals_map_nth:
  assumes "globals_inv vg" and "i < length (vg_names vg)"
  shows "globals_map vg (vg_names vg ! i) = Some (vg_globals vg ! i)"
  using assms by (simp add: globals_map_def globals_inv_def map_of_zip_nth)

lemma globals_map_dom: "globals_inv vg \<Longrightarrow> dom (globals_map vg) = set (vg_names vg)"
  by (simp add: globals_map_def globals_inv_def)

lemma map_of_zip_update:
  assumes "distinct ks" and "length vs = length ks" and "i < length ks"
  shows "map_of (zip ks (vs[i := v])) = (map_of (zip ks vs))(ks ! i \<mapsto> v)"
proof
  fix k
  show "map_of (zip ks (vs[i := v])) k = ((map_of (zip ks vs))(ks ! i \<mapsto> v)) k"
  proof (cases "k \<in> set ks")
    case True
    then obtain j where "j < length ks" "k = ks ! j" by (auto simp: in_set_conv_nth)
    then show ?thesis using assms by (auto simp: map_of_zip_nth nth_eq_iff_index_eq nth_list_update)
  next
    case False
    then have "map_of (zip ks (vs[i := v])) k = None" "map_of (zip ks vs) k = None" using assms by simp_all
    moreover have "k \<noteq> ks ! i" using False assms(3) by auto
    ultimately show ?thesis by simp
  qed
qed

text \<open>Changing the value of slot \<open>i\<close> in the array and through the entry of its name.\<close>

lemma store_slot_inv:
  assumes inv: "globals_inv vg" and i: "i < length (vg_names vg)"
    and t: "t = entry_write (vg_hash vg) (vg_names vg ! i) (\<lambda>e. e\<lparr>he_value := v\<rparr>)"
    and vg': "vg' = vg\<lparr>vg_globals := (vg_globals vg)[i := v], vg_hash := t\<rparr>"
  shows "globals_inv vg'" and "globals_map vg' = (globals_map vg)(vg_names vg ! i \<mapsto> v)"
proof -
  note d = globals_invD [OF inv]
  have w: "hash_table_inv t" "hash_table_entries t = (hash_table_entries (vg_hash vg))(vg_names vg ! i :=
      map_option (\<lambda>e. e\<lparr>he_value := v\<rparr>) (hash_table_entries (vg_hash vg) (vg_names vg ! i)))"
    unfolding t by (rule entry_write_ok [OF d(1)]; simp)+
  obtain e where e: "hash_table_entries (vg_hash vg) (vg_names vg ! i) = Some e" "he_global_slot e = int i"
    using d(7) [OF i] by (auto simp: slot_coherent_def)
  have "slot_coherent vg' j" if j: "j < length (vg_names vg)" for j
  proof (cases "j = i")
    case True
    then show ?thesis using d(7) [OF i] e w(2) i d(2) by (auto simp: slot_coherent_def vg')
  next
    case False
    then have "vg_names vg ! j \<noteq> vg_names vg ! i" using d(5) i j by (simp add: nth_eq_iff_index_eq)
    then show ?thesis using d(7) [OF j] w(2) False by (auto simp: slot_coherent_def vg')
  qed
  moreover have "dom (hash_table_entries t) = set (vg_names vg)" using w(2) e(1) d(6) i by auto
  ultimately show "globals_inv vg'" using d(1-5) w(1) by (simp add: globals_inv_def vg' vg_count_def)
  show "globals_map vg' = (globals_map vg)(vg_names vg ! i \<mapsto> v)"
    using map_of_zip_update [OF d(5) _ i, of "vg_globals vg" v] d(2) by (simp add: globals_map_def vg')
qed

lemma vm_set_global_old:
  assumes inv: "globals_inv vg" and i: "i < length (vg_names vg)" "vg_names vg ! i = cstr n"
  shows "\<exists>vg'. vm_set_global vg (Some n) v = Some (vg', [Release (vg_globals vg ! i)]) \<and> globals_inv vg' \<and>
    vg_names vg' = vg_names vg \<and> globals_map vg' = (globals_map vg)(cstr n \<mapsto> v)"
proof -
  note d = globals_invD [OF inv]
  obtain e where e: "hash_table_entries (vg_hash vg) (cstr n) = Some e" "he_global_slot e = int i" "he_value e = vg_globals vg ! i"
    "vg_hash_entries vg ! i = Some (cstr n)"
    using d(7) [OF i(1)] i(2) by (auto simp: slot_coherent_def)
  have k: "he_key e = cstr n" by (rule hash_table_entries_key [OF d(1) e(1)])
  let ?vg = "vg\<lparr>vg_globals := (vg_globals vg)[i := v], vg_hash := entry_write (vg_hash vg) (cstr n) (\<lambda>e. e\<lparr>he_value := v\<rparr>)\<rparr>"
  have "vm_set_global vg (Some n) v = Some (?vg, [Release (vg_globals vg ! i)])"
    using e k i hash_table_get_entry_ok [OF d(1), of n] list_update_id [of "vg_hash_entries vg" i]
    by (simp add: vm_set_global_def entry_slot_valid_def vg_count_def entry_store_def Let_def)
  with store_slot_inv [OF inv i(1) refl refl, of v] i(2) show ?thesis by simp
qed

lemma hash_set_slot_new:
  assumes inv: "hash_table_inv t" and lim: "ht_count t < 187904819" and new: "hash_table_entries t (cstr n) = None"
  shows "\<exists>t' e. hash_set_slot t n v j = Some (t', Some (cstr n), []) \<and> hash_table_inv t' \<and>
    hash_table_entries t' = (hash_table_entries t)(cstr n \<mapsto> e) \<and> he_global_slot e = j \<and> he_value e = v"
proof -
  from hash_table_set_ok [OF inv lim, of n v] obtain t1 ev where
    s: "hash_table_set t (Some n) v = Some (t1, ev)" "table_stored t (cstr n) v (t1, ev)" by auto
  let ?e = "stored_entry t (cstr n) v"
  have t1: "hash_table_inv t1" "hash_table_entries t1 = (hash_table_entries t)(cstr n \<mapsto> ?e)" "ev = []"
    using s(2) new by (simp_all add: table_stored_def replaced_value_def)
  have k: "he_key ?e = cstr n" using hash_table_entries_key [OF t1(1), of "cstr n" ?e] t1(2) by simp
  let ?t = "entry_write t1 (cstr n) (\<lambda>e. e\<lparr>he_global_slot := j\<rparr>)"
  have w: "hash_table_inv ?t" "hash_table_entries ?t = (hash_table_entries t1)(cstr n :=
      map_option (\<lambda>e. e\<lparr>he_global_slot := j\<rparr>) (hash_table_entries t1 (cstr n)))"
    by (rule entry_write_ok [OF t1(1)]; simp)+
  have "hash_set_slot t n v j = Some (?t, Some (cstr n), [])"
    using s(1) t1 k hash_table_get_entry_ok [OF t1(1), of n] by (simp add: hash_set_slot_def)
  with w t1(2) show ?thesis
    by (intro exI [of _ ?t] exI [of _ "?e\<lparr>he_global_slot := j\<rparr>"]) (simp add: stored_value)
qed

lemma vm_set_global_new:
  assumes inv: "globals_inv vg" and lim: "ht_count (vg_hash vg) < 187904819" and new: "cstr n \<notin> set (vg_names vg)"
  shows "\<exists>vg'. vm_set_global vg (Some n) v = Some (vg', []) \<and> globals_inv vg' \<and>
    vg_names vg' = vg_names vg @ [cstr n] \<and> globals_map vg' = (globals_map vg)(cstr n \<mapsto> v)"
proof -
  note d = globals_invD [OF inv]
  have none: "hash_table_entries (vg_hash vg) (cstr n) = None" using new d(6) by auto
  obtain t e where t: "hash_set_slot (vg_hash vg) n v (vg_count vg) = Some (t, Some (cstr n), [])" "hash_table_inv t"
    "hash_table_entries t = (hash_table_entries (vg_hash vg))(cstr n \<mapsto> e)" "he_global_slot e = vg_count vg" "he_value e = v"
    using hash_set_slot_new [OF d(1) lim none] by blast
  let ?cap = "if vg_count vg + 1 > vg_capacity vg then (vg_count vg + 1) * 2 else vg_capacity vg"
  let ?vg = "vg\<lparr>vg_globals := vg_globals vg @ [v], vg_names := vg_names vg @ [cstr n],
      vg_hash_entries := vg_hash_entries vg @ [Some (cstr n)], vg_capacity := ?cap, vg_hash := t\<rparr>"
  have find: "find_name_from (vg_names vg) n 0 = None" using new by (simp add: find_name_from_None)
  have "vm_set_global vg (Some n) v = Some (?vg, [])"
    using none find t(1) hash_table_get_entry_ok [OF d(1), of n] by (simp add: vm_set_global_def Let_def)
  moreover have "slot_coherent ?vg j" if j: "j < length (vg_names ?vg)" for j
  proof (cases "j < length (vg_names vg)")
    case True
    then have "vg_names vg ! j \<noteq> cstr n" using new nth_mem by metis
    then show ?thesis using d(7) [OF True] True t(3) d(2,3) by (auto simp: slot_coherent_def nth_append)
  next
    case False
    then have "j = length (vg_names vg)" using j by simp
    then show ?thesis using t d(2,3) by (simp add: slot_coherent_def nth_append vg_count_def)
  qed
  moreover have "dom (hash_table_entries t) = insert (cstr n) (set (vg_names vg))" using t(3) d(6) by simp
  ultimately have "vm_set_global vg (Some n) v = Some (?vg, [])" "globals_inv ?vg"
    using d(1-5) t(2) new by (auto simp: globals_inv_def vg_count_def)
  moreover have "globals_map ?vg = (globals_map vg)(cstr n \<mapsto> v)"
  proof -
    have "dom [cstr n \<mapsto> v] \<inter> dom (map_of (zip (vg_names vg) (vg_globals vg))) = {}" using new d(2) by simp
    from map_add_comm [OF this] show ?thesis using d(2) by (simp add: globals_map_def)
  qed
  ultimately show ?thesis by (intro exI [of _ ?vg]) simp
qed

lemma vm_globals_init_inv: "globals_inv vm_globals_init" "globals_map vm_globals_init = Map.empty"
  using hash_table_init_ok by (simp_all add: globals_inv_def vm_globals_init_def vg_count_def globals_map_def)

lemma globals_values: "globals_inv vg \<Longrightarrow> table_values (vg_hash vg) = globals_map vg"
proof
  fix k
  assume inv: "globals_inv vg"
  note d = globals_invD [OF inv]
  show "table_values (vg_hash vg) k = globals_map vg k"
  proof (cases "k \<in> set (vg_names vg)")
    case True
    then obtain i where i: "i < length (vg_names vg)" "k = vg_names vg ! i" by (auto simp: in_set_conv_nth)
    then show ?thesis using d(7) [OF i(1)] globals_map_nth [OF inv i(1)] by (auto simp: table_values_def slot_coherent_def)
  next
    case False
    then have "hash_table_entries (vg_hash vg) k = None" "globals_map vg k = None"
      using d(6) globals_map_dom [OF inv] by auto
    then show ?thesis by (simp add: table_values_def)
  qed
qed

lemma vm_set_global_spec:
  assumes "globals_inv vg" and "ht_count (vg_hash vg) < 187904819"
  shows "\<exists>vg'. vm_set_global vg (Some n) v =
        Some (vg', case globals_map vg (cstr n) of None \<Rightarrow> [] | Some old \<Rightarrow> [Release old]) \<and> globals_inv vg' \<and>
        vg_names vg' = (if cstr n \<in> set (vg_names vg) then vg_names vg else vg_names vg @ [cstr n]) \<and>
        globals_map vg' = (globals_map vg)(cstr n \<mapsto> v)"
proof (cases "cstr n \<in> set (vg_names vg)")
  case True
  then obtain i where i: "i < length (vg_names vg)" "vg_names vg ! i = cstr n" by (auto simp: in_set_conv_nth)
  then show ?thesis using vm_set_global_old [OF assms(1) i, of v] globals_map_nth [OF assms(1) i(1)] True by auto
next
  case False
  then have "globals_map vg (cstr n) = None" using globals_map_dom [OF assms(1)] by auto
  with False show ?thesis using vm_set_global_new [OF assms False, of v] by auto
qed

lemma vm_get_global_spec:
  assumes "globals_inv vg"
  shows "vm_get_global vg (Some n) = Some (case globals_map vg (cstr n) of None \<Rightarrow> VAL_NIL | Some v \<Rightarrow> v)"
  using hash_table_get_ok [OF globals_invD(1) [OF assms], of n] globals_values [OF assms] by (simp add: vm_get_global_def)

lemma vm_set_global_slot_spec:
  assumes "globals_inv vg"
  shows "case vm_set_global_slot_value vg slot v of
       None \<Rightarrow> False
     | Some (ok, vg', ev) \<Rightarrow>
         ok = (unat slot < length (vg_names vg)) \<and> globals_inv vg' \<and> vg_names vg' = vg_names vg \<and>
         (if ok then globals_map vg' = (globals_map vg)(vg_names vg ! unat slot \<mapsto> v) \<and> ev = [Release (vg_globals vg ! unat slot)]
          else vg' = vg \<and> ev = [Release v])"
proof (cases "unat slot < length (vg_names vg)")
  case True
  from globals_invD(7) [OF assms True] obtain e where e: "vg_hash_entries vg ! unat slot = Some (vg_names vg ! unat slot)"
    "hash_table_entries (vg_hash vg) (vg_names vg ! unat slot) = Some e" "he_value e = vg_globals vg ! unat slot"
    by (auto simp: slot_coherent_def)
  moreover have "\<not> int (unat slot) \<ge> vg_count vg" using True unfolding vg_count_def by linarith
  ultimately show ?thesis using True store_slot_inv [OF assms True refl refl, of v]
    unfolding vm_set_global_slot_value_def by (simp add: entry_store_def Let_def)
next
  case False
  then have "int (unat slot) \<ge> vg_count vg" unfolding vg_count_def by linarith
  then show ?thesis using assms False unfolding vm_set_global_slot_value_def by simp
qed

text \<open>
  Claim C35.  The array of globals, the array of names and the hash table always agree.  Setting a global
  returns, binds exactly that name, releases exactly the value it replaces, and keeps the slot of every name
  (a new name gets the next slot); reading a global by name gives the value that was bound last; and
  writing an existing slot directly is setting the name of that slot.
\<close>

theorem vm_globals_coherent:
  assumes "globals_inv vg" and "ht_count (vg_hash vg) < 187904819"
  shows "(\<exists>vg'. vm_set_global vg (Some n) v =
        Some (vg', case globals_map vg (cstr n) of None \<Rightarrow> [] | Some old \<Rightarrow> [Release old]) \<and> globals_inv vg' \<and>
        vg_names vg' = (if cstr n \<in> set (vg_names vg) then vg_names vg else vg_names vg @ [cstr n]) \<and>
        globals_map vg' = (globals_map vg)(cstr n \<mapsto> v)) \<and>
    vm_get_global vg (Some n) = Some (case globals_map vg (cstr n) of None \<Rightarrow> VAL_NIL | Some v \<Rightarrow> v) \<and>
    (case vm_set_global_slot_value vg slot v of
       None \<Rightarrow> False
     | Some (ok, vg', ev) \<Rightarrow>
         ok = (unat slot < length (vg_names vg)) \<and> globals_inv vg' \<and> vg_names vg' = vg_names vg \<and>
         (if ok then globals_map vg' = (globals_map vg)(vg_names vg ! unat slot \<mapsto> v) \<and> ev = [Release (vg_globals vg ! unat slot)]
          else vg' = vg \<and> ev = [Release v]))"
  by (intro conjI vm_set_global_spec [OF assms] vm_get_global_spec [OF assms(1)] vm_set_global_slot_spec [OF assms(1)])

theorem vm_globals_coherent_witness:
  "\<exists>vg'. vm_set_global vm_globals_init (Some ''x'') (VAL_INT 1) = Some (vg', []) \<and> globals_map vg' = [''x'' \<mapsto> VAL_INT 1]"
proof -
  have "ht_count (vg_hash vm_globals_init) < 187904819" by (simp add: vm_globals_init_def hash_table_init_def)
  moreover have "cstr ''x'' = ''x''" by (simp add: cstr_def)
  ultimately show ?thesis
    using vm_globals_coherent [OF vm_globals_init_inv(1), of "''x''" "VAL_INT 1" 0] vm_globals_init_inv(2) by auto
qed

text \<open>A slot cache is right when every slot it holds is the slot of the name of its constant.\<close>

definition slot_cache_ok :: "string list \<Rightarrow> name_constant list \<Rightarrow> int list option \<Rightarrow> bool" where
  "slot_cache_ok names constants cache \<longleftrightarrow>
     (\<forall>c. cache = Some c \<longrightarrow> length c = length constants \<longrightarrow>
       (\<forall>i<length c. c ! i \<ge> 0 \<longrightarrow>
          nat (c ! i) < length names \<and> nc_type_index (constants ! i) = 2 \<and>
          (\<exists>s. nc_as_string (constants ! i) = Some s \<and> names ! nat (c ! i) = cstr s)))"

lemma slot_cache_ready_ok:
  assumes "slot_cache_ok names constants cache"
  shows "slot_cache_ok names constants (Some (global_slot_cache_ready cache (length constants)))"
    and "length (global_slot_cache_ready cache (length constants)) = length constants"
  using assms by (auto simp: slot_cache_ok_def global_slot_cache_ready_def split: option.split)

text \<open>The slot of the name of a constant, or -1.\<close>

definition constant_slot :: "string list \<Rightarrow> name_constant list \<Rightarrow> int \<Rightarrow> int \<Rightarrow> bool" where
  "constant_slot names constants idx slot \<longleftrightarrow>
     (if 0 \<le> idx \<and> idx < int (length constants) \<and> nc_type_index (constants ! nat idx) = 2 \<and>
         (\<exists>s. nc_as_string (constants ! nat idx) = Some s \<and> cstr s \<in> set names)
      then 0 \<le> slot \<and> nat slot < length names \<and>
        (\<exists>s. nc_as_string (constants ! nat idx) = Some s \<and> names ! nat slot = cstr s)
      else slot = - 1)"

lemma slot_cache_ok_append:
  assumes "slot_cache_ok names constants cache"
  shows "slot_cache_ok (names @ names') constants cache"
  using assms by (fastforce simp: slot_cache_ok_def nth_append)

lemma vm_resolve_spec:
  assumes "globals_inv vg" and "slot_cache_ok (vg_names vg) constants cache"
  shows "\<exists>slot cache'. vm_resolve_global_slot_cached vg constants cache idx = Some (slot, vg, cache') \<and>
      constant_slot (vg_names vg) constants idx slot \<and> slot_cache_ok (vg_names vg) constants cache'"
proof -
  note d = globals_invD [OF assms(1)]
  let ?names = "vg_names vg" and ?i = "nat idx"
  let ?c = "global_slot_cache_ready cache (length constants)"
  note rdy = slot_cache_ready_ok [OF assms(2)]
  show "\<exists>slot cache'. vm_resolve_global_slot_cached vg constants cache idx = Some (slot, vg, cache') \<and>
      constant_slot ?names constants idx slot \<and> slot_cache_ok ?names constants cache'"
  proof (cases "idx < 0 \<or> idx \<ge> int (length constants)")
    case True
    then show ?thesis using assms(2) by (auto simp: vm_resolve_global_slot_cached_def constant_slot_def)
  next
    case False
    then have i: "?i < length constants" by auto
    consider (hit) "?c ! ?i \<ge> 0" "?c ! ?i < vg_count vg" | (noname) "\<not> (?c ! ?i \<ge> 0 \<and> ?c ! ?i < vg_count vg)"
        "nc_type_index (constants ! ?i) \<noteq> 2 \<or> nc_as_string (constants ! ?i) = None"
      | (name) s where "\<not> (?c ! ?i \<ge> 0 \<and> ?c ! ?i < vg_count vg)" "nc_type_index (constants ! ?i) = 2" "nc_as_string (constants ! ?i) = Some s"
      by (cases "nc_as_string (constants ! ?i)") auto
    then show ?thesis
    proof cases
      case hit
      then obtain s where s: "nat (?c ! ?i) < length ?names" "nc_type_index (constants ! ?i) = 2" "nc_as_string (constants ! ?i) = Some s"
        "?names ! nat (?c ! ?i) = cstr s" using rdy i unfolding slot_cache_ok_def by auto
      then have "cstr s \<in> set ?names" using nth_mem by metis
      with s hit False have "constant_slot ?names constants idx (?c ! ?i)" by (auto simp: constant_slot_def)
      with hit False rdy(1) show ?thesis by (auto simp: vm_resolve_global_slot_cached_def Let_def)
    next
      case noname
      then have "constant_slot ?names constants idx (- 1)" by (auto simp: constant_slot_def)
      with noname False rdy(1) show ?thesis by (auto simp: vm_resolve_global_slot_cached_def Let_def)
    next
      case (name s)
      have get: "hash_table_get_entry (vg_hash vg) (Some s) = Some (hash_table_entries (vg_hash vg) (cstr s))"
        by (rule hash_table_get_entry_ok [OF d(1)])
      show ?thesis
      proof (cases "cstr s \<in> set ?names")
        case True
        then obtain j where j: "j < length ?names" "?names ! j = cstr s" by (auto simp: in_set_conv_nth)
        then obtain e where e: "hash_table_entries (vg_hash vg) (cstr s) = Some e" "he_global_slot e = int j"
          using d(7) [OF j(1)] by (auto simp: slot_coherent_def)
        have "vm_resolve_global_slot_cached vg constants cache idx = Some (int j, vg, Some (?c[?i := int j]))"
          using False name get e j by (auto simp: vm_resolve_global_slot_cached_def Let_def entry_slot_valid_def vg_count_def)
        moreover have "constant_slot ?names constants idx (int j)" using name True j False by (auto simp: constant_slot_def)
        moreover have "slot_cache_ok ?names constants (Some (?c[?i := int j]))"
          using rdy name j i by (auto simp: slot_cache_ok_def nth_list_update)
        ultimately show ?thesis by blast
      next
        case none: False
        then have "hash_table_entries (vg_hash vg) (cstr s) = None" using d(6) by auto
        moreover have "vm_find_global_slot vg (Some s) = - 1"
          using none find_name_from_None [of ?names s 0] by (simp add: vm_find_global_slot_def)
        ultimately have "vm_resolve_global_slot_cached vg constants cache idx = Some (- 1, vg, Some ?c)"
          using False name get by (auto simp: vm_resolve_global_slot_cached_def Let_def)
        moreover have "constant_slot ?names constants idx (- 1)" using name none by (auto simp: constant_slot_def)
        ultimately show ?thesis using rdy(1) by blast
      qed
    qed
  qed
qed

text \<open>
  Claim C36.  Resolving a global through the slot cache of a function returns, and gives the slot of the name that
  the constant holds, or -1 when the constant is not a name or the name is not defined.  The cache stays right, also
  when globals are added later, so a cached slot never refers to another variable.
\<close>

theorem vm_slot_cache_right:
  assumes "globals_inv vg" and "slot_cache_ok (vg_names vg) constants cache"
  shows "(\<exists>slot cache'. vm_resolve_global_slot_cached vg constants cache idx = Some (slot, vg, cache') \<and>
      constant_slot (vg_names vg) constants idx slot \<and> slot_cache_ok (vg_names vg) constants cache') \<and>
    (\<forall>names. slot_cache_ok (vg_names vg @ names) constants cache)"
  using vm_resolve_spec [OF assms] slot_cache_ok_append [OF assms(2)] by blast

theorem vm_slot_cache_right_witness:
  "\<exists>slot cache'. vm_resolve_global_slot_cached vm_globals_init [\<lparr>nc_type_index = 2, nc_as_string = Some ''x''\<rparr>] None 0
      = Some (slot, vm_globals_init, cache') \<and> slot = - 1"
proof -
  have "slot_cache_ok (vg_names vm_globals_init) [\<lparr>nc_type_index = 2, nc_as_string = Some ''x''\<rparr>] None"
    by (simp add: slot_cache_ok_def)
  from vm_slot_cache_right [OF vm_globals_init_inv(1) this, of 0] show ?thesis
    by (auto simp: constant_slot_def vm_globals_init_def)
qed

end
