(* ===== verification/Bytecode.thy ===== *)
theory Bytecode
  imports VM_Value
begin

text \<open>
  The instruction set and the containers of compiled code, from \<^verbatim>\<open>src/src/bytecode.h\<close> and
  \<^verbatim>\<open>src/src/bytecode.c\<close>: opcodes are bytes, numbered in the order of the enumeration; a chunk is a
  growing byte array with a line for every byte; a constant pool is a growing array of constants.
\<close>

section \<open>Opcodes\<close>

abbreviation OP_NOP :: u8 where "OP_NOP \<equiv> 0"
abbreviation OP_CONST :: u8 where "OP_CONST \<equiv> 1"
abbreviation OP_CONST16 :: u8 where "OP_CONST16 \<equiv> 2"
abbreviation OP_LOAD_LOCAL :: u8 where "OP_LOAD_LOCAL \<equiv> 3"
abbreviation OP_STORE_LOCAL :: u8 where "OP_STORE_LOCAL \<equiv> 4"
abbreviation OP_ADD_LOCAL_CONST :: u8 where "OP_ADD_LOCAL_CONST \<equiv> 5"
abbreviation OP_SUB_LOCAL_CONST :: u8 where "OP_SUB_LOCAL_CONST \<equiv> 6"
abbreviation OP_ADD2_LOCAL_CONST :: u8 where "OP_ADD2_LOCAL_CONST \<equiv> 7"
abbreviation OP_NEGATE_LOCAL :: u8 where "OP_NEGATE_LOCAL \<equiv> 8"
abbreviation OP_LOAD_GLOBAL :: u8 where "OP_LOAD_GLOBAL \<equiv> 9"
abbreviation OP_LOAD_GLOBAL16 :: u8 where "OP_LOAD_GLOBAL16 \<equiv> 10"
abbreviation OP_STORE_GLOBAL :: u8 where "OP_STORE_GLOBAL \<equiv> 11"
abbreviation OP_STORE_GLOBAL16 :: u8 where "OP_STORE_GLOBAL16 \<equiv> 12"
abbreviation OP_ADD :: u8 where "OP_ADD \<equiv> 13"
abbreviation OP_SUB :: u8 where "OP_SUB \<equiv> 14"
abbreviation OP_MUL :: u8 where "OP_MUL \<equiv> 15"
abbreviation OP_DIV :: u8 where "OP_DIV \<equiv> 16"
abbreviation OP_MOD :: u8 where "OP_MOD \<equiv> 17"
abbreviation OP_NEG :: u8 where "OP_NEG \<equiv> 18"
abbreviation OP_EQ :: u8 where "OP_EQ \<equiv> 19"
abbreviation OP_NE :: u8 where "OP_NE \<equiv> 20"
abbreviation OP_LT :: u8 where "OP_LT \<equiv> 21"
abbreviation OP_LE :: u8 where "OP_LE \<equiv> 22"
abbreviation OP_GT :: u8 where "OP_GT \<equiv> 23"
abbreviation OP_GE :: u8 where "OP_GE \<equiv> 24"
abbreviation OP_NOT :: u8 where "OP_NOT \<equiv> 25"
abbreviation OP_AND :: u8 where "OP_AND \<equiv> 26"
abbreviation OP_OR :: u8 where "OP_OR \<equiv> 27"
abbreviation OP_BIT_NOT :: u8 where "OP_BIT_NOT \<equiv> 28"
abbreviation OP_BIT_AND :: u8 where "OP_BIT_AND \<equiv> 29"
abbreviation OP_BIT_OR :: u8 where "OP_BIT_OR \<equiv> 30"
abbreviation OP_BIT_XOR :: u8 where "OP_BIT_XOR \<equiv> 31"
abbreviation OP_JUMP :: u8 where "OP_JUMP \<equiv> 32"
abbreviation OP_JUMP_IF_FALSE :: u8 where "OP_JUMP_IF_FALSE \<equiv> 33"
abbreviation OP_CALL :: u8 where "OP_CALL \<equiv> 34"
abbreviation OP_CALL_GLOBAL :: u8 where "OP_CALL_GLOBAL \<equiv> 35"
abbreviation OP_CALL_GLOBAL16 :: u8 where "OP_CALL_GLOBAL16 \<equiv> 36"
abbreviation OP_DEFER :: u8 where "OP_DEFER \<equiv> 37"
abbreviation OP_DEFER_HAS :: u8 where "OP_DEFER_HAS \<equiv> 38"
abbreviation OP_DEFER_CALL :: u8 where "OP_DEFER_CALL \<equiv> 39"
abbreviation OP_AWAIT :: u8 where "OP_AWAIT \<equiv> 40"
abbreviation OP_RET :: u8 where "OP_RET \<equiv> 41"
abbreviation OP_ARRAY_NEW :: u8 where "OP_ARRAY_NEW \<equiv> 42"
abbreviation OP_ARRAY_GET :: u8 where "OP_ARRAY_GET \<equiv> 43"
abbreviation OP_ARRAY_SET :: u8 where "OP_ARRAY_SET \<equiv> 44"
abbreviation OP_ARRAY_LEN :: u8 where "OP_ARRAY_LEN \<equiv> 45"
abbreviation OP_ARRAY_PUSH :: u8 where "OP_ARRAY_PUSH \<equiv> 46"
abbreviation OP_ARRAY_POP :: u8 where "OP_ARRAY_POP \<equiv> 47"
abbreviation OP_STRING_LEN :: u8 where "OP_STRING_LEN \<equiv> 48"
abbreviation OP_STRING_CONCAT :: u8 where "OP_STRING_CONCAT \<equiv> 49"
abbreviation OP_TYPEOF :: u8 where "OP_TYPEOF \<equiv> 50"
abbreviation OP_CAST_INT :: u8 where "OP_CAST_INT \<equiv> 51"
abbreviation OP_CAST_BOOL :: u8 where "OP_CAST_BOOL \<equiv> 52"
abbreviation OP_CAST_DOUBLE :: u8 where "OP_CAST_DOUBLE \<equiv> 53"
abbreviation OP_CAST_STRING :: u8 where "OP_CAST_STRING \<equiv> 54"
abbreviation OP_CAST_BIGINT :: u8 where "OP_CAST_BIGINT \<equiv> 55"
abbreviation OP_PRINT :: u8 where "OP_PRINT \<equiv> 56"
abbreviation OP_PRINTLN :: u8 where "OP_PRINTLN \<equiv> 57"
abbreviation OP_POP :: u8 where "OP_POP \<equiv> 58"
abbreviation OP_DUP :: u8 where "OP_DUP \<equiv> 59"
abbreviation OP_TRY :: u8 where "OP_TRY \<equiv> 60"
abbreviation OP_THROW :: u8 where "OP_THROW \<equiv> 61"
abbreviation OP_CATCH :: u8 where "OP_CATCH \<equiv> 62"
abbreviation OP_RECORD_NEW :: u8 where "OP_RECORD_NEW \<equiv> 63"
abbreviation OP_RECORD_SET_FIELD :: u8 where "OP_RECORD_SET_FIELD \<equiv> 64"
abbreviation OP_RECORD_GET_FIELD :: u8 where "OP_RECORD_GET_FIELD \<equiv> 65"
abbreviation OP_TUPLE_NEW :: u8 where "OP_TUPLE_NEW \<equiv> 66"
abbreviation OP_TUPLE_GET :: u8 where "OP_TUPLE_GET \<equiv> 67"
abbreviation OP_TUPLE_SET :: u8 where "OP_TUPLE_SET \<equiv> 68"
abbreviation OP_MAP_NEW :: u8 where "OP_MAP_NEW \<equiv> 69"
abbreviation OP_MAP_SET :: u8 where "OP_MAP_SET \<equiv> 70"
abbreviation OP_MAP_GET :: u8 where "OP_MAP_GET \<equiv> 71"
abbreviation OP_MAP_HAS :: u8 where "OP_MAP_HAS \<equiv> 72"
abbreviation OP_MAP_DELETE :: u8 where "OP_MAP_DELETE \<equiv> 73"
abbreviation OP_MAP_KEYS :: u8 where "OP_MAP_KEYS \<equiv> 74"
abbreviation OP_MAP_VALUES :: u8 where "OP_MAP_VALUES \<equiv> 75"
abbreviation OP_SET_NEW :: u8 where "OP_SET_NEW \<equiv> 76"
abbreviation OP_SET_ADD :: u8 where "OP_SET_ADD \<equiv> 77"
abbreviation OP_SET_HAS :: u8 where "OP_SET_HAS \<equiv> 78"
abbreviation OP_SET_REMOVE :: u8 where "OP_SET_REMOVE \<equiv> 79"
abbreviation OP_SET_TO_ARRAY :: u8 where "OP_SET_TO_ARRAY \<equiv> 80"
abbreviation OP_ADD_LOCAL_DIV_LOCALS :: u8 where "OP_ADD_LOCAL_DIV_LOCALS \<equiv> 81"
abbreviation OP_JUMP_IF_LOCAL_LT :: u8 where "OP_JUMP_IF_LOCAL_LT \<equiv> 82"
abbreviation OP_JUMP_IF_LOCAL_LE :: u8 where "OP_JUMP_IF_LOCAL_LE \<equiv> 83"
abbreviation OP_JUMP_IF_LOCAL_GT :: u8 where "OP_JUMP_IF_LOCAL_GT \<equiv> 84"
abbreviation OP_JUMP_IF_LOCAL_GE :: u8 where "OP_JUMP_IF_LOCAL_GE \<equiv> 85"
abbreviation OP_JUMP_IF_LOCAL_LT_CONST :: u8 where "OP_JUMP_IF_LOCAL_LT_CONST \<equiv> 86"
abbreviation OP_JUMP_IF_LOCAL_LE_CONST :: u8 where "OP_JUMP_IF_LOCAL_LE_CONST \<equiv> 87"
abbreviation OP_JUMP_IF_LOCAL_GT_CONST :: u8 where "OP_JUMP_IF_LOCAL_GT_CONST \<equiv> 88"
abbreviation OP_JUMP_IF_LOCAL_GE_CONST :: u8 where "OP_JUMP_IF_LOCAL_GE_CONST \<equiv> 89"
abbreviation OP_JUMP_IF_FALSE_POP :: u8 where "OP_JUMP_IF_FALSE_POP \<equiv> 90"
abbreviation OP_JUMP_IF_STACK_LT_LOCAL :: u8 where "OP_JUMP_IF_STACK_LT_LOCAL \<equiv> 91"
abbreviation OP_JUMP_IF_STACK_LE_LOCAL :: u8 where "OP_JUMP_IF_STACK_LE_LOCAL \<equiv> 92"
abbreviation OP_JUMP_IF_STACK_GT_LOCAL :: u8 where "OP_JUMP_IF_STACK_GT_LOCAL \<equiv> 93"
abbreviation OP_JUMP_IF_STACK_GE_LOCAL :: u8 where "OP_JUMP_IF_STACK_GE_LOCAL \<equiv> 94"
abbreviation OP_JUMP_IF_STACK_LT_CONST :: u8 where "OP_JUMP_IF_STACK_LT_CONST \<equiv> 95"
abbreviation OP_JUMP_IF_STACK_LE_CONST :: u8 where "OP_JUMP_IF_STACK_LE_CONST \<equiv> 96"
abbreviation OP_JUMP_IF_STACK_GT_CONST :: u8 where "OP_JUMP_IF_STACK_GT_CONST \<equiv> 97"
abbreviation OP_JUMP_IF_STACK_GE_CONST :: u8 where "OP_JUMP_IF_STACK_GE_CONST \<equiv> 98"
abbreviation OP_ARRAY_GET_LOCAL :: u8 where "OP_ARRAY_GET_LOCAL \<equiv> 99"
abbreviation OP_ARRAY_GET_LOCAL_CONST :: u8 where "OP_ARRAY_GET_LOCAL_CONST \<equiv> 100"
abbreviation OP_ARRAY_GET_LOCAL_LOCAL :: u8 where "OP_ARRAY_GET_LOCAL_LOCAL \<equiv> 101"
abbreviation OP_ARRAY_SET_LOCAL :: u8 where "OP_ARRAY_SET_LOCAL \<equiv> 102"
abbreviation OP_ARRAY_SET_LOCAL_CONST :: u8 where "OP_ARRAY_SET_LOCAL_CONST \<equiv> 103"
abbreviation OP_ARRAY_SET_LOCAL_LOCAL :: u8 where "OP_ARRAY_SET_LOCAL_LOCAL \<equiv> 104"
abbreviation OP_ARRAY_COPY :: u8 where "OP_ARRAY_COPY \<equiv> 105"
abbreviation OP_ARRAY_COPY_LOCAL_LOCAL :: u8 where "OP_ARRAY_COPY_LOCAL_LOCAL \<equiv> 106"
abbreviation OP_ARRAY_REVERSE_PREFIX :: u8 where "OP_ARRAY_REVERSE_PREFIX \<equiv> 107"
abbreviation OP_ARRAY_REVERSE_PREFIX_LOCAL_LOCAL :: u8 where "OP_ARRAY_REVERSE_PREFIX_LOCAL_LOCAL \<equiv> 108"
abbreviation OP_ARRAY_ROTATE_PREFIX_LEFT :: u8 where "OP_ARRAY_ROTATE_PREFIX_LEFT \<equiv> 109"
abbreviation OP_ARRAY_ROTATE_PREFIX_LEFT_LOCAL_LOCAL :: u8 where "OP_ARRAY_ROTATE_PREFIX_LEFT_LOCAL_LOCAL \<equiv> 110"
abbreviation OP_ARRAY_ROTATE_PREFIX_RIGHT :: u8 where "OP_ARRAY_ROTATE_PREFIX_RIGHT \<equiv> 111"
abbreviation OP_ARRAY_ROTATE_PREFIX_RIGHT_LOCAL_LOCAL :: u8 where "OP_ARRAY_ROTATE_PREFIX_RIGHT_LOCAL_LOCAL \<equiv> 112"
abbreviation OP_ARRAY_BOUNDS_CHECK_LOCAL_CONST :: u8 where "OP_ARRAY_BOUNDS_CHECK_LOCAL_CONST \<equiv> 113"
abbreviation OP_ARRAY_BOUNDS_CHECK_LOCAL_LOCAL :: u8 where "OP_ARRAY_BOUNDS_CHECK_LOCAL_LOCAL \<equiv> 114"
abbreviation OP_ARRAY_GET_FIELD_LOCAL_CONST :: u8 where "OP_ARRAY_GET_FIELD_LOCAL_CONST \<equiv> 115"
abbreviation OP_ARRAY_GET_FIELD_LOCAL_LOCAL :: u8 where "OP_ARRAY_GET_FIELD_LOCAL_LOCAL \<equiv> 116"
abbreviation OP_ARRAY_SET_FIELD_LOCAL_CONST :: u8 where "OP_ARRAY_SET_FIELD_LOCAL_CONST \<equiv> 117"
abbreviation OP_ARRAY_SET_FIELD_LOCAL_LOCAL :: u8 where "OP_ARRAY_SET_FIELD_LOCAL_LOCAL \<equiv> 118"
abbreviation OP_JUMP_IF_ARRAY_FALSE_LOCAL_CONST :: u8 where "OP_JUMP_IF_ARRAY_FALSE_LOCAL_CONST \<equiv> 119"
abbreviation OP_JUMP_IF_ARRAY_FALSE_LOCAL_LOCAL :: u8 where "OP_JUMP_IF_ARRAY_FALSE_LOCAL_LOCAL \<equiv> 120"
abbreviation OP_SQRT :: u8 where "OP_SQRT \<equiv> 121"
abbreviation OP_ADD_INT :: u8 where "OP_ADD_INT \<equiv> 122"
abbreviation OP_SUB_INT :: u8 where "OP_SUB_INT \<equiv> 123"
abbreviation OP_MUL_INT :: u8 where "OP_MUL_INT \<equiv> 124"
abbreviation OP_DIV_INT :: u8 where "OP_DIV_INT \<equiv> 125"
abbreviation OP_MOD_INT :: u8 where "OP_MOD_INT \<equiv> 126"
abbreviation OP_NEG_INT :: u8 where "OP_NEG_INT \<equiv> 127"
abbreviation OP_BIT_AND_INT :: u8 where "OP_BIT_AND_INT \<equiv> 128"
abbreviation OP_BIT_OR_INT :: u8 where "OP_BIT_OR_INT \<equiv> 129"
abbreviation OP_BIT_XOR_INT :: u8 where "OP_BIT_XOR_INT \<equiv> 130"
abbreviation OP_BIT_NOT_INT :: u8 where "OP_BIT_NOT_INT \<equiv> 131"
abbreviation OP_ADD_DOUBLE :: u8 where "OP_ADD_DOUBLE \<equiv> 132"
abbreviation OP_SUB_DOUBLE :: u8 where "OP_SUB_DOUBLE \<equiv> 133"
abbreviation OP_MUL_DOUBLE :: u8 where "OP_MUL_DOUBLE \<equiv> 134"
abbreviation OP_DIV_DOUBLE :: u8 where "OP_DIV_DOUBLE \<equiv> 135"
abbreviation OP_NEG_DOUBLE :: u8 where "OP_NEG_DOUBLE \<equiv> 136"
abbreviation OP_ADD_LOCALS_INT :: u8 where "OP_ADD_LOCALS_INT \<equiv> 137"
abbreviation OP_SUB_LOCALS_INT :: u8 where "OP_SUB_LOCALS_INT \<equiv> 138"
abbreviation OP_MUL_LOCALS_INT :: u8 where "OP_MUL_LOCALS_INT \<equiv> 139"
abbreviation OP_DIV_LOCALS_INT :: u8 where "OP_DIV_LOCALS_INT \<equiv> 140"
abbreviation OP_MOD_LOCALS_INT :: u8 where "OP_MOD_LOCALS_INT \<equiv> 141"
abbreviation OP_BIT_AND_LOCALS_INT :: u8 where "OP_BIT_AND_LOCALS_INT \<equiv> 142"
abbreviation OP_BIT_OR_LOCALS_INT :: u8 where "OP_BIT_OR_LOCALS_INT \<equiv> 143"
abbreviation OP_BIT_XOR_LOCALS_INT :: u8 where "OP_BIT_XOR_LOCALS_INT \<equiv> 144"
abbreviation OP_ADD_LOCALS_DOUBLE :: u8 where "OP_ADD_LOCALS_DOUBLE \<equiv> 145"
abbreviation OP_SUB_LOCALS_DOUBLE :: u8 where "OP_SUB_LOCALS_DOUBLE \<equiv> 146"
abbreviation OP_MUL_LOCALS_DOUBLE :: u8 where "OP_MUL_LOCALS_DOUBLE \<equiv> 147"
abbreviation OP_DIV_LOCALS_DOUBLE :: u8 where "OP_DIV_LOCALS_DOUBLE \<equiv> 148"
abbreviation OP_MUL_LOCALS_INT_TO_LOCAL :: u8 where "OP_MUL_LOCALS_INT_TO_LOCAL \<equiv> 149"
abbreviation OP_MUL_LOCALS_DOUBLE_TO_LOCAL :: u8 where "OP_MUL_LOCALS_DOUBLE_TO_LOCAL \<equiv> 150"
abbreviation OP_SQRT_LOCAL_DOUBLE :: u8 where "OP_SQRT_LOCAL_DOUBLE \<equiv> 151"
abbreviation OP_ARRAY_LEN_LOCAL :: u8 where "OP_ARRAY_LEN_LOCAL \<equiv> 152"
abbreviation OP_ADD_STACK_LOCAL_INT :: u8 where "OP_ADD_STACK_LOCAL_INT \<equiv> 153"
abbreviation OP_SUB_STACK_LOCAL_INT :: u8 where "OP_SUB_STACK_LOCAL_INT \<equiv> 154"
abbreviation OP_MUL_STACK_LOCAL_INT :: u8 where "OP_MUL_STACK_LOCAL_INT \<equiv> 155"
abbreviation OP_DIV_STACK_LOCAL_INT :: u8 where "OP_DIV_STACK_LOCAL_INT \<equiv> 156"
abbreviation OP_MOD_STACK_LOCAL_INT :: u8 where "OP_MOD_STACK_LOCAL_INT \<equiv> 157"
abbreviation OP_BIT_AND_STACK_LOCAL_INT :: u8 where "OP_BIT_AND_STACK_LOCAL_INT \<equiv> 158"
abbreviation OP_BIT_OR_STACK_LOCAL_INT :: u8 where "OP_BIT_OR_STACK_LOCAL_INT \<equiv> 159"
abbreviation OP_BIT_XOR_STACK_LOCAL_INT :: u8 where "OP_BIT_XOR_STACK_LOCAL_INT \<equiv> 160"
abbreviation OP_ADD_STACK_LOCAL_DOUBLE :: u8 where "OP_ADD_STACK_LOCAL_DOUBLE \<equiv> 161"
abbreviation OP_SUB_STACK_LOCAL_DOUBLE :: u8 where "OP_SUB_STACK_LOCAL_DOUBLE \<equiv> 162"
abbreviation OP_MUL_STACK_LOCAL_DOUBLE :: u8 where "OP_MUL_STACK_LOCAL_DOUBLE \<equiv> 163"
abbreviation OP_DIV_STACK_LOCAL_DOUBLE :: u8 where "OP_DIV_STACK_LOCAL_DOUBLE \<equiv> 164"
abbreviation OP_ADD_STACK_CONST_INT :: u8 where "OP_ADD_STACK_CONST_INT \<equiv> 165"
abbreviation OP_SUB_STACK_CONST_INT :: u8 where "OP_SUB_STACK_CONST_INT \<equiv> 166"
abbreviation OP_MUL_STACK_CONST_INT :: u8 where "OP_MUL_STACK_CONST_INT \<equiv> 167"
abbreviation OP_DIV_STACK_CONST_INT :: u8 where "OP_DIV_STACK_CONST_INT \<equiv> 168"
abbreviation OP_MOD_STACK_CONST_INT :: u8 where "OP_MOD_STACK_CONST_INT \<equiv> 169"
abbreviation OP_BIT_AND_STACK_CONST_INT :: u8 where "OP_BIT_AND_STACK_CONST_INT \<equiv> 170"
abbreviation OP_BIT_OR_STACK_CONST_INT :: u8 where "OP_BIT_OR_STACK_CONST_INT \<equiv> 171"
abbreviation OP_BIT_XOR_STACK_CONST_INT :: u8 where "OP_BIT_XOR_STACK_CONST_INT \<equiv> 172"
abbreviation OP_ADD_STACK_CONST_DOUBLE :: u8 where "OP_ADD_STACK_CONST_DOUBLE \<equiv> 173"
abbreviation OP_SUB_STACK_CONST_DOUBLE :: u8 where "OP_SUB_STACK_CONST_DOUBLE \<equiv> 174"
abbreviation OP_MUL_STACK_CONST_DOUBLE :: u8 where "OP_MUL_STACK_CONST_DOUBLE \<equiv> 175"
abbreviation OP_DIV_STACK_CONST_DOUBLE :: u8 where "OP_DIV_STACK_CONST_DOUBLE \<equiv> 176"
abbreviation OP_ADD_LOCAL_CONST_INT :: u8 where "OP_ADD_LOCAL_CONST_INT \<equiv> 177"
abbreviation OP_SUB_LOCAL_CONST_INT :: u8 where "OP_SUB_LOCAL_CONST_INT \<equiv> 178"
abbreviation OP_MUL_LOCAL_CONST_INT :: u8 where "OP_MUL_LOCAL_CONST_INT \<equiv> 179"
abbreviation OP_DIV_LOCAL_CONST_INT :: u8 where "OP_DIV_LOCAL_CONST_INT \<equiv> 180"
abbreviation OP_MOD_LOCAL_CONST_INT :: u8 where "OP_MOD_LOCAL_CONST_INT \<equiv> 181"
abbreviation OP_BIT_AND_LOCAL_CONST_INT :: u8 where "OP_BIT_AND_LOCAL_CONST_INT \<equiv> 182"
abbreviation OP_BIT_OR_LOCAL_CONST_INT :: u8 where "OP_BIT_OR_LOCAL_CONST_INT \<equiv> 183"
abbreviation OP_BIT_XOR_LOCAL_CONST_INT :: u8 where "OP_BIT_XOR_LOCAL_CONST_INT \<equiv> 184"
abbreviation OP_ADD_LOCAL_CONST_DOUBLE :: u8 where "OP_ADD_LOCAL_CONST_DOUBLE \<equiv> 185"
abbreviation OP_SUB_LOCAL_CONST_DOUBLE :: u8 where "OP_SUB_LOCAL_CONST_DOUBLE \<equiv> 186"
abbreviation OP_MUL_LOCAL_CONST_DOUBLE :: u8 where "OP_MUL_LOCAL_CONST_DOUBLE \<equiv> 187"
abbreviation OP_DIV_LOCAL_CONST_DOUBLE :: u8 where "OP_DIV_LOCAL_CONST_DOUBLE \<equiv> 188"
abbreviation OP_ARRAY_GET_LOCAL_CONST_INT :: u8 where "OP_ARRAY_GET_LOCAL_CONST_INT \<equiv> 189"
abbreviation OP_ARRAY_GET_LOCAL_LOCAL_INT :: u8 where "OP_ARRAY_GET_LOCAL_LOCAL_INT \<equiv> 190"
abbreviation OP_ARRAY_SET_LOCAL_CONST_INT :: u8 where "OP_ARRAY_SET_LOCAL_CONST_INT \<equiv> 191"
abbreviation OP_ARRAY_SET_LOCAL_LOCAL_INT :: u8 where "OP_ARRAY_SET_LOCAL_LOCAL_INT \<equiv> 192"
abbreviation OP_ARRAY_GET_LOCAL_CONST_DOUBLE :: u8 where "OP_ARRAY_GET_LOCAL_CONST_DOUBLE \<equiv> 193"
abbreviation OP_ARRAY_GET_LOCAL_LOCAL_DOUBLE :: u8 where "OP_ARRAY_GET_LOCAL_LOCAL_DOUBLE \<equiv> 194"
abbreviation OP_ARRAY_SET_LOCAL_CONST_DOUBLE :: u8 where "OP_ARRAY_SET_LOCAL_CONST_DOUBLE \<equiv> 195"
abbreviation OP_ARRAY_SET_LOCAL_LOCAL_DOUBLE :: u8 where "OP_ARRAY_SET_LOCAL_LOCAL_DOUBLE \<equiv> 196"
abbreviation OP_ARRAY_GET_LOCAL_CONST_INT_TO_LOCAL :: u8 where "OP_ARRAY_GET_LOCAL_CONST_INT_TO_LOCAL \<equiv> 197"
abbreviation OP_ARRAY_GET_LOCAL_LOCAL_INT_TO_LOCAL :: u8 where "OP_ARRAY_GET_LOCAL_LOCAL_INT_TO_LOCAL \<equiv> 198"
abbreviation OP_ARRAY_GET_LOCAL_CONST_DOUBLE_TO_LOCAL :: u8 where "OP_ARRAY_GET_LOCAL_CONST_DOUBLE_TO_LOCAL \<equiv> 199"
abbreviation OP_ARRAY_GET_LOCAL_LOCAL_DOUBLE_TO_LOCAL :: u8 where "OP_ARRAY_GET_LOCAL_LOCAL_DOUBLE_TO_LOCAL \<equiv> 200"
abbreviation OP_ADD_LOCAL_STACK_INT :: u8 where "OP_ADD_LOCAL_STACK_INT \<equiv> 201"
abbreviation OP_SUB_LOCAL_STACK_INT :: u8 where "OP_SUB_LOCAL_STACK_INT \<equiv> 202"
abbreviation OP_ADD_LOCAL_STACK_DOUBLE :: u8 where "OP_ADD_LOCAL_STACK_DOUBLE \<equiv> 203"
abbreviation OP_SUB_LOCAL_STACK_DOUBLE :: u8 where "OP_SUB_LOCAL_STACK_DOUBLE \<equiv> 204"
abbreviation OP_MADD_LOCAL_ARRAY_LOCAL_INT :: u8 where "OP_MADD_LOCAL_ARRAY_LOCAL_INT \<equiv> 205"
abbreviation OP_MADD_LOCAL_ARRAY_LOCAL_DOUBLE :: u8 where "OP_MADD_LOCAL_ARRAY_LOCAL_DOUBLE \<equiv> 206"
abbreviation OP_EVALA_RECIP_LOCALS_DOUBLE :: u8 where "OP_EVALA_RECIP_LOCALS_DOUBLE \<equiv> 207"
abbreviation OP_EVALA_MADD_LOCAL_ARRAY_LOCAL_DOUBLE :: u8 where "OP_EVALA_MADD_LOCAL_ARRAY_LOCAL_DOUBLE \<equiv> 208"
abbreviation OP_RECIP_INT_TO_DOUBLE :: u8 where "OP_RECIP_INT_TO_DOUBLE \<equiv> 209"
abbreviation OP_JUMP_IF_LOCAL_EQ :: u8 where "OP_JUMP_IF_LOCAL_EQ \<equiv> 210"
abbreviation OP_JUMP_IF_LOCAL_NE :: u8 where "OP_JUMP_IF_LOCAL_NE \<equiv> 211"
abbreviation OP_JUMP_IF_LOCAL_EQ_CONST :: u8 where "OP_JUMP_IF_LOCAL_EQ_CONST \<equiv> 212"
abbreviation OP_JUMP_IF_LOCAL_NE_CONST :: u8 where "OP_JUMP_IF_LOCAL_NE_CONST \<equiv> 213"
abbreviation OP_CALL_GLOBAL_SLOT :: u8 where "OP_CALL_GLOBAL_SLOT \<equiv> 214"
abbreviation OP_LOAD_GLOBAL_SLOT :: u8 where "OP_LOAD_GLOBAL_SLOT \<equiv> 215"
abbreviation OP_STORE_GLOBAL_SLOT :: u8 where "OP_STORE_GLOBAL_SLOT \<equiv> 216"
abbreviation OP_ADD_GLOBAL_GLOBAL_TO_GLOBAL :: u8 where "OP_ADD_GLOBAL_GLOBAL_TO_GLOBAL \<equiv> 217"
abbreviation OP_SUB_GLOBAL_GLOBAL_TO_GLOBAL :: u8 where "OP_SUB_GLOBAL_GLOBAL_TO_GLOBAL \<equiv> 218"
abbreviation OP_MUL_GLOBAL_GLOBAL_TO_GLOBAL :: u8 where "OP_MUL_GLOBAL_GLOBAL_TO_GLOBAL \<equiv> 219"
abbreviation OP_DIV_GLOBAL_GLOBAL_TO_GLOBAL :: u8 where "OP_DIV_GLOBAL_GLOBAL_TO_GLOBAL \<equiv> 220"
abbreviation OP_ADD_GLOBAL_SLOT_SLOT_TO_GLOBAL_SLOT :: u8 where "OP_ADD_GLOBAL_SLOT_SLOT_TO_GLOBAL_SLOT \<equiv> 221"
abbreviation OP_SUB_GLOBAL_SLOT_SLOT_TO_GLOBAL_SLOT :: u8 where "OP_SUB_GLOBAL_SLOT_SLOT_TO_GLOBAL_SLOT \<equiv> 222"
abbreviation OP_MUL_GLOBAL_SLOT_SLOT_TO_GLOBAL_SLOT :: u8 where "OP_MUL_GLOBAL_SLOT_SLOT_TO_GLOBAL_SLOT \<equiv> 223"
abbreviation OP_DIV_GLOBAL_SLOT_SLOT_TO_GLOBAL_SLOT :: u8 where "OP_DIV_GLOBAL_SLOT_SLOT_TO_GLOBAL_SLOT \<equiv> 224"
abbreviation OP_JUMP_IF_LOCAL_EQ_GLOBAL :: u8 where "OP_JUMP_IF_LOCAL_EQ_GLOBAL \<equiv> 225"
abbreviation OP_JUMP_IF_LOCAL_NE_GLOBAL :: u8 where "OP_JUMP_IF_LOCAL_NE_GLOBAL \<equiv> 226"
abbreviation OP_JUMP_IF_LOCAL_EQ_GLOBAL_SLOT :: u8 where "OP_JUMP_IF_LOCAL_EQ_GLOBAL_SLOT \<equiv> 227"
abbreviation OP_JUMP_IF_LOCAL_NE_GLOBAL_SLOT :: u8 where "OP_JUMP_IF_LOCAL_NE_GLOBAL_SLOT \<equiv> 228"
abbreviation OP_MAKE_CLOSURE :: u8 where "OP_MAKE_CLOSURE \<equiv> 229"
abbreviation OP_TYPE_TEST_INTERFACE_METHOD :: u8 where "OP_TYPE_TEST_INTERFACE_METHOD \<equiv> 230"
abbreviation OP_CALL_INTERFACE :: u8 where "OP_CALL_INTERFACE \<equiv> 231"
abbreviation OP_RECORD_NEW_NAMED :: u8 where "OP_RECORD_NEW_NAMED \<equiv> 232"

text \<open>The names, in the order of the enumeration.\<close>

definition op_code_names :: "string list" where
  "op_code_names =
    [''OP_NOP'', ''OP_CONST'', ''OP_CONST16'', ''OP_LOAD_LOCAL'', ''OP_STORE_LOCAL'', ''OP_ADD_LOCAL_CONST'',
     ''OP_SUB_LOCAL_CONST'', ''OP_ADD2_LOCAL_CONST'', ''OP_NEGATE_LOCAL'', ''OP_LOAD_GLOBAL'', ''OP_LOAD_GLOBAL16'',
     ''OP_STORE_GLOBAL'', ''OP_STORE_GLOBAL16'', ''OP_ADD'', ''OP_SUB'', ''OP_MUL'', ''OP_DIV'', ''OP_MOD'',
     ''OP_NEG'', ''OP_EQ'', ''OP_NE'', ''OP_LT'', ''OP_LE'', ''OP_GT'', ''OP_GE'', ''OP_NOT'', ''OP_AND'',
     ''OP_OR'', ''OP_BIT_NOT'', ''OP_BIT_AND'', ''OP_BIT_OR'', ''OP_BIT_XOR'', ''OP_JUMP'', ''OP_JUMP_IF_FALSE'',
     ''OP_CALL'', ''OP_CALL_GLOBAL'', ''OP_CALL_GLOBAL16'', ''OP_DEFER'', ''OP_DEFER_HAS'', ''OP_DEFER_CALL'',
     ''OP_AWAIT'', ''OP_RET'', ''OP_ARRAY_NEW'', ''OP_ARRAY_GET'', ''OP_ARRAY_SET'', ''OP_ARRAY_LEN'',
     ''OP_ARRAY_PUSH'', ''OP_ARRAY_POP'', ''OP_STRING_LEN'', ''OP_STRING_CONCAT'', ''OP_TYPEOF'', ''OP_CAST_INT'',
     ''OP_CAST_BOOL'', ''OP_CAST_DOUBLE'', ''OP_CAST_STRING'', ''OP_CAST_BIGINT'', ''OP_PRINT'', ''OP_PRINTLN'',
     ''OP_POP'', ''OP_DUP'', ''OP_TRY'', ''OP_THROW'', ''OP_CATCH'', ''OP_RECORD_NEW'', ''OP_RECORD_SET_FIELD'',
     ''OP_RECORD_GET_FIELD'', ''OP_TUPLE_NEW'', ''OP_TUPLE_GET'', ''OP_TUPLE_SET'', ''OP_MAP_NEW'', ''OP_MAP_SET'',
     ''OP_MAP_GET'', ''OP_MAP_HAS'', ''OP_MAP_DELETE'', ''OP_MAP_KEYS'', ''OP_MAP_VALUES'', ''OP_SET_NEW'',
     ''OP_SET_ADD'', ''OP_SET_HAS'', ''OP_SET_REMOVE'', ''OP_SET_TO_ARRAY'', ''OP_ADD_LOCAL_DIV_LOCALS'',
     ''OP_JUMP_IF_LOCAL_LT'', ''OP_JUMP_IF_LOCAL_LE'', ''OP_JUMP_IF_LOCAL_GT'', ''OP_JUMP_IF_LOCAL_GE'',
     ''OP_JUMP_IF_LOCAL_LT_CONST'', ''OP_JUMP_IF_LOCAL_LE_CONST'', ''OP_JUMP_IF_LOCAL_GT_CONST'',
     ''OP_JUMP_IF_LOCAL_GE_CONST'', ''OP_JUMP_IF_FALSE_POP'', ''OP_JUMP_IF_STACK_LT_LOCAL'',
     ''OP_JUMP_IF_STACK_LE_LOCAL'', ''OP_JUMP_IF_STACK_GT_LOCAL'', ''OP_JUMP_IF_STACK_GE_LOCAL'',
     ''OP_JUMP_IF_STACK_LT_CONST'', ''OP_JUMP_IF_STACK_LE_CONST'', ''OP_JUMP_IF_STACK_GT_CONST'',
     ''OP_JUMP_IF_STACK_GE_CONST'', ''OP_ARRAY_GET_LOCAL'', ''OP_ARRAY_GET_LOCAL_CONST'',
     ''OP_ARRAY_GET_LOCAL_LOCAL'', ''OP_ARRAY_SET_LOCAL'', ''OP_ARRAY_SET_LOCAL_CONST'',
     ''OP_ARRAY_SET_LOCAL_LOCAL'', ''OP_ARRAY_COPY'', ''OP_ARRAY_COPY_LOCAL_LOCAL'', ''OP_ARRAY_REVERSE_PREFIX'',
     ''OP_ARRAY_REVERSE_PREFIX_LOCAL_LOCAL'', ''OP_ARRAY_ROTATE_PREFIX_LEFT'',
     ''OP_ARRAY_ROTATE_PREFIX_LEFT_LOCAL_LOCAL'', ''OP_ARRAY_ROTATE_PREFIX_RIGHT'',
     ''OP_ARRAY_ROTATE_PREFIX_RIGHT_LOCAL_LOCAL'', ''OP_ARRAY_BOUNDS_CHECK_LOCAL_CONST'',
     ''OP_ARRAY_BOUNDS_CHECK_LOCAL_LOCAL'', ''OP_ARRAY_GET_FIELD_LOCAL_CONST'', ''OP_ARRAY_GET_FIELD_LOCAL_LOCAL'',
     ''OP_ARRAY_SET_FIELD_LOCAL_CONST'', ''OP_ARRAY_SET_FIELD_LOCAL_LOCAL'', ''OP_JUMP_IF_ARRAY_FALSE_LOCAL_CONST'',
     ''OP_JUMP_IF_ARRAY_FALSE_LOCAL_LOCAL'', ''OP_SQRT'', ''OP_ADD_INT'', ''OP_SUB_INT'', ''OP_MUL_INT'',
     ''OP_DIV_INT'', ''OP_MOD_INT'', ''OP_NEG_INT'', ''OP_BIT_AND_INT'', ''OP_BIT_OR_INT'', ''OP_BIT_XOR_INT'',
     ''OP_BIT_NOT_INT'', ''OP_ADD_DOUBLE'', ''OP_SUB_DOUBLE'', ''OP_MUL_DOUBLE'', ''OP_DIV_DOUBLE'',
     ''OP_NEG_DOUBLE'', ''OP_ADD_LOCALS_INT'', ''OP_SUB_LOCALS_INT'', ''OP_MUL_LOCALS_INT'', ''OP_DIV_LOCALS_INT'',
     ''OP_MOD_LOCALS_INT'', ''OP_BIT_AND_LOCALS_INT'', ''OP_BIT_OR_LOCALS_INT'', ''OP_BIT_XOR_LOCALS_INT'',
     ''OP_ADD_LOCALS_DOUBLE'', ''OP_SUB_LOCALS_DOUBLE'', ''OP_MUL_LOCALS_DOUBLE'', ''OP_DIV_LOCALS_DOUBLE'',
     ''OP_MUL_LOCALS_INT_TO_LOCAL'', ''OP_MUL_LOCALS_DOUBLE_TO_LOCAL'', ''OP_SQRT_LOCAL_DOUBLE'',
     ''OP_ARRAY_LEN_LOCAL'', ''OP_ADD_STACK_LOCAL_INT'', ''OP_SUB_STACK_LOCAL_INT'', ''OP_MUL_STACK_LOCAL_INT'',
     ''OP_DIV_STACK_LOCAL_INT'', ''OP_MOD_STACK_LOCAL_INT'', ''OP_BIT_AND_STACK_LOCAL_INT'',
     ''OP_BIT_OR_STACK_LOCAL_INT'', ''OP_BIT_XOR_STACK_LOCAL_INT'', ''OP_ADD_STACK_LOCAL_DOUBLE'',
     ''OP_SUB_STACK_LOCAL_DOUBLE'', ''OP_MUL_STACK_LOCAL_DOUBLE'', ''OP_DIV_STACK_LOCAL_DOUBLE'',
     ''OP_ADD_STACK_CONST_INT'', ''OP_SUB_STACK_CONST_INT'', ''OP_MUL_STACK_CONST_INT'', ''OP_DIV_STACK_CONST_INT'',
     ''OP_MOD_STACK_CONST_INT'', ''OP_BIT_AND_STACK_CONST_INT'', ''OP_BIT_OR_STACK_CONST_INT'',
     ''OP_BIT_XOR_STACK_CONST_INT'', ''OP_ADD_STACK_CONST_DOUBLE'', ''OP_SUB_STACK_CONST_DOUBLE'',
     ''OP_MUL_STACK_CONST_DOUBLE'', ''OP_DIV_STACK_CONST_DOUBLE'', ''OP_ADD_LOCAL_CONST_INT'',
     ''OP_SUB_LOCAL_CONST_INT'', ''OP_MUL_LOCAL_CONST_INT'', ''OP_DIV_LOCAL_CONST_INT'', ''OP_MOD_LOCAL_CONST_INT'',
     ''OP_BIT_AND_LOCAL_CONST_INT'', ''OP_BIT_OR_LOCAL_CONST_INT'', ''OP_BIT_XOR_LOCAL_CONST_INT'',
     ''OP_ADD_LOCAL_CONST_DOUBLE'', ''OP_SUB_LOCAL_CONST_DOUBLE'', ''OP_MUL_LOCAL_CONST_DOUBLE'',
     ''OP_DIV_LOCAL_CONST_DOUBLE'', ''OP_ARRAY_GET_LOCAL_CONST_INT'', ''OP_ARRAY_GET_LOCAL_LOCAL_INT'',
     ''OP_ARRAY_SET_LOCAL_CONST_INT'', ''OP_ARRAY_SET_LOCAL_LOCAL_INT'', ''OP_ARRAY_GET_LOCAL_CONST_DOUBLE'',
     ''OP_ARRAY_GET_LOCAL_LOCAL_DOUBLE'', ''OP_ARRAY_SET_LOCAL_CONST_DOUBLE'', ''OP_ARRAY_SET_LOCAL_LOCAL_DOUBLE'',
     ''OP_ARRAY_GET_LOCAL_CONST_INT_TO_LOCAL'', ''OP_ARRAY_GET_LOCAL_LOCAL_INT_TO_LOCAL'',
     ''OP_ARRAY_GET_LOCAL_CONST_DOUBLE_TO_LOCAL'', ''OP_ARRAY_GET_LOCAL_LOCAL_DOUBLE_TO_LOCAL'',
     ''OP_ADD_LOCAL_STACK_INT'', ''OP_SUB_LOCAL_STACK_INT'', ''OP_ADD_LOCAL_STACK_DOUBLE'',
     ''OP_SUB_LOCAL_STACK_DOUBLE'', ''OP_MADD_LOCAL_ARRAY_LOCAL_INT'', ''OP_MADD_LOCAL_ARRAY_LOCAL_DOUBLE'',
     ''OP_EVALA_RECIP_LOCALS_DOUBLE'', ''OP_EVALA_MADD_LOCAL_ARRAY_LOCAL_DOUBLE'', ''OP_RECIP_INT_TO_DOUBLE'',
     ''OP_JUMP_IF_LOCAL_EQ'', ''OP_JUMP_IF_LOCAL_NE'', ''OP_JUMP_IF_LOCAL_EQ_CONST'', ''OP_JUMP_IF_LOCAL_NE_CONST'',
     ''OP_CALL_GLOBAL_SLOT'', ''OP_LOAD_GLOBAL_SLOT'', ''OP_STORE_GLOBAL_SLOT'', ''OP_ADD_GLOBAL_GLOBAL_TO_GLOBAL'',
     ''OP_SUB_GLOBAL_GLOBAL_TO_GLOBAL'', ''OP_MUL_GLOBAL_GLOBAL_TO_GLOBAL'', ''OP_DIV_GLOBAL_GLOBAL_TO_GLOBAL'',
     ''OP_ADD_GLOBAL_SLOT_SLOT_TO_GLOBAL_SLOT'', ''OP_SUB_GLOBAL_SLOT_SLOT_TO_GLOBAL_SLOT'',
     ''OP_MUL_GLOBAL_SLOT_SLOT_TO_GLOBAL_SLOT'', ''OP_DIV_GLOBAL_SLOT_SLOT_TO_GLOBAL_SLOT'',
     ''OP_JUMP_IF_LOCAL_EQ_GLOBAL'', ''OP_JUMP_IF_LOCAL_NE_GLOBAL'', ''OP_JUMP_IF_LOCAL_EQ_GLOBAL_SLOT'',
     ''OP_JUMP_IF_LOCAL_NE_GLOBAL_SLOT'', ''OP_MAKE_CLOSURE'', ''OP_TYPE_TEST_INTERFACE_METHOD'',
     ''OP_CALL_INTERFACE'', ''OP_RECORD_NEW_NAMED'']"

definition op_code_to_string :: "u8 \<Rightarrow> string" where
  "op_code_to_string op = (if unat op < length op_code_names then op_code_names ! unat op else ''UNKNOWN'')"

section \<open>Chunks\<close>

text \<open>
  \<open>code_count\<close> is the length of the code.  \<open>debug_info\<close> is allocated and released together with the code
  and has one element for each byte.
\<close>

record DebugInfo =
  di_index :: int
  di_line :: int

record Chunk =
  ch_code :: "u8 list"
  ch_debug_info :: "DebugInfo list"
  ch_code_capacity :: int

abbreviation ch_code_count :: "Chunk \<Rightarrow> int" where
  "ch_code_count chunk \<equiv> int (length (ch_code chunk))"

definition chunk_init :: Chunk where
  "chunk_init = \<lparr>ch_code = [], ch_debug_info = [], ch_code_capacity = 0\<rparr>"

definition chunk_free :: "Chunk \<Rightarrow> Chunk" where
  "chunk_free chunk = chunk_init"

definition chunk_set_debug_info :: "Chunk \<Rightarrow> int \<Rightarrow> int \<Rightarrow> Chunk" where
  "chunk_set_debug_info chunk pc line =
     (if pc \<ge> 0 \<and> pc < ch_code_count chunk
      then chunk\<lparr>ch_debug_info := (ch_debug_info chunk)[nat pc := \<lparr>di_index = pc, di_line = line\<rparr>]\<rparr>
      else chunk)"

text \<open>The index of the emitted byte and the chunk; the new element of \<open>debug_info\<close> is written at once.\<close>

definition chunk_emit :: "Chunk \<Rightarrow> u8 \<Rightarrow> int \<Rightarrow> int \<times> Chunk" where
  "chunk_emit chunk byte line =
     (let code_count = ch_code_count chunk + 1;
          chunk = (if code_count > ch_code_capacity chunk then chunk\<lparr>ch_code_capacity := code_count * 2\<rparr> else chunk);
          chunk = chunk\<lparr>ch_code := ch_code chunk @ [byte],
                        ch_debug_info := ch_debug_info chunk @ [\<lparr>di_index = 0, di_line = 0\<rparr>]\<rparr>
      in (code_count - 1, chunk_set_debug_info chunk (code_count - 1) line))"

definition chunk_get :: "Chunk \<Rightarrow> int \<Rightarrow> u8" where
  "chunk_get chunk offset =
     (if offset \<ge> 0 \<and> offset < ch_code_count chunk then ch_code chunk ! nat offset else 0)"

section \<open>Constants\<close>

text \<open>
  A constant of a function: the union as \<open>type_index\<close> reads it (0 to 4 in this order: int, double, string,
  text of a big integer, bool); any other index.
\<close>

datatype Constant =
    CONST_INT u64
  | CONST_DOUBLE u64
  | CONST_STRING "string option"
  | CONST_BIGINT "string option"
  | CONST_BOOL u64
  | CONST_OTHER int

record ConstantPool =
  cp_constants :: "Constant list"
  cp_constant_capacity :: int

definition constant_pool_init :: ConstantPool where
  "constant_pool_init = \<lparr>cp_constants = [], cp_constant_capacity = 0\<rparr>"

definition constant_pool_free :: "ConstantPool \<Rightarrow> ConstantPool" where
  "constant_pool_free pool = constant_pool_init"

text \<open>Strings are copied up to their first zero character.\<close>

definition constant_dup :: "Constant \<Rightarrow> Constant" where
  "constant_dup c =
     (case c of
        CONST_STRING s \<Rightarrow> CONST_STRING (map_option cstr s)
      | CONST_BIGINT s \<Rightarrow> CONST_BIGINT (map_option cstr s)
      | _ \<Rightarrow> c)"

definition constant_pool_add :: "ConstantPool \<Rightarrow> Constant \<Rightarrow> int \<times> ConstantPool" where
  "constant_pool_add pool c =
     (let constant_count = int (length (cp_constants pool)) + 1;
          pool = (if constant_count > cp_constant_capacity pool then pool\<lparr>cp_constant_capacity := constant_count * 2\<rparr> else pool)
      in (constant_count - 1, pool\<lparr>cp_constants := cp_constants pool @ [constant_dup c]\<rparr>))"

section \<open>Properties\<close>

text \<open>What is allocated is enough, and every byte has its line.\<close>

definition chunk_wf :: "Chunk \<Rightarrow> bool" where
  "chunk_wf chunk \<longleftrightarrow> ch_code_count chunk \<le> ch_code_capacity chunk \<and> length (ch_debug_info chunk) = length (ch_code chunk)"

lemma chunk_init_wf: "chunk_wf chunk_init"
  by (simp add: chunk_wf_def chunk_init_def)

lemma chunk_emit_spec:
  assumes "chunk_wf chunk" and "chunk_emit chunk byte line = (pc, chunk')"
  shows "chunk_wf chunk' \<and> pc = ch_code_count chunk \<and> ch_code chunk' = ch_code chunk @ [byte] \<and>
    chunk_get chunk' pc = byte \<and> (\<forall>i < pc. chunk_get chunk' i = chunk_get chunk i) \<and>
    ch_debug_info chunk' = ch_debug_info chunk @ [\<lparr>di_index = pc, di_line = line\<rparr>]"
  using assms
  by (auto simp: chunk_emit_def chunk_wf_def chunk_set_debug_info_def chunk_get_def Let_def nth_append list_update_append split: if_splits)

lemma constant_pool_add_spec:
  assumes "constant_pool_add pool c = (i, pool')"
  shows "i = int (length (cp_constants pool)) \<and> cp_constants pool' = cp_constants pool @ [constant_dup c]"
  using assms by (auto simp: constant_pool_add_def Let_def split: if_splits)

lemma op_code_names_length: "length op_code_names = 233"
  by (simp add: op_code_names_def)

end
