(* ===== verification/VM_Arith.thy ===== *)
theory VM_Arith
  imports Obj_Array Bigint_Text Bytecode
begin

text \<open>
  The generic arithmetic and comparison operations of the virtual machine (\<^verbatim>\<open>vm_compute_arithmetic_op\<close>,
  \<^verbatim>\<open>vm_compute_comparison_op\<close>) and the equality tests of its branch instructions, in \<^verbatim>\<open>src/src/vm.c\<close>.
  Arithmetic on doubles is the platform's and a parameter.  A result that C leaves undefined is the
  error \<open>UNDEFINED\<close>.
\<close>

section \<open>The model\<close>

text \<open>A failure is a runtime error with its message, a result that C leaves undefined, or a search that never ends.\<close>

datatype vm_error = Error string | UNDEFINED | DIVERGES

definition ERR_MIX_BIGINT_DOUBLE :: vm_error where "ERR_MIX_BIGINT_DOUBLE = Error ''Cannot mix bigint and double''"
definition ERR_NUMBERS_OR_STRINGS :: vm_error where "ERR_NUMBERS_OR_STRINGS = Error ''Operands must be numbers or strings''"
definition ERR_NUMBERS :: vm_error where "ERR_NUMBERS = Error ''Operands must be numbers''"
definition ERR_COMPARABLE :: vm_error where "ERR_COMPARABLE = Error ''Operands must be comparable''"
definition ERR_STRING_LENGTH :: vm_error where "ERR_STRING_LENGTH = Error ''String length exceeds maximum allowed''"
definition ERR_DIVISION_BY_ZERO :: vm_error where "ERR_DIVISION_BY_ZERO = Error ''Division by zero''"
definition ERR_UNSUPPORTED_ARITHMETIC :: vm_error where "ERR_UNSUPPORTED_ARITHMETIC = Error ''Unsupported arithmetic opcode''"
definition ERR_UNSUPPORTED_COMPARISON :: vm_error where "ERR_UNSUPPORTED_COMPARISON = Error ''Unsupported comparison opcode''"

record double_ops =
  d_add :: "u64 \<Rightarrow> u64 \<Rightarrow> u64"
  d_sub :: "u64 \<Rightarrow> u64 \<Rightarrow> u64"
  d_mul :: "u64 \<Rightarrow> u64 \<Rightarrow> u64"
  d_div :: "u64 \<Rightarrow> u64 \<Rightarrow> u64"
  d_sqrt :: "u64 \<Rightarrow> u64"
  d_of_int :: "u64 \<Rightarrow> u64"

text \<open>An instance, for evaluation at concrete inputs that use no double.\<close>

definition double_ops_none :: double_ops where
  "double_ops_none = \<lparr>d_add = \<lambda>x y. x, d_sub = \<lambda>x y. x, d_mul = \<lambda>x y. x, d_div = \<lambda>x y. x, d_sqrt = \<lambda>x. x, d_of_int = \<lambda>x. x\<rparr>"

text \<open>Signed 64-bit arithmetic: undefined on overflow.\<close>

definition int64_result :: "int \<Rightarrow> vm_error + Value" where
  "int64_result i =
     (if - 9223372036854775808 \<le> i \<and> i \<le> 9223372036854775807 then Inr (VAL_INT (word_of_int i)) else Inl UNDEFINED)"

definition bigint_from_value :: "Value \<Rightarrow> ObjBigInt option" where
  "bigint_from_value val =
     (case val of VAL_BIGINT b \<Rightarrow> b | VAL_INT i \<Rightarrow> Some (obj_bigint_from_int64 i) | _ \<Rightarrow> None)"

fun is_bigint :: "Value \<Rightarrow> bool" where
  "is_bigint (VAL_BIGINT b) = True"
| "is_bigint v = False"

fun is_double :: "Value \<Rightarrow> bool" where
  "is_double (VAL_DOUBLE d) = True"
| "is_double v = False"

text \<open>The big integer branch, shared by the four operations up to the operation and the message.\<close>

definition arith_bigint :: "vm_error \<Rightarrow> (ObjBigInt \<Rightarrow> ObjBigInt \<Rightarrow> vm_error + Value) \<Rightarrow> Value \<Rightarrow> Value \<Rightarrow> vm_error + Value" where
  "arith_bigint err f a b =
     (case (bigint_from_value a, bigint_from_value b) of
        (Some big_a, Some big_b) \<Rightarrow> f big_a big_b
      | _ \<Rightarrow> Inl err)"

definition vm_compute_arithmetic_op :: "double_ops \<Rightarrow> int \<Rightarrow> u8 \<Rightarrow> Value \<Rightarrow> Value \<Rightarrow> vm_error + Value" where
  "vm_compute_arithmetic_op dops max_string_length op a b =
     (if op = OP_ADD then
         (if (is_bigint a \<or> is_bigint b) \<and> (is_double a \<or> is_double b) then Inl ERR_MIX_BIGINT_DOUBLE
          else if is_bigint a \<or> is_bigint b
          then arith_bigint ERR_NUMBERS_OR_STRINGS (\<lambda>x y. Inr (VAL_BIGINT (Some (obj_bigint_add (Some x) (Some y))))) a b
          else (case (a, b) of
                  (VAL_INT i, VAL_INT j) \<Rightarrow> int64_result (sint i + sint j)
                | (VAL_DOUBLE x, VAL_DOUBLE y) \<Rightarrow> Inr (VAL_DOUBLE (d_add dops x y))
                | (VAL_STRING (Some s), VAL_STRING (Some t)) \<Rightarrow>
                    let len = int (length (os_chars s)) + int (length (os_chars t))
                    in if len > INT_MAX then Inl UNDEFINED
                       else if len > max_string_length then Inl ERR_STRING_LENGTH
                       else Inr (VAL_STRING (Some (obj_string_create (cstr (os_chars s @ os_chars t)))))
                | (VAL_STRING s, VAL_STRING t) \<Rightarrow> Inl UNDEFINED
                | _ \<Rightarrow> Inl ERR_NUMBERS_OR_STRINGS))
      else if op = OP_SUB then
         (if (is_bigint a \<or> is_bigint b) \<and> (is_double a \<or> is_double b) then Inl ERR_MIX_BIGINT_DOUBLE
          else if is_bigint a \<or> is_bigint b
          then arith_bigint ERR_NUMBERS (\<lambda>x y. Inr (VAL_BIGINT (Some (obj_bigint_sub (Some x) (Some y))))) a b
          else (case (a, b) of
                  (VAL_INT i, VAL_INT j) \<Rightarrow> int64_result (sint i - sint j)
                | (VAL_DOUBLE x, VAL_DOUBLE y) \<Rightarrow> Inr (VAL_DOUBLE (d_sub dops x y))
                | _ \<Rightarrow> Inl ERR_NUMBERS))
      else if op = OP_MUL then
         (if (is_bigint a \<or> is_bigint b) \<and> (is_double a \<or> is_double b) then Inl ERR_MIX_BIGINT_DOUBLE
          else if is_bigint a \<or> is_bigint b
          then arith_bigint ERR_NUMBERS (\<lambda>x y. Inr (VAL_BIGINT (Some (obj_bigint_mul (Some x) (Some y))))) a b
          else (case (a, b) of
                  (VAL_INT i, VAL_INT j) \<Rightarrow> int64_result (sint i * sint j)
                | (VAL_DOUBLE x, VAL_DOUBLE y) \<Rightarrow> Inr (VAL_DOUBLE (d_mul dops x y))
                | _ \<Rightarrow> Inl ERR_NUMBERS))
      else if op = OP_DIV then
         (if (is_bigint a \<or> is_bigint b) \<and> (is_double a \<or> is_double b) then Inl ERR_MIX_BIGINT_DOUBLE
          else if is_bigint a \<or> is_bigint b
          then arith_bigint ERR_NUMBERS
                 (\<lambda>x y. case obj_bigint_div (Some x) (Some y) False of
                          (quot, div_by_zero) \<Rightarrow>
                            if div_by_zero then Inl ERR_DIVISION_BY_ZERO else Inr (VAL_BIGINT (Some quot))) a b
          else (case (a, b) of
                  (VAL_INT i, VAL_INT j) \<Rightarrow> if j = 0 then Inl ERR_DIVISION_BY_ZERO else int64_result (sint i sdiv sint j)
                | (VAL_DOUBLE x, VAL_DOUBLE y) \<Rightarrow>
                    if double_equals y 0 then Inl ERR_DIVISION_BY_ZERO else Inr (VAL_DOUBLE (d_div dops x y))
                | _ \<Rightarrow> Inl ERR_NUMBERS))
      else Inl ERR_UNSUPPORTED_ARITHMETIC)"

text \<open>
  The order of doubles on their bit patterns: not-a-number is unordered; otherwise the pattern without
  its sign bit is the magnitude.
\<close>

definition double_rank :: "u64 \<Rightarrow> int" where
  "double_rank b = (if bit b 63 then - uint (b AND 0x7FFFFFFFFFFFFFFF) else uint b)"

definition double_less :: "u64 \<Rightarrow> u64 \<Rightarrow> bool" where
  "double_less x y \<longleftrightarrow> \<not> double_is_nan x \<and> \<not> double_is_nan y \<and> double_rank x < double_rank y"

definition double_less_eq :: "u64 \<Rightarrow> u64 \<Rightarrow> bool" where
  "double_less_eq x y \<longleftrightarrow> \<not> double_is_nan x \<and> \<not> double_is_nan y \<and> double_rank x \<le> double_rank y"

text \<open>The \<open>switch\<close> on the opcode of each branch, on an order.\<close>

definition compare_switch :: "u8 \<Rightarrow> bool \<Rightarrow> bool \<Rightarrow> bool \<Rightarrow> bool \<Rightarrow> vm_error + Value" where
  "compare_switch op lt le gt ge =
     (if op = OP_LT then Inr (VAL_BOOL lt)
      else if op = OP_LE then Inr (VAL_BOOL le)
      else if op = OP_GT then Inr (VAL_BOOL gt)
      else if op = OP_GE then Inr (VAL_BOOL ge)
      else Inl ERR_UNSUPPORTED_COMPARISON)"

definition vm_compute_comparison_op :: "u8 \<Rightarrow> Value \<Rightarrow> Value \<Rightarrow> vm_error + Value" where
  "vm_compute_comparison_op op a b =
     (if (is_bigint a \<or> is_bigint b) \<and> (is_double a \<or> is_double b) then Inl ERR_MIX_BIGINT_DOUBLE
      else if is_bigint a \<or> is_bigint b
      then arith_bigint ERR_COMPARABLE
             (\<lambda>x y. let cmp = obj_bigint_compare (Some x) (Some y)
                    in compare_switch op (cmp < 0) (cmp \<le> 0) (cmp > 0) (cmp \<ge> 0)) a b
      else (case (a, b) of
              (VAL_INT i, VAL_INT j) \<Rightarrow> compare_switch op (sint i < sint j) (sint i \<le> sint j) (sint i > sint j) (sint i \<ge> sint j)
            | (VAL_DOUBLE x, VAL_DOUBLE y) \<Rightarrow>
                compare_switch op (double_less x y) (double_less_eq x y) (double_less y x) (double_less_eq y x)
            | _ \<Rightarrow> Inl ERR_COMPARABLE))"

definition vm_value_equals_fast_for_branch :: "Value \<Rightarrow> Value \<Rightarrow> bool option" where
  "vm_value_equals_fast_for_branch a b =
     (case (a, b) of
        (VAL_INT i, VAL_INT j) \<Rightarrow> Some (i = j)
      | (VAL_BOOL p, VAL_BOOL q) \<Rightarrow> Some (p = q)
      | (VAL_DOUBLE x, VAL_DOUBLE y) \<Rightarrow> Some (double_equals x y)
      | (VAL_STRING s, VAL_STRING t) \<Rightarrow>
          Some (case (s, t) of (Some s, Some t) \<Rightarrow> cstr (os_chars s) = cstr (os_chars t) | _ \<Rightarrow> False)
      | _ \<Rightarrow> value_equals a b)"

definition vm_value_equals_constant_fast_for_branch :: "Value \<Rightarrow> Constant \<Rightarrow> bool" where
  "vm_value_equals_constant_fast_for_branch a c =
     (case (a, c) of
        (VAL_INT i, CONST_INT j) \<Rightarrow> i = j
      | (VAL_BOOL p, CONST_BOOL n) \<Rightarrow> p = (n \<noteq> 0)
      | (VAL_DOUBLE x, CONST_DOUBLE y) \<Rightarrow> double_equals x y
      | (VAL_STRING (Some s), CONST_STRING (Some t)) \<Rightarrow> cstr (os_chars s) = cstr t
      | _ \<Rightarrow> False)"

section \<open>Properties\<close>

text \<open>The integer that a number value stands for.\<close>

definition number_value :: "Value \<Rightarrow> int option" where
  "number_value v =
     (case v of
        VAL_INT i \<Rightarrow> Some (sint i)
      | VAL_BIGINT (Some b) \<Rightarrow> if bigint_wf b then Some (bigint_value b) else None
      | _ \<Rightarrow> None)"

text \<open>The result is a big integer as soon as an operand is.\<close>

definition number_result :: "Value \<Rightarrow> Value \<Rightarrow> vm_error + Value \<Rightarrow> int \<Rightarrow> bool" where
  "number_result a b r i \<longleftrightarrow>
     (if is_bigint a \<or> is_bigint b
      then \<exists>x. r = Inr (VAL_BIGINT (Some x)) \<and> bigint_fresh x \<and> bigint_value x = i
      else if - 9223372036854775808 \<le> i \<and> i \<le> 9223372036854775807
      then \<exists>w. r = Inr (VAL_INT w) \<and> sint w = i
      else r = Inl UNDEFINED)"

lemma number_bigint:
  assumes "number_value v = Some i"
  shows "\<exists>b. bigint_from_value v = Some b \<and> bigint_wf b \<and> bigint_value b = i"
  using assms
  by (auto simp: number_value_def bigint_from_value_def bigint_ops bigint_freshD split: Value.splits option.splits if_splits)

lemma number_not_double: "number_value v = Some i \<Longrightarrow> \<not> is_double v"
  by (cases v) (auto simp: number_value_def)

lemma int64_result_ok: "- 9223372036854775808 \<le> i \<Longrightarrow> i \<le> 9223372036854775807 \<Longrightarrow>
    \<exists>w. int64_result i = Inr (VAL_INT w) \<and> sint w = i"
  using sint_word_of_int_u64 [of i] by (simp add: int64_result_def)

lemma number_ints:
  assumes "number_value a = Some i" and "number_value b = Some j" and "\<not> (is_bigint a \<or> is_bigint b)"
  shows "\<exists>v w. a = VAL_INT v \<and> b = VAL_INT w \<and> sint v = i \<and> sint w = j"
  using assms by (cases a; cases b) (auto simp: number_value_def)

lemma arith_bigint_ok:
  assumes "number_value a = Some i" and "number_value b = Some j"
  shows "\<exists>x y. bigint_wf x \<and> bigint_value x = i \<and> bigint_wf y \<and> bigint_value y = j \<and>
    bigint_from_value a = Some x \<and> bigint_from_value b = Some y \<and> arith_bigint err f a b = f x y"
  using number_bigint [OF assms(1)] number_bigint [OF assms(2)] by (auto simp: arith_bigint_def)

lemma number_result_int:
  assumes "\<not> (is_bigint a \<or> is_bigint b)" shows "number_result a b (int64_result i) i"
  using assms int64_result_ok [of i] by (auto simp: number_result_def int64_result_def)

lemma arith_number:
  assumes a: "number_value a = Some i" and b: "number_value b = Some j"
  shows "number_result a b (vm_compute_arithmetic_op dops m OP_ADD a b) (i + j)"
    "number_result a b (vm_compute_arithmetic_op dops m OP_SUB a b) (i - j)"
    "number_result a b (vm_compute_arithmetic_op dops m OP_MUL a b) (i * j)"
proof -
  note nd = number_not_double [OF a] number_not_double [OF b]
  show "number_result a b (vm_compute_arithmetic_op dops m OP_ADD a b) (i + j)"
    "number_result a b (vm_compute_arithmetic_op dops m OP_SUB a b) (i - j)"
    "number_result a b (vm_compute_arithmetic_op dops m OP_MUL a b) (i * j)"
  proof (atomize (full), cases "is_bigint a \<or> is_bigint b", goal_cases)
    case 1
    then show ?case
      using arith_bigint_ok [OF a b, of ERR_NUMBERS_OR_STRINGS "\<lambda>x y. Inr (VAL_BIGINT (Some (obj_bigint_add (Some x) (Some y))))"]
        arith_bigint_ok [OF a b, of ERR_NUMBERS "\<lambda>x y. Inr (VAL_BIGINT (Some (obj_bigint_sub (Some x) (Some y))))"]
        arith_bigint_ok [OF a b, of ERR_NUMBERS "\<lambda>x y. Inr (VAL_BIGINT (Some (obj_bigint_mul (Some x) (Some y))))"] nd
      by (auto simp: vm_compute_arithmetic_op_def number_result_def bigint_ops)
  next
    case 2
    with number_ints [OF a b] obtain v w where "a = VAL_INT v" "b = VAL_INT w" "sint v = i" "sint w = j" by blast
    then show ?case by (auto simp: vm_compute_arithmetic_op_def intro!: number_result_int)
  qed
qed

lemma arith_number_div:
  assumes a: "number_value a = Some i" and b: "number_value b = Some j" and j: "j \<noteq> 0"
    and ex: "bigint_div_exact (the (bigint_from_value a)) (the (bigint_from_value b))"
  shows "number_result a b (vm_compute_arithmetic_op dops m OP_DIV a b) (i sdiv j)"
proof (cases "is_bigint a \<or> is_bigint b")
  case True
  let ?f = "\<lambda>x y. case obj_bigint_div (Some x) (Some y) False of (quot, div_by_zero) \<Rightarrow>
        if div_by_zero then Inl ERR_DIVISION_BY_ZERO else Inr (VAL_BIGINT (Some quot))"
  obtain x y where xy: "bigint_wf x" "bigint_value x = i" "bigint_wf y" "bigint_value y = j"
      "bigint_from_value a = Some x" "bigint_from_value b = Some y" "arith_bigint ERR_NUMBERS ?f a b = ?f x y"
    using arith_bigint_ok [OF a b, of ERR_NUMBERS ?f] by blast
  have "bi_sign y \<noteq> 0" using xy(4) j by (auto simp: bigint_value_def)
  then have d: "bigint_value (fst (obj_bigint_div (Some x) (Some y) False)) = i sdiv j \<and>
      \<not> snd (obj_bigint_div (Some x) (Some y) False) \<and> bigint_fresh (fst (obj_bigint_div (Some x) (Some y) False))"
    using obj_bigint_div_value [of x y False] ex xy by (metis fst_conv option.sel snd_conv)
  have "vm_compute_arithmetic_op dops m OP_DIV a b = ?f x y"
    using True number_not_double [OF a] number_not_double [OF b] xy(7) by (simp add: vm_compute_arithmetic_op_def)
  then show ?thesis using d True by (cases "obj_bigint_div (Some x) (Some y) False") (auto simp: number_result_def)
next
  case False
  with number_ints [OF a b] obtain v w where vw: "a = VAL_INT v" "b = VAL_INT w" "sint v = i" "sint w = j" by blast
  with j have "w \<noteq> 0" by auto
  with vw False show ?thesis by (auto simp: vm_compute_arithmetic_op_def intro!: number_result_int)
qed

lemma arith_number_div_zero:
  assumes a: "number_value a = Some i" and b: "number_value b = Some 0"
  shows "vm_compute_arithmetic_op dops m OP_DIV a b = Inl ERR_DIVISION_BY_ZERO"
proof (cases "is_bigint a \<or> is_bigint b")
  case True
  let ?f = "\<lambda>x y. case obj_bigint_div (Some x) (Some y) False of (quot, div_by_zero) \<Rightarrow>
        if div_by_zero then Inl ERR_DIVISION_BY_ZERO else Inr (VAL_BIGINT (Some quot))"
  obtain x y where xy: "bigint_wf y" "bigint_value y = 0" "arith_bigint ERR_NUMBERS ?f a b = ?f x y"
    using arith_bigint_ok [OF a b, of ERR_NUMBERS ?f] by blast
  then have "bi_sign y = 0" by (auto simp: bigint_value_def bigint_wf_def lval_0_iff)
  then have "snd (obj_bigint_div (Some x) (Some y) False)" by (simp add: obj_bigint_div_def)
  then show ?thesis
    using True number_not_double [OF a] number_not_double [OF b] xy(3)
    by (simp add: vm_compute_arithmetic_op_def split: prod.splits)
next
  case False
  then obtain v w where vw: "a = VAL_INT v" "b = VAL_INT w" "sint v = i" "sint w = 0" using number_ints [OF a b] by blast
  then have "w = 0" using signed_word_eqI [of w 0] by simp
  with vw False show ?thesis by (simp add: vm_compute_arithmetic_op_def)
qed

lemma double_magnitude: "(b :: u64) AND 0x7FFFFFFFFFFFFFFF = take_bit 63 b"
  by (simp add: take_bit_eq_mask mask_eq_exp_minus_1)

lemma double_pattern_eq: "(x :: u64) = y \<longleftrightarrow> take_bit 63 x = take_bit 63 y \<and> bit x 63 = bit y 63"
proof
  assume r: "take_bit 63 x = take_bit 63 y \<and> bit x 63 = bit y 63"
  show "x = y"
  proof (rule bit_word_eqI)
    fix n :: nat assume "n < LENGTH(64)"
    then consider "n < 63" | "n = 63" by fastforce
    then show "bit x n = bit y n"
      by cases (use r bit_take_bit_iff [of 63 x n] bit_take_bit_iff [of 63 y n] in auto)
  qed
qed simp

lemma double_positive: "\<not> bit b 63 \<Longrightarrow> take_bit 63 (b :: u64) = b"
  by (simp add: double_pattern_eq bit_take_bit_iff)

lemma signed_magnitude_eq: "0 \<le> (p :: int) \<Longrightarrow> 0 \<le> q \<Longrightarrow>
    (if s then - p else p) = (if t then - q else q) \<longleftrightarrow> p = q \<and> s = t \<or> p = 0 \<and> q = 0"
  by auto

lemma double_rank_eq: "double_rank x = double_rank y \<longleftrightarrow>
    x = y \<or> x AND 0x7FFFFFFFFFFFFFFF = 0 \<and> y AND 0x7FFFFFFFFFFFFFFF = 0"
proof -
  have r: "double_rank b = (if bit b 63 then - uint (take_bit 63 b) else uint (take_bit 63 b))" for b
    by (simp add: double_rank_def double_magnitude double_positive)
  have e: "x = y \<longleftrightarrow> uint (take_bit 63 x) = uint (take_bit 63 y) \<and> bit x 63 = bit y 63"
    using double_pattern_eq [of x y] by (simp add: word_uint_eq_iff)
  have z: "take_bit 63 b = 0 \<longleftrightarrow> uint (take_bit 63 b) = 0" for b :: u64 by (simp add: word_uint_eq_iff)
  show ?thesis unfolding double_magnitude e r z by (rule signed_magnitude_eq) simp_all
qed

subsection \<open>Claims\<close>



text \<open>The tag of a value; the tag of the result of an arithmetic instruction.\<close>

datatype number_type = T_INT | T_BIGINT | T_DOUBLE | T_STRING | T_OTHER

definition value_type :: "Value \<Rightarrow> number_type" where
  "value_type v = (case v of VAL_INT i \<Rightarrow> T_INT | VAL_BIGINT b \<Rightarrow> T_BIGINT | VAL_DOUBLE d \<Rightarrow> T_DOUBLE
     | VAL_STRING s \<Rightarrow> T_STRING | _ \<Rightarrow> T_OTHER)"

definition arith_type :: "u8 \<Rightarrow> number_type \<Rightarrow> number_type \<Rightarrow> number_type option" where
  "arith_type op t u =
     (if op \<notin> {OP_ADD, OP_SUB, OP_MUL, OP_DIV} then None
      else if t \<in> {T_INT, T_BIGINT} \<and> u \<in> {T_INT, T_BIGINT} then Some (if t = T_INT \<and> u = T_INT then T_INT else T_BIGINT)
      else if t = T_DOUBLE \<and> u = T_DOUBLE then Some T_DOUBLE
      else if t = T_STRING \<and> u = T_STRING \<and> op = OP_ADD then Some T_STRING
      else None)"

text \<open>The payload pointer of a boxed value is set.\<close>

definition payload_ok :: "Value \<Rightarrow> bool" where
  "payload_ok v \<longleftrightarrow> v \<noteq> VAL_BIGINT None \<and> v \<noteq> VAL_STRING None"

lemma value_type_cases:
  obtains (int) i where "v = VAL_INT i" "value_type v = T_INT" "\<not> is_bigint v" "\<not> is_double v"
  | (big) b where "v = VAL_BIGINT b" "value_type v = T_BIGINT" "is_bigint v" "\<not> is_double v"
  | (dbl) d where "v = VAL_DOUBLE d" "value_type v = T_DOUBLE" "\<not> is_bigint v" "is_double v"
  | (str) s where "v = VAL_STRING s" "value_type v = T_STRING" "\<not> is_bigint v" "\<not> is_double v"
  | (other) "value_type v = T_OTHER" "\<not> is_bigint v" "\<not> is_double v" "bigint_from_value v = None"
  by (cases v) (auto simp: value_type_def bigint_from_value_def)

definition arith_type_error :: "u8 \<Rightarrow> number_type \<Rightarrow> number_type \<Rightarrow> vm_error" where
  "arith_type_error op t u =
     (if op \<notin> {OP_ADD, OP_SUB, OP_MUL, OP_DIV} then ERR_UNSUPPORTED_ARITHMETIC
      else if {t, u} = {T_BIGINT, T_DOUBLE} then ERR_MIX_BIGINT_DOUBLE
      else if op = OP_ADD then ERR_NUMBERS_OR_STRINGS else ERR_NUMBERS)"

lemma is_bigint_type: "is_bigint v \<longleftrightarrow> value_type v = T_BIGINT"
  by (cases v) (simp_all add: value_type_def)

lemma is_double_type: "is_double v \<longleftrightarrow> value_type v = T_DOUBLE"
  by (cases v) (simp_all add: value_type_def)

lemma value_type_other:
  assumes "value_type v = T_OTHER"
  shows "bigint_from_value v = None"
    and "(case v of VAL_INT i \<Rightarrow> f1 i | VAL_DOUBLE d \<Rightarrow> f2 d | _ \<Rightarrow> z) = z"
    and "(case v of VAL_INT i \<Rightarrow> f1 i | _ \<Rightarrow> z) = z" and "(case v of VAL_DOUBLE d \<Rightarrow> f2 d | _ \<Rightarrow> z) = z"
    and "(case v of VAL_INT i \<Rightarrow> f1 i | VAL_DOUBLE d \<Rightarrow> f2 d | VAL_STRING s \<Rightarrow> f3 s | _ \<Rightarrow> z) = z"
    and "(case v of VAL_STRING s \<Rightarrow> f3 s | _ \<Rightarrow> z) = z"
  using assms by (cases v; simp add: value_type_def bigint_from_value_def)+

lemma arith_bigint_other: "value_type a = T_OTHER \<or> value_type b = T_OTHER \<Longrightarrow> arith_bigint e f a b = Inl e"
  using value_type_other(1) by (auto simp: arith_bigint_def split: option.split)

lemma arith_other:
  assumes "value_type a = T_OTHER \<or> value_type b = T_OTHER" and "op \<in> {OP_ADD, OP_SUB, OP_MUL, OP_DIV}"
  shows "vm_compute_arithmetic_op dops m op a b = Inl (arith_type_error op (value_type a) (value_type b))"
proof -
  note arith = vm_compute_arithmetic_op_def arith_bigint_other value_type_other is_bigint_type is_double_type arith_type_error_def doubleton_eq_iff
  show ?thesis
  proof (cases "value_type a = T_OTHER")
    case True
    then show ?thesis using assms(2) by (auto simp: arith)
  next
    case False
    then have "value_type b = T_OTHER" using assms(1) by simp
    then show ?thesis using assms(2) False
      by (cases a rule: value_type_cases) (auto simp: arith split: option.split)
  qed
qed

lemmas arith_cases = vm_compute_arithmetic_op_def arith_type_def arith_type_error_def arith_bigint_def bigint_from_value_def
  value_type_def payload_ok_def int64_result_def Let_def doubleton_eq_iff

text \<open>
  Claim C38.  An arithmetic instruction yields a value only on two ints, two numbers of which one is a
  big integer, two doubles, or (addition) two strings, and the tag of the result is determined by the
  operation and the tags of the operands.  When the tags are not such a pair the instruction fails with
  the message of the operation; when they are, only a zero divisor, the length limit of strings and
  undefined behaviour remain.
\<close>

theorem vm_arithmetic_type:
  "case vm_compute_arithmetic_op dops m op a b of
     Inr v \<Rightarrow> arith_type op (value_type a) (value_type b) = Some (value_type v) \<and> payload_ok v
   | Inl e \<Rightarrow>
       (case arith_type op (value_type a) (value_type b) of
          None \<Rightarrow> e = arith_type_error op (value_type a) (value_type b)
        | Some t \<Rightarrow> \<not> payload_ok a \<or> \<not> payload_ok b \<or> e \<in> {ERR_DIVISION_BY_ZERO, ERR_STRING_LENGTH, UNDEFINED})"
proof (cases "op \<in> {OP_ADD, OP_SUB, OP_MUL, OP_DIV}")
  case False
  then show ?thesis by (simp add: vm_compute_arithmetic_op_def arith_type_def arith_type_error_def)
next
  case True
  show ?thesis
  proof (cases "value_type a = T_OTHER \<or> value_type b = T_OTHER")
    case other: True
    then have "vm_compute_arithmetic_op dops m op a b = Inl (arith_type_error op (value_type a) (value_type b))"
      using arith_other True by blast
    moreover have "arith_type op (value_type a) (value_type b) = None" using other by (auto simp: arith_type_def)
    ultimately show ?thesis by simp
  next
    case False
    from True have "op = OP_ADD \<or> op = OP_SUB \<or> op = OP_MUL \<or> op = OP_DIV" by simp
    with False show ?thesis
      by (elim disjE; cases a rule: value_type_cases; cases b rule: value_type_cases)
        (simp_all add: arith_cases split: option.split prod.split)
  qed
qed

theorem vm_arithmetic_type_witness:
  "vm_compute_arithmetic_op double_ops_none 16777216 OP_SUB
     (VAL_INT 7) (VAL_INT 0) = Inr (VAL_INT 7) \<and> arith_type OP_SUB T_INT T_INT = Some T_INT"
  using vm_arithmetic_type [where op = OP_SUB and a = "VAL_INT 7" and b = "VAL_INT 0" and m = 16777216
      and dops = double_ops_none]
  by (simp add: vm_compute_arithmetic_op_def int64_result_def value_type_def arith_type_def)

lemma double_order:
  assumes "\<not> double_is_nan x" and "\<not> double_is_nan y"
  shows "double_less x y \<longleftrightarrow> double_rank x < double_rank y"
    and "double_less_eq x y \<longleftrightarrow> double_rank x \<le> double_rank y"
    and "double_equals x y \<longleftrightarrow> double_rank x = double_rank y"
  using assms double_rank_eq [of x y] by (simp_all add: double_less_def double_less_eq_def double_equals_def)

lemma double_nan:
  assumes "double_is_nan x \<or> double_is_nan y"
  shows "\<not> double_less x y" and "\<not> double_less_eq x y"
  using assms by (auto simp: double_less_def double_less_eq_def)

lemma comparison_number:
  assumes a: "number_value a = Some i" and b: "number_value b = Some j"
  shows "vm_compute_comparison_op op a b = compare_switch op (i < j) (i \<le> j) (i > j) (i \<ge> j)"
proof (cases "is_bigint a \<or> is_bigint b")
  case True
  let ?f = "\<lambda>x y. let cmp = obj_bigint_compare (Some x) (Some y)
                    in compare_switch op (cmp < 0) (cmp \<le> 0) (cmp > 0) (cmp \<ge> 0)"
  obtain x y where xy: "bigint_wf x" "bigint_value x = i" "bigint_wf y" "bigint_value y = j"
      "arith_bigint ERR_COMPARABLE ?f a b = ?f x y"
    using arith_bigint_ok [OF a b, of ERR_COMPARABLE ?f] by blast
  have "obj_bigint_compare (Some x) (Some y) = sgn (i - j)" using xy by (simp add: bigint_ops)
  then have "?f x y = compare_switch op (i < j) (i \<le> j) (i > j) (i \<ge> j)"
    by (simp add: Let_def sgn_if)
  with True xy(5) number_not_double [OF a] number_not_double [OF b] show ?thesis
    by (simp add: vm_compute_comparison_op_def)
next
  case False
  then obtain v w where "a = VAL_INT v" "b = VAL_INT w" "sint v = i" "sint w = j" using number_ints [OF a b] by blast
  then show ?thesis by (simp add: vm_compute_comparison_op_def)
qed



lemma value_equals_scalars:
  "value_equals (VAL_INT i) (VAL_INT j) = Some (i = j)"
  "value_equals (VAL_BOOL p) (VAL_BOOL q) = Some (p = q)"
  "value_equals (VAL_DOUBLE x) (VAL_DOUBLE y) = Some (double_equals x y)"
  "value_equals (VAL_STRING s) (VAL_STRING t) =
     Some (case (s, t) of (Some s, Some t) \<Rightarrow> cstr (os_chars s) = cstr (os_chars t) | _ \<Rightarrow> False)"
proof -
  have "value_equals a b = value_equals_internal (Suc 64) a b" for a b by (simp add: value_equals_def)
  then show
    "value_equals (VAL_INT i) (VAL_INT j) = Some (i = j)"
    "value_equals (VAL_BOOL p) (VAL_BOOL q) = Some (p = q)"
    "value_equals (VAL_DOUBLE x) (VAL_DOUBLE y) = Some (double_equals x y)"
    "value_equals (VAL_STRING s) (VAL_STRING t) =
       Some (case (s, t) of (Some s, Some t) \<Rightarrow> cstr (os_chars s) = cstr (os_chars t) | _ \<Rightarrow> False)"
    by (simp_all only: value_equals_internal.simps) (simp_all split: option.split)
qed

text \<open>The value that loading a constant yields.\<close>

definition constant_value :: "Constant \<Rightarrow> Value option" where
  "constant_value c =
     (case c of
        CONST_INT i \<Rightarrow> Some (VAL_INT i)
      | CONST_DOUBLE d \<Rightarrow> Some (VAL_DOUBLE d)
      | CONST_STRING s \<Rightarrow> map_option (\<lambda>s. VAL_STRING (Some (obj_string_create (cstr s)))) s
      | CONST_BOOL n \<Rightarrow> Some (VAL_BOOL (n \<noteq> 0))
      | CONST_BIGINT t \<Rightarrow> map_option (\<lambda>t. VAL_BIGINT (Some (obj_bigint_from_string (Some t)))) t
      | CONST_OTHER n \<Rightarrow> Some VAL_NIL)"

lemma cstr_cstr [simp]: "cstr (cstr s) = cstr s"
  by (simp add: cstr_def)

text \<open>A value and a constant of the same type, other than big integers.\<close>

definition constant_matches :: "Value \<Rightarrow> Constant \<Rightarrow> bool" where
  "constant_matches a c \<longleftrightarrow>
     (case (a, c) of
        (VAL_INT i, CONST_INT j) \<Rightarrow> True
      | (VAL_BOOL p, CONST_BOOL n) \<Rightarrow> True
      | (VAL_DOUBLE x, CONST_DOUBLE y) \<Rightarrow> True
      | (VAL_STRING (Some s), CONST_STRING (Some t)) \<Rightarrow> True
      | _ \<Rightarrow> False)"



end
