(* ===== verification/VM_Exec.thy ===== *)
theory VM_Exec
  imports VM_Globals VM_Arith Bigint_Bits
begin

text \<open>
  The interpreter of \<^verbatim>\<open>src/src/vm.c\<close>: the machine state, the stack primitives and the handlers of the
  instructions on constants, locals, globals, numbers and branches, as \<^verbatim>\<open>vm_run_loop\<close> has them.  A handler
  takes the machine after the opcode has been read and yields \<open>Inr\<close> the machine with which the loop
  continues, or \<open>Inl\<close> the machine with which \<^verbatim>\<open>vm_run_loop\<close> returns -1.

  Code is a byte array that the instructions on globals overwrite (inline caching).  The objects behind
  values are not shared here: what happens to their reference counts is the list \<open>vm_events\<close>, in which
  \<^verbatim>\<open>value_retain\<close> and \<^verbatim>\<open>value_free\<close> of ints, bools, doubles and nil, which do nothing, leave no trace.
\<close>

section \<open>Runtime errors\<close>

definition ERR_STACK_OVERFLOW :: vm_error where "ERR_STACK_OVERFLOW = Error ''Stack overflow''"
definition ERR_STACK_UNDERFLOW :: vm_error where "ERR_STACK_UNDERFLOW = Error ''Stack underflow''"
definition ERR_PEEK_OUT_OF_BOUNDS :: vm_error where "ERR_PEEK_OUT_OF_BOUNDS = Error ''Peek out of bounds''"
definition ERR_TRUNCATED :: vm_error where "ERR_TRUNCATED = Error ''Corrupted bytecode: truncated instruction stream''"
definition ERR_CONSTANT_INDEX_OUT_OF_BOUNDS :: vm_error where "ERR_CONSTANT_INDEX_OUT_OF_BOUNDS = Error ''Constant index out of bounds''"
definition ERR_MODULO_BY_ZERO :: vm_error where "ERR_MODULO_BY_ZERO = Error ''Modulo by zero''"
definition ERR_STRING_PAYLOAD :: vm_error where "ERR_STRING_PAYLOAD = Error ''String constant payload missing''"
definition ERR_BIGINT_PAYLOAD :: vm_error where "ERR_BIGINT_PAYLOAD = Error ''BigInt constant payload missing''"
definition ERR_OPERANDS_INTEGER :: vm_error where "ERR_OPERANDS_INTEGER = Error ''Operands must be integer''"
definition ERR_OPERANDS_DOUBLE :: vm_error where "ERR_OPERANDS_DOUBLE = Error ''Operands must be double''"
definition ERR_OPERAND_NUMBER :: vm_error where "ERR_OPERAND_NUMBER = Error ''Operand must be a number''"
definition ERR_NAME_INDEX :: vm_error where "ERR_NAME_INDEX = Error ''Global name constant index out of bounds''"
definition ERR_NAME_STRING :: vm_error where "ERR_NAME_STRING = Error ''Global name constant must be string''"
definition ERR_GLOBAL_SLOT_OUT_OF_BOUNDS :: vm_error where "ERR_GLOBAL_SLOT_OUT_OF_BOUNDS = Error ''Global slot out of bounds''"
definition ERR_INVALID_NAME :: vm_error where "ERR_INVALID_NAME = Error ''Invalid global name constant''"
definition ERR_OPERAND_INTEGER :: vm_error where "ERR_OPERAND_INTEGER = Error ''Operand must be integer''"
definition ERR_ARRAY_INDEX_OUT_OF_BOUNDS :: vm_error where "ERR_ARRAY_INDEX_OUT_OF_BOUNDS = Error ''Array index out of bounds''"
definition ERR_ARRAY_ELEMENT_DOUBLE :: vm_error where "ERR_ARRAY_ELEMENT_DOUBLE = Error ''Array element must be double''"
definition ERR_CANNOT_INDEX_NON_ARRAY :: vm_error where "ERR_CANNOT_INDEX_NON_ARRAY = Error ''Cannot index non-array''"
definition ERR_ARRAY_INDEX_INTEGER :: vm_error where "ERR_ARRAY_INDEX_INTEGER = Error ''Array index must be integer''"
definition ERR_ACCUMULATOR_DOUBLE :: vm_error where "ERR_ACCUMULATOR_DOUBLE = Error ''Accumulator must be double''"
definition ERR_OPERANDS_INTEGERS :: vm_error where "ERR_OPERANDS_INTEGERS = Error ''Operands must be integers''"
definition ERR_OPERAND_DOUBLE :: vm_error where "ERR_OPERAND_DOUBLE = Error ''Operand must be double''"
definition ERR_NOT :: vm_error where "ERR_NOT = Error ''Operand must be bool for logical not''"
definition ERR_LOGICAL :: vm_error where "ERR_LOGICAL = Error ''Operands must be bool for logical operation''"
definition ERR_BIT_NOT :: vm_error where "ERR_BIT_NOT = Error ''Operand must be int/bigint for bitwise not''"
definition ERR_BITWISE :: vm_error where "ERR_BITWISE = Error ''Operands must be int/bigint for bitwise operation''"
definition ERR_SAME_NUMERIC :: vm_error where "ERR_SAME_NUMERIC = Error ''Operands must be same numeric type''"
definition ERR_CONDITION_BOOL :: vm_error where "ERR_CONDITION_BOOL = Error ''Condition must be bool''"
definition ERR_ARRAY_ELEMENT_INTEGER :: vm_error where "ERR_ARRAY_ELEMENT_INTEGER = Error ''Array element must be integer''"
definition ERR_ACCUMULATOR_INTEGER :: vm_error where "ERR_ACCUMULATOR_INTEGER = Error ''Accumulator must be integer''"
definition ERR_INVALID_BYTES_BUFFER :: vm_error where "ERR_INVALID_BYTES_BUFFER = Error ''Invalid bytes buffer''"
definition ERR_BYTES_RANGE :: vm_error where "ERR_BYTES_RANGE = Error ''Bytes values must be int in range 0..255''"
definition ERR_ARRAY_INDEX_OUT_OF_RANGE :: vm_error where "ERR_ARRAY_INDEX_OUT_OF_RANGE = Error ''Array index out of range''"
definition ERR_COPY_ARRAYS :: vm_error where "ERR_COPY_ARRAYS = Error ''copyInto expects two arrays''"
definition ERR_COPY_LENGTH :: vm_error where "ERR_COPY_LENGTH = Error ''copyInto expects arrays of equal length''"
definition ERR_PUSH_NON_ARRAY :: vm_error where "ERR_PUSH_NON_ARRAY = Error ''Cannot push to non-array''"
definition ERR_POP_NON_ARRAY :: vm_error where "ERR_POP_NON_ARRAY = Error ''Cannot pop from non-array''"
definition ERR_EXECUTION_LIMIT_EXCEEDED :: vm_error where "ERR_EXECUTION_LIMIT_EXCEEDED = Error ''Execution limit exceeded''"

section \<open>The machine\<close>

record ObjFunction =
  fn_param_count :: int
  fn_local_count :: int
  fn_code :: "u8 list"
  fn_constants :: "Constant list"
  fn_global_slot_cache :: "int list option"

text \<open>
  The machine with the local variable \<open>frame\<close> of the loop (\<open>vm_function\<close>, \<open>vm_ip\<close>, \<open>vm_slots_start\<close>) and the
  platform's arithmetic of doubles.  Arrays and byte slices are objects in a store; \<open>vm_next_array\<close> is the address of the next
  array.  \<open>vm_bigint_unshared\<close> tells for a global slot whether the count of the big
  integer in it is one.
\<close>

record vm =
  vm_stack :: "Value list"
  vm_globs :: vm_globals
  vm_string_pool :: HashTable
  vm_functions :: "addr \<Rightarrow> ObjFunction"
  vm_arrays :: "addr \<Rightarrow> ObjArray"
  vm_next_array :: addr
  vm_bytes :: "addr \<Rightarrow> ObjBytes"
  vm_byte_store :: bytes_store
  vm_error :: "vm_error option"
  vm_events :: "obj_event list"
  vm_max_stack_size :: int
  vm_max_string_length :: int
  vm_max_instructions :: int
  vm_instruction_count :: int
  vm_function :: addr
  vm_ip :: int
  vm_slots_start :: int
  vm_doubles :: double_ops
  vm_bigint_unshared :: "u8 \<Rightarrow> bool"

definition vm_func :: "vm \<Rightarrow> ObjFunction" where
  "vm_func vm = vm_functions vm (vm_function vm)"

definition vm_code :: "vm \<Rightarrow> u8 list" where
  "vm_code vm = fn_code (vm_func vm)"

definition vm_constants :: "vm \<Rightarrow> Constant list" where
  "vm_constants vm = fn_constants (vm_func vm)"

text \<open>An assignment through \<open>frame.function\<close>.\<close>

definition vm_update_func :: "(ObjFunction \<Rightarrow> ObjFunction) \<Rightarrow> vm \<Rightarrow> vm" where
  "vm_update_func f vm = vm\<lparr>vm_functions := (vm_functions vm)(vm_function vm := f (vm_func vm))\<rparr>"

definition vm_runtime_error :: "vm \<Rightarrow> vm_error \<Rightarrow> vm" where
  "vm_runtime_error vm message = vm\<lparr>vm_error := Some message\<rparr>"

text \<open>\<open>return -1\<close> after reporting an error.\<close>

abbreviation vm_fail :: "vm \<Rightarrow> vm_error \<Rightarrow> vm + vm" where
  "vm_fail vm message \<equiv> Inl (vm_runtime_error vm message)"

fun value_type_is_unmanaged :: "Value \<Rightarrow> bool" where
  "value_type_is_unmanaged (VAL_INT i) = True"
| "value_type_is_unmanaged (VAL_BOOL b) = True"
| "value_type_is_unmanaged (VAL_DOUBLE d) = True"
| "value_type_is_unmanaged VAL_NIL = True"
| "value_type_is_unmanaged v = False"

definition vm_retain :: "Value \<Rightarrow> vm \<Rightarrow> vm" where
  "vm_retain v vm = (if value_type_is_unmanaged v then vm else vm\<lparr>vm_events := vm_events vm @ [Retain v]\<rparr>)"

definition vm_release :: "Value \<Rightarrow> vm \<Rightarrow> vm" where
  "vm_release v vm = (if value_type_is_unmanaged v then vm else vm\<lparr>vm_events := vm_events vm @ [Release v]\<rparr>)"

definition vm_log :: "obj_event list \<Rightarrow> vm \<Rightarrow> vm" where
  "vm_log ev vm = vm\<lparr>vm_events := vm_events vm @ ev\<rparr>"

section \<open>The stack\<close>

definition vm_stack_count :: "vm \<Rightarrow> int" where
  "vm_stack_count vm = int (length (vm_stack vm))"

definition push :: "vm \<Rightarrow> Value \<Rightarrow> vm" where
  "push vm val =
     (if vm_stack_count vm \<ge> vm_max_stack_size vm then vm_runtime_error vm ERR_STACK_OVERFLOW
      else if vm_stack_count vm + 1 > vm_max_stack_size vm then vm_runtime_error vm ERR_STACK_OVERFLOW
      else if vm_error vm \<noteq> None then vm
      else vm\<lparr>vm_stack := vm_stack vm @ [val]\<rparr>)"

definition pop :: "vm \<Rightarrow> Value \<times> vm" where
  "pop vm =
     (if vm_stack_count vm \<le> 0 then (VAL_NIL, vm_runtime_error vm ERR_STACK_UNDERFLOW)
      else (last (vm_stack vm), vm\<lparr>vm_stack := butlast (vm_stack vm)\<rparr>))"

definition peek :: "vm \<Rightarrow> int \<Rightarrow> Value \<times> vm" where
  "peek vm offset =
     (let idx = vm_stack_count vm - 1 - offset
      in if idx < 0 \<or> idx \<ge> vm_stack_count vm then (VAL_NIL, vm_runtime_error vm ERR_PEEK_OUT_OF_BOUNDS)
         else (vm_stack vm ! nat idx, vm))"

text \<open>\<open>vm->stack.count -= n\<close>, and a store to the topmost element.\<close>

definition vm_drop :: "nat \<Rightarrow> vm \<Rightarrow> vm" where
  "vm_drop n vm = vm\<lparr>vm_stack := take (length (vm_stack vm) - n) (vm_stack vm)\<rparr>"

definition vm_top :: "vm \<Rightarrow> Value" where
  "vm_top vm = last (vm_stack vm)"

definition vm_below_top :: "vm \<Rightarrow> Value" where
  "vm_below_top vm = vm_stack vm ! (length (vm_stack vm) - 2)"

definition vm_set_top :: "Value \<Rightarrow> vm \<Rightarrow> vm" where
  "vm_set_top v vm = vm\<lparr>vm_stack := (vm_stack vm)[length (vm_stack vm) - 1 := v]\<rparr>"

text \<open>
  \<^verbatim>\<open>vm->stack.values[frame.slots_start + slot]\<close>.  The loop does not check the index; an access above the top of
  the stack reads memory that holds no value and is \<open>UNDEFINED\<close>.
\<close>

definition local_index :: "vm \<Rightarrow> u8 \<Rightarrow> int" where
  "local_index vm slot = vm_slots_start vm + int (unat slot)"

definition local_ok :: "vm \<Rightarrow> u8 \<Rightarrow> bool" where
  "local_ok vm slot \<longleftrightarrow> 0 \<le> local_index vm slot \<and> local_index vm slot < vm_stack_count vm"

definition local_value :: "vm \<Rightarrow> u8 \<Rightarrow> Value" where
  "local_value vm slot = vm_stack vm ! nat (local_index vm slot)"

definition with_local :: "vm \<Rightarrow> u8 \<Rightarrow> (Value \<Rightarrow> vm + vm) \<Rightarrow> vm + vm" where
  "with_local vm slot k = (if local_ok vm slot then k (local_value vm slot) else vm_fail vm UNDEFINED)"

definition set_local :: "u8 \<Rightarrow> Value \<Rightarrow> vm \<Rightarrow> vm" where
  "set_local slot v vm = vm\<lparr>vm_stack := (vm_stack vm)[nat (local_index vm slot) := v]\<rparr>"

section \<open>Operands\<close>

text \<open>\<open>VM_ENSURE_IP_BYTES(n)\<close> and the \<open>n\<close> reads that follow it.\<close>

definition with_operands :: "nat \<Rightarrow> vm \<Rightarrow> (u8 list \<Rightarrow> vm \<Rightarrow> vm + vm) \<Rightarrow> vm + vm" where
  "with_operands n vm k =
     (if vm_ip vm < 0 \<or> vm_ip vm + int n > int (length (vm_code vm))
      then vm_fail vm ERR_TRUNCATED
      else k (take n (drop (nat (vm_ip vm)) (vm_code vm))) (vm\<lparr>vm_ip := vm_ip vm + int n\<rparr>))"

definition with_constant :: "vm \<Rightarrow> u8 \<Rightarrow> (Constant \<Rightarrow> vm + vm) \<Rightarrow> vm + vm" where
  "with_constant vm const_idx k =
     (if unat const_idx \<ge> length (vm_constants vm) then vm_fail vm ERR_CONSTANT_INDEX_OUT_OF_BOUNDS
      else k (vm_constants vm ! unat const_idx))"

text \<open>The big-endian 16-bit operands: an index, and a signed jump offset.\<close>

definition u16_operand :: "u8 \<Rightarrow> u8 \<Rightarrow> int" where
  "u16_operand hi lo = int (unat hi) * 256 + int (unat lo)"

definition i16_operand :: "u8 \<Rightarrow> u8 \<Rightarrow> int" where
  "i16_operand hi lo = (let n = u16_operand hi lo in if n \<ge> 32768 then n - 65536 else n)"

definition jump_if :: "bool \<Rightarrow> int \<Rightarrow> vm \<Rightarrow> vm" where
  "jump_if c offset vm = (if c then vm\<lparr>vm_ip := vm_ip vm + offset\<rparr> else vm)"

section \<open>Arithmetic of one type\<close>

datatype int_op = I_ADD | I_SUB | I_MUL | I_DIV | I_MOD | I_BIT_AND | I_BIT_OR | I_BIT_XOR

datatype dbl_op = D_ADD | D_SUB | D_MUL | D_DIV

datatype cmp_op = C_LT | C_LE | C_GT | C_GE

definition int_op_result :: "int_op \<Rightarrow> u64 \<Rightarrow> u64 \<Rightarrow> vm_error + Value" where
  "int_op_result op a b =
     (case op of
        I_ADD \<Rightarrow> int64_result (sint a + sint b)
      | I_SUB \<Rightarrow> int64_result (sint a - sint b)
      | I_MUL \<Rightarrow> int64_result (sint a * sint b)
      | I_DIV \<Rightarrow> if b = 0 then Inl ERR_DIVISION_BY_ZERO else int64_result (sint a sdiv sint b)
      | I_MOD \<Rightarrow> if b = 0 then Inl ERR_MODULO_BY_ZERO
                 else if sint a = - 9223372036854775808 \<and> sint b = - 1 then Inl UNDEFINED
                 else int64_result (sint a smod sint b)
      | I_BIT_AND \<Rightarrow> Inr (VAL_INT (a AND b))
      | I_BIT_OR \<Rightarrow> Inr (VAL_INT (a OR b))
      | I_BIT_XOR \<Rightarrow> Inr (VAL_INT (a XOR b)))"

definition dbl_op_result :: "double_ops \<Rightarrow> dbl_op \<Rightarrow> u64 \<Rightarrow> u64 \<Rightarrow> vm_error + Value" where
  "dbl_op_result d op a b =
     (case op of
        D_ADD \<Rightarrow> Inr (VAL_DOUBLE (d_add d a b))
      | D_SUB \<Rightarrow> Inr (VAL_DOUBLE (d_sub d a b))
      | D_MUL \<Rightarrow> Inr (VAL_DOUBLE (d_mul d a b))
      | D_DIV \<Rightarrow> if double_equals b 0 then Inl ERR_DIVISION_BY_ZERO else Inr (VAL_DOUBLE (d_div d a b)))"

definition int_cmp :: "cmp_op \<Rightarrow> u64 \<Rightarrow> u64 \<Rightarrow> bool" where
  "int_cmp op a b =
     (case op of C_LT \<Rightarrow> sint a < sint b | C_LE \<Rightarrow> sint a \<le> sint b | C_GT \<Rightarrow> sint a > sint b | C_GE \<Rightarrow> sint a \<ge> sint b)"

definition dbl_cmp :: "cmp_op \<Rightarrow> u64 \<Rightarrow> u64 \<Rightarrow> bool" where
  "dbl_cmp op a b =
     (case op of C_LT \<Rightarrow> double_less a b | C_LE \<Rightarrow> double_less_eq a b | C_GT \<Rightarrow> double_less b a | C_GE \<Rightarrow> double_less_eq b a)"

text \<open>Negation of a double flips the sign bit.\<close>

definition double_neg :: "u64 \<Rightarrow> u64" where
  "double_neg b = b XOR 0x8000000000000000"

text \<open>Two values, or a value and a constant, of one numeric type.\<close>

definition same_type_cmp :: "cmp_op \<Rightarrow> Value \<Rightarrow> Value \<Rightarrow> bool option" where
  "same_type_cmp op a b =
     (case (a, b) of
        (VAL_INT i, VAL_INT j) \<Rightarrow> Some (int_cmp op i j)
      | (VAL_DOUBLE x, VAL_DOUBLE y) \<Rightarrow> Some (dbl_cmp op x y)
      | _ \<Rightarrow> None)"

definition const_type_cmp :: "cmp_op \<Rightarrow> Value \<Rightarrow> Constant \<Rightarrow> bool option" where
  "const_type_cmp op a c =
     (case (a, c) of
        (VAL_INT i, CONST_INT j) \<Rightarrow> Some (int_cmp op i j)
      | (VAL_DOUBLE x, CONST_DOUBLE y) \<Rightarrow> Some (dbl_cmp op x y)
      | _ \<Rightarrow> None)"

text \<open>A result is stored or reported.\<close>

definition vm_result :: "vm \<Rightarrow> vm_error + Value \<Rightarrow> (Value \<Rightarrow> vm) \<Rightarrow> vm + vm" where
  "vm_result vm r k = (case r of Inl e \<Rightarrow> vm_fail vm e | Inr v \<Rightarrow> Inr (k v))"

end
