(* ===== verification/VM_Ops.thy ===== *)
theory VM_Ops
  imports VM_Exec
begin

text \<open>
  The handlers of \<^verbatim>\<open>vm_run_loop\<close> in \<^verbatim>\<open>src/src/vm.c\<close> for constants, locals, globals, arithmetic, comparison
  and branches, in the order of the \<open>switch\<close>.
\<close>

section \<open>Constants, locals and the stack\<close>

text \<open>A string constant is interned; constants are shorter than \<^verbatim>\<open>INT_MAX\<close>.\<close>

definition vm_push_constant_by_index :: "vm \<Rightarrow> int \<Rightarrow> vm + vm" where
  "vm_push_constant_by_index vm index =
     (if index < 0 \<or> index \<ge> int (length (vm_constants vm)) then vm_fail vm ERR_CONSTANT_INDEX_OUT_OF_BOUNDS
      else case vm_constants vm ! nat index of
             CONST_INT i \<Rightarrow> Inr (push vm (VAL_INT i))
           | CONST_BOOL n \<Rightarrow> Inr (push vm (VAL_BOOL (n \<noteq> 0)))
           | CONST_DOUBLE d \<Rightarrow> Inr (push vm (VAL_DOUBLE d))
           | CONST_STRING None \<Rightarrow> vm_fail vm ERR_STRING_PAYLOAD
           | CONST_STRING (Some s) \<Rightarrow>
               (case vm_intern_string (vm_string_pool vm) (cstr s) of
                  None \<Rightarrow> vm_fail vm DIVERGES
                | Some (pool, interned) \<Rightarrow> Inr (push (vm\<lparr>vm_string_pool := pool\<rparr>) (VAL_STRING interned)))
           | CONST_BIGINT None \<Rightarrow> vm_fail vm ERR_BIGINT_PAYLOAD
           | CONST_BIGINT (Some s) \<Rightarrow> Inr (push vm (VAL_BIGINT (Some (obj_bigint_from_string (Some s)))))
           | CONST_OTHER n \<Rightarrow> Inr (push vm VAL_NIL))"

definition exec_nop :: "vm \<Rightarrow> vm + vm" where
  "exec_nop vm = Inr vm"

definition exec_pop :: "vm \<Rightarrow> vm + vm" where
  "exec_pop vm = (case pop vm of (val, vm) \<Rightarrow> Inr (vm_release val vm))"

definition exec_dup :: "vm \<Rightarrow> vm + vm" where
  "exec_dup vm =
     (if vm_stack_count vm < 1 then vm_fail vm ERR_STACK_UNDERFLOW
      else let val = vm_top vm in Inr (push (vm_retain val vm) val))"

definition exec_const :: "vm \<Rightarrow> vm + vm" where
  "exec_const vm =
     with_operands 1 vm (\<lambda>bs vm.
       if bs ! 0 = 0xff then Inr (push vm VAL_NIL)
       else vm_push_constant_by_index vm (int (unat (bs ! 0))))"

definition exec_const16 :: "vm \<Rightarrow> vm + vm" where
  "exec_const16 vm = with_operands 2 vm (\<lambda>bs vm. vm_push_constant_by_index vm (u16_operand (bs ! 0) (bs ! 1)))"

definition exec_load_local :: "vm \<Rightarrow> vm + vm" where
  "exec_load_local vm =
     with_operands 1 vm (\<lambda>bs vm. with_local vm (bs ! 0) (\<lambda>val. Inr (push (vm_retain val vm) val)))"

definition exec_store_local :: "vm \<Rightarrow> vm + vm" where
  "exec_store_local vm =
     with_operands 1 vm (\<lambda>bs vm.
       case pop vm of (val, vm) \<Rightarrow>
         with_local vm (bs ! 0) (\<lambda>dest. Inr (set_local (bs ! 0) val (vm_release dest vm))))"

text \<open>\<^verbatim>\<open>OP_ADD_LOCAL_STACK_INT\<close>, \<^verbatim>\<open>OP_SUB_LOCAL_STACK_INT\<close> and the double forms.\<close>

definition exec_local_stack_int :: "int_op \<Rightarrow> vm \<Rightarrow> vm + vm" where
  "exec_local_stack_int op vm =
     with_operands 1 vm (\<lambda>bs vm.
       if vm_stack_count vm \<le> 0 then vm_fail vm ERR_STACK_UNDERFLOW
       else let rhs = vm_top vm
            in with_local vm (bs ! 0) (\<lambda>dst.
                 case (dst, rhs) of
                   (VAL_INT x, VAL_INT y) \<Rightarrow> vm_result vm (int_op_result op x y) (\<lambda>v. vm_drop 1 (set_local (bs ! 0) v vm))
                 | _ \<Rightarrow> vm_fail (vm_drop 1 (vm_release rhs vm)) ERR_OPERANDS_INTEGER))"

definition exec_local_stack_double :: "dbl_op \<Rightarrow> vm \<Rightarrow> vm + vm" where
  "exec_local_stack_double op vm =
     with_operands 1 vm (\<lambda>bs vm.
       if vm_stack_count vm \<le> 0 then vm_fail vm ERR_STACK_UNDERFLOW
       else let rhs = vm_top vm
            in with_local vm (bs ! 0) (\<lambda>dst.
                 case (dst, rhs) of
                   (VAL_DOUBLE x, VAL_DOUBLE y) \<Rightarrow>
                     vm_result vm (dbl_op_result (vm_doubles vm) op x y) (\<lambda>v. vm_drop 1 (set_local (bs ! 0) v vm))
                 | _ \<Rightarrow> vm_fail (vm_drop 1 (vm_release rhs vm)) ERR_OPERANDS_DOUBLE))"

text \<open>A number and a constant of its type, added or subtracted.\<close>

definition local_const_result :: "vm \<Rightarrow> int_op \<Rightarrow> dbl_op \<Rightarrow> Value \<Rightarrow> Constant \<Rightarrow> vm_error + Value" where
  "local_const_result vm iop dop v c =
     (case (v, c) of
        (VAL_INT x, CONST_INT y) \<Rightarrow> int_op_result iop x y
      | (VAL_DOUBLE x, CONST_DOUBLE y) \<Rightarrow> dbl_op_result (vm_doubles vm) dop x y
      | _ \<Rightarrow> Inl ERR_NUMBERS)"

definition exec_local_const :: "int_op \<Rightarrow> dbl_op \<Rightarrow> vm \<Rightarrow> vm + vm" where
  "exec_local_const iop dop vm =
     with_operands 2 vm (\<lambda>bs vm.
       with_constant vm (bs ! 1) (\<lambda>c.
         with_local vm (bs ! 0) (\<lambda>v. vm_result vm (local_const_result vm iop dop v c) (\<lambda>v. set_local (bs ! 0) v vm))))"

definition exec_add2_local_const :: "vm \<Rightarrow> vm + vm" where
  "exec_add2_local_const vm =
     with_operands 5 vm (\<lambda>bs vm.
       with_constant vm (bs ! 1) (\<lambda>c1. with_constant vm (bs ! 3) (\<lambda>c2.
         with_local vm (bs ! 0) (\<lambda>a.
           case local_const_result vm I_ADD D_ADD a c1 of
             Inl e \<Rightarrow> vm_fail vm e
           | Inr v \<Rightarrow>
               let vm = set_local (bs ! 0) v vm
               in with_local vm (bs ! 2) (\<lambda>b.
                    vm_result vm (local_const_result vm I_ADD D_ADD b c2) (\<lambda>v. set_local (bs ! 2) v vm))))))"

definition exec_negate_local :: "vm \<Rightarrow> vm + vm" where
  "exec_negate_local vm =
     with_operands 1 vm (\<lambda>bs vm.
       with_local vm (bs ! 0) (\<lambda>v.
         case v of
           VAL_INT i \<Rightarrow> vm_result vm (int64_result (- sint i)) (\<lambda>v. set_local (bs ! 0) v vm)
         | VAL_DOUBLE d \<Rightarrow> Inr (set_local (bs ! 0) (VAL_DOUBLE (double_neg d)) vm)
         | _ \<Rightarrow> vm_fail vm ERR_OPERAND_NUMBER))"

definition exec_add_local_div_locals :: "vm \<Rightarrow> vm + vm" where
  "exec_add_local_div_locals vm =
     with_operands 3 vm (\<lambda>bs vm.
       with_local vm (bs ! 0) (\<lambda>dst. with_local vm (bs ! 1) (\<lambda>num. with_local vm (bs ! 2) (\<lambda>den.
         case (dst, num, den) of
           (VAL_DOUBLE x, VAL_DOUBLE y, VAL_DOUBLE z) \<Rightarrow>
             if double_equals z 0 then vm_fail vm ERR_DIVISION_BY_ZERO
             else Inr (set_local (bs ! 0) (VAL_DOUBLE (d_add (vm_doubles vm) x (d_div (vm_doubles vm) y z))) vm)
         | _ \<Rightarrow> vm_fail vm ERR_OPERANDS_DOUBLE))))"

section \<open>Globals\<close>

text \<open>
  The type index and the string of a constant; for a constant that is no string the pointer is what the
  union holds.
\<close>

definition constant_name :: "Constant \<Rightarrow> name_constant" where
  "constant_name c =
     (case c of
        CONST_INT i \<Rightarrow> \<lparr>nc_type_index = 0, nc_as_string = None\<rparr>
      | CONST_DOUBLE d \<Rightarrow> \<lparr>nc_type_index = 1, nc_as_string = None\<rparr>
      | CONST_STRING s \<Rightarrow> \<lparr>nc_type_index = 2, nc_as_string = s\<rparr>
      | CONST_BIGINT s \<Rightarrow> \<lparr>nc_type_index = 3, nc_as_string = s\<rparr>
      | CONST_BOOL n \<Rightarrow> \<lparr>nc_type_index = 4, nc_as_string = None\<rparr>
      | CONST_OTHER n \<Rightarrow> \<lparr>nc_type_index = n, nc_as_string = None\<rparr>)"

definition vm_resolve :: "vm \<Rightarrow> int \<Rightarrow> (int \<times> vm) option" where
  "vm_resolve vm name_idx =
     map_option (\<lambda>(slot, g, cache). (slot, vm_update_func (\<lambda>f. f\<lparr>fn_global_slot_cache := cache\<rparr>) (vm\<lparr>vm_globs := g\<rparr>)))
       (vm_resolve_global_slot_cached (vm_globs vm) (map constant_name (vm_constants vm))
         (fn_global_slot_cache (vm_func vm)) name_idx)"

definition with_slot :: "vm \<Rightarrow> int \<Rightarrow> (int \<Rightarrow> vm \<Rightarrow> vm + vm) \<Rightarrow> vm + vm" where
  "with_slot vm name_idx k =
     (case vm_resolve vm name_idx of None \<Rightarrow> vm_fail vm DIVERGES | Some (slot, vm) \<Rightarrow> k slot vm)"

definition vm_get_global_name_constant :: "vm \<Rightarrow> int \<Rightarrow> vm_error + string" where
  "vm_get_global_name_constant vm name_idx =
     (if name_idx < 0 \<or> name_idx \<ge> int (length (vm_constants vm))
      then Inl ERR_NAME_INDEX
      else case vm_constants vm ! nat name_idx of
             CONST_STRING (Some name) \<Rightarrow> Inr name
           | _ \<Rightarrow> Inl ERR_NAME_STRING)"

definition slot_in_use :: "vm \<Rightarrow> int \<Rightarrow> bool" where
  "slot_in_use vm slot \<longleftrightarrow> slot \<ge> 0 \<and> slot < vg_count (vm_globs vm)"

definition global_in_slot :: "vm \<Rightarrow> int \<Rightarrow> Value" where
  "global_in_slot vm slot = vg_globals (vm_globs vm) ! nat slot"

text \<open>\<open>vm_get_global\<close> as the handlers use it.\<close>

definition get_global_named :: "vm \<Rightarrow> string \<Rightarrow> vm_error + Value" where
  "get_global_named vm name =
     (case vm_get_global (vm_globs vm) (Some name) of None \<Rightarrow> Inl DIVERGES | Some v \<Rightarrow> Inr v)"

text \<open>The value in a resolved slot, or by name.\<close>

definition load_global_value :: "vm \<Rightarrow> int \<Rightarrow> int \<Rightarrow> vm_error + Value" where
  "load_global_value vm slot name_idx =
     (if slot_in_use vm slot then Inr (global_in_slot vm slot)
      else case vm_get_global_name_constant vm name_idx of
             Inl e \<Rightarrow> Inl e
           | Inr name \<Rightarrow> get_global_named vm name)"

text \<open>Overwriting code at a distance before the instruction pointer.\<close>

definition patch_code :: "(nat \<times> u8) list \<Rightarrow> vm \<Rightarrow> vm" where
  "patch_code ps vm =
     vm_update_func (\<lambda>f. f\<lparr>fn_code := foldl (\<lambda>code (k, b). code[nat (vm_ip vm - int k) := b]) (fn_code f) ps\<rparr>) vm"

definition exec_load_global :: "vm \<Rightarrow> vm + vm" where
  "exec_load_global vm =
     with_operands 1 vm (\<lambda>bs vm.
       let name_idx = int (unat (bs ! 0))
       in with_slot vm name_idx (\<lambda>slot vm.
            let vm = (if slot \<ge> 0 \<and> slot \<le> 255
                      then patch_code [(2, OP_LOAD_GLOBAL_SLOT), (1, word_of_int slot)] vm else vm)
            in vm_result vm (load_global_value vm slot name_idx) (\<lambda>val. push (vm_retain val vm) val)))"

definition exec_load_global16 :: "vm \<Rightarrow> vm + vm" where
  "exec_load_global16 vm =
     with_operands 2 vm (\<lambda>bs vm.
       let name_idx = u16_operand (bs ! 0) (bs ! 1)
       in with_slot vm name_idx (\<lambda>slot vm.
            vm_result vm (load_global_value vm slot name_idx) (\<lambda>val. push (vm_retain val vm) val)))"

definition exec_load_global_slot :: "vm \<Rightarrow> vm + vm" where
  "exec_load_global_slot vm =
     with_operands 1 vm (\<lambda>bs vm.
       let slot = int (unat (bs ! 0))
       in if slot \<ge> vg_count (vm_globs vm) then vm_fail vm ERR_GLOBAL_SLOT_OUT_OF_BOUNDS
          else let val = global_in_slot vm slot in Inr (push (vm_retain val vm) val))"

text \<open>The store of the two instructions that know the slot and the name.\<close>

definition store_in_slot :: "vm_globals \<Rightarrow> nat \<Rightarrow> string \<Rightarrow> Value \<Rightarrow> (vm_globals \<times> obj_event list) option" where
  "store_in_slot vg slot name val =
     (let vg = vg\<lparr>vg_globals := (vg_globals vg)[slot := val]\<rparr>
      in case (case vg_hash_entries vg ! slot of
                 Some k \<Rightarrow> Some (Some k)
               | None \<Rightarrow> map_option (map_option he_key) (hash_table_get_entry (vg_hash vg) (Some name))) of
           None \<Rightarrow> None
         | Some (Some k) \<Rightarrow>
             let (t, ev) = entry_store (vg_hash vg) k val
             in Some (vg\<lparr>vg_hash := t, vg_hash_entries := (vg_hash_entries vg)[slot := Some k]\<rparr>, ev)
         | Some None \<Rightarrow>
             map_option (\<lambda>(t, entry, ev). (vg\<lparr>vg_hash := t, vg_hash_entries := (vg_hash_entries vg)[slot := entry]\<rparr>, ev))
               (hash_set_slot (vg_hash vg) name val (int slot)))"

definition managed_events :: "obj_event list \<Rightarrow> obj_event list" where
  "managed_events ev =
     filter (\<lambda>e. case e of Retain v \<Rightarrow> \<not> value_type_is_unmanaged v | Release v \<Rightarrow> \<not> value_type_is_unmanaged v | _ \<Rightarrow> True) ev"

text \<open>The new globals with what was released, or a search that does not end.\<close>

definition vm_new_globals :: "vm \<Rightarrow> (vm_globals \<times> obj_event list) option \<Rightarrow> vm + vm" where
  "vm_new_globals vm r =
     (case r of
        None \<Rightarrow> vm_fail vm DIVERGES
      | Some (g, ev) \<Rightarrow> Inr (vm_log (managed_events ev) (vm\<lparr>vm_globs := g\<rparr>)))"

definition exec_store_global_at :: "vm \<Rightarrow> int \<Rightarrow> string \<Rightarrow> Value \<Rightarrow> vm + vm" where
  "exec_store_global_at vm slot name val =
     (if slot_in_use vm slot then vm_new_globals vm (store_in_slot (vm_globs vm) (nat slot) name val)
      else vm_new_globals vm (vm_set_global (vm_globs vm) (Some name) val))"

definition exec_store_global :: "vm \<Rightarrow> vm + vm" where
  "exec_store_global vm =
     with_operands 1 vm (\<lambda>bs vm.
       let name_idx = int (unat (bs ! 0))
       in case pop vm of (val, vm) \<Rightarrow>
            (case vm_get_global_name_constant vm name_idx of
               Inl e \<Rightarrow> Inl (vm_release val (vm_runtime_error vm e))
             | Inr name \<Rightarrow>
                 with_slot vm name_idx (\<lambda>slot vm.
                   let vm = (if slot \<ge> 0 \<and> slot \<le> 255
                             then patch_code [(2, OP_STORE_GLOBAL_SLOT), (1, word_of_int slot)] vm else vm)
                   in exec_store_global_at vm slot name val)))"

definition exec_store_global16 :: "vm \<Rightarrow> vm + vm" where
  "exec_store_global16 vm =
     with_operands 2 vm (\<lambda>bs vm.
       let name_idx = u16_operand (bs ! 0) (bs ! 1)
       in case pop vm of (val, vm) \<Rightarrow>
            (case vm_get_global_name_constant vm name_idx of
               Inl e \<Rightarrow> Inl (vm_release val (vm_runtime_error vm e))
             | Inr name \<Rightarrow> with_slot vm name_idx (\<lambda>slot vm. exec_store_global_at vm slot name val)))"

text \<open>Storing to a slot; a load of the same slot that follows is done at once.\<close>

definition exec_store_global_slot :: "vm \<Rightarrow> vm + vm" where
  "exec_store_global_slot vm =
     with_operands 1 vm (\<lambda>bs vm.
       let slot = bs ! 0
       in case pop vm of (val, vm) \<Rightarrow>
            (case vm_set_global_slot_value (vm_globs vm) slot val of
               None \<Rightarrow> vm_fail vm DIVERGES
             | Some (ok, g, ev) \<Rightarrow>
                 if \<not> ok then Inl (vm_release val (vm_runtime_error vm ERR_GLOBAL_SLOT_OUT_OF_BOUNDS))
                 else let vm = vm_log (managed_events ev) (vm\<lparr>vm_globs := g\<rparr>)
                      in if vm_ip vm + 1 < int (length (vm_code vm)) \<and> vm_code vm ! nat (vm_ip vm) = OP_LOAD_GLOBAL_SLOT \<and>
                            vm_code vm ! nat (vm_ip vm + 1) = slot
                         then let vm = push (vm_retain val vm) val in Inr (vm\<lparr>vm_ip := vm_ip vm + 2\<rparr>)
                         else Inr vm))"

section \<open>Arithmetic on globals\<close>

text \<open>The string of a name constant as the fallback of the fused instructions reads it, without looking at the type.\<close>

definition fallback_name :: "vm \<Rightarrow> u8 \<Rightarrow> vm_error + string" where
  "fallback_name vm name_idx =
     (case vm_constants vm ! unat name_idx of
        CONST_STRING (Some s) \<Rightarrow> Inr s
      | CONST_BIGINT (Some s) \<Rightarrow> Inr s
      | CONST_STRING None \<Rightarrow> Inl ERR_INVALID_NAME
      | CONST_BIGINT None \<Rightarrow> Inl ERR_INVALID_NAME
      | CONST_INT i \<Rightarrow> if i = 0 then Inl ERR_INVALID_NAME else Inl UNDEFINED
      | CONST_BOOL i \<Rightarrow> if i = 0 then Inl ERR_INVALID_NAME else Inl UNDEFINED
      | CONST_DOUBLE i \<Rightarrow> if i = 0 then Inl ERR_INVALID_NAME else Inl UNDEFINED
      | CONST_OTHER n \<Rightarrow> Inl UNDEFINED)"

text \<open>The null checks of the three names come before any name is used.\<close>

definition fallback_names :: "vm \<Rightarrow> u8 \<Rightarrow> u8 \<Rightarrow> u8 \<Rightarrow> vm_error + string \<times> string \<times> string" where
  "fallback_names vm d a b =
     (let invalid = (\<lambda>n. fallback_name vm n = Inl ERR_INVALID_NAME)
      in if invalid d \<or> invalid a \<or> invalid b then Inl ERR_INVALID_NAME
         else case (fallback_name vm d, fallback_name vm a, fallback_name vm b) of
                (Inr d, Inr a, Inr b) \<Rightarrow> Inr (d, a, b)
              | _ \<Rightarrow> Inl UNDEFINED)"

text \<open>Storing the result of an operation to a slot: \<^verbatim>\<open>vm_set_global_slot_value\<close>.\<close>

definition set_slot_result :: "vm \<Rightarrow> u8 \<Rightarrow> Value \<Rightarrow> vm + vm" where
  "set_slot_result vm slot val =
     (case vm_set_global_slot_value (vm_globs vm) slot val of
        None \<Rightarrow> vm_fail vm DIVERGES
      | Some (ok, g, ev) \<Rightarrow>
          if ok then Inr (vm_log (managed_events ev) (vm\<lparr>vm_globs := g\<rparr>))
          else Inl (vm_release val (vm_runtime_error vm ERR_GLOBAL_SLOT_OUT_OF_BOUNDS)))"

abbreviation vm_arith :: "vm \<Rightarrow> u8 \<Rightarrow> Value \<Rightarrow> Value \<Rightarrow> vm_error + Value" where
  "vm_arith vm \<equiv> vm_compute_arithmetic_op (vm_doubles vm) (vm_max_string_length vm)"

definition exec_global_global_to_global :: "u8 \<Rightarrow> u8 \<Rightarrow> vm \<Rightarrow> vm + vm" where
  "exec_global_global_to_global base_op slot_op vm =
     with_operands 6 vm (\<lambda>bs vm.
       let dst_name_idx = bs ! 0; a_name_idx = bs ! 1; b_name_idx = bs ! 2
       in with_slot vm (int (unat dst_name_idx)) (\<lambda>dst_slot vm.
          with_slot vm (int (unat a_name_idx)) (\<lambda>a_slot vm.
          with_slot vm (int (unat b_name_idx)) (\<lambda>b_slot vm.
            if dst_slot \<ge> 0 \<and> dst_slot \<le> 255 \<and> a_slot \<ge> 0 \<and> a_slot \<le> 255 \<and> b_slot \<ge> 0 \<and> b_slot \<le> 255 \<and>
               slot_in_use vm dst_slot \<and> slot_in_use vm a_slot \<and> slot_in_use vm b_slot
            then let vm = patch_code [(7, slot_op), (6, word_of_int dst_slot), (5, word_of_int a_slot),
                                      (4, word_of_int b_slot), (3, 0), (2, 0), (1, 0)] vm
                 in (case vm_arith vm base_op (global_in_slot vm a_slot) (global_in_slot vm b_slot) of
                       Inl e \<Rightarrow> vm_fail vm e
                     | Inr result \<Rightarrow> set_slot_result vm (word_of_int dst_slot) result)
            else if unat dst_name_idx \<ge> length (vm_constants vm) \<or> unat a_name_idx \<ge> length (vm_constants vm) \<or>
                    unat b_name_idx \<ge> length (vm_constants vm)
            then vm_fail vm ERR_CONSTANT_INDEX_OUT_OF_BOUNDS
            else (case fallback_names vm dst_name_idx a_name_idx b_name_idx of
                    Inl e \<Rightarrow> vm_fail vm e
                  | Inr (dst, na, nb) \<Rightarrow>
                      (case (get_global_named vm na, get_global_named vm nb) of
                         (Inr a, Inr b) \<Rightarrow>
                           (case vm_arith vm base_op a b of
                              Inl e \<Rightarrow> vm_fail vm e
                            | Inr result \<Rightarrow> vm_new_globals vm (vm_set_global (vm_globs vm) (Some dst) result))
                       | _ \<Rightarrow> vm_fail vm DIVERGES))))))"

text \<open>The multiplier of the in-place multiplication: its sign and its only limb.\<close>

definition inplace_multiplier :: "Value \<Rightarrow> (int \<times> u32) option" where
  "inplace_multiplier v =
     (case v of
        VAL_BIGINT (Some m) \<Rightarrow>
          if bi_sign m = 0 \<or> bi_limbs m = [] then Some (0, 0)
          else if length (bi_limbs m) = 1 then Some (bi_sign m, bi_limbs m ! 0)
          else None
      | VAL_INT m \<Rightarrow>
          let abs_val = \<bar>sint m\<bar>
          in if abs_val \<le> 4294967295 then Some (sgn (sint m), word_of_int abs_val) else None
      | _ \<Rightarrow> None)"

definition inplace_product :: "ObjBigInt \<Rightarrow> int \<Rightarrow> u32 \<Rightarrow> ObjBigInt" where
  "inplace_product x mult_sign mult_u32 =
     (if mult_sign = 0 \<or> mult_u32 = 0 then x\<lparr>bi_limbs := [], bi_sign := 0\<rparr>
      else let x = the (fst (obj_bigint_mul_small_inplace (Some x) mult_u32))
           in if mult_sign < 0 \<and> bi_sign x \<noteq> 0 then x\<lparr>bi_sign := - bi_sign x\<rparr> else x)"

text \<open>The object is changed where it is: the slot and the entry of the hash table refer to it.\<close>

definition mutate_global :: "u8 \<Rightarrow> Value \<Rightarrow> vm \<Rightarrow> vm" where
  "mutate_global slot v vm =
     (let g = vm_globs vm; i = unat slot
      in vm\<lparr>vm_globs := g\<lparr>vg_globals := (vg_globals g)[i := v],
             vg_hash := (case vg_hash_entries g ! i of
                           None \<Rightarrow> vg_hash g
                         | Some k \<Rightarrow> entry_write (vg_hash g) k (\<lambda>e. e\<lparr>he_value := v\<rparr>))\<rparr>\<rparr>)"

definition exec_slot_slot_to_slot :: "u8 \<Rightarrow> vm \<Rightarrow> vm + vm" where
  "exec_slot_slot_to_slot base_op vm =
     with_operands 6 vm (\<lambda>bs vm.
       let dst_slot = bs ! 0; a_slot = bs ! 1; b_slot = bs ! 2; count = vg_count (vm_globs vm);
           a = global_in_slot vm (int (unat a_slot)); b = global_in_slot vm (int (unat b_slot))
       in if int (unat dst_slot) \<ge> count \<or> int (unat a_slot) \<ge> count \<or> int (unat b_slot) \<ge> count
          then vm_fail vm ERR_GLOBAL_SLOT_OUT_OF_BOUNDS
          else case (if base_op = OP_MUL \<and> dst_slot = a_slot \<and> vm_bigint_unshared vm dst_slot
                     then (case a of VAL_BIGINT (Some x) \<Rightarrow> map_option (\<lambda>m. (x, m)) (inplace_multiplier b) | _ \<Rightarrow> None)
                     else None) of
                 Some (x, s, m) \<Rightarrow> Inr (mutate_global dst_slot (VAL_BIGINT (Some (inplace_product x s m))) vm)
               | None \<Rightarrow>
                   (case vm_arith vm base_op a b of
                      Inl e \<Rightarrow> vm_fail vm e
                    | Inr result \<Rightarrow> set_slot_result vm dst_slot result))"

section \<open>Typed arithmetic\<close>

definition exec_int :: "int_op \<Rightarrow> vm \<Rightarrow> vm + vm" where
  "exec_int op vm =
     (if vm_stack_count vm < 2 then vm_fail vm ERR_STACK_UNDERFLOW
      else let a = vm_below_top vm; b = vm_top vm
           in case (a, b) of
                (VAL_INT x, VAL_INT y) \<Rightarrow> vm_result vm (int_op_result op x y) (\<lambda>v. vm_set_top v (vm_drop 1 vm))
              | _ \<Rightarrow> vm_fail (vm_drop 2 (vm_release b (vm_release a vm))) ERR_OPERANDS_INTEGER)"

definition exec_neg_int :: "vm \<Rightarrow> vm + vm" where
  "exec_neg_int vm =
     (if vm_stack_count vm < 1 then vm_fail vm ERR_STACK_UNDERFLOW
      else case vm_top vm of
             VAL_INT x \<Rightarrow> vm_result vm (int64_result (- sint x)) (\<lambda>v. vm_set_top v vm)
           | a \<Rightarrow> vm_fail (vm_drop 1 (vm_release a vm)) ERR_OPERAND_INTEGER)"

definition exec_bit_not_int :: "vm \<Rightarrow> vm + vm" where
  "exec_bit_not_int vm =
     (if vm_stack_count vm < 1 then vm_fail vm ERR_STACK_UNDERFLOW
      else case vm_top vm of
             VAL_INT x \<Rightarrow> Inr (vm_set_top (VAL_INT (NOT x)) vm)
           | a \<Rightarrow> vm_fail (vm_drop 1 (vm_release a vm)) ERR_OPERAND_INTEGER)"

definition exec_double :: "dbl_op \<Rightarrow> vm \<Rightarrow> vm + vm" where
  "exec_double op vm =
     (if vm_stack_count vm < 2 then vm_fail vm ERR_STACK_UNDERFLOW
      else let a = vm_below_top vm; b = vm_top vm
           in case (a, b) of
                (VAL_DOUBLE x, VAL_DOUBLE y) \<Rightarrow>
                  vm_result vm (dbl_op_result (vm_doubles vm) op x y) (\<lambda>v. vm_set_top v (vm_drop 1 vm))
              | _ \<Rightarrow> vm_fail (vm_drop 2 (vm_release b (vm_release a vm))) ERR_OPERANDS_DOUBLE)"

abbreviation DOUBLE_ONE :: u64 where
  "DOUBLE_ONE \<equiv> 0x3FF0000000000000"

definition double_recip :: "vm \<Rightarrow> u64 \<Rightarrow> u64" where
  "double_recip vm n = d_div (vm_doubles vm) DOUBLE_ONE (d_of_int (vm_doubles vm) n)"

definition exec_recip_int_to_double :: "vm \<Rightarrow> vm + vm" where
  "exec_recip_int_to_double vm =
     (if vm_stack_count vm < 1 then vm_fail vm ERR_STACK_UNDERFLOW
      else case vm_top vm of
             VAL_INT x \<Rightarrow>
               if x = 0 then vm_fail vm ERR_DIVISION_BY_ZERO
               else Inr (vm_set_top (VAL_DOUBLE (double_recip vm x)) vm)
           | a \<Rightarrow> vm_fail (vm_drop 1 (vm_release a vm)) ERR_OPERAND_INTEGER)"

definition fits64 :: "int \<Rightarrow> bool" where
  "fits64 i \<longleftrightarrow> - 9223372036854775808 \<le> i \<and> i \<le> 9223372036854775807"

text \<open>The denominator \<open>(i + j) (i + j + 1) / 2 + i + 1\<close>, computed without halving an odd number.\<close>

definition evala_denom :: "u64 \<Rightarrow> u64 \<Rightarrow> u64 option" where
  "evala_denom a b =
     (let i = sint a; ij = i + sint b;
          (t0, t1) = (if odd ij then (ij, (ij + 1) sdiv 2) else (ij sdiv 2, ij + 1));
          tri = t0 * t1; denom = tri + i + 1
      in if fits64 ij \<and> fits64 (ij + 1) \<and> fits64 tri \<and> fits64 (tri + i) \<and> fits64 denom
         then Some (word_of_int denom) else None)"

definition exec_evala_recip_locals_double :: "vm \<Rightarrow> vm + vm" where
  "exec_evala_recip_locals_double vm =
     with_operands 2 vm (\<lambda>bs vm.
       with_local vm (bs ! 0) (\<lambda>a. with_local vm (bs ! 1) (\<lambda>b.
         case (a, b) of
           (VAL_INT i, VAL_INT j) \<Rightarrow>
             (case evala_denom i j of
                None \<Rightarrow> vm_fail vm UNDEFINED
              | Some denom \<Rightarrow>
                  if denom = 0 then vm_fail vm ERR_DIVISION_BY_ZERO
                  else Inr (push vm (VAL_DOUBLE (double_recip vm denom))))
         | _ \<Rightarrow> vm_fail vm ERR_OPERANDS_INTEGER)))"

text \<open>An element of an array of doubles, or of boxed values that are doubles.\<close>

definition array_double_at :: "ObjArray \<Rightarrow> nat \<Rightarrow> u64 option" where
  "array_double_at arr i =
     (case oa_data arr of
        Doubles ds \<Rightarrow> Some (ds ! i)
      | Elements es \<Rightarrow> (case es ! i of VAL_DOUBLE d \<Rightarrow> Some d | _ \<Rightarrow> None)
      | _ \<Rightarrow> None)"

definition exec_evala_madd :: "vm \<Rightarrow> vm + vm" where
  "exec_evala_madd vm =
     with_operands 6 vm (\<lambda>bs vm.
       with_local vm (bs ! 0) (\<lambda>acc.
         case acc of
           VAL_DOUBLE accd \<Rightarrow>
             with_local vm (bs ! 2) (\<lambda>idx.
               case idx of
                 VAL_INT idx64 \<Rightarrow>
                   with_local vm (bs ! 1) (\<lambda>array.
                     case array of
                       VAL_ARRAY p \<Rightarrow>
                         with_local vm (bs ! 3) (\<lambda>a. with_local vm (bs ! 4) (\<lambda>b.
                           case (a, b) of
                             (VAL_INT i, VAL_INT j) \<Rightarrow>
                               let arr = vm_arrays vm p
                               in if sint idx64 < 0 \<or> sint idx64 \<ge> oa_count arr
                                  then vm_fail vm ERR_ARRAY_INDEX_OUT_OF_BOUNDS
                                  else (case array_double_at arr (nat (sint idx64)) of
                                          None \<Rightarrow> vm_fail vm ERR_ARRAY_ELEMENT_DOUBLE
                                        | Some elem \<Rightarrow>
                                            (case evala_denom i j of
                                               None \<Rightarrow> vm_fail vm UNDEFINED
                                             | Some denom \<Rightarrow>
                                                 if denom = 0 then vm_fail vm ERR_DIVISION_BY_ZERO
                                                 else Inr (set_local (bs ! 0)
                                                        (VAL_DOUBLE (d_add (vm_doubles vm) accd
                                                           (d_mul (vm_doubles vm) (double_recip vm denom) elem))) vm)))
                           | _ \<Rightarrow> vm_fail vm ERR_OPERANDS_INTEGER))
                     | _ \<Rightarrow> vm_fail vm ERR_CANNOT_INDEX_NON_ARRAY)
               | _ \<Rightarrow> vm_fail vm ERR_ARRAY_INDEX_INTEGER)
         | _ \<Rightarrow> vm_fail vm ERR_ACCUMULATOR_DOUBLE))"

section \<open>Fused arithmetic\<close>

definition exec_locals_int :: "int_op \<Rightarrow> vm \<Rightarrow> vm + vm" where
  "exec_locals_int op vm =
     with_operands 4 vm (\<lambda>bs vm.
       with_local vm (bs ! 0) (\<lambda>a. with_local vm (bs ! 1) (\<lambda>b.
         case (a, b) of
           (VAL_INT x, VAL_INT y) \<Rightarrow> vm_result vm (int_op_result op x y) (push vm)
         | _ \<Rightarrow> vm_fail vm ERR_OPERANDS_INTEGER)))"

definition exec_locals_double :: "dbl_op \<Rightarrow> vm \<Rightarrow> vm + vm" where
  "exec_locals_double op vm =
     with_operands 4 vm (\<lambda>bs vm.
       with_local vm (bs ! 0) (\<lambda>a. with_local vm (bs ! 1) (\<lambda>b.
         case (a, b) of
           (VAL_DOUBLE x, VAL_DOUBLE y) \<Rightarrow> vm_result vm (dbl_op_result (vm_doubles vm) op x y) (push vm)
         | _ \<Rightarrow> vm_fail vm ERR_OPERANDS_DOUBLE)))"

text \<open>\<^verbatim>\<open>OP_MUL_LOCALS_INT_TO_LOCAL\<close> and \<^verbatim>\<open>OP_MUL_LOCALS_DOUBLE_TO_LOCAL\<close>; the destination may be an operand.\<close>

definition exec_mul_locals_int_to_local :: "vm \<Rightarrow> vm + vm" where
  "exec_mul_locals_int_to_local vm =
     with_operands 6 vm (\<lambda>bs vm.
       with_local vm (bs ! 1) (\<lambda>a. with_local vm (bs ! 2) (\<lambda>b.
         case (a, b) of
           (VAL_INT x, VAL_INT y) \<Rightarrow>
             (case int_op_result I_MUL x y of
                Inl e \<Rightarrow> vm_fail vm e
              | Inr v \<Rightarrow> with_local vm (bs ! 0) (\<lambda>dst. Inr (set_local (bs ! 0) v (vm_release dst vm))))
         | _ \<Rightarrow> vm_fail vm ERR_OPERANDS_INTEGER)))"

definition exec_mul_locals_double_to_local :: "vm \<Rightarrow> vm + vm" where
  "exec_mul_locals_double_to_local vm =
     with_operands 6 vm (\<lambda>bs vm.
       with_local vm (bs ! 1) (\<lambda>a. with_local vm (bs ! 2) (\<lambda>b.
         case (a, b) of
           (VAL_DOUBLE x, VAL_DOUBLE y) \<Rightarrow>
             (case dbl_op_result (vm_doubles vm) D_MUL x y of
                Inl e \<Rightarrow> vm_fail vm e
              | Inr v \<Rightarrow> with_local vm (bs ! 0) (\<lambda>dst. Inr (set_local (bs ! 0) v (vm_release dst vm))))
         | _ \<Rightarrow> vm_fail vm ERR_OPERANDS_DOUBLE)))"

text \<open>The divisions by 2 and -2 that the code writes out are the general division.\<close>

definition exec_local_const_int :: "int_op \<Rightarrow> vm \<Rightarrow> vm + vm" where
  "exec_local_const_int op vm =
     with_operands 4 vm (\<lambda>bs vm.
       with_constant vm (bs ! 1) (\<lambda>c. with_local vm (bs ! 0) (\<lambda>a.
         case (a, c) of
           (VAL_INT x, CONST_INT y) \<Rightarrow> vm_result vm (int_op_result op x y) (push vm)
         | _ \<Rightarrow> vm_fail vm ERR_OPERANDS_INTEGER)))"

definition exec_local_const_double :: "dbl_op \<Rightarrow> vm \<Rightarrow> vm + vm" where
  "exec_local_const_double op vm =
     with_operands 4 vm (\<lambda>bs vm.
       with_constant vm (bs ! 1) (\<lambda>c. with_local vm (bs ! 0) (\<lambda>a.
         case (a, c) of
           (VAL_DOUBLE x, CONST_DOUBLE y) \<Rightarrow> vm_result vm (dbl_op_result (vm_doubles vm) op x y) (push vm)
         | _ \<Rightarrow> vm_fail vm ERR_OPERANDS_DOUBLE)))"

definition exec_stack_local_int :: "int_op \<Rightarrow> vm \<Rightarrow> vm + vm" where
  "exec_stack_local_int op vm =
     with_operands 2 vm (\<lambda>bs vm.
       if vm_stack_count vm \<le> 0 then vm_fail vm ERR_STACK_UNDERFLOW
       else with_local vm (bs ! 0) (\<lambda>b.
         case (vm_top vm, b) of
           (VAL_INT x, VAL_INT y) \<Rightarrow> vm_result vm (int_op_result op x y) (\<lambda>v. vm_set_top v vm)
         | _ \<Rightarrow> vm_fail vm ERR_OPERANDS_INTEGER))"

definition exec_stack_local_double :: "dbl_op \<Rightarrow> vm \<Rightarrow> vm + vm" where
  "exec_stack_local_double op vm =
     with_operands 2 vm (\<lambda>bs vm.
       if vm_stack_count vm \<le> 0 then vm_fail vm ERR_STACK_UNDERFLOW
       else with_local vm (bs ! 0) (\<lambda>b.
         case (vm_top vm, b) of
           (VAL_DOUBLE x, VAL_DOUBLE y) \<Rightarrow> vm_result vm (dbl_op_result (vm_doubles vm) op x y) (\<lambda>v. vm_set_top v vm)
         | _ \<Rightarrow> vm_fail vm ERR_OPERANDS_DOUBLE))"

definition exec_stack_const_int :: "int_op \<Rightarrow> vm \<Rightarrow> vm + vm" where
  "exec_stack_const_int op vm =
     with_operands 2 vm (\<lambda>bs vm.
       if vm_stack_count vm \<le> 0 then vm_fail vm ERR_STACK_UNDERFLOW
       else with_constant vm (bs ! 0) (\<lambda>c.
         case (vm_top vm, c) of
           (VAL_INT x, CONST_INT y) \<Rightarrow> vm_result vm (int_op_result op x y) (\<lambda>v. vm_set_top v vm)
         | _ \<Rightarrow> vm_fail vm ERR_OPERANDS_INTEGER))"

definition exec_stack_const_double :: "dbl_op \<Rightarrow> vm \<Rightarrow> vm + vm" where
  "exec_stack_const_double op vm =
     with_operands 2 vm (\<lambda>bs vm.
       if vm_stack_count vm \<le> 0 then vm_fail vm ERR_STACK_UNDERFLOW
       else with_constant vm (bs ! 0) (\<lambda>c.
         case (vm_top vm, c) of
           (VAL_DOUBLE x, CONST_DOUBLE y) \<Rightarrow> vm_result vm (dbl_op_result (vm_doubles vm) op x y) (\<lambda>v. vm_set_top v vm)
         | _ \<Rightarrow> vm_fail vm ERR_OPERANDS_DOUBLE))"

section \<open>Generic arithmetic and logic\<close>

text \<open>Two operands are popped, the result is pushed, then the operands are released.\<close>

definition exec_binary :: "(vm \<Rightarrow> Value \<Rightarrow> Value \<Rightarrow> vm_error + Value) \<Rightarrow> vm \<Rightarrow> vm + vm" where
  "exec_binary f vm =
     (case pop vm of (b, vm) \<Rightarrow>
        (case pop vm of (a, vm) \<Rightarrow>
           (case f vm a b of
              Inl e \<Rightarrow> Inl (vm_release b (vm_release a (vm_runtime_error vm e)))
            | Inr result \<Rightarrow> Inr (vm_release b (vm_release a (push vm result))))))"

definition exec_unary :: "(Value \<Rightarrow> vm_error + Value) \<Rightarrow> vm \<Rightarrow> vm + vm" where
  "exec_unary f vm =
     (case pop vm of (a, vm) \<Rightarrow>
        (case f a of
           Inl e \<Rightarrow> Inl (vm_release a (vm_runtime_error vm e))
         | Inr result \<Rightarrow> Inr (vm_release a (push vm result))))"

definition exec_arith :: "u8 \<Rightarrow> vm \<Rightarrow> vm + vm" where
  "exec_arith op = exec_binary (\<lambda>vm. vm_arith vm op)"

definition mod_result :: "Value \<Rightarrow> Value \<Rightarrow> vm_error + Value" where
  "mod_result a b =
     (if (is_bigint a \<or> is_bigint b) \<and> (is_double a \<or> is_double b) then Inl ERR_MIX_BIGINT_DOUBLE
      else if is_bigint a \<or> is_bigint b
      then arith_bigint ERR_OPERANDS_INTEGERS
             (\<lambda>x y. case obj_bigint_mod (Some x) (Some y) False of
                      (rem, div_by_zero) \<Rightarrow>
                        if div_by_zero then Inl ERR_DIVISION_BY_ZERO else Inr (VAL_BIGINT (Some rem))) a b
      else case (a, b) of
             (VAL_INT i, VAL_INT j) \<Rightarrow>
               if j = 0 then Inl ERR_DIVISION_BY_ZERO
               else if sint i = - 9223372036854775808 \<and> sint j = - 1 then Inl UNDEFINED
               else int64_result (sint i smod sint j)
           | _ \<Rightarrow> Inl ERR_OPERANDS_INTEGERS)"

definition exec_mod :: "vm \<Rightarrow> vm + vm" where
  "exec_mod = exec_binary (\<lambda>vm. mod_result)"

definition exec_neg_double :: "vm \<Rightarrow> vm + vm" where
  "exec_neg_double vm =
     (if vm_stack_count vm < 1 then vm_fail vm ERR_STACK_UNDERFLOW
      else case vm_top vm of
             VAL_DOUBLE x \<Rightarrow> Inr (vm_set_top (VAL_DOUBLE (double_neg x)) vm)
           | a \<Rightarrow> vm_fail (vm_drop 1 (vm_release a vm)) ERR_OPERAND_DOUBLE)"

definition neg_result :: "Value \<Rightarrow> vm_error + Value" where
  "neg_result a =
     (case a of
        VAL_INT i \<Rightarrow> int64_result (- sint i)
      | VAL_BIGINT b \<Rightarrow> Inr (VAL_BIGINT (Some (obj_bigint_negate b)))
      | VAL_DOUBLE d \<Rightarrow> Inr (VAL_DOUBLE (double_neg d))
      | _ \<Rightarrow> Inl ERR_OPERAND_NUMBER)"

definition exec_neg :: "vm \<Rightarrow> vm + vm" where
  "exec_neg = exec_unary neg_result"

text \<open>The square root of a number; anything else counts as zero.\<close>

definition sqrt_operand :: "vm \<Rightarrow> Value \<Rightarrow> u64" where
  "sqrt_operand vm v = (case v of VAL_DOUBLE x \<Rightarrow> x | VAL_INT i \<Rightarrow> d_of_int (vm_doubles vm) i | _ \<Rightarrow> 0)"

definition exec_sqrt_local_double :: "vm \<Rightarrow> vm + vm" where
  "exec_sqrt_local_double vm =
     with_operands 2 vm (\<lambda>bs vm.
       with_local vm (bs ! 0) (\<lambda>v. Inr (push vm (VAL_DOUBLE (d_sqrt (vm_doubles vm) (sqrt_operand vm v))))))"

definition exec_sqrt :: "vm \<Rightarrow> vm + vm" where
  "exec_sqrt vm =
     (if vm_stack_count vm \<le> 0 then vm_fail vm ERR_STACK_UNDERFLOW
      else case vm_top vm of
             VAL_DOUBLE x \<Rightarrow> Inr (vm_set_top (VAL_DOUBLE (d_sqrt (vm_doubles vm) x)) vm)
           | VAL_INT i \<Rightarrow> Inr (vm_set_top (VAL_DOUBLE (d_sqrt (vm_doubles vm) (d_of_int (vm_doubles vm) i))) vm)
           | v \<Rightarrow> Inr (vm_set_top (VAL_DOUBLE 0) (vm_release v vm)))"

definition equals_result :: "bool \<Rightarrow> Value \<Rightarrow> Value \<Rightarrow> vm_error + Value" where
  "equals_result eq a b =
     (case value_equals a b of None \<Rightarrow> Inl UNDEFINED | Some r \<Rightarrow> Inr (VAL_BOOL (r = eq)))"

definition exec_eq :: "vm \<Rightarrow> vm + vm" where
  "exec_eq = exec_binary (\<lambda>vm. equals_result True)"

definition exec_ne :: "vm \<Rightarrow> vm + vm" where
  "exec_ne = exec_binary (\<lambda>vm. equals_result False)"

definition exec_compare :: "u8 \<Rightarrow> vm \<Rightarrow> vm + vm" where
  "exec_compare op = exec_binary (\<lambda>vm. vm_compute_comparison_op op)"

definition exec_not :: "vm \<Rightarrow> vm + vm" where
  "exec_not = exec_unary (\<lambda>a.
     case a of VAL_BOOL p \<Rightarrow> Inr (VAL_BOOL (\<not> p)) | _ \<Rightarrow> Inl ERR_NOT)"

definition logic_result :: "(bool \<Rightarrow> bool \<Rightarrow> bool) \<Rightarrow> Value \<Rightarrow> Value \<Rightarrow> vm_error + Value" where
  "logic_result f a b =
     (case (a, b) of
        (VAL_BOOL p, VAL_BOOL q) \<Rightarrow> Inr (VAL_BOOL (f p q))
      | _ \<Rightarrow> Inl ERR_LOGICAL)"

definition exec_and :: "vm \<Rightarrow> vm + vm" where
  "exec_and = exec_binary (\<lambda>vm. logic_result (\<and>))"

definition exec_or :: "vm \<Rightarrow> vm + vm" where
  "exec_or = exec_binary (\<lambda>vm. logic_result (\<or>))"

definition exec_bit_not :: "vm \<Rightarrow> vm + vm" where
  "exec_bit_not = exec_unary (\<lambda>a.
     case a of
       VAL_INT i \<Rightarrow> Inr (VAL_INT (NOT i))
     | VAL_BIGINT b \<Rightarrow> Inr (VAL_BIGINT (Some (obj_bigint_bit_not b)))
     | _ \<Rightarrow> Inl ERR_BIT_NOT)"

definition bitwise_result :: "BigIntBitOp \<Rightarrow> Value \<Rightarrow> Value \<Rightarrow> vm_error + Value" where
  "bitwise_result op a b =
     (if is_bigint a \<or> is_bigint b
      then arith_bigint ERR_BITWISE
             (\<lambda>x y. Inr (VAL_BIGINT (Some (case op of
                 BIGINT_BITOP_AND \<Rightarrow> obj_bigint_bit_and (Some x) (Some y)
               | BIGINT_BITOP_OR \<Rightarrow> obj_bigint_bit_or (Some x) (Some y)
               | BIGINT_BITOP_XOR \<Rightarrow> obj_bigint_bit_xor (Some x) (Some y))))) a b
      else case (a, b) of
             (VAL_INT i, VAL_INT j) \<Rightarrow>
               Inr (VAL_INT (case op of BIGINT_BITOP_AND \<Rightarrow> i AND j | BIGINT_BITOP_OR \<Rightarrow> i OR j | BIGINT_BITOP_XOR \<Rightarrow> i XOR j))
           | _ \<Rightarrow> Inl ERR_BITWISE)"

definition exec_bitwise :: "BigIntBitOp \<Rightarrow> vm \<Rightarrow> vm + vm" where
  "exec_bitwise op = exec_binary (\<lambda>vm. bitwise_result op)"

section \<open>Branches\<close>

definition exec_jump :: "vm \<Rightarrow> vm + vm" where
  "exec_jump vm = with_operands 2 vm (\<lambda>bs vm. Inr (jump_if True (i16_operand (bs ! 0) (bs ! 1)) vm))"

definition exec_jump_if_local_cmp :: "cmp_op \<Rightarrow> vm \<Rightarrow> vm + vm" where
  "exec_jump_if_local_cmp op vm =
     with_operands 4 vm (\<lambda>bs vm.
       with_local vm (bs ! 0) (\<lambda>a. with_local vm (bs ! 1) (\<lambda>b.
         case same_type_cmp op a b of
           None \<Rightarrow> vm_fail vm ERR_SAME_NUMERIC
         | Some should_jump \<Rightarrow> Inr (jump_if should_jump (i16_operand (bs ! 2) (bs ! 3)) vm))))"

text \<open>A jump on (in)equality; a comparison that C leaves undefined is a failure.\<close>

definition jump_on_equality :: "bool \<Rightarrow> bool option \<Rightarrow> int \<Rightarrow> vm \<Rightarrow> vm + vm" where
  "jump_on_equality eq r offset vm =
     (case r of None \<Rightarrow> vm_fail vm UNDEFINED | Some e \<Rightarrow> Inr (jump_if (e = eq) offset vm))"

definition exec_jump_if_local_eq :: "bool \<Rightarrow> vm \<Rightarrow> vm + vm" where
  "exec_jump_if_local_eq eq vm =
     with_operands 4 vm (\<lambda>bs vm.
       with_local vm (bs ! 0) (\<lambda>a. with_local vm (bs ! 1) (\<lambda>b.
         jump_on_equality eq (vm_value_equals_fast_for_branch a b) (i16_operand (bs ! 2) (bs ! 3)) vm)))"

definition exec_jump_if_local_cmp_const :: "cmp_op \<Rightarrow> vm \<Rightarrow> vm + vm" where
  "exec_jump_if_local_cmp_const op vm =
     with_operands 4 vm (\<lambda>bs vm.
       with_constant vm (bs ! 1) (\<lambda>c. with_local vm (bs ! 0) (\<lambda>a.
         case const_type_cmp op a c of
           None \<Rightarrow> vm_fail vm ERR_SAME_NUMERIC
         | Some should_jump \<Rightarrow> Inr (jump_if should_jump (i16_operand (bs ! 2) (bs ! 3)) vm))))"

definition exec_jump_if_local_eq_const :: "bool \<Rightarrow> vm \<Rightarrow> vm + vm" where
  "exec_jump_if_local_eq_const eq vm =
     with_operands 4 vm (\<lambda>bs vm.
       with_constant vm (bs ! 1) (\<lambda>c. with_local vm (bs ! 0) (\<lambda>a.
         Inr (jump_if (vm_value_equals_constant_fast_for_branch a c = eq) (i16_operand (bs ! 2) (bs ! 3)) vm))))"

text \<open>The fallback reads the constant without checking its index or its type.\<close>

definition exec_jump_if_local_eq_global :: "bool \<Rightarrow> vm \<Rightarrow> vm + vm" where
  "exec_jump_if_local_eq_global eq vm =
     with_operands 4 vm (\<lambda>bs vm.
       with_local vm (bs ! 0) (\<lambda>a.
         with_slot vm (int (unat (bs ! 1))) (\<lambda>slot vm.
           let offset = i16_operand (bs ! 2) (bs ! 3)
           in if slot_in_use vm slot
              then let vm = (if slot \<le> 255
                             then patch_code [(5, if eq then OP_JUMP_IF_LOCAL_EQ_GLOBAL_SLOT else OP_JUMP_IF_LOCAL_NE_GLOBAL_SLOT),
                                              (3, word_of_int slot)] vm
                             else vm)
                   in jump_on_equality eq (vm_value_equals_fast_for_branch a (global_in_slot vm slot)) offset vm
              else if unat (bs ! 1) \<ge> length (vm_constants vm) then vm_fail vm UNDEFINED
              else case fallback_name vm (bs ! 1) of
                     Inl e \<Rightarrow>
                       if e = ERR_INVALID_NAME then jump_on_equality eq (vm_value_equals_fast_for_branch a VAL_NIL) offset vm
                       else vm_fail vm e
                   | Inr name \<Rightarrow>
                       (case get_global_named vm name of
                          Inl e \<Rightarrow> vm_fail vm e
                        | Inr b \<Rightarrow> jump_on_equality eq (vm_value_equals_fast_for_branch a b) offset vm))))"

definition exec_jump_if_local_eq_global_slot :: "bool \<Rightarrow> vm \<Rightarrow> vm + vm" where
  "exec_jump_if_local_eq_global_slot eq vm =
     with_operands 4 vm (\<lambda>bs vm.
       if int (unat (bs ! 1)) \<ge> vg_count (vm_globs vm) then vm_fail vm ERR_GLOBAL_SLOT_OUT_OF_BOUNDS
       else with_local vm (bs ! 0) (\<lambda>a.
         jump_on_equality eq (vm_value_equals_fast_for_branch a (global_in_slot vm (int (unat (bs ! 1)))))
           (i16_operand (bs ! 2) (bs ! 3)) vm))"

definition exec_jump_if_stack_cmp_local :: "cmp_op \<Rightarrow> vm \<Rightarrow> vm + vm" where
  "exec_jump_if_stack_cmp_local op vm =
     with_operands 3 vm (\<lambda>bs vm.
       if vm_stack_count vm \<le> 0 then vm_fail vm ERR_STACK_UNDERFLOW
       else with_local vm (bs ! 0) (\<lambda>b.
         case same_type_cmp op (vm_top vm) b of
           None \<Rightarrow> vm_fail vm ERR_SAME_NUMERIC
         | Some should_jump \<Rightarrow> Inr (jump_if should_jump (i16_operand (bs ! 1) (bs ! 2)) (vm_drop 1 vm))))"

definition exec_jump_if_stack_cmp_const :: "cmp_op \<Rightarrow> vm \<Rightarrow> vm + vm" where
  "exec_jump_if_stack_cmp_const op vm =
     with_operands 3 vm (\<lambda>bs vm.
       with_constant vm (bs ! 0) (\<lambda>c.
         if vm_stack_count vm \<le> 0 then vm_fail vm ERR_STACK_UNDERFLOW
         else case const_type_cmp op (vm_top vm) c of
                None \<Rightarrow> vm_fail vm ERR_SAME_NUMERIC
              | Some should_jump \<Rightarrow> Inr (jump_if should_jump (i16_operand (bs ! 1) (bs ! 2)) (vm_drop 1 vm))))"

text \<open>An element of an array as a condition.\<close>

definition array_bool_at :: "ObjArray \<Rightarrow> nat \<Rightarrow> bool option" where
  "array_bool_at arr i =
     (case oa_data arr of
        Bools bs \<Rightarrow> Some (bs ! i \<noteq> 0)
      | Elements es \<Rightarrow> (case es ! i of VAL_BOOL b \<Rightarrow> Some b | _ \<Rightarrow> None)
      | _ \<Rightarrow> None)"

definition jump_if_element_false :: "vm \<Rightarrow> ObjArray \<Rightarrow> int \<Rightarrow> int \<Rightarrow> vm + vm" where
  "jump_if_element_false vm arr idx offset =
     (if idx < 0 \<or> idx \<ge> oa_count arr then vm_fail vm ERR_ARRAY_INDEX_OUT_OF_BOUNDS
      else case array_bool_at arr (nat idx) of
             None \<Rightarrow> vm_fail vm ERR_CONDITION_BOOL
           | Some is_true \<Rightarrow> Inr (jump_if (\<not> is_true) offset vm))"

definition exec_jump_if_array_false_local_const :: "vm \<Rightarrow> vm + vm" where
  "exec_jump_if_array_false_local_const vm =
     with_operands 4 vm (\<lambda>bs vm.
       with_local vm (bs ! 0) (\<lambda>array.
         case array of
           VAL_ARRAY p \<Rightarrow> jump_if_element_false vm (vm_arrays vm p) (int (unat (bs ! 1))) (i16_operand (bs ! 2) (bs ! 3))
         | _ \<Rightarrow> vm_fail vm ERR_CANNOT_INDEX_NON_ARRAY))"

definition exec_jump_if_array_false_local_local :: "vm \<Rightarrow> vm + vm" where
  "exec_jump_if_array_false_local_local vm =
     with_operands 4 vm (\<lambda>bs vm.
       with_local vm (bs ! 1) (\<lambda>idx.
         case idx of
           VAL_INT i \<Rightarrow>
             with_local vm (bs ! 0) (\<lambda>array.
               case array of
                 VAL_ARRAY p \<Rightarrow> jump_if_element_false vm (vm_arrays vm p) (sint i) (i16_operand (bs ! 2) (bs ! 3))
               | _ \<Rightarrow> vm_fail vm ERR_CANNOT_INDEX_NON_ARRAY)
         | _ \<Rightarrow> vm_fail vm ERR_ARRAY_INDEX_INTEGER))"

definition exec_jump_if_false :: "vm \<Rightarrow> vm + vm" where
  "exec_jump_if_false vm =
     with_operands 2 vm (\<lambda>bs vm.
       case peek vm 0 of (condition, vm) \<Rightarrow>
         (case condition of
            VAL_BOOL c \<Rightarrow> Inr (jump_if (\<not> c) (i16_operand (bs ! 0) (bs ! 1)) vm)
          | _ \<Rightarrow> vm_fail vm ERR_CONDITION_BOOL))"

text \<open>The offset is relative to the byte before the padding, which only the fall-through path consumes.\<close>

definition exec_jump_if_false_pop :: "vm \<Rightarrow> vm + vm" where
  "exec_jump_if_false_pop vm =
     with_operands 3 vm (\<lambda>bs vm.
       let vm = vm\<lparr>vm_ip := vm_ip vm - 1\<rparr>
       in case peek vm 0 of (condition, vm) \<Rightarrow>
            (case condition of
               VAL_BOOL c \<Rightarrow>
                 if \<not> c then Inr (jump_if True (i16_operand (bs ! 0) (bs ! 1)) vm)
                 else (case pop (vm\<lparr>vm_ip := vm_ip vm + 1\<rparr>) of (val, vm) \<Rightarrow> Inr (vm_release val vm))
             | _ \<Rightarrow> vm_fail vm ERR_CONDITION_BOOL))"

end
