(* ===== verification/VM_Arrays.thy ===== *)
theory VM_Arrays
  imports VM_Ops
begin

text \<open>
  The handlers of \<^verbatim>\<open>vm_run_loop\<close> in \<^verbatim>\<open>src/src/vm.c\<close> for arrays and byte slices: reading, writing, the fused forms,
  length, push and pop, and the operations on a whole array or a prefix of it.
\<close>

section \<open>Elements\<close>

text \<open>A byte of a slice; a byte that was never written is undefined.\<close>

definition byte_at :: "vm \<Rightarrow> addr \<Rightarrow> int \<Rightarrow> vm_error + Value" where
  "byte_at vm p idx =
     (if idx < 0 \<or> idx \<ge> by_length (vm_bytes vm p) then Inl ERR_ARRAY_INDEX_OUT_OF_BOUNDS
      else case obj_bytes_data (vm_byte_store vm) (Some (vm_bytes vm p)) of
             None \<Rightarrow> Inl ERR_INVALID_BYTES_BUFFER
           | Some data \<Rightarrow>
               if nat idx < length data
               then (case data ! nat idx of None \<Rightarrow> Inl UNDEFINED | Some b \<Rightarrow> Inr (VAL_INT (ucast b)))
               else Inl UNDEFINED)"

definition indexed_value :: "vm \<Rightarrow> Value \<Rightarrow> int \<Rightarrow> vm_error + Value" where
  "indexed_value vm v idx =
     (case v of
        VAL_BYTES p \<Rightarrow> byte_at vm p idx
      | VAL_ARRAY p \<Rightarrow>
          if idx < 0 \<or> idx \<ge> oa_count (vm_arrays vm p) then Inl ERR_ARRAY_INDEX_OUT_OF_BOUNDS
          else Inr (array_load (oa_data (vm_arrays vm p)) (nat idx))
      | _ \<Rightarrow> Inl ERR_CANNOT_INDEX_NON_ARRAY)"

text \<open>An element of an array of ints or bytes, or of boxed values that are ints; and the double form.\<close>

definition array_int_at :: "ObjArray \<Rightarrow> nat \<Rightarrow> u64 option" where
  "array_int_at arr i =
     (case oa_data arr of
        Ints is \<Rightarrow> Some (is ! i)
      | Bytes bs \<Rightarrow> Some (ucast (bs ! i))
      | Elements es \<Rightarrow> (case es ! i of VAL_INT n \<Rightarrow> Some n | _ \<Rightarrow> None)
      | _ \<Rightarrow> None)"

definition int_element :: "ObjArray \<Rightarrow> nat \<Rightarrow> vm_error + Value" where
  "int_element arr i = (case array_int_at arr i of None \<Rightarrow> Inl ERR_ARRAY_ELEMENT_INTEGER | Some n \<Rightarrow> Inr (VAL_INT n))"

definition double_element :: "ObjArray \<Rightarrow> nat \<Rightarrow> vm_error + Value" where
  "double_element arr i = (case array_double_at arr i of None \<Rightarrow> Inl ERR_ARRAY_ELEMENT_DOUBLE | Some d \<Rightarrow> Inr (VAL_DOUBLE d))"

definition typed_value :: "(ObjArray \<Rightarrow> nat \<Rightarrow> vm_error + Value) \<Rightarrow> vm \<Rightarrow> Value \<Rightarrow> int \<Rightarrow> vm_error + Value" where
  "typed_value elem vm v idx =
     (case v of
        VAL_ARRAY p \<Rightarrow>
          if idx < 0 \<or> idx \<ge> oa_count (vm_arrays vm p) then Inl ERR_ARRAY_INDEX_OUT_OF_BOUNDS
          else elem (vm_arrays vm p) (nat idx)
      | _ \<Rightarrow> Inl ERR_CANNOT_INDEX_NON_ARRAY)"

section \<open>Reading\<close>

definition exec_array_new :: "vm \<Rightarrow> vm + vm" where
  "exec_array_new vm =
     with_operands 1 vm (\<lambda>bs vm.
       let cnt = int (unat (bs ! 0)); p = vm_next_array vm;
           arr = obj_array_create (if cnt > 0 then cnt else 4)
       in Inr (push (vm\<lparr>vm_arrays := (vm_arrays vm)(p := arr), vm_next_array := p + 1\<rparr>) (VAL_ARRAY p)))"

definition exec_array_get_local :: "vm \<Rightarrow> vm + vm" where
  "exec_array_get_local vm =
     with_operands 1 vm (\<lambda>bs vm.
       case pop vm of (idx_val, vm) \<Rightarrow>
         (case idx_val of
            VAL_INT i \<Rightarrow>
              with_local vm (bs ! 0) (\<lambda>array. vm_result vm (indexed_value vm array (sint i)) (\<lambda>v. push (vm_retain v vm) v))
          | _ \<Rightarrow> Inl (vm_release idx_val (vm_runtime_error vm ERR_ARRAY_INDEX_INTEGER))))"

definition exec_array_get_local_const :: "vm \<Rightarrow> vm + vm" where
  "exec_array_get_local_const vm =
     with_operands 2 vm (\<lambda>bs vm.
       with_local vm (bs ! 0) (\<lambda>array.
         vm_result vm (indexed_value vm array (int (unat (bs ! 1)))) (\<lambda>v. push (vm_retain v vm) v)))"

definition exec_array_get_local_local :: "vm \<Rightarrow> vm + vm" where
  "exec_array_get_local_local vm =
     with_operands 2 vm (\<lambda>bs vm.
       with_local vm (bs ! 1) (\<lambda>idx.
         case idx of
           VAL_INT i \<Rightarrow>
             with_local vm (bs ! 0) (\<lambda>array. vm_result vm (indexed_value vm array (sint i)) (\<lambda>v. push (vm_retain v vm) v))
         | _ \<Rightarrow> vm_fail vm ERR_ARRAY_INDEX_INTEGER))"

text \<open>The forms for ints and doubles, up to the kind of the element.\<close>

definition exec_array_get_const_typed :: "(ObjArray \<Rightarrow> nat \<Rightarrow> vm_error + Value) \<Rightarrow> vm \<Rightarrow> vm + vm" where
  "exec_array_get_const_typed elem vm =
     with_operands 2 vm (\<lambda>bs vm.
       with_local vm (bs ! 0) (\<lambda>array. vm_result vm (typed_value elem vm array (int (unat (bs ! 1)))) (push vm)))"

definition exec_array_get_local_typed :: "(ObjArray \<Rightarrow> nat \<Rightarrow> vm_error + Value) \<Rightarrow> vm \<Rightarrow> vm + vm" where
  "exec_array_get_local_typed elem vm =
     with_operands 2 vm (\<lambda>bs vm.
       with_local vm (bs ! 1) (\<lambda>idx.
         case idx of
           VAL_INT i \<Rightarrow> with_local vm (bs ! 0) (\<lambda>array. vm_result vm (typed_value elem vm array (sint i)) (push vm))
         | _ \<Rightarrow> vm_fail vm ERR_ARRAY_INDEX_INTEGER))"

definition store_element_to_local :: "u8 \<Rightarrow> vm \<Rightarrow> vm_error + Value \<Rightarrow> vm + vm" where
  "store_element_to_local dst vm r =
     (case r of
        Inl e \<Rightarrow> vm_fail vm e
      | Inr v \<Rightarrow> with_local vm dst (\<lambda>dest. Inr (set_local dst v (vm_release dest vm))))"

definition exec_array_get_const_to_local :: "(ObjArray \<Rightarrow> nat \<Rightarrow> vm_error + Value) \<Rightarrow> vm \<Rightarrow> vm + vm" where
  "exec_array_get_const_to_local elem vm =
     with_operands 4 vm (\<lambda>bs vm.
       with_local vm (bs ! 0) (\<lambda>array.
         case array of
           VAL_ARRAY p \<Rightarrow> store_element_to_local (bs ! 2) vm (typed_value elem vm array (int (unat (bs ! 1))))
         | _ \<Rightarrow> vm_fail vm ERR_CANNOT_INDEX_NON_ARRAY))"

definition exec_array_get_local_to_local :: "(ObjArray \<Rightarrow> nat \<Rightarrow> vm_error + Value) \<Rightarrow> vm \<Rightarrow> vm + vm" where
  "exec_array_get_local_to_local elem vm =
     with_operands 4 vm (\<lambda>bs vm.
       with_local vm (bs ! 0) (\<lambda>array.
         case array of
           VAL_ARRAY p \<Rightarrow>
             with_local vm (bs ! 1) (\<lambda>idx.
               case idx of
                 VAL_INT i \<Rightarrow> store_element_to_local (bs ! 2) vm (typed_value elem vm array (sint i))
               | _ \<Rightarrow> vm_fail vm ERR_ARRAY_INDEX_INTEGER)
         | _ \<Rightarrow> vm_fail vm ERR_CANNOT_INDEX_NON_ARRAY))"

text \<open>Multiply and add: \<open>acc + factor * element\<close>, the factor on the stack.\<close>

definition madd_int :: "u64 \<Rightarrow> u64 \<Rightarrow> u64 \<Rightarrow> vm_error + Value" where
  "madd_int acc factor elem =
     (case int_op_result I_MUL factor elem of
        Inr (VAL_INT product) \<Rightarrow> int_op_result I_ADD acc product
      | r \<Rightarrow> r)"

definition exec_madd_int :: "vm \<Rightarrow> vm + vm" where
  "exec_madd_int vm =
     with_operands 3 vm (\<lambda>bs vm.
       if vm_stack_count vm \<le> 0 then vm_fail vm ERR_STACK_UNDERFLOW
       else case vm_top vm of
         VAL_INT factor \<Rightarrow>
           with_local vm (bs ! 0) (\<lambda>acc. case acc of
             VAL_INT a \<Rightarrow>
               with_local vm (bs ! 2) (\<lambda>idx. case idx of
                 VAL_INT i \<Rightarrow>
                   with_local vm (bs ! 1) (\<lambda>array.
                     case typed_value int_element vm array (sint i) of
                       Inr (VAL_INT elem) \<Rightarrow>
                         vm_result vm (madd_int a factor elem) (\<lambda>v. vm_drop 1 (set_local (bs ! 0) v vm))
                     | r \<Rightarrow> vm_result vm r (\<lambda>v. vm))
               | _ \<Rightarrow> vm_fail vm ERR_ARRAY_INDEX_INTEGER)
           | _ \<Rightarrow> vm_fail vm ERR_ACCUMULATOR_INTEGER)
       | _ \<Rightarrow> vm_fail vm ERR_OPERAND_INTEGER)"

definition exec_madd_double :: "vm \<Rightarrow> vm + vm" where
  "exec_madd_double vm =
     with_operands 3 vm (\<lambda>bs vm.
       if vm_stack_count vm \<le> 0 then vm_fail vm ERR_STACK_UNDERFLOW
       else case vm_top vm of
         VAL_DOUBLE factor \<Rightarrow>
           with_local vm (bs ! 0) (\<lambda>acc. case acc of
             VAL_DOUBLE a \<Rightarrow>
               with_local vm (bs ! 2) (\<lambda>idx. case idx of
                 VAL_INT i \<Rightarrow>
                   with_local vm (bs ! 1) (\<lambda>array.
                     case typed_value double_element vm array (sint i) of
                       Inr (VAL_DOUBLE elem) \<Rightarrow>
                         Inr (vm_drop 1 (set_local (bs ! 0)
                           (VAL_DOUBLE (d_add (vm_doubles vm) a (d_mul (vm_doubles vm) factor elem))) vm))
                     | r \<Rightarrow> vm_result vm r (\<lambda>v. vm))
               | _ \<Rightarrow> vm_fail vm ERR_ARRAY_INDEX_INTEGER)
           | _ \<Rightarrow> vm_fail vm ERR_ACCUMULATOR_DOUBLE)
       | _ \<Rightarrow> vm_fail vm ERR_OPERAND_DOUBLE)"

definition bounds_check :: "vm \<Rightarrow> Value \<Rightarrow> int \<Rightarrow> vm + vm" where
  "bounds_check vm array idx =
     (case array of
        VAL_ARRAY p \<Rightarrow>
          if idx < 0 \<or> idx \<ge> oa_count (vm_arrays vm p) then vm_fail vm ERR_ARRAY_INDEX_OUT_OF_BOUNDS else Inr vm
      | _ \<Rightarrow> vm_fail vm ERR_CANNOT_INDEX_NON_ARRAY)"

definition exec_array_bounds_check_local_const :: "vm \<Rightarrow> vm + vm" where
  "exec_array_bounds_check_local_const vm =
     with_operands 2 vm (\<lambda>bs vm. with_local vm (bs ! 0) (\<lambda>array. bounds_check vm array (int (unat (bs ! 1)))))"

definition exec_array_bounds_check_local_local :: "vm \<Rightarrow> vm + vm" where
  "exec_array_bounds_check_local_local vm =
     with_operands 2 vm (\<lambda>bs vm.
       with_local vm (bs ! 1) (\<lambda>idx.
         case idx of
           VAL_INT i \<Rightarrow> with_local vm (bs ! 0) (\<lambda>array. bounds_check vm array (sint i))
         | _ \<Rightarrow> vm_fail vm ERR_ARRAY_INDEX_INTEGER))"

text \<open>The checks of \<^verbatim>\<open>OP_ARRAY_GET\<close> and \<^verbatim>\<open>OP_ARRAY_SET\<close> before the kind of the object matters: the index as an \<open>int\<close>.\<close>

definition checked_index :: "Value \<Rightarrow> Value \<Rightarrow> vm_error + int" where
  "checked_index array_val idx_val =
     (case array_val of
        VAL_ARRAY p \<Rightarrow> (case idx_val of VAL_INT i \<Rightarrow> if sint i < 0 \<or> sint i > INT_MAX then Inl ERR_ARRAY_INDEX_OUT_OF_RANGE else Inr (sint i)
                                     | _ \<Rightarrow> Inl ERR_ARRAY_INDEX_INTEGER)
      | VAL_BYTES p \<Rightarrow> (case idx_val of VAL_INT i \<Rightarrow> if sint i < 0 \<or> sint i > INT_MAX then Inl ERR_ARRAY_INDEX_OUT_OF_RANGE else Inr (sint i)
                                     | _ \<Rightarrow> Inl ERR_ARRAY_INDEX_INTEGER)
      | _ \<Rightarrow> Inl ERR_CANNOT_INDEX_NON_ARRAY)"

definition exec_array_get :: "vm \<Rightarrow> vm + vm" where
  "exec_array_get vm =
     (case pop vm of (idx_val, vm) \<Rightarrow>
        (case pop vm of (array_val, vm) \<Rightarrow>
           let fail = (\<lambda>e. Inl (vm_release idx_val (vm_release array_val (vm_runtime_error vm e))))
           in case checked_index array_val idx_val of
                Inl e \<Rightarrow> fail e
              | Inr idx \<Rightarrow>
                  (case indexed_value vm array_val idx of
                     Inl e \<Rightarrow> fail e
                   | Inr v \<Rightarrow> Inr (vm_release idx_val (vm_release array_val (push (vm_retain v vm) v))))))"

section \<open>Writing\<close>

text \<open>Overwriting an element; the old element of an array of boxed values is released.\<close>

definition store_element :: "addr \<Rightarrow> nat \<Rightarrow> Value \<Rightarrow> vm \<Rightarrow> vm" where
  "store_element p i v vm =
     (let arr = vm_arrays vm p;
          vm = (case oa_data arr of Elements es \<Rightarrow> vm_release (es ! i) vm | _ \<Rightarrow> vm)
      in vm\<lparr>vm_arrays := (vm_arrays vm)(p := array_store arr i v)\<rparr>)"

definition store_byte :: "addr \<Rightarrow> nat \<Rightarrow> u8 \<Rightarrow> vm \<Rightarrow> vm" where
  "store_byte p i b vm =
     (let bytes = vm_bytes vm p; st = vm_byte_store vm
      in case by_buffer bytes of
           None \<Rightarrow> vm
         | Some a \<Rightarrow>
             vm\<lparr>vm_byte_store := st\<lparr>bs_buffers := (bs_buffers st)(a := map_option
                  (\<lambda>buf. buf\<lparr>bb_data := (bb_data buf)[nat (by_offset bytes) + i := Some b]\<rparr>) (bs_buffers st a))\<rparr>\<rparr>)"

definition set_byte :: "vm \<Rightarrow> addr \<Rightarrow> int \<Rightarrow> Value \<Rightarrow> vm_error + vm" where
  "set_byte vm p idx v =
     (if idx < 0 \<or> idx \<ge> by_length (vm_bytes vm p) then Inl ERR_ARRAY_INDEX_OUT_OF_BOUNDS
      else case v of
             VAL_INT n \<Rightarrow>
               if sint n < 0 \<or> sint n > 255 then Inl ERR_BYTES_RANGE
               else (case obj_bytes_data (vm_byte_store vm) (Some (vm_bytes vm p)) of
                       None \<Rightarrow> Inl ERR_INVALID_BYTES_BUFFER
                     | Some data \<Rightarrow>
                         if nat idx < length data then Inr (store_byte p (nat idx) (ucast n) vm) else Inl UNDEFINED)
           | _ \<Rightarrow> Inl ERR_BYTES_RANGE)"

definition set_indexed :: "vm \<Rightarrow> Value \<Rightarrow> int \<Rightarrow> Value \<Rightarrow> vm_error + vm" where
  "set_indexed vm array idx v =
     (case array of
        VAL_BYTES p \<Rightarrow> set_byte vm p idx v
      | VAL_ARRAY p \<Rightarrow>
          if idx < 0 \<or> idx \<ge> oa_count (vm_arrays vm p) then Inl ERR_ARRAY_INDEX_OUT_OF_BOUNDS
          else Inr (store_element p (nat idx) v vm)
      | _ \<Rightarrow> Inl ERR_CANNOT_INDEX_NON_ARRAY)"

text \<open>A failed write releases the value.\<close>

definition set_or_release :: "vm \<Rightarrow> Value \<Rightarrow> int \<Rightarrow> Value \<Rightarrow> vm + vm" where
  "set_or_release vm array idx v =
     (case set_indexed vm array idx v of Inl e \<Rightarrow> Inl (vm_release v (vm_runtime_error vm e)) | Inr vm \<Rightarrow> Inr vm)"

definition exec_array_set_local :: "vm \<Rightarrow> vm + vm" where
  "exec_array_set_local vm =
     with_operands 1 vm (\<lambda>bs vm.
       case pop vm of (v, vm) \<Rightarrow>
         (case pop vm of (idx_val, vm) \<Rightarrow>
            (case idx_val of
               VAL_INT i \<Rightarrow> with_local vm (bs ! 0) (\<lambda>array. set_or_release vm array (sint i) v)
             | _ \<Rightarrow> Inl (vm_release v (vm_release idx_val (vm_runtime_error vm ERR_ARRAY_INDEX_INTEGER))))))"

definition exec_array_set_local_const :: "vm \<Rightarrow> vm + vm" where
  "exec_array_set_local_const vm =
     with_operands 2 vm (\<lambda>bs vm.
       case pop vm of (v, vm) \<Rightarrow>
         with_local vm (bs ! 0) (\<lambda>array. set_or_release vm array (int (unat (bs ! 1))) v))"

definition exec_array_set_local_local :: "vm \<Rightarrow> vm + vm" where
  "exec_array_set_local_local vm =
     with_operands 2 vm (\<lambda>bs vm.
       case pop vm of (v, vm) \<Rightarrow>
         with_local vm (bs ! 1) (\<lambda>idx.
           case idx of
             VAL_INT i \<Rightarrow> with_local vm (bs ! 0) (\<lambda>array. set_or_release vm array (sint i) v)
           | _ \<Rightarrow> Inl (vm_release v (vm_runtime_error vm ERR_ARRAY_INDEX_INTEGER))))"

text \<open>The forms for ints and doubles: the value and the kind of the array must be right.\<close>

datatype element_type = INT_ELEMENTS | DOUBLE_ELEMENTS

definition element_error :: "element_type \<Rightarrow> vm_error" where
  "element_error t = (case t of INT_ELEMENTS \<Rightarrow> ERR_ARRAY_ELEMENT_INTEGER | DOUBLE_ELEMENTS \<Rightarrow> ERR_ARRAY_ELEMENT_DOUBLE)"

definition is_element :: "element_type \<Rightarrow> Value \<Rightarrow> bool" where
  "is_element t v \<longleftrightarrow> (case (t, v) of (INT_ELEMENTS, VAL_INT n) \<Rightarrow> True | (DOUBLE_ELEMENTS, VAL_DOUBLE d) \<Rightarrow> True | _ \<Rightarrow> False)"

definition element_kinds :: "element_type \<Rightarrow> ArrayKind list" where
  "element_kinds t =
     (case t of
        INT_ELEMENTS \<Rightarrow> [ARRAY_KIND_INT, ARRAY_KIND_BYTE, ARRAY_KIND_BOXED]
      | DOUBLE_ELEMENTS \<Rightarrow> [ARRAY_KIND_DOUBLE, ARRAY_KIND_BOXED])"

definition set_typed :: "element_type \<Rightarrow> vm \<Rightarrow> Value \<Rightarrow> int \<Rightarrow> Value \<Rightarrow> vm + vm" where
  "set_typed t vm array idx v =
     (case array of
        VAL_ARRAY p \<Rightarrow>
          let arr = vm_arrays vm p
          in if idx < 0 \<or> idx \<ge> oa_count arr then vm_fail vm ERR_ARRAY_INDEX_OUT_OF_BOUNDS
             else if array_data_kind (oa_data arr) \<in> set (element_kinds t) then Inr (store_element p (nat idx) v vm)
             else vm_fail vm (element_error t)
      | _ \<Rightarrow> vm_fail vm ERR_CANNOT_INDEX_NON_ARRAY)"

definition exec_array_set_const_typed :: "element_type \<Rightarrow> vm \<Rightarrow> vm + vm" where
  "exec_array_set_const_typed t vm =
     with_operands 2 vm (\<lambda>bs vm.
       case pop vm of (v, vm) \<Rightarrow>
         if \<not> is_element t v then Inl (vm_release v (vm_runtime_error vm (element_error t)))
         else with_local vm (bs ! 0) (\<lambda>array. set_typed t vm array (int (unat (bs ! 1))) v))"

definition exec_array_set_local_typed :: "element_type \<Rightarrow> vm \<Rightarrow> vm + vm" where
  "exec_array_set_local_typed t vm =
     with_operands 2 vm (\<lambda>bs vm.
       case pop vm of (v, vm) \<Rightarrow>
         if \<not> is_element t v then Inl (vm_release v (vm_runtime_error vm (element_error t)))
         else with_local vm (bs ! 1) (\<lambda>idx.
                case idx of
                  VAL_INT i \<Rightarrow> with_local vm (bs ! 0) (\<lambda>array. set_typed t vm array (sint i) v)
                | _ \<Rightarrow> vm_fail vm ERR_ARRAY_INDEX_INTEGER))"

text \<open>The stack form leaves the value on the stack; an array of boxed values takes a reference of its own.\<close>

definition exec_array_set :: "vm \<Rightarrow> vm + vm" where
  "exec_array_set vm =
     (case pop vm of (v, vm) \<Rightarrow>
        (case pop vm of (idx_val, vm) \<Rightarrow>
           (case pop vm of (array_val, vm) \<Rightarrow>
              let fail = (\<lambda>e. Inl (vm_release v (vm_release idx_val (vm_release array_val (vm_runtime_error vm e)))))
              in case checked_index array_val idx_val of
                   Inl e \<Rightarrow> fail e
                 | Inr idx \<Rightarrow>
                     (case set_indexed vm array_val idx v of
                        Inl e \<Rightarrow> fail e
                      | Inr vm \<Rightarrow> Inr (vm_release idx_val (vm_release array_val (push (vm_retain v vm) v)))))))"

section \<open>Whole arrays\<close>

text \<open>
  Copying the elements of one array over those of another.  Arrays of different kinds are boxed first; boxed values
  whose first elements are both unmanaged are copied without touching reference counts.
\<close>

definition copy_elements :: "addr \<Rightarrow> addr \<Rightarrow> vm \<Rightarrow> vm" where
  "copy_elements dst src vm =
     (let vm = (if array_data_kind (oa_data (vm_arrays vm src)) \<noteq> array_data_kind (oa_data (vm_arrays vm dst))
                then let vm = vm\<lparr>vm_arrays := (vm_arrays vm)(src := obj_array_convert_to_boxed (vm_arrays vm src))\<rparr>
                     in vm\<lparr>vm_arrays := (vm_arrays vm)(dst := obj_array_convert_to_boxed (vm_arrays vm dst))\<rparr>
                else vm);
          s = vm_arrays vm src; d = vm_arrays vm dst;
          vm' = vm\<lparr>vm_arrays := (vm_arrays vm)(dst := d\<lparr>oa_data := oa_data s\<rparr>)\<rparr>
      in case (oa_data s, oa_data d) of
           (Elements es, Elements ds) \<Rightarrow>
             if es \<noteq> [] \<and> value_type_is_unmanaged (hd es) \<and> value_type_is_unmanaged (hd ds) then vm'
             else vm_log (managed_events (concat (map (\<lambda>(e, d). [Retain e, Release d]) (zip es ds)))) vm'
         | _ \<Rightarrow> vm')"

definition copy_checked :: "Value \<Rightarrow> Value \<Rightarrow> vm \<Rightarrow> vm_error + vm" where
  "copy_checked dst src vm =
     (case (dst, src) of
        (VAL_ARRAY d, VAL_ARRAY s) \<Rightarrow>
          if oa_count (vm_arrays vm d) \<noteq> oa_count (vm_arrays vm s) then Inl ERR_COPY_LENGTH else Inr (copy_elements d s vm)
      | _ \<Rightarrow> Inl ERR_COPY_ARRAYS)"

definition exec_array_copy :: "vm \<Rightarrow> vm + vm" where
  "exec_array_copy vm =
     (case pop vm of (src_val, vm) \<Rightarrow>
        (case pop vm of (dst_val, vm) \<Rightarrow>
           (case copy_checked dst_val src_val vm of
              Inl e \<Rightarrow> Inl (vm_release src_val (vm_release dst_val (vm_runtime_error vm e)))
            | Inr vm \<Rightarrow> Inr (vm_release src_val (vm_release dst_val vm)))))"

definition exec_array_copy_local_local :: "vm \<Rightarrow> vm + vm" where
  "exec_array_copy_local_local vm =
     with_operands 2 vm (\<lambda>bs vm.
       with_local vm (bs ! 0) (\<lambda>dst. with_local vm (bs ! 1) (\<lambda>src.
         case copy_checked dst src vm of Inl e \<Rightarrow> vm_fail vm e | Inr vm \<Rightarrow> Inr vm)))"

text \<open>The loops over a prefix, on a list of any kind.\<close>

function reverse_loop :: "'a list \<Rightarrow> nat \<Rightarrow> nat \<Rightarrow> 'a list" where
  "reverse_loop xs lo hi = (if lo < hi then reverse_loop (xs[lo := xs ! hi, hi := xs ! lo]) (lo + 1) (hi - 1) else xs)"
  by pat_completeness auto
termination
  by (relation "measure (\<lambda>(xs, lo, hi). hi - lo)") auto

declare reverse_loop.simps [simp del]

fun shift_left_loop :: "'a list \<Rightarrow> nat \<Rightarrow> nat \<Rightarrow> 'a list" where
  "shift_left_loop xs i 0 = xs"
| "shift_left_loop xs i (Suc n) = shift_left_loop (xs[i := xs ! (i + 1)]) (i + 1) n"

fun shift_right_loop :: "'a list \<Rightarrow> nat \<Rightarrow> 'a list" where
  "shift_right_loop xs 0 = xs"
| "shift_right_loop xs (Suc i) = shift_right_loop (xs[Suc i := xs ! i]) i"

datatype prefix_op = REVERSE | ROTATE_LEFT | ROTATE_RIGHT

definition prefix_list :: "prefix_op \<Rightarrow> nat \<Rightarrow> 'a list \<Rightarrow> 'a list" where
  "prefix_list op hi xs =
     (case op of
        REVERSE \<Rightarrow> reverse_loop xs 0 hi
      | ROTATE_LEFT \<Rightarrow> if hi > 0 then (shift_left_loop xs 0 hi)[hi := xs ! 0] else xs
      | ROTATE_RIGHT \<Rightarrow> if hi > 0 then (shift_right_loop xs hi)[0 := xs ! hi] else xs)"

fun prefix_data :: "prefix_op \<Rightarrow> nat \<Rightarrow> array_data \<Rightarrow> array_data" where
  "prefix_data op hi (Elements es) = Elements (prefix_list op hi es)"
| "prefix_data op hi (Ints is) = Ints (prefix_list op hi is)"
| "prefix_data op hi (Doubles ds) = Doubles (prefix_list op hi ds)"
| "prefix_data op hi (Bools bs) = Bools (prefix_list op hi bs)"
| "prefix_data op hi (Bytes bs) = Bytes (prefix_list op hi bs)"

definition prefix_name :: "prefix_op \<Rightarrow> string" where
  "prefix_name op = (case op of REVERSE \<Rightarrow> ''reversePrefix'' | ROTATE_LEFT \<Rightarrow> ''rotatePrefixLeft'' | ROTATE_RIGHT \<Rightarrow> ''rotatePrefixRight'')"

definition prefix_checked :: "prefix_op \<Rightarrow> Value \<Rightarrow> Value \<Rightarrow> vm \<Rightarrow> vm_error + vm" where
  "prefix_checked op array hi vm =
     (case array of
        VAL_ARRAY p \<Rightarrow>
          (case hi of
             VAL_INT h \<Rightarrow>
               let arr = vm_arrays vm p
               in if sint h < 0 \<or> sint h \<ge> oa_count arr then Inl (Error (prefix_name op @ '' hi out of bounds''))
                  else Inr (vm\<lparr>vm_arrays := (vm_arrays vm)(p := arr\<lparr>oa_data := prefix_data op (nat (sint h)) (oa_data arr)\<rparr>)\<rparr>)
           | _ \<Rightarrow> Inl (Error (prefix_name op @ '' hi must be int'')))
      | _ \<Rightarrow> Inl (Error (prefix_name op @ '' expects an array'')))"

definition exec_array_prefix :: "prefix_op \<Rightarrow> vm \<Rightarrow> vm + vm" where
  "exec_array_prefix op vm =
     (case pop vm of (hi_val, vm) \<Rightarrow>
        (case pop vm of (arr_val, vm) \<Rightarrow>
           (case prefix_checked op arr_val hi_val vm of
              Inl e \<Rightarrow> Inl (vm_release hi_val (vm_release arr_val (vm_runtime_error vm e)))
            | Inr vm \<Rightarrow> Inr (vm_release hi_val (vm_release arr_val vm)))))"

definition exec_array_prefix_local_local :: "prefix_op \<Rightarrow> vm \<Rightarrow> vm + vm" where
  "exec_array_prefix_local_local op vm =
     with_operands 2 vm (\<lambda>bs vm.
       with_local vm (bs ! 0) (\<lambda>array. with_local vm (bs ! 1) (\<lambda>hi.
         case prefix_checked op array hi vm of Inl e \<Rightarrow> vm_fail vm e | Inr vm \<Rightarrow> Inr vm)))"

section \<open>Length, push and pop\<close>

definition length_value :: "vm \<Rightarrow> Value \<Rightarrow> vm_error + Value" where
  "length_value vm v =
     (case v of
        VAL_ARRAY p \<Rightarrow> Inr (VAL_INT (word_of_int (oa_count (vm_arrays vm p))))
      | VAL_BYTES p \<Rightarrow> Inr (VAL_INT (word_of_int (by_length (vm_bytes vm p))))
      | VAL_STRING None \<Rightarrow> Inl UNDEFINED
      | VAL_STRING (Some s) \<Rightarrow> Inr (VAL_INT (word_of_nat (length (os_chars s))))
      | _ \<Rightarrow> Inr (VAL_INT 0))"

definition exec_array_len_local :: "vm \<Rightarrow> vm + vm" where
  "exec_array_len_local vm =
     with_operands 2 vm (\<lambda>bs vm. with_local vm (bs ! 0) (\<lambda>v. vm_result vm (length_value vm v) (push vm)))"

definition exec_array_len :: "vm \<Rightarrow> vm + vm" where
  "exec_array_len vm =
     (case pop vm of (array, vm) \<Rightarrow> vm_result vm (length_value vm array) (\<lambda>v. vm_release array (push vm v)))"

definition exec_array_push :: "vm \<Rightarrow> vm + vm" where
  "exec_array_push vm =
     (case pop vm of (val, vm) \<Rightarrow>
        (case peek vm 0 of (array, vm) \<Rightarrow>
           (case array of
              VAL_ARRAY p \<Rightarrow> Inr (vm\<lparr>vm_arrays := (vm_arrays vm)(p := obj_array_push (vm_arrays vm p) val)\<rparr>)
            | _ \<Rightarrow> Inl (vm_release val (vm_runtime_error vm ERR_PUSH_NON_ARRAY)))))"

definition exec_array_pop :: "vm \<Rightarrow> vm + vm" where
  "exec_array_pop vm =
     (case peek vm 0 of (array, vm) \<Rightarrow>
        (case array of
           VAL_ARRAY p \<Rightarrow>
             (case obj_array_pop (vm_arrays vm p) of (arr, result) \<Rightarrow>
                Inr (push (vm\<lparr>vm_arrays := (vm_arrays vm)(p := arr)\<rparr>) result))
         | _ \<Rightarrow> vm_fail vm ERR_POP_NON_ARRAY))"

end
