(* ===== verification/VM_Run.thy ===== *)
theory VM_Run
  imports VM_Arrays
begin

text \<open>
  The \<open>switch\<close> of \<^verbatim>\<open>vm_run_loop\<close> over the modelled instructions, one iteration of the loop, and runs of it.  The
  debugger, timers, posted events and asynchronous tasks, which the loop serves between instructions, are idle
  here.
\<close>

section \<open>The switch\<close>

definition vm_switch :: "(u8 \<times> (vm \<Rightarrow> vm + vm)) list" where
  "vm_switch =
    [(OP_NOP, exec_nop), (OP_POP, exec_pop), (OP_DUP, exec_dup), (OP_CONST, exec_const), (OP_CONST16, exec_const16),
     (OP_LOAD_LOCAL, exec_load_local), (OP_STORE_LOCAL, exec_store_local),
     (OP_ADD_LOCAL_STACK_INT, exec_local_stack_int I_ADD), (OP_SUB_LOCAL_STACK_INT, exec_local_stack_int I_SUB),
     (OP_ADD_LOCAL_STACK_DOUBLE, exec_local_stack_double D_ADD), (OP_SUB_LOCAL_STACK_DOUBLE, exec_local_stack_double D_SUB),
     (OP_ADD_LOCAL_CONST, exec_local_const I_ADD D_ADD), (OP_SUB_LOCAL_CONST, exec_local_const I_SUB D_SUB),
     (OP_ADD2_LOCAL_CONST, exec_add2_local_const), (OP_NEGATE_LOCAL, exec_negate_local),
     (OP_ADD_LOCAL_DIV_LOCALS, exec_add_local_div_locals),
     (OP_LOAD_GLOBAL, exec_load_global), (OP_LOAD_GLOBAL16, exec_load_global16), (OP_LOAD_GLOBAL_SLOT, exec_load_global_slot),
     (OP_STORE_GLOBAL, exec_store_global), (OP_STORE_GLOBAL16, exec_store_global16), (OP_STORE_GLOBAL_SLOT, exec_store_global_slot),
     (OP_ADD_GLOBAL_GLOBAL_TO_GLOBAL, exec_global_global_to_global OP_ADD OP_ADD_GLOBAL_SLOT_SLOT_TO_GLOBAL_SLOT),
     (OP_SUB_GLOBAL_GLOBAL_TO_GLOBAL, exec_global_global_to_global OP_SUB OP_SUB_GLOBAL_SLOT_SLOT_TO_GLOBAL_SLOT),
     (OP_MUL_GLOBAL_GLOBAL_TO_GLOBAL, exec_global_global_to_global OP_MUL OP_MUL_GLOBAL_SLOT_SLOT_TO_GLOBAL_SLOT),
     (OP_DIV_GLOBAL_GLOBAL_TO_GLOBAL, exec_global_global_to_global OP_DIV OP_DIV_GLOBAL_SLOT_SLOT_TO_GLOBAL_SLOT),
     (OP_ADD_GLOBAL_SLOT_SLOT_TO_GLOBAL_SLOT, exec_slot_slot_to_slot OP_ADD),
     (OP_SUB_GLOBAL_SLOT_SLOT_TO_GLOBAL_SLOT, exec_slot_slot_to_slot OP_SUB),
     (OP_MUL_GLOBAL_SLOT_SLOT_TO_GLOBAL_SLOT, exec_slot_slot_to_slot OP_MUL),
     (OP_DIV_GLOBAL_SLOT_SLOT_TO_GLOBAL_SLOT, exec_slot_slot_to_slot OP_DIV),
     (OP_ADD_INT, exec_int I_ADD), (OP_SUB_INT, exec_int I_SUB), (OP_MUL_INT, exec_int I_MUL), (OP_DIV_INT, exec_int I_DIV),
     (OP_MOD_INT, exec_int I_MOD), (OP_NEG_INT, exec_neg_int), (OP_BIT_AND_INT, exec_int I_BIT_AND),
     (OP_BIT_OR_INT, exec_int I_BIT_OR), (OP_BIT_XOR_INT, exec_int I_BIT_XOR), (OP_BIT_NOT_INT, exec_bit_not_int),
     (OP_ADD_DOUBLE, exec_double D_ADD), (OP_SUB_DOUBLE, exec_double D_SUB), (OP_MUL_DOUBLE, exec_double D_MUL),
     (OP_DIV_DOUBLE, exec_double D_DIV), (OP_RECIP_INT_TO_DOUBLE, exec_recip_int_to_double),
     (OP_EVALA_RECIP_LOCALS_DOUBLE, exec_evala_recip_locals_double), (OP_EVALA_MADD_LOCAL_ARRAY_LOCAL_DOUBLE, exec_evala_madd),
     (OP_ADD_LOCALS_DOUBLE, exec_locals_double D_ADD), (OP_SUB_LOCALS_DOUBLE, exec_locals_double D_SUB),
     (OP_MUL_LOCALS_DOUBLE, exec_locals_double D_MUL), (OP_DIV_LOCALS_DOUBLE, exec_locals_double D_DIV),
     (OP_MUL_LOCALS_INT_TO_LOCAL, exec_mul_locals_int_to_local), (OP_MUL_LOCALS_DOUBLE_TO_LOCAL, exec_mul_locals_double_to_local),
     (OP_ADD_LOCALS_INT, exec_locals_int I_ADD), (OP_SUB_LOCALS_INT, exec_locals_int I_SUB), (OP_MUL_LOCALS_INT, exec_locals_int I_MUL),
     (OP_DIV_LOCALS_INT, exec_locals_int I_DIV), (OP_MOD_LOCALS_INT, exec_locals_int I_MOD),
     (OP_BIT_AND_LOCALS_INT, exec_locals_int I_BIT_AND), (OP_BIT_OR_LOCALS_INT, exec_locals_int I_BIT_OR),
     (OP_BIT_XOR_LOCALS_INT, exec_locals_int I_BIT_XOR),
     (OP_ADD_LOCAL_CONST_INT, exec_local_const_int I_ADD), (OP_SUB_LOCAL_CONST_INT, exec_local_const_int I_SUB),
     (OP_MUL_LOCAL_CONST_INT, exec_local_const_int I_MUL), (OP_DIV_LOCAL_CONST_INT, exec_local_const_int I_DIV),
     (OP_MOD_LOCAL_CONST_INT, exec_local_const_int I_MOD), (OP_BIT_AND_LOCAL_CONST_INT, exec_local_const_int I_BIT_AND),
     (OP_BIT_OR_LOCAL_CONST_INT, exec_local_const_int I_BIT_OR), (OP_BIT_XOR_LOCAL_CONST_INT, exec_local_const_int I_BIT_XOR),
     (OP_ADD_LOCAL_CONST_DOUBLE, exec_local_const_double D_ADD), (OP_SUB_LOCAL_CONST_DOUBLE, exec_local_const_double D_SUB),
     (OP_MUL_LOCAL_CONST_DOUBLE, exec_local_const_double D_MUL), (OP_DIV_LOCAL_CONST_DOUBLE, exec_local_const_double D_DIV),
     (OP_ADD, exec_arith OP_ADD), (OP_SUB, exec_arith OP_SUB), (OP_MUL, exec_arith OP_MUL), (OP_DIV, exec_arith OP_DIV),
     (OP_MOD, exec_mod), (OP_NEG_DOUBLE, exec_neg_double), (OP_NEG, exec_neg), (OP_SQRT_LOCAL_DOUBLE, exec_sqrt_local_double),
     (OP_ADD_STACK_LOCAL_DOUBLE, exec_stack_local_double D_ADD), (OP_SUB_STACK_LOCAL_DOUBLE, exec_stack_local_double D_SUB),
     (OP_MUL_STACK_LOCAL_DOUBLE, exec_stack_local_double D_MUL), (OP_DIV_STACK_LOCAL_DOUBLE, exec_stack_local_double D_DIV),
     (OP_ADD_STACK_LOCAL_INT, exec_stack_local_int I_ADD), (OP_SUB_STACK_LOCAL_INT, exec_stack_local_int I_SUB),
     (OP_MUL_STACK_LOCAL_INT, exec_stack_local_int I_MUL), (OP_DIV_STACK_LOCAL_INT, exec_stack_local_int I_DIV),
     (OP_MOD_STACK_LOCAL_INT, exec_stack_local_int I_MOD), (OP_BIT_AND_STACK_LOCAL_INT, exec_stack_local_int I_BIT_AND),
     (OP_BIT_OR_STACK_LOCAL_INT, exec_stack_local_int I_BIT_OR), (OP_BIT_XOR_STACK_LOCAL_INT, exec_stack_local_int I_BIT_XOR),
     (OP_ADD_STACK_CONST_INT, exec_stack_const_int I_ADD), (OP_SUB_STACK_CONST_INT, exec_stack_const_int I_SUB),
     (OP_MUL_STACK_CONST_INT, exec_stack_const_int I_MUL), (OP_DIV_STACK_CONST_INT, exec_stack_const_int I_DIV),
     (OP_MOD_STACK_CONST_INT, exec_stack_const_int I_MOD), (OP_BIT_AND_STACK_CONST_INT, exec_stack_const_int I_BIT_AND),
     (OP_BIT_OR_STACK_CONST_INT, exec_stack_const_int I_BIT_OR), (OP_BIT_XOR_STACK_CONST_INT, exec_stack_const_int I_BIT_XOR),
     (OP_ADD_STACK_CONST_DOUBLE, exec_stack_const_double D_ADD), (OP_SUB_STACK_CONST_DOUBLE, exec_stack_const_double D_SUB),
     (OP_MUL_STACK_CONST_DOUBLE, exec_stack_const_double D_MUL), (OP_DIV_STACK_CONST_DOUBLE, exec_stack_const_double D_DIV),
     (OP_SQRT, exec_sqrt), (OP_EQ, exec_eq), (OP_NE, exec_ne), (OP_LT, exec_compare OP_LT), (OP_LE, exec_compare OP_LE),
     (OP_GT, exec_compare OP_GT), (OP_GE, exec_compare OP_GE), (OP_NOT, exec_not), (OP_AND, exec_and), (OP_OR, exec_or),
     (OP_BIT_NOT, exec_bit_not), (OP_BIT_AND, exec_bitwise BIGINT_BITOP_AND), (OP_BIT_OR, exec_bitwise BIGINT_BITOP_OR),
     (OP_BIT_XOR, exec_bitwise BIGINT_BITOP_XOR), (OP_JUMP, exec_jump),
     (OP_JUMP_IF_LOCAL_LT, exec_jump_if_local_cmp C_LT), (OP_JUMP_IF_LOCAL_LE, exec_jump_if_local_cmp C_LE),
     (OP_JUMP_IF_LOCAL_GT, exec_jump_if_local_cmp C_GT), (OP_JUMP_IF_LOCAL_GE, exec_jump_if_local_cmp C_GE),
     (OP_JUMP_IF_LOCAL_EQ, exec_jump_if_local_eq True), (OP_JUMP_IF_LOCAL_NE, exec_jump_if_local_eq False),
     (OP_JUMP_IF_LOCAL_LT_CONST, exec_jump_if_local_cmp_const C_LT), (OP_JUMP_IF_LOCAL_LE_CONST, exec_jump_if_local_cmp_const C_LE),
     (OP_JUMP_IF_LOCAL_GT_CONST, exec_jump_if_local_cmp_const C_GT), (OP_JUMP_IF_LOCAL_GE_CONST, exec_jump_if_local_cmp_const C_GE),
     (OP_JUMP_IF_LOCAL_EQ_CONST, exec_jump_if_local_eq_const True), (OP_JUMP_IF_LOCAL_NE_CONST, exec_jump_if_local_eq_const False),
     (OP_JUMP_IF_LOCAL_EQ_GLOBAL, exec_jump_if_local_eq_global True), (OP_JUMP_IF_LOCAL_NE_GLOBAL, exec_jump_if_local_eq_global False),
     (OP_JUMP_IF_LOCAL_EQ_GLOBAL_SLOT, exec_jump_if_local_eq_global_slot True),
     (OP_JUMP_IF_LOCAL_NE_GLOBAL_SLOT, exec_jump_if_local_eq_global_slot False),
     (OP_JUMP_IF_STACK_LT_LOCAL, exec_jump_if_stack_cmp_local C_LT), (OP_JUMP_IF_STACK_LE_LOCAL, exec_jump_if_stack_cmp_local C_LE),
     (OP_JUMP_IF_STACK_GT_LOCAL, exec_jump_if_stack_cmp_local C_GT), (OP_JUMP_IF_STACK_GE_LOCAL, exec_jump_if_stack_cmp_local C_GE),
     (OP_JUMP_IF_STACK_LT_CONST, exec_jump_if_stack_cmp_const C_LT), (OP_JUMP_IF_STACK_LE_CONST, exec_jump_if_stack_cmp_const C_LE),
     (OP_JUMP_IF_STACK_GT_CONST, exec_jump_if_stack_cmp_const C_GT), (OP_JUMP_IF_STACK_GE_CONST, exec_jump_if_stack_cmp_const C_GE),
     (OP_JUMP_IF_ARRAY_FALSE_LOCAL_CONST, exec_jump_if_array_false_local_const),
     (OP_JUMP_IF_ARRAY_FALSE_LOCAL_LOCAL, exec_jump_if_array_false_local_local),
     (OP_JUMP_IF_FALSE, exec_jump_if_false), (OP_JUMP_IF_FALSE_POP, exec_jump_if_false_pop),
     (OP_ARRAY_NEW, exec_array_new), (OP_ARRAY_GET_LOCAL, exec_array_get_local),
     (OP_ARRAY_GET_LOCAL_CONST, exec_array_get_local_const), (OP_ARRAY_GET_LOCAL_LOCAL, exec_array_get_local_local),
     (OP_ARRAY_GET_LOCAL_CONST_INT, exec_array_get_const_typed int_element), (OP_ARRAY_GET_LOCAL_LOCAL_INT, exec_array_get_local_typed int_element),
     (OP_ARRAY_GET_LOCAL_CONST_DOUBLE, exec_array_get_const_typed double_element),
     (OP_ARRAY_GET_LOCAL_LOCAL_DOUBLE, exec_array_get_local_typed double_element),
     (OP_ARRAY_GET_LOCAL_CONST_INT_TO_LOCAL, exec_array_get_const_to_local int_element),
     (OP_ARRAY_GET_LOCAL_LOCAL_INT_TO_LOCAL, exec_array_get_local_to_local int_element),
     (OP_ARRAY_GET_LOCAL_CONST_DOUBLE_TO_LOCAL, exec_array_get_const_to_local double_element),
     (OP_ARRAY_GET_LOCAL_LOCAL_DOUBLE_TO_LOCAL, exec_array_get_local_to_local double_element),
     (OP_MADD_LOCAL_ARRAY_LOCAL_INT, exec_madd_int), (OP_MADD_LOCAL_ARRAY_LOCAL_DOUBLE, exec_madd_double),
     (OP_ARRAY_BOUNDS_CHECK_LOCAL_CONST, exec_array_bounds_check_local_const),
     (OP_ARRAY_BOUNDS_CHECK_LOCAL_LOCAL, exec_array_bounds_check_local_local), (OP_ARRAY_GET, exec_array_get),
     (OP_ARRAY_SET_LOCAL, exec_array_set_local), (OP_ARRAY_SET_LOCAL_CONST, exec_array_set_local_const),
     (OP_ARRAY_SET_LOCAL_LOCAL, exec_array_set_local_local), (OP_ARRAY_SET_LOCAL_CONST_INT, exec_array_set_const_typed INT_ELEMENTS),
     (OP_ARRAY_SET_LOCAL_LOCAL_INT, exec_array_set_local_typed INT_ELEMENTS),
     (OP_ARRAY_SET_LOCAL_CONST_DOUBLE, exec_array_set_const_typed DOUBLE_ELEMENTS),
     (OP_ARRAY_SET_LOCAL_LOCAL_DOUBLE, exec_array_set_local_typed DOUBLE_ELEMENTS),
     (OP_ARRAY_COPY, exec_array_copy), (OP_ARRAY_COPY_LOCAL_LOCAL, exec_array_copy_local_local),
     (OP_ARRAY_REVERSE_PREFIX, exec_array_prefix REVERSE), (OP_ARRAY_REVERSE_PREFIX_LOCAL_LOCAL, exec_array_prefix_local_local REVERSE),
     (OP_ARRAY_ROTATE_PREFIX_LEFT, exec_array_prefix ROTATE_LEFT),
     (OP_ARRAY_ROTATE_PREFIX_LEFT_LOCAL_LOCAL, exec_array_prefix_local_local ROTATE_LEFT),
     (OP_ARRAY_ROTATE_PREFIX_RIGHT, exec_array_prefix ROTATE_RIGHT),
     (OP_ARRAY_ROTATE_PREFIX_RIGHT_LOCAL_LOCAL, exec_array_prefix_local_local ROTATE_RIGHT),
     (OP_ARRAY_SET, exec_array_set), (OP_ARRAY_LEN_LOCAL, exec_array_len_local), (OP_ARRAY_LEN, exec_array_len),
     (OP_ARRAY_PUSH, exec_array_push), (OP_ARRAY_POP, exec_array_pop)]"

text \<open>The handler of an opcode, among the modelled ones.\<close>

definition vm_handler :: "u8 \<Rightarrow> (vm \<Rightarrow> vm + vm) option" where
  "vm_handler op = map_of vm_switch op"

section \<open>The loop\<close>

text \<open>
  One iteration: a pending error or the instruction limit ends the run, then one instruction is read and executed.
  An instruction outside the model leaves the modelled part: \<open>None\<close>.
\<close>

definition vm_step :: "vm \<Rightarrow> (vm + vm) option" where
  "vm_step vm =
     (if vm_error vm \<noteq> None then Some (Inl vm)
      else let vm = (if vm_max_instructions vm > 0 then vm\<lparr>vm_instruction_count := vm_instruction_count vm + 1\<rparr> else vm)
           in if vm_max_instructions vm > 0 \<and> vm_instruction_count vm > vm_max_instructions vm
              then Some (vm_fail vm ERR_EXECUTION_LIMIT_EXCEEDED)
              else if vm_ip vm < 0 \<or> vm_ip vm + 1 > int (length (vm_code vm))
              then Some (vm_fail vm ERR_TRUNCATED)
              else map_option (\<lambda>f. f (vm\<lparr>vm_ip := vm_ip vm + 1\<rparr>)) (vm_handler (vm_code vm ! nat (vm_ip vm))))"

text \<open>Up to \<open>n\<close> iterations; \<open>Inr\<close> is a machine that is still running.\<close>

fun vm_steps :: "nat \<Rightarrow> vm \<Rightarrow> (vm + vm) option" where
  "vm_steps 0 vm = Some (Inr vm)"
| "vm_steps (Suc n) vm =
     (case vm_step vm of
        Some (Inr vm) \<Rightarrow> vm_steps n vm
      | r \<Rightarrow> r)"

text \<open>The opcodes of the switch are different, so each has the handler it is listed with.\<close>

lemma vm_switch_distinct: "distinct (map fst vm_switch)"
proof -
  have "distinct (map uint (map fst vm_switch))" unfolding vm_switch_def by simp
  then show ?thesis by (simp only: distinct_map)
qed

lemma vm_handler_lookup: "list_all (\<lambda>(op, f). vm_handler op = Some f) vm_switch"
  using vm_switch_distinct by (auto simp: vm_handler_def list_all_iff)

lemmas vm_handler_simps [simp] = vm_handler_lookup [unfolded vm_switch_def list.pred_inject prod.case]

section \<open>A machine at the start\<close>

text \<open>
  A machine at the start of a function, with the default limits, no globals and no interned strings; its locals are on the
  stack.
\<close>

definition vm_start :: "int \<Rightarrow> u8 list \<Rightarrow> Constant list \<Rightarrow> Value list \<Rightarrow> vm" where
  "vm_start max_instructions code constants locals =
     \<lparr>vm_stack = locals, vm_globs = vm_globals_init, vm_string_pool = hash_table_init,
      vm_functions = \<lambda>p. \<lparr>fn_param_count = 0, fn_local_count = int (length locals), fn_code = code, fn_constants = constants,
                          fn_global_slot_cache = None\<rparr>,
      vm_arrays = \<lambda>p. obj_array_create 0, vm_next_array = 0,
      vm_bytes = \<lambda>p. \<lparr>by_buffer = None, by_offset = 0, by_length = 0, by_ref_count = 1\<rparr>, vm_byte_store = \<lparr>bs_buffers = Map.empty, bs_next = 0\<rparr>,
      vm_error = None, vm_events = [], vm_max_stack_size = 65536,
      vm_max_string_length = 16777216, vm_max_instructions = max_instructions, vm_instruction_count = 0, vm_function = 0, vm_ip = 0,
      vm_slots_start = 0, vm_doubles = double_ops_none, vm_bigint_unshared = \<lambda>slot. False\<rparr>"

text \<open>The definitions that evaluate steps at a concrete machine.\<close>

lemma vm_steps_numeral [simp]:
  "vm_steps (numeral k) vm = (case vm_step vm of Some (Inr vm) \<Rightarrow> vm_steps (pred_numeral k) vm | r \<Rightarrow> r)"
  by (simp add: numeral_eq_Suc)

lemmas vm_exec_simps =
  vm_step_def vm_code_def vm_func_def vm_constants_def Let_def with_operands_def with_local_def with_constant_def local_ok_def local_index_def
  local_value_def set_local_def vm_stack_count_def push_def pop_def peek_def vm_retain_def vm_release_def vm_drop_def vm_top_def vm_below_top_def
  vm_set_top_def vm_result_def jump_if_def i16_operand_def u16_operand_def int_op_result_def int64_result_def

end
