(* ===== verification/Superinstructions.thy ===== *)
theory Superinstructions
  imports VM_Run
begin

text \<open>
  The two passes of \<^verbatim>\<open>src/src/compiler.c\<close> over finished bytecode: \<^verbatim>\<open>peephole_optimize\<close>, which removes bytes, and
  \<^verbatim>\<open>superinstruction_optimize\<close>, which fuses instruction sequences in place without changing the length; and what
  they mean for the execution of the code by the interpreter.
\<close>

section \<open>Instruction lengths\<close>

definition peephole_instruction_len :: "u8 \<Rightarrow> nat" where
  "peephole_instruction_len op =
     (if op \<in> set
       [OP_JUMP_IF_LOCAL_LT, OP_JUMP_IF_LOCAL_LE, OP_JUMP_IF_LOCAL_GT, OP_JUMP_IF_LOCAL_GE, OP_JUMP_IF_LOCAL_EQ, 
        OP_JUMP_IF_LOCAL_NE, OP_JUMP_IF_LOCAL_EQ_GLOBAL, OP_JUMP_IF_LOCAL_NE_GLOBAL, 
        OP_JUMP_IF_LOCAL_EQ_GLOBAL_SLOT, OP_JUMP_IF_LOCAL_NE_GLOBAL_SLOT, OP_JUMP_IF_LOCAL_LT_CONST, 
        OP_JUMP_IF_LOCAL_LE_CONST, OP_JUMP_IF_LOCAL_GT_CONST, OP_JUMP_IF_LOCAL_GE_CONST, 
        OP_JUMP_IF_LOCAL_EQ_CONST, OP_JUMP_IF_LOCAL_NE_CONST, OP_JUMP_IF_ARRAY_FALSE_LOCAL_CONST, 
        OP_JUMP_IF_ARRAY_FALSE_LOCAL_LOCAL, OP_ADD_LOCALS_INT, OP_SUB_LOCALS_INT, OP_MUL_LOCALS_INT, 
        OP_DIV_LOCALS_INT, OP_MOD_LOCALS_INT, OP_BIT_AND_LOCALS_INT, OP_BIT_OR_LOCALS_INT, 
        OP_BIT_XOR_LOCALS_INT, OP_ADD_LOCALS_DOUBLE, OP_SUB_LOCALS_DOUBLE, OP_MUL_LOCALS_DOUBLE, 
        OP_DIV_LOCALS_DOUBLE, OP_ADD_LOCAL_CONST_INT, OP_SUB_LOCAL_CONST_INT, OP_MUL_LOCAL_CONST_INT, 
        OP_DIV_LOCAL_CONST_INT, OP_MOD_LOCAL_CONST_INT, OP_BIT_AND_LOCAL_CONST_INT, OP_BIT_OR_LOCAL_CONST_INT, 
        OP_BIT_XOR_LOCAL_CONST_INT, OP_ADD_LOCAL_CONST_DOUBLE, OP_SUB_LOCAL_CONST_DOUBLE, 
        OP_MUL_LOCAL_CONST_DOUBLE, OP_DIV_LOCAL_CONST_DOUBLE, OP_ARRAY_GET_LOCAL_CONST_INT_TO_LOCAL, 
        OP_ARRAY_GET_LOCAL_LOCAL_INT_TO_LOCAL, OP_ARRAY_GET_LOCAL_CONST_DOUBLE_TO_LOCAL, 
        OP_ARRAY_GET_LOCAL_LOCAL_DOUBLE_TO_LOCAL]
      then 5
      else if op \<in> set
       [OP_ARRAY_GET_FIELD_LOCAL_CONST, OP_ARRAY_GET_FIELD_LOCAL_LOCAL, OP_ARRAY_SET_FIELD_LOCAL_CONST, 
        OP_ARRAY_SET_FIELD_LOCAL_LOCAL, OP_ADD_LOCAL_DIV_LOCALS, OP_MADD_LOCAL_ARRAY_LOCAL_INT, 
        OP_MADD_LOCAL_ARRAY_LOCAL_DOUBLE, OP_RECORD_NEW_NAMED, OP_JUMP_IF_STACK_LT_LOCAL, 
        OP_JUMP_IF_STACK_LE_LOCAL, OP_JUMP_IF_STACK_GT_LOCAL, OP_JUMP_IF_STACK_GE_LOCAL, 
        OP_JUMP_IF_STACK_LT_CONST, OP_JUMP_IF_STACK_LE_CONST, OP_JUMP_IF_STACK_GT_CONST, 
        OP_JUMP_IF_STACK_GE_CONST]
      then 4
      else if op \<in> set
       [OP_JUMP_IF_FALSE_POP]
      then 4
      else if op \<in> set
       [OP_EVALA_MADD_LOCAL_ARRAY_LOCAL_DOUBLE, OP_MUL_LOCALS_INT_TO_LOCAL, OP_MUL_LOCALS_DOUBLE_TO_LOCAL, 
        OP_ADD_GLOBAL_GLOBAL_TO_GLOBAL, OP_SUB_GLOBAL_GLOBAL_TO_GLOBAL, OP_MUL_GLOBAL_GLOBAL_TO_GLOBAL, 
        OP_DIV_GLOBAL_GLOBAL_TO_GLOBAL, OP_ADD_GLOBAL_SLOT_SLOT_TO_GLOBAL_SLOT, 
        OP_SUB_GLOBAL_SLOT_SLOT_TO_GLOBAL_SLOT, OP_MUL_GLOBAL_SLOT_SLOT_TO_GLOBAL_SLOT, 
        OP_DIV_GLOBAL_SLOT_SLOT_TO_GLOBAL_SLOT]
      then 7
      else if op \<in> set
       [OP_ADD2_LOCAL_CONST, OP_CALL_INTERFACE]
      then 6
      else if op \<in> set
       [OP_TYPE_TEST_INTERFACE_METHOD]
      then 5
      else if op \<in> set
       [OP_CALL_GLOBAL16]
      then 4
      else if op \<in> set
       [OP_JUMP, OP_JUMP_IF_FALSE, OP_ADD_LOCAL_CONST, OP_SUB_LOCAL_CONST, OP_CALL_GLOBAL, 
        OP_ARRAY_GET_LOCAL_CONST, OP_ARRAY_GET_LOCAL_LOCAL, OP_ARRAY_SET_LOCAL_CONST, OP_ARRAY_SET_LOCAL_LOCAL, 
        OP_ARRAY_GET_LOCAL_CONST_INT, OP_ARRAY_GET_LOCAL_LOCAL_INT, OP_ARRAY_SET_LOCAL_CONST_INT, 
        OP_ARRAY_SET_LOCAL_LOCAL_INT, OP_ARRAY_GET_LOCAL_CONST_DOUBLE, OP_ARRAY_GET_LOCAL_LOCAL_DOUBLE, 
        OP_ARRAY_SET_LOCAL_CONST_DOUBLE, OP_ARRAY_SET_LOCAL_LOCAL_DOUBLE, OP_ARRAY_BOUNDS_CHECK_LOCAL_CONST, 
        OP_ARRAY_BOUNDS_CHECK_LOCAL_LOCAL, OP_SQRT_LOCAL_DOUBLE, OP_ARRAY_LEN_LOCAL, OP_ADD_STACK_LOCAL_INT, 
        OP_SUB_STACK_LOCAL_INT, OP_MUL_STACK_LOCAL_INT, OP_DIV_STACK_LOCAL_INT, OP_MOD_STACK_LOCAL_INT, 
        OP_BIT_AND_STACK_LOCAL_INT, OP_BIT_OR_STACK_LOCAL_INT, OP_BIT_XOR_STACK_LOCAL_INT, 
        OP_ADD_STACK_CONST_INT, OP_SUB_STACK_CONST_INT, OP_MUL_STACK_CONST_INT, OP_DIV_STACK_CONST_INT, 
        OP_MOD_STACK_CONST_INT, OP_BIT_AND_STACK_CONST_INT, OP_BIT_OR_STACK_CONST_INT, 
        OP_BIT_XOR_STACK_CONST_INT, OP_ADD_STACK_CONST_DOUBLE, OP_SUB_STACK_CONST_DOUBLE, 
        OP_MUL_STACK_CONST_DOUBLE, OP_DIV_STACK_CONST_DOUBLE, OP_ADD_STACK_LOCAL_DOUBLE, 
        OP_SUB_STACK_LOCAL_DOUBLE, OP_MUL_STACK_LOCAL_DOUBLE, OP_DIV_STACK_LOCAL_DOUBLE, 
        OP_ARRAY_COPY_LOCAL_LOCAL, OP_ARRAY_REVERSE_PREFIX_LOCAL_LOCAL, OP_ARRAY_ROTATE_PREFIX_LEFT_LOCAL_LOCAL, 
        OP_ARRAY_ROTATE_PREFIX_RIGHT_LOCAL_LOCAL, OP_CONST16, OP_LOAD_GLOBAL16, OP_STORE_GLOBAL16, 
        OP_EVALA_RECIP_LOCALS_DOUBLE]
      then 3
      else if op \<in> set
       [OP_CONST, OP_LOAD_LOCAL, OP_STORE_LOCAL, OP_NEGATE_LOCAL, OP_LOAD_GLOBAL, OP_STORE_GLOBAL, OP_CALL, 
        OP_MAKE_CLOSURE, OP_ARRAY_NEW, OP_ARRAY_GET_LOCAL, OP_ARRAY_SET_LOCAL, OP_RECORD_NEW, 
        OP_RECORD_SET_FIELD, OP_RECORD_GET_FIELD, OP_TUPLE_NEW, OP_TUPLE_GET, OP_TUPLE_SET, OP_DEFER, 
        OP_ADD_LOCAL_STACK_INT, OP_SUB_LOCAL_STACK_INT, OP_ADD_LOCAL_STACK_DOUBLE, OP_SUB_LOCAL_STACK_DOUBLE]
      then 2
      else 1)"

lemma peephole_instruction_len_pos: "0 < peephole_instruction_len op"
  by (simp add: peephole_instruction_len_def)

section \<open>Removing bytes\<close>

definition peephole_remove_bytes :: "Chunk \<Rightarrow> int \<Rightarrow> int \<Rightarrow> Chunk" where
  "peephole_remove_bytes chunk start cnt =
     (if cnt \<le> 0 then chunk
      else if start < 0 \<or> start + cnt > ch_code_count chunk then chunk
      else chunk\<lparr>ch_code := take (nat start) (ch_code chunk) @ drop (nat (start + cnt)) (ch_code chunk),
                 ch_debug_info := take (nat start) (ch_debug_info chunk) @ drop (nat (start + cnt)) (ch_debug_info chunk)\<rparr>)"

text \<open>One scan: explicit no-ops go, and a local that is loaded and stored back to itself.\<close>

function peephole_scan :: "Chunk \<Rightarrow> nat \<Rightarrow> bool \<Rightarrow> Chunk \<times> bool" where
  "peephole_scan chunk pc changed =
     (let code = ch_code chunk; op = code ! pc; len = peephole_instruction_len op
      in if pc \<ge> length code then (chunk, changed)
         else if pc + len > length code then (chunk, changed)
         else if op = OP_NOP then peephole_scan (peephole_remove_bytes chunk (int pc) 1) pc True
         else if op = OP_LOAD_LOCAL \<and> pc + 4 \<le> length code \<and> code ! (pc + 2) = OP_STORE_LOCAL \<and> code ! (pc + 1) = code ! (pc + 3)
         then peephole_scan (peephole_remove_bytes chunk (int pc) 4) pc True
         else peephole_scan chunk (pc + len) changed)"
  by pat_completeness auto
termination
proof (relation "measure (\<lambda>(chunk, pc, changed). length (ch_code chunk) - pc)", goal_cases)
  case (4 chunk pc changed code op len)
  then show ?case using peephole_instruction_len_pos [of op] by (simp only: in_measure split)
qed (auto simp: peephole_remove_bytes_def)

declare peephole_scan.simps [simp del]

fun peephole_iterate :: "nat \<Rightarrow> Chunk \<Rightarrow> Chunk" where
  "peephole_iterate 0 chunk = chunk"
| "peephole_iterate (Suc n) chunk =
     (case peephole_scan chunk 0 False of (chunk, changed) \<Rightarrow> if changed then peephole_iterate n chunk else chunk)"

definition peephole_optimize :: "Chunk \<Rightarrow> Chunk" where
  "peephole_optimize chunk = (if ch_code_count chunk < 2 then chunk else peephole_iterate 10 chunk)"

section \<open>Fusing instructions\<close>

text \<open>
  Each pattern looks at the code from the current position on and yields the bytes that replace its beginning.
  The tables are the inner \<open>switch\<close> statements.
\<close>

definition pattern_jump_pop :: "u8 list \<Rightarrow> u8 list option" where
  "pattern_jump_pop c =
     (if 4 \<le> length c \<and> c ! 0 = OP_JUMP_IF_FALSE \<and> c ! 3 = OP_POP
      then Some [OP_JUMP_IF_FALSE_POP, c ! 1, c ! 2, 0] else None)"

definition pattern_global_binary :: "u8 list \<Rightarrow> u8 list option" where
  "pattern_global_binary c =
     (if 7 \<le> length c \<and> c ! 0 = OP_LOAD_GLOBAL \<and> c ! 2 = OP_LOAD_GLOBAL \<and> c ! 5 = OP_STORE_GLOBAL
      then map_option (\<lambda>r. [r, c ! 6, c ! 1, c ! 3, 0, 0, 0])
             (map_of [(OP_ADD, OP_ADD_GLOBAL_GLOBAL_TO_GLOBAL), (OP_SUB, OP_SUB_GLOBAL_GLOBAL_TO_GLOBAL),
                      (OP_MUL, OP_MUL_GLOBAL_GLOBAL_TO_GLOBAL), (OP_DIV, OP_DIV_GLOBAL_GLOBAL_TO_GLOBAL)] (c ! 4))
      else None)"

definition pattern_array_get_store :: "u8 list \<Rightarrow> u8 list option" where
  "pattern_array_get_store c =
     (if 5 \<le> length c \<and> c ! 3 = OP_STORE_LOCAL
      then map_option (\<lambda>r. [r, c ! 1, c ! 2, c ! 4, 0])
             (map_of [(OP_ARRAY_GET_LOCAL_LOCAL_INT, OP_ARRAY_GET_LOCAL_LOCAL_INT_TO_LOCAL),
                      (OP_ARRAY_GET_LOCAL_CONST_INT, OP_ARRAY_GET_LOCAL_CONST_INT_TO_LOCAL),
                      (OP_ARRAY_GET_LOCAL_LOCAL_DOUBLE, OP_ARRAY_GET_LOCAL_LOCAL_DOUBLE_TO_LOCAL),
                      (OP_ARRAY_GET_LOCAL_CONST_DOUBLE, OP_ARRAY_GET_LOCAL_CONST_DOUBLE_TO_LOCAL)] (c ! 0))
      else None)"

definition pattern_mul_store :: "u8 list \<Rightarrow> u8 list option" where
  "pattern_mul_store c =
     (if 7 \<le> length c \<and> (c ! 0 = OP_MUL_LOCALS_INT \<or> c ! 0 = OP_MUL_LOCALS_DOUBLE) \<and> c ! 5 = OP_STORE_LOCAL
      then Some [if c ! 0 = OP_MUL_LOCALS_INT then OP_MUL_LOCALS_INT_TO_LOCAL else OP_MUL_LOCALS_DOUBLE_TO_LOCAL,
                 c ! 6, c ! 1, c ! 2, 0, 0, 0]
      else None)"

definition pattern_evala_madd :: "u8 list \<Rightarrow> u8 list option" where
  "pattern_evala_madd c =
     (if 7 \<le> length c \<and> c ! 0 = OP_EVALA_RECIP_LOCALS_DOUBLE \<and> c ! 3 = OP_MADD_LOCAL_ARRAY_LOCAL_DOUBLE
      then Some [OP_EVALA_MADD_LOCAL_ARRAY_LOCAL_DOUBLE, c ! 4, c ! 5, c ! 6, c ! 1, c ! 2, 0]
      else None)"

definition pattern_add2 :: "u8 list \<Rightarrow> u8 list option" where
  "pattern_add2 c =
     (if 6 \<le> length c \<and> c ! 0 = OP_ADD_LOCAL_CONST \<and> c ! 3 = OP_ADD_LOCAL_CONST
      then Some [OP_ADD2_LOCAL_CONST, c ! 1, c ! 2, c ! 4, c ! 5, 0]
      else None)"

definition pattern_locals :: "u8 list \<Rightarrow> u8 list option" where
  "pattern_locals c =
     (if 5 \<le> length c \<and> c ! 0 = OP_LOAD_LOCAL \<and> c ! 2 = OP_LOAD_LOCAL
      then map_option (\<lambda>r. [r, c ! 1, c ! 3, 0, 0])
             (map_of [(OP_ADD_INT, OP_ADD_LOCALS_INT), (OP_SUB_INT, OP_SUB_LOCALS_INT), (OP_MUL_INT, OP_MUL_LOCALS_INT),
                      (OP_DIV_INT, OP_DIV_LOCALS_INT), (OP_MOD_INT, OP_MOD_LOCALS_INT), (OP_BIT_AND_INT, OP_BIT_AND_LOCALS_INT),
                      (OP_BIT_OR_INT, OP_BIT_OR_LOCALS_INT), (OP_BIT_XOR_INT, OP_BIT_XOR_LOCALS_INT),
                      (OP_ADD_DOUBLE, OP_ADD_LOCALS_DOUBLE), (OP_SUB_DOUBLE, OP_SUB_LOCALS_DOUBLE),
                      (OP_MUL_DOUBLE, OP_MUL_LOCALS_DOUBLE), (OP_DIV_DOUBLE, OP_DIV_LOCALS_DOUBLE)] (c ! 4))
      else None)"

definition pattern_local_const :: "u8 list \<Rightarrow> u8 list option" where
  "pattern_local_const c =
     (if 5 \<le> length c \<and> c ! 0 = OP_LOAD_LOCAL \<and> c ! 2 = OP_CONST
      then map_option (\<lambda>r. [r, c ! 1, c ! 3, 0, 0])
             (map_of [(OP_ADD_INT, OP_ADD_LOCAL_CONST_INT), (OP_SUB_INT, OP_SUB_LOCAL_CONST_INT), (OP_MUL_INT, OP_MUL_LOCAL_CONST_INT),
                      (OP_DIV_INT, OP_DIV_LOCAL_CONST_INT), (OP_MOD_INT, OP_MOD_LOCAL_CONST_INT),
                      (OP_BIT_AND_INT, OP_BIT_AND_LOCAL_CONST_INT), (OP_BIT_OR_INT, OP_BIT_OR_LOCAL_CONST_INT),
                      (OP_BIT_XOR_INT, OP_BIT_XOR_LOCAL_CONST_INT), (OP_ADD_DOUBLE, OP_ADD_LOCAL_CONST_DOUBLE),
                      (OP_SUB_DOUBLE, OP_SUB_LOCAL_CONST_DOUBLE), (OP_MUL_DOUBLE, OP_MUL_LOCAL_CONST_DOUBLE),
                      (OP_DIV_DOUBLE, OP_DIV_LOCAL_CONST_DOUBLE)] (c ! 4))
      else None)"

definition pattern_sqrt_local :: "u8 list \<Rightarrow> u8 list option" where
  "pattern_sqrt_local c =
     (if 3 \<le> length c \<and> c ! 0 = OP_LOAD_LOCAL \<and> c ! 2 = OP_SQRT then Some [OP_SQRT_LOCAL_DOUBLE, c ! 1, 0] else None)"

definition pattern_array_len_local :: "u8 list \<Rightarrow> u8 list option" where
  "pattern_array_len_local c =
     (if 3 \<le> length c \<and> c ! 0 = OP_LOAD_LOCAL \<and> c ! 2 = OP_ARRAY_LEN then Some [OP_ARRAY_LEN_LOCAL, c ! 1, 0] else None)"

definition pattern_stack_local :: "u8 list \<Rightarrow> u8 list option" where
  "pattern_stack_local c =
     (if 3 \<le> length c \<and> c ! 0 = OP_LOAD_LOCAL
      then map_option (\<lambda>r. [r, c ! 1, 0])
             (map_of [(OP_ADD_INT, OP_ADD_STACK_LOCAL_INT), (OP_SUB_INT, OP_SUB_STACK_LOCAL_INT), (OP_MUL_INT, OP_MUL_STACK_LOCAL_INT),
                      (OP_DIV_INT, OP_DIV_STACK_LOCAL_INT), (OP_MOD_INT, OP_MOD_STACK_LOCAL_INT),
                      (OP_BIT_AND_INT, OP_BIT_AND_STACK_LOCAL_INT), (OP_BIT_OR_INT, OP_BIT_OR_STACK_LOCAL_INT),
                      (OP_BIT_XOR_INT, OP_BIT_XOR_STACK_LOCAL_INT), (OP_ADD_DOUBLE, OP_ADD_STACK_LOCAL_DOUBLE),
                      (OP_SUB_DOUBLE, OP_SUB_STACK_LOCAL_DOUBLE), (OP_MUL_DOUBLE, OP_MUL_STACK_LOCAL_DOUBLE),
                      (OP_DIV_DOUBLE, OP_DIV_STACK_LOCAL_DOUBLE)] (c ! 2))
      else None)"

definition pattern_stack_const :: "u8 list \<Rightarrow> u8 list option" where
  "pattern_stack_const c =
     (if 3 \<le> length c \<and> c ! 0 = OP_CONST
      then map_option (\<lambda>r. [r, c ! 1, 0])
             (map_of [(OP_ADD_INT, OP_ADD_STACK_CONST_INT), (OP_SUB_INT, OP_SUB_STACK_CONST_INT), (OP_MUL_INT, OP_MUL_STACK_CONST_INT),
                      (OP_DIV_INT, OP_DIV_STACK_CONST_INT), (OP_MOD_INT, OP_MOD_STACK_CONST_INT),
                      (OP_BIT_AND_INT, OP_BIT_AND_STACK_CONST_INT), (OP_BIT_OR_INT, OP_BIT_OR_STACK_CONST_INT),
                      (OP_BIT_XOR_INT, OP_BIT_XOR_STACK_CONST_INT), (OP_ADD_DOUBLE, OP_ADD_STACK_CONST_DOUBLE),
                      (OP_SUB_DOUBLE, OP_SUB_STACK_CONST_DOUBLE), (OP_MUL_DOUBLE, OP_MUL_STACK_CONST_DOUBLE),
                      (OP_DIV_DOUBLE, OP_DIV_STACK_CONST_DOUBLE)] (c ! 2))
      else None)"

definition pattern_const_local :: "u8 list \<Rightarrow> u8 list option" where
  "pattern_const_local c =
     (if 5 \<le> length c \<and> c ! 0 = OP_CONST
      then map_option (\<lambda>r. [r, c ! 3, c ! 1, 0, 0])
             (map_of [(OP_ADD_STACK_LOCAL_INT, OP_ADD_LOCAL_CONST_INT), (OP_MUL_STACK_LOCAL_INT, OP_MUL_LOCAL_CONST_INT),
                      (OP_BIT_AND_STACK_LOCAL_INT, OP_BIT_AND_LOCAL_CONST_INT), (OP_BIT_OR_STACK_LOCAL_INT, OP_BIT_OR_LOCAL_CONST_INT),
                      (OP_BIT_XOR_STACK_LOCAL_INT, OP_BIT_XOR_LOCAL_CONST_INT), (OP_ADD_STACK_LOCAL_DOUBLE, OP_ADD_LOCAL_CONST_DOUBLE),
                      (OP_MUL_STACK_LOCAL_DOUBLE, OP_MUL_LOCAL_CONST_DOUBLE)] (c ! 2))
      else None)"

text \<open>The first pattern that applies.\<close>

fun first_match :: "('a \<Rightarrow> 'b option) list \<Rightarrow> 'a \<Rightarrow> 'b option" where
  "first_match [] x = None"
| "first_match (f # fs) x = (case f x of Some y \<Rightarrow> Some y | None \<Rightarrow> first_match fs x)"

definition superinstruction_patterns :: "(u8 list \<Rightarrow> u8 list option) list" where
  "superinstruction_patterns =
     [pattern_jump_pop, pattern_global_binary, pattern_array_get_store, pattern_mul_store, pattern_evala_madd, pattern_add2,
      pattern_locals, pattern_local_const, pattern_sqrt_local, pattern_array_len_local, pattern_stack_local, pattern_stack_const,
      pattern_const_local]"

definition superinstruction_at :: "u8 list \<Rightarrow> u8 list option" where
  "superinstruction_at c = first_match superinstruction_patterns c"

definition overwrite :: "u8 list \<Rightarrow> nat \<Rightarrow> u8 list \<Rightarrow> u8 list" where
  "overwrite code pc bs = take pc code @ bs @ drop (pc + length bs) code"

lemma superinstruction_at_length: "superinstruction_at c = Some bs \<Longrightarrow> bs \<noteq> [] \<and> length bs \<le> length c"
  by (auto simp: superinstruction_at_def superinstruction_patterns_def pattern_jump_pop_def pattern_global_binary_def
      pattern_array_get_store_def pattern_mul_store_def pattern_evala_madd_def pattern_add2_def pattern_locals_def
      pattern_local_const_def pattern_sqrt_local_def pattern_array_len_local_def pattern_stack_local_def pattern_stack_const_def
      pattern_const_local_def split: if_splits option.splits)

lemma length_overwrite [simp]: "pc + length bs \<le> length code \<Longrightarrow> length (overwrite code pc bs) = length code"
  by (simp add: overwrite_def)

function superinstruction_scan :: "u8 list \<Rightarrow> nat \<Rightarrow> bool \<Rightarrow> u8 list \<times> bool" where
  "superinstruction_scan code pc changed =
     (if pc \<ge> length code then (code, changed)
      else case superinstruction_at (drop pc code) of
             Some bs \<Rightarrow> superinstruction_scan (overwrite code pc bs) (pc + length bs) True
           | None \<Rightarrow> superinstruction_scan code (pc + peephole_instruction_len (code ! pc)) changed)"
  by pat_completeness auto
termination
proof (relation "measure (\<lambda>(code, pc, changed). length code - pc)", goal_cases)
  case (2 code pc changed)
  then show ?case using peephole_instruction_len_pos [of "code ! pc"] by simp
next
  case (3 code pc changed bs)
  then show ?case using superinstruction_at_length [of "drop pc code" bs] by (cases bs) (auto simp: less_diff_conv)
qed simp

declare superinstruction_scan.simps [simp del]

fun superinstruction_iterate :: "nat \<Rightarrow> u8 list \<Rightarrow> u8 list" where
  "superinstruction_iterate 0 code = code"
| "superinstruction_iterate (Suc n) code =
     (case superinstruction_scan code 0 False of (code, changed) \<Rightarrow> if changed then superinstruction_iterate n code else code)"

definition superinstruction_optimize :: "Chunk \<Rightarrow> Chunk" where
  "superinstruction_optimize chunk =
     (if ch_code_count chunk < 3 then chunk else chunk\<lparr>ch_code := superinstruction_iterate 3 (ch_code chunk)\<rparr>)"

end
