(* ===== verification/VM_Invariant.thy ===== *)
theory VM_Invariant
  imports VM_Run
begin

text \<open>
  What every instruction of the interpreter keeps.  A property of a machine that the primitive operations keep is
  kept by every handler of the \<open>switch\<close> (the locales \<open>vm_property\<close> and \<open>vm_handlers\<close>); it is used with the part of the
  machine that no instruction changes, and with the invariant of the machine.
\<close>

section \<open>Errors of the model\<close>

lemmas vm_error_defs =
  ERR_MIX_BIGINT_DOUBLE_def ERR_NUMBERS_OR_STRINGS_def ERR_NUMBERS_def ERR_COMPARABLE_def ERR_STRING_LENGTH_def
  ERR_DIVISION_BY_ZERO_def ERR_UNSUPPORTED_ARITHMETIC_def ERR_UNSUPPORTED_COMPARISON_def ERR_STACK_OVERFLOW_def
  ERR_STACK_UNDERFLOW_def ERR_PEEK_OUT_OF_BOUNDS_def ERR_TRUNCATED_def ERR_CONSTANT_INDEX_OUT_OF_BOUNDS_def
  ERR_MODULO_BY_ZERO_def ERR_STRING_PAYLOAD_def ERR_BIGINT_PAYLOAD_def ERR_OPERANDS_INTEGER_def ERR_OPERANDS_DOUBLE_def
  ERR_OPERAND_NUMBER_def ERR_NAME_INDEX_def ERR_NAME_STRING_def ERR_GLOBAL_SLOT_OUT_OF_BOUNDS_def ERR_INVALID_NAME_def
  ERR_OPERAND_INTEGER_def ERR_ARRAY_INDEX_OUT_OF_BOUNDS_def ERR_ARRAY_ELEMENT_DOUBLE_def ERR_CANNOT_INDEX_NON_ARRAY_def
  ERR_ARRAY_INDEX_INTEGER_def ERR_ACCUMULATOR_DOUBLE_def ERR_OPERANDS_INTEGERS_def ERR_OPERAND_DOUBLE_def ERR_NOT_def
  ERR_LOGICAL_def ERR_BIT_NOT_def ERR_BITWISE_def ERR_SAME_NUMERIC_def ERR_CONDITION_BOOL_def ERR_EXECUTION_LIMIT_EXCEEDED_def
  ERR_ARRAY_ELEMENT_INTEGER_def ERR_ACCUMULATOR_INTEGER_def ERR_INVALID_BYTES_BUFFER_def ERR_BYTES_RANGE_def
  ERR_ARRAY_INDEX_OUT_OF_RANGE_def ERR_COPY_ARRAYS_def ERR_COPY_LENGTH_def ERR_PUSH_NON_ARRAY_def ERR_POP_NON_ARRAY_def

lemma reported_not_diverges [simp]:
  "ERR_MIX_BIGINT_DOUBLE \<noteq> DIVERGES" "ERR_NUMBERS_OR_STRINGS \<noteq> DIVERGES" "ERR_NUMBERS \<noteq> DIVERGES" "ERR_COMPARABLE \<noteq> DIVERGES"
  "ERR_STRING_LENGTH \<noteq> DIVERGES" "ERR_DIVISION_BY_ZERO \<noteq> DIVERGES" "ERR_UNSUPPORTED_ARITHMETIC \<noteq> DIVERGES"
  "ERR_UNSUPPORTED_COMPARISON \<noteq> DIVERGES" "ERR_STACK_OVERFLOW \<noteq> DIVERGES" "ERR_STACK_UNDERFLOW \<noteq> DIVERGES"
  "ERR_PEEK_OUT_OF_BOUNDS \<noteq> DIVERGES" "ERR_TRUNCATED \<noteq> DIVERGES" "ERR_CONSTANT_INDEX_OUT_OF_BOUNDS \<noteq> DIVERGES"
  "ERR_MODULO_BY_ZERO \<noteq> DIVERGES" "ERR_STRING_PAYLOAD \<noteq> DIVERGES" "ERR_BIGINT_PAYLOAD \<noteq> DIVERGES" "ERR_OPERANDS_INTEGER \<noteq> DIVERGES"
  "ERR_OPERANDS_DOUBLE \<noteq> DIVERGES" "ERR_OPERAND_NUMBER \<noteq> DIVERGES" "ERR_NAME_INDEX \<noteq> DIVERGES" "ERR_NAME_STRING \<noteq> DIVERGES"
  "ERR_GLOBAL_SLOT_OUT_OF_BOUNDS \<noteq> DIVERGES" "ERR_INVALID_NAME \<noteq> DIVERGES" "ERR_OPERAND_INTEGER \<noteq> DIVERGES"
  "ERR_ARRAY_INDEX_OUT_OF_BOUNDS \<noteq> DIVERGES" "ERR_ARRAY_ELEMENT_DOUBLE \<noteq> DIVERGES" "ERR_CANNOT_INDEX_NON_ARRAY \<noteq> DIVERGES"
  "ERR_ARRAY_INDEX_INTEGER \<noteq> DIVERGES" "ERR_ACCUMULATOR_DOUBLE \<noteq> DIVERGES" "ERR_OPERANDS_INTEGERS \<noteq> DIVERGES"
  "ERR_OPERAND_DOUBLE \<noteq> DIVERGES" "ERR_NOT \<noteq> DIVERGES" "ERR_LOGICAL \<noteq> DIVERGES" "ERR_BIT_NOT \<noteq> DIVERGES" "ERR_BITWISE \<noteq> DIVERGES"
  "ERR_ARRAY_ELEMENT_INTEGER \<noteq> DIVERGES" "ERR_ACCUMULATOR_INTEGER \<noteq> DIVERGES" "ERR_INVALID_BYTES_BUFFER \<noteq> DIVERGES"
  "ERR_BYTES_RANGE \<noteq> DIVERGES" "ERR_ARRAY_INDEX_OUT_OF_RANGE \<noteq> DIVERGES" "ERR_COPY_ARRAYS \<noteq> DIVERGES"
  "ERR_COPY_LENGTH \<noteq> DIVERGES" "ERR_PUSH_NON_ARRAY \<noteq> DIVERGES" "ERR_POP_NON_ARRAY \<noteq> DIVERGES"
  "ERR_SAME_NUMERIC \<noteq> DIVERGES" "ERR_CONDITION_BOOL \<noteq> DIVERGES" "ERR_EXECUTION_LIMIT_EXCEEDED \<noteq> DIVERGES"
  by (simp_all add: vm_error_defs)

text \<open>Computing a result always ends.\<close>

lemma results_end [simp]:
  "int64_result i \<noteq> Inl DIVERGES" "int_op_result iop x y \<noteq> Inl DIVERGES" "dbl_op_result d dop x y \<noteq> Inl DIVERGES"
  "compare_switch op lt le gt ge \<noteq> Inl DIVERGES"
  by (auto simp: int64_result_def int_op_result_def dbl_op_result_def compare_switch_def split: int_op.split dbl_op.split)

lemma arith_bigint_end: "err \<noteq> DIVERGES \<Longrightarrow> (\<And>x y. f x y \<noteq> Inl DIVERGES) \<Longrightarrow> arith_bigint err f a b \<noteq> Inl DIVERGES"
  by (simp add: arith_bigint_def split: option.split)

lemma case_ints_end:
  assumes "\<And>x y. f x y \<noteq> Inl DIVERGES" and "g \<noteq> Inl DIVERGES"
  shows "(case (a, b) of (VAL_INT x, VAL_INT y) \<Rightarrow> f x y | _ \<Rightarrow> g) \<noteq> Inl DIVERGES"
  using assms by (cases a; cases b) simp_all

lemma case_ints_doubles_end:
  assumes "\<And>x y. f x y \<noteq> Inl DIVERGES" and "\<And>x y. h x y \<noteq> Inl DIVERGES" and "g \<noteq> Inl DIVERGES"
  shows "(case (a, b) of (VAL_INT x, VAL_INT y) \<Rightarrow> f x y | (VAL_DOUBLE x, VAL_DOUBLE y) \<Rightarrow> h x y | _ \<Rightarrow> g) \<noteq> Inl DIVERGES"
  using assms by (cases a; cases b) simp_all
lemma if_end: "(c \<Longrightarrow> x \<noteq> Inl DIVERGES) \<Longrightarrow> (\<not> c \<Longrightarrow> y \<noteq> Inl DIVERGES) \<Longrightarrow> (if c then x else y) \<noteq> Inl DIVERGES"
  by simp

lemma vm_arith_end [simp]: "vm_compute_arithmetic_op d n op a b \<noteq> Inl DIVERGES"
proof -
  have div: "(case obj_bigint_div (Some x) (Some y) False of
      (quot, z) \<Rightarrow> if z then Inl ERR_DIVISION_BY_ZERO else Inr (VAL_BIGINT (Some quot))) \<noteq> (Inl DIVERGES :: vm_error + Value)" for x y
    by (simp split: prod.split)
  have add: "(case (a, b) of
                  (VAL_INT i, VAL_INT j) \<Rightarrow> int64_result (sint i + sint j)
                | (VAL_DOUBLE x, VAL_DOUBLE y) \<Rightarrow> Inr (VAL_DOUBLE (d_add d x y))
                | (VAL_STRING (Some s), VAL_STRING (Some t)) \<Rightarrow>
                    let len = int (length (os_chars s)) + int (length (os_chars t))
                    in if len > INT_MAX then Inl UNDEFINED
                       else if len > n then Inl ERR_STRING_LENGTH
                       else Inr (VAL_STRING (Some (obj_string_create (cstr (os_chars s @ os_chars t)))))
                | (VAL_STRING s, VAL_STRING t) \<Rightarrow> Inl UNDEFINED
                | _ \<Rightarrow> Inl ERR_NUMBERS_OR_STRINGS) \<noteq> Inl DIVERGES"
    by (cases a; cases b) (simp_all add: Let_def split: option.split)
  show ?thesis
    unfolding vm_compute_arithmetic_op_def
    by (intro if_end arith_bigint_end case_ints_doubles_end add div) simp_all
qed

lemma vm_compare_end [simp]: "vm_compute_comparison_op op a b \<noteq> Inl DIVERGES"
  unfolding vm_compute_comparison_op_def
  by (intro if_end arith_bigint_end case_ints_doubles_end) (simp_all add: Let_def)

lemma mod_result_end [simp]: "mod_result a b \<noteq> Inl DIVERGES"
proof -
  have rem: "(case obj_bigint_mod (Some x) (Some y) False of
      (rem, z) \<Rightarrow> if z then Inl ERR_DIVISION_BY_ZERO else Inr (VAL_BIGINT (Some rem))) \<noteq> (Inl DIVERGES :: vm_error + Value)" for x y
    by (simp split: prod.split)
  show ?thesis unfolding mod_result_def
    by (intro if_end arith_bigint_end case_ints_end rem) simp_all
qed

lemma bitwise_result_end [simp]: "bitwise_result op a b \<noteq> Inl DIVERGES"
  unfolding bitwise_result_def by (intro if_end arith_bigint_end case_ints_end) simp_all

lemma neg_result_end [simp]: "neg_result a \<noteq> Inl DIVERGES"
  by (cases a) (simp_all add: neg_result_def)

lemma logic_result_end [simp]: "logic_result f a b \<noteq> Inl DIVERGES"
  by (cases a; cases b) (simp_all add: logic_result_def)

lemma equals_result_end [simp]: "equals_result e a b \<noteq> Inl DIVERGES"
  by (simp add: equals_result_def split: option.split)

lemma local_const_result_end [simp]: "local_const_result vm iop dop v c \<noteq> Inl DIVERGES"
  by (cases v; cases c) (simp_all add: local_const_result_def)

lemma byte_at_end [simp]: "byte_at vm p i \<noteq> Inl DIVERGES"
  by (simp add: byte_at_def split: option.split)

lemma indexed_value_end [simp]: "indexed_value vm v i \<noteq> Inl DIVERGES"
  by (cases v) (simp_all add: indexed_value_def)

lemma elements_end [simp]: "int_element arr i \<noteq> Inl DIVERGES" "double_element arr i \<noteq> Inl DIVERGES"
  by (simp_all add: int_element_def double_element_def split: option.split)

lemma typed_value_end [simp]: "(\<And>arr i. elem arr i \<noteq> Inl DIVERGES) \<Longrightarrow> typed_value elem vm v i \<noteq> Inl DIVERGES"
  by (cases v) (simp_all add: typed_value_def)

lemma madd_int_end [simp]: "madd_int a f e \<noteq> Inl DIVERGES"
  using results_end(2) [of I_MUL f e] results_end(2) [of I_ADD a] by (auto simp: madd_int_def split: sum.split Value.split)

lemma checked_index_end [simp]: "checked_index a i \<noteq> Inl DIVERGES"
  by (cases a; cases i) (simp_all add: checked_index_def)

lemma set_byte_end [simp]: "set_byte vm p i v \<noteq> Inl DIVERGES"
  by (cases v) (simp_all add: set_byte_def split: option.split)

lemma set_indexed_end [simp]: "set_indexed vm a i v \<noteq> Inl DIVERGES"
  by (cases a) (simp_all add: set_indexed_def)

lemma copy_checked_end [simp]: "copy_checked d s vm \<noteq> Inl DIVERGES"
  by (cases d; cases s) (simp_all add: copy_checked_def)

lemma prefix_checked_end [simp]: "prefix_checked op a h vm \<noteq> Inl DIVERGES"
  by (cases a; cases h) (simp_all add: prefix_checked_def Let_def)

lemma length_value_end [simp]: "length_value vm v \<noteq> Inl DIVERGES"
  by (cases v) (simp_all add: length_value_def split: option.split)

lemma element_error_end [simp]: "element_error t \<noteq> DIVERGES"
  by (simp add: element_error_def split: element_type.split)

section \<open>Properties of a machine that every handler keeps\<close>

text \<open>A handler's outcome, a failure or a machine that runs on, has a property.\<close>

definition outcome :: "(vm \<Rightarrow> bool) \<Rightarrow> vm + vm \<Rightarrow> bool" where
  "outcome Q r = (case r of Inl vm \<Rightarrow> Q vm | Inr vm \<Rightarrow> Q vm)"

lemma outcome_simps [simp]: "outcome Q (Inl vm) = Q vm" "outcome Q (Inr vm) = Q vm"
  by (simp_all add: outcome_def)
locale vm_property =
  fixes P :: "vm \<Rightarrow> bool"
  assumes stack: "P vm \<Longrightarrow> int (length s) \<le> max (vm_stack_count vm) (vm_max_stack_size vm) \<Longrightarrow> P (vm\<lparr>vm_stack := s\<rparr>)"
    and ip: "P vm \<Longrightarrow> P (vm\<lparr>vm_ip := i\<rparr>)"
    and events: "P vm \<Longrightarrow> P (vm\<lparr>vm_events := ev\<rparr>)"
    and error: "P vm \<Longrightarrow> e \<noteq> DIVERGES \<Longrightarrow> P (vm\<lparr>vm_error := Some e\<rparr>)"
    and arrays: "P vm \<Longrightarrow> P (vm\<lparr>vm_arrays := a\<rparr>)"
    and next_array: "P vm \<Longrightarrow> P (vm\<lparr>vm_next_array := n\<rparr>)"
    and byte_store: "P vm \<Longrightarrow> P (vm\<lparr>vm_byte_store := st\<rparr>)"
    and code: "P vm \<Longrightarrow> length c = length (vm_code vm) \<Longrightarrow> P (vm_update_func (\<lambda>f. f\<lparr>fn_code := c\<rparr>) vm)"
begin

lemma runtime_error: "P vm \<Longrightarrow> e \<noteq> DIVERGES \<Longrightarrow> P (vm_runtime_error vm e)"
  by (simp add: vm_runtime_error_def error)

lemma push: "P vm \<Longrightarrow> P (push vm v)"
  by (auto simp: push_def vm_stack_count_def runtime_error intro: stack)

lemma retain: "P vm \<Longrightarrow> P (vm_retain v vm)"
  by (simp add: vm_retain_def events)

lemma release: "P vm \<Longrightarrow> P (vm_release v vm)"
  by (simp add: vm_release_def events)

lemma log: "P vm \<Longrightarrow> P (vm_log ev vm)"
  by (simp add: vm_log_def events)

lemma drop: "P vm \<Longrightarrow> P (vm_drop n vm)"
  by (auto simp: vm_drop_def vm_stack_count_def intro: stack)

lemma set_top: "P vm \<Longrightarrow> P (vm_set_top v vm)"
  by (auto simp: vm_set_top_def vm_stack_count_def intro: stack)

lemma set_local: "P vm \<Longrightarrow> P (set_local slot v vm)"
  by (auto simp: set_local_def vm_stack_count_def intro: stack)

lemma pop: "P vm \<Longrightarrow> pop vm = (v, vm') \<Longrightarrow> P vm'"
  by (auto simp: pop_def vm_stack_count_def split: if_splits intro!: stack runtime_error)

lemma peek: "P vm \<Longrightarrow> peek vm i = (v, vm') \<Longrightarrow> P vm'"
  by (auto simp: peek_def Let_def split: if_splits intro!: runtime_error)

lemma jump_if: "P vm \<Longrightarrow> P (jump_if c i vm)"
  by (simp add: jump_if_def ip)

lemma patch_code: "P vm \<Longrightarrow> P (patch_code ps vm)"
proof -
  have len: "length (foldl (\<lambda>code (k, b). code[f k := b]) c ps) = length c" for f :: "nat \<Rightarrow> nat" and c :: "u8 list"
    by (induction ps arbitrary: c) auto
  assume "P vm"
  then have "P (vm_update_func (\<lambda>f. f\<lparr>fn_code := foldl (\<lambda>code (k, b). code[nat (vm_ip vm - int k) := b]) (vm_code vm) ps\<rparr>) vm)"
    by (rule code) (rule len)
  then show ?thesis by (simp add: patch_code_def vm_update_func_def vm_code_def)
qed

lemma store_element: "P vm \<Longrightarrow> P (store_element p i v vm)"
  by (auto simp: store_element_def Let_def split: array_data.split intro!: arrays release)

lemma store_byte: "P vm \<Longrightarrow> P (store_byte p i b vm)"
  by (auto simp: store_byte_def Let_def split: option.split intro: byte_store)

lemma copy_elements: "P vm \<Longrightarrow> P (copy_elements d s vm)"
  by (auto simp: copy_elements_def Let_def split: array_data.split intro!: arrays log)

lemmas keep = push retain release log drop set_top set_local jump_if patch_code ip runtime_error arrays next_array store_element
  store_byte copy_elements

end

text \<open>
  A property \<open>P\<close> with which an instruction starts and a weaker property \<open>Q\<close> with which it ends, when the operations on
  globals and strings, which an instruction performs at most once, lead from one to the other.
\<close>

locale vm_handlers = before: vm_property P + after: vm_property Q for P Q +
  assumes weaken: "P vm \<Longrightarrow> Q vm"
    and resolve: "P vm \<Longrightarrow> case vm_resolve vm i of None \<Rightarrow> Q (vm_runtime_error vm DIVERGES) | Some (slot, vm') \<Rightarrow> P vm'"
    and get_global: "P vm \<Longrightarrow> vm_get_global (vm_globs vm) (Some name) = None \<Longrightarrow> Q (vm_runtime_error vm DIVERGES)"
    and intern: "P vm \<Longrightarrow> case vm_intern_string (vm_string_pool vm) (cstr s) of
        None \<Rightarrow> Q (vm_runtime_error vm DIVERGES) | Some (pool, obj) \<Rightarrow> Q (vm\<lparr>vm_string_pool := pool\<rparr>)"
    and set_global: "P vm \<Longrightarrow> case vm_set_global (vm_globs vm) (Some name) v of
        None \<Rightarrow> Q (vm_runtime_error vm DIVERGES) | Some (g, ev) \<Rightarrow> Q (vm\<lparr>vm_globs := g\<rparr>)"
    and set_slot: "P vm \<Longrightarrow> case vm_set_global_slot_value (vm_globs vm) b v of
        None \<Rightarrow> Q (vm_runtime_error vm DIVERGES) | Some (ok, g, ev) \<Rightarrow> Q (vm\<lparr>vm_globs := g\<rparr>)"
    and store_slot: "P vm \<Longrightarrow> vm_get_global_name_constant vm i = Inr name \<Longrightarrow> vm_resolve vm i = Some (slot, vm') \<Longrightarrow>
        slot_in_use vm' slot \<Longrightarrow> case store_in_slot (vm_globs vm') (nat slot) name v of
        None \<Rightarrow> Q (vm_runtime_error vm' DIVERGES) | Some (g, ev) \<Rightarrow> Q (vm'\<lparr>vm_globs := g\<rparr>)"
    and mutate: "P vm \<Longrightarrow> int (unat b) < vg_count (vm_globs vm) \<Longrightarrow> Q (mutate_global b v vm)"
begin

lemma fail: "P vm \<Longrightarrow> e \<noteq> DIVERGES \<Longrightarrow> outcome Q (vm_fail vm e)"
  by (simp add: weaken before.runtime_error)

lemma continue: "P vm \<Longrightarrow> outcome Q (Inr vm)"
  by (simp add: weaken)

lemma operands: "P vm \<Longrightarrow> (\<And>bs vm'. P vm' \<Longrightarrow> outcome Q (f bs vm')) \<Longrightarrow> outcome Q (with_operands n vm f)"
  by (simp add: with_operands_def weaken before.runtime_error before.ip)

lemma at_local: "P vm \<Longrightarrow> (\<And>v. outcome Q (f v)) \<Longrightarrow> outcome Q (with_local vm slot f)"
  by (simp add: with_local_def weaken before.runtime_error)

lemma at_constant: "P vm \<Longrightarrow> (\<And>c. outcome Q (f c)) \<Longrightarrow> outcome Q (with_constant vm i f)"
  by (simp add: with_constant_def weaken before.runtime_error)

lemma result: "P vm \<Longrightarrow> r \<noteq> Inl DIVERGES \<Longrightarrow> (\<And>v. P (k v)) \<Longrightarrow> outcome Q (vm_result vm r k)"
  by (cases r) (auto simp: vm_result_def weaken before.runtime_error)

lemma either: "(c \<Longrightarrow> outcome Q x) \<Longrightarrow> (\<not> c \<Longrightarrow> outcome Q y) \<Longrightarrow> outcome Q (if c then x else y)"
  by simp

lemma case_ints: "(\<And>x y. outcome Q (f x y)) \<Longrightarrow> outcome Q g \<Longrightarrow> outcome Q (case (a, b) of (VAL_INT x, VAL_INT y) \<Rightarrow> f x y | _ \<Rightarrow> g)"
  by (cases a; cases b) simp_all

lemma case_doubles:
  "(\<And>x y. outcome Q (f x y)) \<Longrightarrow> outcome Q g \<Longrightarrow> outcome Q (case (a, b) of (VAL_DOUBLE x, VAL_DOUBLE y) \<Rightarrow> f x y | _ \<Rightarrow> g)"
  by (cases a; cases b) simp_all

lemma case_int_const:
  "(\<And>x y. outcome Q (f x y)) \<Longrightarrow> outcome Q g \<Longrightarrow> outcome Q (case (a, c) of (VAL_INT x, CONST_INT y) \<Rightarrow> f x y | _ \<Rightarrow> g)"
  by (cases a; cases c) simp_all

lemma case_double_const:
  "(\<And>x y. outcome Q (f x y)) \<Longrightarrow> outcome Q g \<Longrightarrow> outcome Q (case (a, c) of (VAL_DOUBLE x, CONST_DOUBLE y) \<Rightarrow> f x y | _ \<Rightarrow> g)"
  by (cases a; cases c) simp_all

lemma case_int: "(\<And>x. outcome Q (f x)) \<Longrightarrow> outcome Q g \<Longrightarrow> outcome Q (case a of VAL_INT x \<Rightarrow> f x | _ \<Rightarrow> g)"
  by (cases a) simp_all

lemma case_double: "(\<And>x. outcome Q (f x)) \<Longrightarrow> outcome Q g \<Longrightarrow> outcome Q (case a of VAL_DOUBLE x \<Rightarrow> f x | _ \<Rightarrow> g)"
  by (cases a) simp_all

lemma case_bool: "(\<And>x. outcome Q (f x)) \<Longrightarrow> outcome Q g \<Longrightarrow> outcome Q (case a of VAL_BOOL x \<Rightarrow> f x | _ \<Rightarrow> g)"
  by (cases a) simp_all

lemma case_array: "(\<And>x. outcome Q (f x)) \<Longrightarrow> outcome Q g \<Longrightarrow> outcome Q (case a of VAL_ARRAY x \<Rightarrow> f x | _ \<Rightarrow> g)"
  by (cases a) simp_all

lemma case_opt: "outcome Q g \<Longrightarrow> (\<And>x. outcome Q (f x)) \<Longrightarrow> outcome Q (case a of None \<Rightarrow> g | Some x \<Rightarrow> f x)"
  by (cases a) simp_all

lemma case_result:
  "r \<noteq> Inl DIVERGES \<Longrightarrow> (\<And>e. e \<noteq> DIVERGES \<Longrightarrow> outcome Q (g e)) \<Longrightarrow> (\<And>v. outcome Q (f v)) \<Longrightarrow>
   outcome Q (case r of Inl e \<Rightarrow> g e | Inr v \<Rightarrow> f v)"
  by (cases r) auto

lemma popped: "P vm \<Longrightarrow> (\<And>v vm'. P vm' \<Longrightarrow> outcome Q (f v vm')) \<Longrightarrow> outcome Q (case pop vm of (v, vm') \<Rightarrow> f v vm')"
  by (cases "pop vm") (auto dest: before.pop)

lemma peeked: "P vm \<Longrightarrow> (\<And>v vm'. P vm' \<Longrightarrow> outcome Q (f v vm')) \<Longrightarrow> outcome Q (case peek vm i of (v, vm') \<Rightarrow> f v vm')"
  by (cases "peek vm i") (auto dest: before.peek)

lemma at_slot: "P vm \<Longrightarrow> (\<And>slot vm'. P vm' \<Longrightarrow> outcome Q (f slot vm')) \<Longrightarrow> outcome Q (with_slot vm i f)"
  using resolve [of vm i] by (auto simp: with_slot_def split: option.splits)

lemmas rules = operands at_local at_constant result either case_ints case_doubles case_int_const case_double_const case_int case_double
  case_bool case_array case_opt case_result popped peeked at_slot
lemma push_constant: "P vm \<Longrightarrow> outcome Q (vm_push_constant_by_index vm i)"
proof -
  assume P: "P vm"
  have "outcome Q (case vm_intern_string (vm_string_pool vm) (cstr s) of
          None \<Rightarrow> vm_fail vm DIVERGES
        | Some (pool, interned) \<Rightarrow> Inr (push (vm\<lparr>vm_string_pool := pool\<rparr>) (VAL_STRING interned)))" for s
    using intern [OF P, of s] by (auto split: option.splits intro: after.push)
  with P show ?thesis
    by (auto simp: vm_push_constant_by_index_def weaken before.keep split: Constant.split option.split)
qed

lemma stack_handlers:
  assumes "P vm"
  shows "outcome Q (exec_nop vm)" "outcome Q (exec_pop vm)" "outcome Q (exec_dup vm)" "outcome Q (exec_const vm)" "outcome Q (exec_const16 vm)"
    "outcome Q (exec_load_local vm)" "outcome Q (exec_store_local vm)"
  unfolding exec_nop_def exec_pop_def exec_dup_def exec_const_def exec_const16_def exec_load_local_def exec_store_local_def Let_def
  by ((intro rules)?; auto simp: assms weaken before.keep push_constant)+

lemma typed_local_handlers:
  assumes "P vm"
  shows "outcome Q (exec_local_stack_int iop vm)" "outcome Q (exec_local_stack_double dop vm)" "outcome Q (exec_local_const iop dop vm)"
    "outcome Q (exec_add2_local_const vm)" "outcome Q (exec_negate_local vm)" 
  unfolding exec_local_stack_int_def exec_local_stack_double_def exec_local_const_def exec_add2_local_const_def exec_negate_local_def
     Let_def
  by ((intro rules)?; auto simp: assms weaken before.keep split: Value.split)+
lemma case_doubles3:
  "(\<And>x y z. outcome Q (f x y z)) \<Longrightarrow> outcome Q g \<Longrightarrow>
   outcome Q (case (a, b, c) of (VAL_DOUBLE x, VAL_DOUBLE y, VAL_DOUBLE z) \<Rightarrow> f x y z | _ \<Rightarrow> g)"
  by (cases a; simp; cases b; simp; cases c; simp)

lemma typed_stack_handlers:
  assumes "P vm"
  shows "outcome Q (exec_add_local_div_locals vm)" "outcome Q (exec_int iop vm)" "outcome Q (exec_double dop vm)"
  unfolding exec_add_local_div_locals_def exec_int_def exec_double_def Let_def
  by ((intro rules case_doubles3)?; auto simp: assms weaken before.keep)+

lemma unary_stack_handlers:
  assumes "P vm"
  shows "outcome Q (exec_neg_int vm)" "outcome Q (exec_bit_not_int vm)" "outcome Q (exec_recip_int_to_double vm)"
    "outcome Q (exec_neg_double vm)" "outcome Q (exec_sqrt vm)"
  unfolding exec_neg_int_def exec_bit_not_int_def exec_recip_int_to_double_def exec_neg_double_def exec_sqrt_def
  by (cases "vm_top vm"; simp add: assms weaken before.keep result)+

lemma fused_handlers:
  assumes "P vm"
  shows "outcome Q (exec_evala_recip_locals_double vm)" "outcome Q (exec_evala_madd vm)" "outcome Q (exec_locals_int iop vm)"
    "outcome Q (exec_locals_double dop vm)" "outcome Q (exec_mul_locals_int_to_local vm)" "outcome Q (exec_mul_locals_double_to_local vm)"
    "outcome Q (exec_local_const_int iop vm)" "outcome Q (exec_local_const_double dop vm)" "outcome Q (exec_stack_local_int iop vm)"
    "outcome Q (exec_stack_local_double dop vm)" "outcome Q (exec_stack_const_int iop vm)" "outcome Q (exec_stack_const_double dop vm)"
    "outcome Q (exec_sqrt_local_double vm)"
  unfolding exec_evala_recip_locals_double_def exec_evala_madd_def exec_locals_int_def exec_locals_double_def
    exec_mul_locals_int_to_local_def exec_mul_locals_double_to_local_def exec_local_const_int_def exec_local_const_double_def
    exec_stack_local_int_def exec_stack_local_double_def exec_stack_const_int_def exec_stack_const_double_def
    exec_sqrt_local_double_def Let_def
  by ((intro rules)?; auto simp: assms weaken before.keep)+

lemma binary: "P vm \<Longrightarrow> (\<And>vm a b. f vm a b \<noteq> Inl DIVERGES) \<Longrightarrow> outcome Q (exec_binary f vm)"
  unfolding exec_binary_def by (intro rules; auto simp: weaken before.keep)

lemma unary: "P vm \<Longrightarrow> (\<And>a. f a \<noteq> Inl DIVERGES) \<Longrightarrow> outcome Q (exec_unary f vm)"
  unfolding exec_unary_def by (intro rules; auto simp: weaken before.keep)

lemma generic_handlers:
  assumes "P vm"
  shows "outcome Q (exec_arith op vm)" "outcome Q (exec_mod vm)" "outcome Q (exec_neg vm)" "outcome Q (exec_eq vm)" "outcome Q (exec_ne vm)"
    "outcome Q (exec_compare op vm)" "outcome Q (exec_not vm)" "outcome Q (exec_and vm)" "outcome Q (exec_or vm)"
    "outcome Q (exec_bit_not vm)" "outcome Q (exec_bitwise bop vm)"
  unfolding exec_arith_def exec_mod_def exec_neg_def exec_eq_def exec_ne_def exec_compare_def exec_not_def exec_and_def exec_or_def
    exec_bit_not_def exec_bitwise_def
  by (rule binary unary; (rule assms)?; simp split: Value.split)+

lemma element_false: "P vm \<Longrightarrow> outcome Q (jump_if_element_false vm arr i off)"
  unfolding jump_if_element_false_def by (intro rules; auto simp: weaken before.keep)

lemma on_equality: "P vm \<Longrightarrow> outcome Q (jump_on_equality eq r off vm)"
  unfolding jump_on_equality_def by (intro rules; auto simp: weaken before.keep)

lemma branch_handlers:
  assumes "P vm"
  shows "outcome Q (exec_jump vm)" "outcome Q (exec_jump_if_local_cmp cop vm)" "outcome Q (exec_jump_if_local_eq eq vm)"
    "outcome Q (exec_jump_if_local_cmp_const cop vm)" "outcome Q (exec_jump_if_local_eq_const eq vm)"
    "outcome Q (exec_jump_if_local_eq_global_slot eq vm)" "outcome Q (exec_jump_if_stack_cmp_local cop vm)"
    "outcome Q (exec_jump_if_stack_cmp_const cop vm)" "outcome Q (exec_jump_if_array_false_local_const vm)"
    "outcome Q (exec_jump_if_array_false_local_local vm)" "outcome Q (exec_jump_if_false vm)" "outcome Q (exec_jump_if_false_pop vm)"
  unfolding exec_jump_def exec_jump_if_local_cmp_def exec_jump_if_local_eq_def exec_jump_if_local_cmp_const_def exec_jump_if_local_eq_const_def
    exec_jump_if_local_eq_global_slot_def exec_jump_if_stack_cmp_local_def exec_jump_if_stack_cmp_const_def
    exec_jump_if_array_false_local_const_def exec_jump_if_array_false_local_local_def exec_jump_if_false_def exec_jump_if_false_pop_def Let_def
  by ((intro rules)?; auto simp: assms weaken before.keep element_false on_equality)+
lemma load_value:
  assumes "P vm" and "\<And>v. P (k v)"
  shows "outcome Q (vm_result vm (load_global_value vm slot i) k)"
proof -
  have "vm_get_global_name_constant vm i \<noteq> Inl DIVERGES"
    by (auto simp: vm_get_global_name_constant_def split: Constant.split option.split)
  with assms get_global [OF assms(1)] show ?thesis
    by (auto simp: load_global_value_def vm_result_def get_global_named_def weaken before.keep split: sum.split option.split)
qed

lemma load_handlers:
  assumes "P vm"
  shows "outcome Q (exec_load_global vm)" "outcome Q (exec_load_global16 vm)" "outcome Q (exec_load_global_slot vm)"
  unfolding exec_load_global_def exec_load_global16_def exec_load_global_slot_def Let_def
  by (intro operands at_slot either load_value; auto simp: assms weaken before.keep)+

lemma new_globals:
  assumes "case r of None \<Rightarrow> Q (vm_runtime_error vm DIVERGES) | Some (g, ev) \<Rightarrow> Q (vm\<lparr>vm_globs := g\<rparr>)"
  shows "outcome Q (vm_new_globals vm r)"
  using assms by (auto simp: vm_new_globals_def after.log split: option.splits)

lemma patch_code_commute:
  "(patch_code ps vm)\<lparr>vm_globs := g\<rparr> = patch_code ps (vm\<lparr>vm_globs := g\<rparr>)"
  "vm_runtime_error (patch_code ps vm) e = patch_code ps (vm_runtime_error vm e)"
  "vm_globs (patch_code ps vm) = vm_globs vm"
  by (simp_all add: patch_code_def vm_update_func_def vm_runtime_error_def vm_func_def)

lemma store_at:
  assumes P: "P vm" and name: "vm_get_global_name_constant vm i = Inr name" and slot: "vm_resolve vm i = Some (slot, vm')"
  shows "outcome Q (exec_store_global_at vm' slot name v)" and "outcome Q (exec_store_global_at (patch_code ps vm') slot name v)"
proof -
  have P': "P vm'" using resolve [OF P, of i] slot by simp
  have s: "case store_in_slot (vm_globs vm') (nat slot) name v of
        None \<Rightarrow> Q (vm_runtime_error vm' DIVERGES) | Some (g, ev) \<Rightarrow> Q (vm'\<lparr>vm_globs := g\<rparr>)" if "slot_in_use vm' slot"
    by (rule store_slot [OF P name slot that])
  show "outcome Q (exec_store_global_at vm' slot name v)"
    unfolding exec_store_global_at_def by (intro either new_globals s set_global P')
  have "slot_in_use (patch_code ps vm') slot = slot_in_use vm' slot" by (simp add: slot_in_use_def patch_code_commute)
  then show "outcome Q (exec_store_global_at (patch_code ps vm') slot name v)"
    unfolding exec_store_global_at_def
    using s set_global [OF P', of name v]
    by (auto intro!: new_globals simp: patch_code_commute after.patch_code split: option.splits)
qed

lemma name_result:
  "P vm \<Longrightarrow> (\<And>name. vm_get_global_name_constant vm i = Inr name \<Longrightarrow> outcome Q (f name)) \<Longrightarrow>
   outcome Q (case vm_get_global_name_constant vm i of Inl e \<Rightarrow> Inl (vm_release v (vm_runtime_error vm e)) | Inr name \<Rightarrow> f name)"
  by (auto simp: vm_get_global_name_constant_def weaken before.keep split: Constant.splits option.splits sum.splits)

lemma at_named_slot:
  "P vm \<Longrightarrow> (\<And>slot vm'. vm_resolve vm i = Some (slot, vm') \<Longrightarrow> outcome Q (f slot vm')) \<Longrightarrow> outcome Q (with_slot vm i f)"
  using resolve [of vm i] by (auto simp: with_slot_def split: option.splits)

lemma store_slot_result:
  assumes "P vm" and "\<And>g ev. Q (vm\<lparr>vm_globs := g\<rparr>) \<Longrightarrow> outcome Q (f g ev)"
  shows "outcome Q (case vm_set_global_slot_value (vm_globs vm) b v of
      None \<Rightarrow> vm_fail vm DIVERGES
    | Some (ok, g, ev) \<Rightarrow> if \<not> ok then Inl (vm_release v (vm_runtime_error vm ERR_GLOBAL_SLOT_OUT_OF_BOUNDS)) else f g ev)"
  using set_slot [OF assms(1), of b v] assms
  by (auto simp: weaken before.keep split: option.splits)

lemma store_handlers:
  assumes "P vm"
  shows "outcome Q (exec_store_global vm)" "outcome Q (exec_store_global16 vm)" "outcome Q (exec_store_global_slot vm)"
proof -
  show "outcome Q (exec_store_global vm)" "outcome Q (exec_store_global16 vm)"
    unfolding exec_store_global_def exec_store_global16_def Let_def
    by (intro operands popped name_result at_named_slot; auto simp: assms intro: store_at)+
  show "outcome Q (exec_store_global_slot vm)"
    unfolding exec_store_global_slot_def Let_def
    by (intro operands popped store_slot_result; auto simp: assms after.keep)
qed

lemma slot_result: "P vm \<Longrightarrow> outcome Q (set_slot_result vm b v)"
  using set_slot [of vm b v] by (auto simp: set_slot_result_def weaken before.keep after.keep split: option.splits)

lemma fallback_names_end: "fallback_names vm d a b \<noteq> Inl DIVERGES"
  by (auto simp: fallback_names_def Let_def split: sum.split)

lemma named_arith:
  assumes "P vm"
  shows "outcome Q (case (get_global_named vm na, get_global_named vm nb) of
      (Inr a, Inr b) \<Rightarrow>
        (case vm_arith vm op a b of
           Inl e \<Rightarrow> vm_fail vm e
         | Inr v \<Rightarrow> vm_new_globals vm (vm_set_global (vm_globs vm) (Some dst) v))
    | _ \<Rightarrow> vm_fail vm DIVERGES)"
proof (cases "\<exists>a b. get_global_named vm na = Inr a \<and> get_global_named vm nb = Inr b")
  case True
  then obtain a b where "get_global_named vm na = Inr a" "get_global_named vm nb = Inr b" by blast
  moreover have "outcome Q (case vm_arith vm op a b of
      Inl e \<Rightarrow> vm_fail vm e | Inr v \<Rightarrow> vm_new_globals vm (vm_set_global (vm_globs vm) (Some dst) v))"
    using assms by (intro case_result new_globals set_global) (auto simp: weaken before.keep)
  ultimately show ?thesis by simp
next
  case False
  then have "Q (vm_runtime_error vm DIVERGES)"
    using get_global [OF assms] by (auto simp: get_global_named_def split: option.splits)
  with False show ?thesis by (auto split: sum.splits)
qed

lemma global_arith_handler:
  assumes "P vm"
  shows "outcome Q (exec_global_global_to_global op sop vm)"
  unfolding exec_global_global_to_global_def Let_def
  by (intro operands at_slot either case_result fallback_names_end)
    (auto simp: assms weaken before.keep slot_result named_arith [simplified prod.case])

lemma slot_arith_handler:
  assumes "P vm"
  shows "outcome Q (exec_slot_slot_to_slot op vm)"
  unfolding exec_slot_slot_to_slot_def Let_def
  by (intro operands either case_opt)
    (auto simp: assms weaken slot_result before.keep intro!: case_result mutate)

lemma fallback_name_end: "fallback_name vm i \<noteq> Inl DIVERGES"
  by (auto simp: fallback_name_def split: Constant.split option.split)

lemma named_equality:
  "P vm \<Longrightarrow> outcome Q (case get_global_named vm n of Inl e \<Rightarrow> vm_fail vm e | Inr b \<Rightarrow> jump_on_equality eq (f b) off vm)"
  using get_global [of vm n] by (auto simp: get_global_named_def on_equality split: option.split)

lemma global_branch_handler:
  assumes "P vm"
  shows "outcome Q (exec_jump_if_local_eq_global eq vm)"
  unfolding exec_jump_if_local_eq_global_def Let_def
  by (intro operands at_local at_slot either named_equality case_result fallback_name_end)
    (auto simp: assms weaken on_equality before.keep)

lemma reading_handlers:
  assumes "P vm"
  shows "outcome Q (exec_array_new vm)" "outcome Q (exec_array_get_local vm)" "outcome Q (exec_array_get_local_const vm)"
    "outcome Q (exec_array_get_local_local vm)" "outcome Q (exec_array_bounds_check_local_const vm)"
    "outcome Q (exec_array_bounds_check_local_local vm)" "outcome Q (exec_array_get vm)"
  unfolding exec_array_new_def exec_array_get_local_def exec_array_get_local_const_def exec_array_get_local_local_def
    exec_array_bounds_check_local_const_def exec_array_bounds_check_local_local_def bounds_check_def exec_array_get_def Let_def
  by ((intro rules)?; auto simp: assms weaken before.keep)+

lemma typed_reading_handlers:
  assumes "P vm" and "\<And>arr i. elem arr i \<noteq> Inl DIVERGES"
  shows "outcome Q (exec_array_get_const_typed elem vm)" "outcome Q (exec_array_get_local_typed elem vm)"
    "outcome Q (exec_array_get_const_to_local elem vm)" "outcome Q (exec_array_get_local_to_local elem vm)"
  unfolding exec_array_get_const_typed_def exec_array_get_local_typed_def exec_array_get_const_to_local_def
    exec_array_get_local_to_local_def store_element_to_local_def
  by (intro rules; auto simp: assms weaken before.keep)+

lemma case_typed_int:
  assumes "P vm" and "\<And>n. P (f n)"
  shows "outcome Q (case typed_value int_element vm v i of Inr (VAL_INT n) \<Rightarrow> vm_result vm (madd_int a b n) (\<lambda>v. f v) | r \<Rightarrow> vm_result vm r (\<lambda>v. vm))"
proof (cases "typed_value int_element vm v i")
  case (Inl e)
  then show ?thesis using assms result [OF assms(1), of "Inl e"] typed_value_end [of int_element vm v i] by simp
next
  case (Inr w)
  then show ?thesis using assms by (cases w) (auto intro!: result)
qed

lemma case_typed_double:
  assumes "P vm" and "\<And>n. P (f n)"
  shows "outcome Q (case typed_value double_element vm v i of Inr (VAL_DOUBLE n) \<Rightarrow> Inr (f n) | r \<Rightarrow> vm_result vm r (\<lambda>v. vm))"
proof (cases "typed_value double_element vm v i")
  case (Inl e)
  then show ?thesis using assms result [OF assms(1), of "Inl e"] typed_value_end [of double_element vm v i] by simp
next
  case (Inr w)
  then show ?thesis using assms by (cases w) (auto simp: weaken intro!: result)
qed

lemma madd_handlers:
  assumes "P vm"
  shows "outcome Q (exec_madd_int vm)" "outcome Q (exec_madd_double vm)"
  unfolding exec_madd_int_def exec_madd_double_def
  by (intro operands either at_local case_int case_double case_typed_int case_typed_double; auto simp: assms weaken before.keep)+

lemma set_indexed_keeps: "P vm \<Longrightarrow> set_indexed vm a i v = Inr vm' \<Longrightarrow> P vm'"
  by (cases a) (auto simp: set_indexed_def set_byte_def before.keep split: if_splits Value.splits option.splits)

lemma copy_checked_keeps: "P vm \<Longrightarrow> copy_checked d s vm = Inr vm' \<Longrightarrow> P vm'"
  by (cases d; cases s) (auto simp: copy_checked_def before.keep split: if_splits)

lemma prefix_checked_keeps: "P vm \<Longrightarrow> prefix_checked op a h vm = Inr vm' \<Longrightarrow> P vm'"
  by (cases a; cases h) (auto simp: prefix_checked_def Let_def before.keep split: if_splits)

lemma case_checked:
  "r \<noteq> Inl DIVERGES \<Longrightarrow> (\<And>e. e \<noteq> DIVERGES \<Longrightarrow> outcome Q (g e)) \<Longrightarrow> (\<And>v. r = Inr v \<Longrightarrow> outcome Q (f v)) \<Longrightarrow>
   outcome Q (case r of Inl e \<Rightarrow> g e | Inr v \<Rightarrow> f v)"
  by (cases r) auto

lemma set_released: "P vm \<Longrightarrow> outcome Q (set_or_release vm a i v)"
  unfolding set_or_release_def by (intro case_checked) (auto simp: weaken before.keep dest: set_indexed_keeps)

lemma set_typed_keeps: "P vm \<Longrightarrow> outcome Q (set_typed t vm a i v)"
  unfolding set_typed_def Let_def by (intro case_array either) (auto simp: weaken before.keep)

lemma writing_handlers:
  assumes "P vm"
  shows "outcome Q (exec_array_set_local vm)" "outcome Q (exec_array_set_local_const vm)" "outcome Q (exec_array_set_local_local vm)"
    "outcome Q (exec_array_set_const_typed t vm)" "outcome Q (exec_array_set_local_typed t vm)" "outcome Q (exec_array_set vm)"
  unfolding exec_array_set_local_def exec_array_set_local_const_def exec_array_set_local_local_def exec_array_set_const_typed_def
    exec_array_set_local_typed_def exec_array_set_def Let_def
  by (intro operands at_local popped either case_int case_checked; auto simp: assms weaken before.keep set_released set_typed_keeps
      dest: set_indexed_keeps)+

lemma whole_array_handlers:
  assumes "P vm"
  shows "outcome Q (exec_array_copy vm)" "outcome Q (exec_array_copy_local_local vm)" "outcome Q (exec_array_prefix op vm)"
    "outcome Q (exec_array_prefix_local_local op vm)" "outcome Q (exec_array_len_local vm)" "outcome Q (exec_array_len vm)"
    "outcome Q (exec_array_push vm)" "outcome Q (exec_array_pop vm)"
  unfolding exec_array_copy_def exec_array_copy_local_local_def exec_array_prefix_def exec_array_prefix_local_local_def
    exec_array_len_local_def exec_array_len_def exec_array_push_def exec_array_pop_def
  by ((intro operands at_local popped peeked result case_array case_checked)?; auto simp: assms weaken before.keep split: prod.split
      dest: copy_checked_keeps prefix_checked_keeps)+

lemmas handlers = reading_handlers typed_reading_handlers madd_handlers writing_handlers whole_array_handlers stack_handlers typed_local_handlers typed_stack_handlers unary_stack_handlers fused_handlers generic_handlers
  branch_handlers load_handlers store_handlers global_arith_handler slot_arith_handler global_branch_handler

text \<open>Every instruction of the switch leads from \<open>P\<close> to \<open>Q\<close>.\<close>

lemma switch: "(op, f) \<in> set vm_switch \<Longrightarrow> P vm \<Longrightarrow> outcome Q (f vm)"
  unfolding vm_switch_def by (simp only: list.set insert_iff empty_iff Pair_inject) (elim disjE conjE; simp add: handlers)

end
section \<open>The part that no instruction changes\<close>

definition same_frame :: "vm \<Rightarrow> vm \<Rightarrow> bool" where
  "same_frame vm vm' \<longleftrightarrow>
     vm_max_instructions vm' = vm_max_instructions vm \<and> vm_instruction_count vm' = vm_instruction_count vm \<and>
     vm_max_stack_size vm' = vm_max_stack_size vm \<and> vm_max_string_length vm' = vm_max_string_length vm \<and>
     vm_function vm' = vm_function vm \<and> vm_slots_start vm' = vm_slots_start vm \<and> vm_doubles vm' = vm_doubles vm \<and>
     (\<forall>p. fn_constants (vm_functions vm' p) = fn_constants (vm_functions vm p) \<and>
          length (fn_code (vm_functions vm' p)) = length (fn_code (vm_functions vm p)))"

lemma same_frame_refl: "same_frame vm vm"
  by (simp add: same_frame_def)

interpretation frame: vm_handlers "same_frame vm0" "same_frame vm0" for vm0
  by unfold_locales
    (auto simp: same_frame_def vm_update_func_def vm_func_def vm_code_def vm_resolve_def vm_runtime_error_def mutate_global_def Let_def
      split: option.split)

section \<open>The invariant of the machine\<close>

text \<open>
  The globals and the string pool are coherent, with room for \<open>k\<close> more entries; the slot caches of all functions are right;
  the stack respects its limit; and no search has run forever.
\<close>

definition vm_inv :: "nat \<Rightarrow> vm \<Rightarrow> bool" where
  "vm_inv k vm \<longleftrightarrow>
     globals_inv (vm_globs vm) \<and> pool_inv (vm_string_pool vm) \<and>
     ht_count (vg_hash (vm_globs vm)) + int k \<le> 187904819 \<and> ht_count (vm_string_pool vm) + int k \<le> 187904819 \<and>
     (\<forall>p. slot_cache_ok (vg_names (vm_globs vm)) (map constant_name (fn_constants (vm_functions vm p)))
            (fn_global_slot_cache (vm_functions vm p))) \<and>
     vm_stack_count vm \<le> vm_max_stack_size vm \<and> vm_error vm \<noteq> Some DIVERGES"

lemma globals_count: "globals_inv g \<Longrightarrow> ht_count (vg_hash g) = int (length (vg_names g))"
  using hash_table_count(1) [of "vg_hash g"] by (simp add: globals_inv_def distinct_card)

lemma vm_inv_globals:
  assumes "vm_inv (Suc k) vm" and "globals_inv g" and "vg_names g = vg_names (vm_globs vm) \<or> (\<exists>n. vg_names g = vg_names (vm_globs vm) @ [n])"
  shows "vm_inv k (vm\<lparr>vm_globs := g\<rparr>)"
  using assms globals_count [of g] globals_count [of "vm_globs vm"] slot_cache_ok_append
  by (auto simp: vm_inv_def vm_stack_count_def)

lemma vm_resolve_inv:
  assumes "vm_inv k vm"
  shows "\<exists>slot vm'. vm_resolve vm i = Some (slot, vm') \<and> vm_inv k vm' \<and> vm_globs vm' = vm_globs vm \<and>
    constant_slot (vg_names (vm_globs vm)) (map constant_name (vm_constants vm)) i slot"
proof -
  let ?cs = "map constant_name (vm_constants vm)"
  have "slot_cache_ok (vg_names (vm_globs vm)) ?cs (fn_global_slot_cache (vm_func vm))" and g: "globals_inv (vm_globs vm)"
    using assms by (simp_all add: vm_inv_def vm_constants_def vm_func_def)
  from vm_resolve_spec [OF g this(1), of i] obtain slot c where
    r: "vm_resolve_global_slot_cached (vm_globs vm) ?cs (fn_global_slot_cache (vm_func vm)) i = Some (slot, vm_globs vm, c)"
    "constant_slot (vg_names (vm_globs vm)) ?cs i slot" "slot_cache_ok (vg_names (vm_globs vm)) ?cs c"
    by blast
  let ?vm = "vm_update_func (\<lambda>f. f\<lparr>fn_global_slot_cache := c\<rparr>) vm"
  have "vm_resolve vm i = Some (slot, ?vm)" using r(1) by (simp add: vm_resolve_def)
  moreover have "vm_inv k ?vm"
    using assms r(3) by (auto simp: vm_inv_def vm_update_func_def vm_func_def vm_stack_count_def vm_constants_def)
  ultimately show ?thesis using r(2) by (auto simp: vm_update_func_def)
qed

lemma store_in_slot_inv:
  assumes g: "globals_inv g" and i: "i < length (vg_names g)"
  shows "\<exists>g' ev. store_in_slot g i n v = Some (g', ev) \<and> globals_inv g' \<and> vg_names g' = vg_names g \<and>
     globals_map g' = (globals_map g)(vg_names g ! i \<mapsto> v)"
proof -
  have "vg_hash_entries g ! i = Some (vg_names g ! i)" using globals_invD(7) [OF g i] by (simp add: slot_coherent_def)
  then have "store_in_slot g i n v = Some (g\<lparr>vg_globals := (vg_globals g)[i := v],
      vg_hash := entry_write (vg_hash g) (vg_names g ! i) (\<lambda>e. e\<lparr>he_value := v\<rparr>)\<rparr>, snd (entry_store (vg_hash g) (vg_names g ! i) v))"
    using list_update_id [of "vg_hash_entries g" i] by (simp add: store_in_slot_def entry_store_def Let_def)
  with store_slot_inv [OF g i refl refl, of v] show ?thesis by simp
qed

lemma mutate_global_inv:
  assumes "vm_inv (Suc k) vm" and "int (unat b) < vg_count (vm_globs vm)"
  shows "vm_inv k (mutate_global b v vm)"
proof -
  let ?g = "vm_globs vm" and ?i = "unat b"
  have g: "globals_inv ?g" using assms by (simp add: vm_inv_def)
  have i: "?i < length (vg_names ?g)" using assms(2) unfolding vg_count_def by linarith
  have "vg_hash_entries ?g ! ?i = Some (vg_names ?g ! ?i)" using globals_invD(7) [OF g i] by (simp add: slot_coherent_def)
  then show ?thesis using store_slot_inv(1) [OF g i refl refl, of v] assms(1)
    by (auto simp: mutate_global_def Let_def intro: vm_inv_globals)
qed

lemma intern_inv:
  assumes "vm_inv (Suc k) vm"
  shows "\<exists>pool s. vm_intern_string (vm_string_pool vm) (cstr chars) = Some (pool, Some s) \<and> vm_inv k (vm\<lparr>vm_string_pool := pool\<rparr>)"
proof -
  let ?p = "vm_string_pool vm"
  have p: "pool_inv ?p" "ht_count ?p < 187904819" using assms by (simp_all add: vm_inv_def)
  from vm_intern_spec [OF this cstr_idem, of chars] obtain pool s where
    r: "vm_intern_string ?p (cstr chars) = Some (pool, Some s)" "pool_inv pool"
    "table_values pool = (table_values ?p)(cstr chars \<mapsto> VAL_STRING (Some s))" by blast
  have count: "ht_count t = int (card (dom (table_values t)))" "finite (dom (table_values t))" if "pool_inv t" for t
    using hash_table_count [of t] that by (simp_all add: pool_inv_def table_values_def dom_def)
  have "ht_count pool \<le> ht_count ?p + 1"
    using count [OF r(2)] count [OF p(1)] r(3) by (simp add: card_insert_if)
  then have "vm_inv k (vm\<lparr>vm_string_pool := pool\<rparr>)" using assms r(2) by (auto simp: vm_inv_def vm_stack_count_def)
  with r(1) show ?thesis by blast
qed
lemma set_global_inv:
  assumes "vm_inv (Suc k) vm"
  shows "\<exists>g ev. vm_set_global (vm_globs vm) (Some name) v = Some (g, ev) \<and> vm_inv k (vm\<lparr>vm_globs := g\<rparr>)"
proof -
  have "globals_inv (vm_globs vm)" "ht_count (vg_hash (vm_globs vm)) < 187904819" using assms by (simp_all add: vm_inv_def)
  from vm_set_global_spec [OF this, of name v] obtain g ev where
    r: "vm_set_global (vm_globs vm) (Some name) v = Some (g, ev)" "globals_inv g"
    "vg_names g = vg_names (vm_globs vm) \<or> (\<exists>n. vg_names g = vg_names (vm_globs vm) @ [n])"
    by (auto split: if_splits)
  with vm_inv_globals [OF assms r(2,3)] show ?thesis by blast
qed

lemma set_slot_inv:
  assumes "vm_inv (Suc k) vm"
  shows "\<exists>ok g ev. vm_set_global_slot_value (vm_globs vm) b v = Some (ok, g, ev) \<and> vm_inv k (vm\<lparr>vm_globs := g\<rparr>)"
proof -
  have "globals_inv (vm_globs vm)" using assms by (simp add: vm_inv_def)
  from vm_set_global_slot_spec [OF this, of b v] show ?thesis
    by (auto split: option.splits intro: vm_inv_globals [OF assms])
qed

lemma resolved_slot_name:
  assumes "vm_inv k vm" and "vm_get_global_name_constant vm i = Inr name" and "vm_resolve vm i = Some (slot, vm')" and "slot_in_use vm' slot"
  shows "nat slot < length (vg_names (vm_globs vm'))" "vg_names (vm_globs vm') ! nat slot = cstr name" "vm_inv k vm'" "vm_globs vm' = vm_globs vm"
  using vm_resolve_inv [OF assms(1), of i] assms(2-4)
  by (auto simp: constant_slot_def vm_get_global_name_constant_def constant_name_def slot_in_use_def vg_count_def
      split: if_splits Constant.splits option.splits)

interpretation inv: vm_handlers "vm_inv (Suc k)" "vm_inv k" for k
proof unfold_locales
  fix vm and s :: "Value list"
  assume "vm_inv (Suc k) vm" "int (length s) \<le> max (vm_stack_count vm) (vm_max_stack_size vm)"
  then show "vm_inv (Suc k) (vm\<lparr>vm_stack := s\<rparr>)" by (auto simp: vm_inv_def vm_stack_count_def)
next
  fix vm and s :: "Value list"
  assume "vm_inv k vm" "int (length s) \<le> max (vm_stack_count vm) (vm_max_stack_size vm)"
  then show "vm_inv k (vm\<lparr>vm_stack := s\<rparr>)" by (auto simp: vm_inv_def vm_stack_count_def)
next
  fix vm i name slot vm' v
  assume a: "vm_inv (Suc k) vm" "vm_get_global_name_constant vm i = Inr name" "vm_resolve vm i = Some (slot, vm')" "slot_in_use vm' slot"
  note r = resolved_slot_name [OF a]
  have "globals_inv (vm_globs vm')" using r(3) by (simp add: vm_inv_def)
  from store_in_slot_inv [OF this r(1), of name v] vm_inv_globals [OF r(3)] show
    "case store_in_slot (vm_globs vm') (nat slot) name v of
       None \<Rightarrow> vm_inv k (vm_runtime_error vm' DIVERGES) | Some (g, ev) \<Rightarrow> vm_inv k (vm'\<lparr>vm_globs := g\<rparr>)"
    by auto
next
  fix vm i
  assume "vm_inv (Suc k) vm"
  from vm_resolve_inv [OF this, of i] show "case vm_resolve vm i of None \<Rightarrow> vm_inv k (vm_runtime_error vm DIVERGES) | Some (slot, vm') \<Rightarrow> vm_inv (Suc k) vm'"
    by auto
next
  fix vm s
  assume "vm_inv (Suc k) vm"
  from intern_inv [OF this, of s] show "case vm_intern_string (vm_string_pool vm) (cstr s) of
      None \<Rightarrow> vm_inv k (vm_runtime_error vm DIVERGES) | Some (pool, obj) \<Rightarrow> vm_inv k (vm\<lparr>vm_string_pool := pool\<rparr>)"
    by auto
next
  fix vm name v
  assume "vm_inv (Suc k) vm"
  from set_global_inv [OF this, of name v] show "case vm_set_global (vm_globs vm) (Some name) v of
      None \<Rightarrow> vm_inv k (vm_runtime_error vm DIVERGES) | Some (g, ev) \<Rightarrow> vm_inv k (vm\<lparr>vm_globs := g\<rparr>)"
    by auto
next
  fix vm b v
  assume "vm_inv (Suc k) vm"
  from set_slot_inv [OF this, of b v] show "case vm_set_global_slot_value (vm_globs vm) b v of
      None \<Rightarrow> vm_inv k (vm_runtime_error vm DIVERGES) | Some (ok, g, ev) \<Rightarrow> vm_inv k (vm\<lparr>vm_globs := g\<rparr>)"
    by auto
next
  fix vm name
  assume "vm_inv (Suc k) vm" "vm_get_global (vm_globs vm) (Some name) = None"
  then show "vm_inv k (vm_runtime_error vm DIVERGES)" using vm_get_global_spec [of "vm_globs vm" name] by (simp add: vm_inv_def)
next
  fix vm v and b :: u8
  assume "vm_inv (Suc k) vm" "int (unat b) < vg_count (vm_globs vm)"
  then show "vm_inv k (mutate_global b v vm)" by (rule mutate_global_inv)
qed (auto simp: vm_inv_def vm_stack_count_def vm_update_func_def vm_func_def)

section \<open>Runs\<close>

text \<open>The machine when an instruction is read: with a limit, it has been counted.\<close>

definition vm_counted :: "vm \<Rightarrow> vm" where
  "vm_counted vm = (if vm_max_instructions vm > 0 then vm\<lparr>vm_instruction_count := vm_instruction_count vm + 1\<rparr> else vm)"

lemma vm_step_cases:
  assumes "vm_step vm = Some r"
  obtains (failed) "r = Inl vm" "vm_error vm \<noteq> None"
  | (stopped) e where "r = vm_fail (vm_counted vm) e" "e \<noteq> DIVERGES" "vm_error vm = None"
  | (ran) op f where "(op, f) \<in> set vm_switch" "vm_error vm = None" "r = f ((vm_counted vm)\<lparr>vm_ip := vm_ip vm + 1\<rparr>)"
      "0 < vm_max_instructions vm \<longrightarrow> vm_instruction_count vm < vm_max_instructions vm"
proof (cases "vm_error vm = None")
  case False
  then show ?thesis using assms failed by (auto simp: vm_step_def)
next
  case True
  let ?vm = "vm_counted vm"
  have step: "vm_step vm =
     (if vm_max_instructions ?vm > 0 \<and> vm_instruction_count ?vm > vm_max_instructions ?vm
      then Some (vm_fail ?vm ERR_EXECUTION_LIMIT_EXCEEDED)
      else if vm_ip ?vm < 0 \<or> vm_ip ?vm + 1 > int (length (vm_code ?vm)) then Some (vm_fail ?vm ERR_TRUNCATED)
      else map_option (\<lambda>f. f (?vm\<lparr>vm_ip := vm_ip ?vm + 1\<rparr>)) (vm_handler (vm_code ?vm ! nat (vm_ip ?vm))))"
    using True by (simp add: vm_step_def vm_counted_def Let_def)
  show ?thesis
  proof (cases "vm_handler (vm_code ?vm ! nat (vm_ip ?vm))")
    case None
    then show ?thesis using step assms True stopped by (auto split: if_splits)
  next
    case (Some f)
    then have "(vm_code ?vm ! nat (vm_ip ?vm), f) \<in> set vm_switch" by (simp add: vm_handler_def map_of_SomeD)
    then show ?thesis using step assms True stopped ran [OF _ True] Some by (auto simp: vm_counted_def split: if_splits)
  qed
qed

lemma vm_step_inv:
  assumes "vm_inv (Suc k) vm" and "vm_step vm = Some r"
  shows "outcome (vm_inv k) r"
proof -
  have c: "vm_inv (Suc k) (vm_counted vm)" using assms(1) by (simp add: vm_counted_def vm_inv_def vm_stack_count_def)
  from assms(2) show ?thesis
  proof (cases rule: vm_step_cases)
    case failed
    then show ?thesis using assms(1) by (simp add: inv.weaken)
  next
    case (stopped e)
    then show ?thesis using inv.fail [OF c] by simp
  next
    case (ran op f)
    then show ?thesis using inv.switch [OF ran(1) inv.before.ip [OF c]] by simp
  qed
qed

lemma vm_step_frame:
  assumes "vm_step vm = Some r" and "vm_error vm = None"
  shows "outcome (same_frame (vm_counted vm)) r"
  using assms(1)
proof (cases rule: vm_step_cases)
  case failed
  then show ?thesis using assms(2) by simp
next
  case (stopped e)
  then show ?thesis using frame.fail [OF same_frame_refl] by simp
next
  case (ran op f)
  then show ?thesis using frame.switch [OF ran(1) frame.before.ip [OF same_frame_refl]] by simp
qed
lemma vm_start_inv:
  assumes "length locals \<le> 65536" and "k \<le> 187904819"
  shows "vm_inv k (vm_start m code constants locals)"
  using assms vm_globals_init_inv hash_table_init_ok
  by (simp add: vm_inv_def vm_start_def pool_inv_def table_values_def slot_cache_ok_def vm_stack_count_def vm_globals_init_def)

lemma vm_steps_inv: "vm_inv (n + m) vm \<Longrightarrow> vm_steps n vm = Some r \<Longrightarrow> outcome (vm_inv m) r"
proof (induction n arbitrary: vm)
  case 0
  then show ?case by auto
next
  case (Suc n)
  have weaken: "vm_inv m vm'" if "vm_inv (n + m) vm'" for vm' using that by (auto simp: vm_inv_def)
  from Suc.prems(2) obtain r' where r': "vm_step vm = Some r'" by (auto split: option.splits)
  from vm_step_inv [OF _ this, of "n + m"] Suc.prems(1) have "outcome (vm_inv (n + m)) r'" by simp
  with r' Suc.prems(2) Suc.IH show ?case by (auto split: sum.splits simp: outcome_def weaken)
qed

text \<open>
  Claim C1.  A run of the interpreter keeps its machine sound: as long as the tables do not reach their size limit, after any
  number of instructions, also when the last one fails, the globals, names, hash entries and interned strings are coherent,
  every slot cached for a function is the slot of that name, the stack does not exceed its limit, and no search in a table has
  run forever.  This holds for arbitrary bytecode, including code that is not well formed.
\<close>

theorem vm_run_sound:
  assumes "vm_inv n vm" and "vm_steps n vm = Some r"
  shows "outcome (\<lambda>vm'.
    globals_inv (vm_globs vm') \<and> pool_inv (vm_string_pool vm') \<and>
    (\<forall>p. slot_cache_ok (vg_names (vm_globs vm')) (map constant_name (fn_constants (vm_functions vm' p)))
           (fn_global_slot_cache (vm_functions vm' p))) \<and>
    vm_stack_count vm' \<le> vm_max_stack_size vm' \<and> vm_error vm' \<noteq> Some DIVERGES) r"
  using vm_steps_inv [of n 0 vm r] assms by (auto simp: outcome_def vm_inv_def split: sum.split)

theorem vm_run_sound_witness:
  "\<exists>vm. vm_steps 3 (vm_start 0 [OP_LOAD_LOCAL, 0, OP_LOAD_LOCAL, 1, OP_ADD_INT] [] [VAL_INT 2, VAL_INT 3]) = Some (Inr vm) \<and>
     vm_stack vm = [VAL_INT 2, VAL_INT 3, VAL_INT 5] \<and> globals_inv (vm_globs vm)"
proof -
  let ?vm = "vm_start 0 [OP_LOAD_LOCAL, 0, OP_LOAD_LOCAL, 1, OP_ADD_INT] [] [VAL_INT 2, VAL_INT 3]"
  obtain vm where r: "vm_steps 3 ?vm = Some (Inr vm)" "vm_stack vm = [VAL_INT 2, VAL_INT 3, VAL_INT 5]"
    by (simp add: vm_start_def vm_exec_simps exec_load_local_def exec_int_def)
  have "vm_inv 3 ?vm" by (rule vm_start_inv) simp_all
  from vm_run_sound [OF this r(1)] r show ?thesis by simp
qed

lemma vm_counted_limit:
  assumes "0 < vm_max_instructions vm"
  shows "vm_max_instructions (vm_counted vm) = vm_max_instructions vm" "vm_instruction_count (vm_counted vm) = vm_instruction_count vm + 1"
  using assms by (simp_all add: vm_counted_def)

lemma vm_step_limit:
  assumes "0 < vm_max_instructions vm" and "vm_step vm = Some (Inr vm')"
  shows "vm_max_instructions vm' = vm_max_instructions vm" "vm_instruction_count vm' = vm_instruction_count vm + 1"
    "vm_instruction_count vm < vm_max_instructions vm"
proof -
  from assms(2) have e: "vm_error vm = None" and l: "vm_instruction_count vm < vm_max_instructions vm"
    using assms(1) by (auto elim!: vm_step_cases)
  have "same_frame (vm_counted vm) vm'" using vm_step_frame [OF assms(2) e] by simp
  with vm_counted_limit [OF assms(1)] l show "vm_max_instructions vm' = vm_max_instructions vm"
    "vm_instruction_count vm' = vm_instruction_count vm + 1" "vm_instruction_count vm < vm_max_instructions vm"
    by (simp_all add: same_frame_def)
qed

text \<open>
  Claim C2.  With an instruction limit every run ends: no machine still runs after one iteration more than the limit leaves, whatever
  its code does, so a program that loops forever is stopped.  (A run that reaches an instruction outside the switch table
  is \<open>None\<close>.)
\<close>

theorem vm_run_ends:
  assumes "0 < vm_max_instructions vm" and "vm_max_instructions vm - vm_instruction_count vm < int n" and "0 < n"
  shows "vm_steps n vm = None \<or> (\<exists>vm'. vm_steps n vm = Some (Inl vm'))"
  using assms
proof (induction n arbitrary: vm)
  case 0
  then show ?case by simp
next
  case (Suc n)
  show ?case
  proof (cases "vm_step vm")
    case None
    then show ?thesis by simp
  next
    case (Some r)
    then show ?thesis using Suc.IH [of "projr r"] vm_step_limit [OF Suc.prems(1), of "projr r"] Suc.prems by (cases r) auto
  qed
qed

theorem vm_run_ends_witness:
  "\<exists>vm'. vm_steps 4 (vm_start 3 [OP_JUMP, 0xFF, 0xFD] [] []) = Some (Inl vm') \<and> vm_error vm' = Some ERR_EXECUTION_LIMIT_EXCEEDED"
proof -
  let ?vm = "vm_start 3 [OP_JUMP, 0xFF, 0xFD] [] []"
  have "vm_steps 4 ?vm = None \<or> (\<exists>vm'. vm_steps 4 ?vm = Some (Inl vm'))"
    by (rule vm_run_ends) (simp_all add: vm_start_def)
  moreover have "vm_steps 4 ?vm \<noteq> None" "vm_steps 4 ?vm = Some (Inl vm') \<Longrightarrow> vm_error vm' = Some ERR_EXECUTION_LIMIT_EXCEEDED" for vm'
    by (auto simp: vm_start_def vm_exec_simps exec_jump_def vm_runtime_error_def)
  ultimately show ?thesis by blast
qed

end
