(* ===== verification/Fusion.thy ===== *)
theory Fusion
  imports Superinstructions VM_Invariant
begin

text \<open>
  Correctness of the passes of \<^verbatim>\<open>src/src/compiler.c\<close> that rewrite finished bytecode, stated with the interpreter: an arithmetic
  superinstruction does what the instructions it replaces do, and both passes go wrong where a branch leads into or over the
  bytes they change.
\<close>

section \<open>Machines that differ in their code\<close>

text \<open>The machine with other code in the function it executes.\<close>

definition recode :: "u8 list \<Rightarrow> vm \<Rightarrow> vm" where
  "recode c vm = vm_update_func (\<lambda>f. f\<lparr>fn_code := c\<rparr>) vm"

text \<open>Everything but the code and the events.\<close>

definition forget_code :: "vm \<Rightarrow> vm" where
  "forget_code vm = (recode [] vm)\<lparr>vm_events := []\<rparr>"

text \<open>
  Two machines are the same up to the code, and their events have the same effect on every reference count.
\<close>

definition same_machine :: "vm \<Rightarrow> vm \<Rightarrow> bool" where
  "same_machine s t \<longleftrightarrow>
     forget_code s = forget_code t \<and>
     retained (vm_events s) + released (vm_events t) = retained (vm_events t) + released (vm_events s)"

text \<open>Both run on and are the same, or both fail.\<close>

definition same_result :: "(vm + vm) option \<Rightarrow> (vm + vm) option \<Rightarrow> bool" where
  "same_result r r' \<longleftrightarrow>
     (case (r, r') of
        (Some (Inr s), Some (Inr t)) \<Rightarrow> same_machine s t
      | (Some (Inl s), Some (Inl t)) \<Rightarrow> True
      | _ \<Rightarrow> False)"

lemma same_result_simps [simp]:
  "same_result (Some (Inr s)) (Some (Inr t)) = same_machine s t"
  "same_result (Some (Inl s)) (Some (Inl t))"
  "\<not> same_result (Some (Inl s)) (Some (Inr t))" "\<not> same_result (Some (Inr s)) (Some (Inl t))"
  by (simp_all add: same_result_def)

lemma recode_simps [simp]:
  "vm_stack (recode c vm) = vm_stack vm" "vm_globs (recode c vm) = vm_globs vm" "vm_string_pool (recode c vm) = vm_string_pool vm"
  "vm_arrays (recode c vm) = vm_arrays vm" "vm_next_array (recode c vm) = vm_next_array vm" "vm_bytes (recode c vm) = vm_bytes vm"
  "vm_byte_store (recode c vm) = vm_byte_store vm" "vm_error (recode c vm) = vm_error vm" "vm_events (recode c vm) = vm_events vm"
  "vm_max_stack_size (recode c vm) = vm_max_stack_size vm" "vm_max_instructions (recode c vm) = vm_max_instructions vm"
  "vm_instruction_count (recode c vm) = vm_instruction_count vm" "vm_function (recode c vm) = vm_function vm" "vm_ip (recode c vm) = vm_ip vm"
  "vm_slots_start (recode c vm) = vm_slots_start vm" "vm_doubles (recode c vm) = vm_doubles vm"
  "vm_code (recode c vm) = c" "vm_constants (recode c vm) = vm_constants vm"
  by (simp_all add: recode_def vm_update_func_def vm_code_def vm_func_def vm_constants_def)

lemma recode_update:
  "(recode c vm)\<lparr>vm_stack := s\<rparr> = recode c (vm\<lparr>vm_stack := s\<rparr>)" "(recode c vm)\<lparr>vm_ip := i\<rparr> = recode c (vm\<lparr>vm_ip := i\<rparr>)"
  "(recode c vm)\<lparr>vm_events := ev\<rparr> = recode c (vm\<lparr>vm_events := ev\<rparr>)"
  by (simp_all add: recode_def vm_update_func_def vm_func_def)

lemma recode_recode [simp]: "recode c (recode d vm) = recode c vm"
  by (simp add: recode_def vm_update_func_def vm_func_def)

lemma forget_recode [simp]: "forget_code (recode c vm) = forget_code vm"
  by (simp add: forget_code_def)

lemma forget_events [simp]: "forget_code (vm\<lparr>vm_events := ev\<rparr>) = forget_code vm"
  by (simp add: forget_code_def recode_def vm_update_func_def vm_func_def)

lemma same_machine_recode:
  assumes "retained (vm_events s) + released ev = retained ev + released (vm_events s)"
  shows "same_machine s (recode c (s\<lparr>vm_events := ev\<rparr>))"
  using assms by (simp add: same_machine_def)

section \<open>Executing at a position\<close>

text \<open>A machine that runs without an instruction limit, and the code from its instruction pointer on.\<close>

definition vm_running :: "vm \<Rightarrow> bool" where
  "vm_running vm \<longleftrightarrow> vm_error vm = None \<and> vm_max_instructions vm \<le> 0"

definition code_at :: "vm \<Rightarrow> u8 list \<Rightarrow> bool" where
  "code_at vm c \<longleftrightarrow> 0 \<le> vm_ip vm \<and> vm_ip vm \<le> int (length (vm_code vm)) \<and> drop (nat (vm_ip vm)) (vm_code vm) = c"

lemma code_at_simps [simp]:
  "code_at (vm\<lparr>vm_stack := s\<rparr>) c = code_at vm c" "code_at (vm\<lparr>vm_events := ev\<rparr>) c = code_at vm c"
  "vm_running (vm\<lparr>vm_stack := s\<rparr>) = vm_running vm" "vm_running (vm\<lparr>vm_events := ev\<rparr>) = vm_running vm"
  "vm_running (vm\<lparr>vm_ip := i\<rparr>) = vm_running vm" "vm_running (recode d vm) = vm_running vm"
  by (simp_all add: code_at_def vm_code_def vm_func_def vm_running_def)

lemma code_at_advance:
  assumes "code_at vm (bs @ c)"
  shows "code_at (vm\<lparr>vm_ip := vm_ip vm + int (length bs)\<rparr>) c"
proof -
  have d: "drop (nat (vm_ip vm)) (vm_code vm) = bs @ c" "0 \<le> vm_ip vm" "vm_ip vm \<le> int (length (vm_code vm))"
    using assms by (auto simp: code_at_def)
  from arg_cong [OF d(1), of length] have l: "length (vm_code vm) - nat (vm_ip vm) = length bs + length c" by simp
  moreover have "drop (nat (vm_ip vm) + length bs) (vm_code vm) = c"
    using d(1) by (metis add.commute append_eq_conv_conj drop_drop)
  moreover have "nat (vm_ip vm + int (length bs)) = nat (vm_ip vm) + length bs" using d(2) by (simp add: nat_add_distrib)
  moreover have "vm_ip vm + int (length bs) \<le> int (length (vm_code vm))" using l d by linarith
  ultimately show ?thesis using d(2) by (simp add: code_at_def vm_code_def vm_func_def)
qed

lemma step_at:
  assumes "vm_running vm" and "code_at vm (op # c)" and "vm_handler op = Some f"
  shows "vm_step vm = Some (f (vm\<lparr>vm_ip := vm_ip vm + 1\<rparr>))" and "code_at (vm\<lparr>vm_ip := vm_ip vm + 1\<rparr>) c"
proof -
  have d: "drop (nat (vm_ip vm)) (vm_code vm) = op # c" "0 \<le> vm_ip vm" using assms(2) by (auto simp: code_at_def)
  then have "nat (vm_ip vm) < length (vm_code vm)" by (metis drop_eq_Nil leI list.discI)
  moreover from this d have "vm_code vm ! nat (vm_ip vm) = op" by (metis hd_drop_conv_nth list.sel(1))
  ultimately show "vm_step vm = Some (f (vm\<lparr>vm_ip := vm_ip vm + 1\<rparr>))"
    using assms(1,3) d(2) by (auto simp: vm_step_def vm_running_def Let_def)
  show "code_at (vm\<lparr>vm_ip := vm_ip vm + 1\<rparr>) c" using code_at_advance [of vm "[op]" c] assms(2) by simp
qed

lemma operands_at:
  assumes "code_at vm (bs @ c)" and "n = length bs"
  shows "with_operands n vm f = f bs (vm\<lparr>vm_ip := vm_ip vm + int n\<rparr>)"
proof -
  have d: "drop (nat (vm_ip vm)) (vm_code vm) = bs @ c" "0 \<le> vm_ip vm" "vm_ip vm \<le> int (length (vm_code vm))"
    using assms by (auto simp: code_at_def)
  from arg_cong [OF d(1), of length] have "length (vm_code vm) - nat (vm_ip vm) = length bs + length c" by simp
  with d assms(2) show ?thesis by (auto simp: with_operands_def)
qed

text \<open>The code after the pass has fused instructions at the position.\<close>

lemma code_at_overwrite:
  assumes "code_at vm c" and "length bs \<le> length c"
  shows "code_at (recode (overwrite (vm_code vm) (nat (vm_ip vm)) bs) vm) (bs @ drop (length bs) c)"
proof -
  have d: "drop (nat (vm_ip vm)) (vm_code vm) = c" "0 \<le> vm_ip vm" "nat (vm_ip vm) \<le> length (vm_code vm)"
    using assms by (auto simp: code_at_def)
  then have "drop (length bs) c = drop (nat (vm_ip vm) + length bs) (vm_code vm)" by (metis add.commute drop_drop)
  moreover from arg_cong [OF d(1), of length] have "nat (vm_ip vm) + length bs \<le> length (vm_code vm)" using d(3) assms(2) by simp
  ultimately show ?thesis using d assms by (auto simp: code_at_def overwrite_def)
qed

section \<open>The instructions before fusion\<close>

definition managed_retain :: "Value \<Rightarrow> obj_event list" where
  "managed_retain v = (if value_type_is_unmanaged v then [] else [Retain v])"

definition managed_release :: "Value \<Rightarrow> obj_event list" where
  "managed_release v = (if value_type_is_unmanaged v then [] else [Release v])"

lemma vm_retain_eq: "vm_retain v vm = vm\<lparr>vm_events := vm_events vm @ managed_retain v\<rparr>"
  by (simp add: vm_retain_def managed_retain_def)

lemma vm_release_eq: "vm_release v vm = vm\<lparr>vm_events := vm_events vm @ managed_release v\<rparr>"
  by (simp add: vm_release_def managed_release_def)

lemma managed_unmanaged [simp]: "value_type_is_unmanaged v \<Longrightarrow> managed_retain v = []" "value_type_is_unmanaged v \<Longrightarrow> managed_release v = []"
  by (simp_all add: managed_retain_def managed_release_def)

lemma managed_pair [simp]: "released (managed_retain v) = {#}" "retained (managed_release v) = {#}"
  "retained (managed_retain v) = released (managed_release v)"
  by (simp_all add: managed_retain_def managed_release_def)

text \<open>A machine with room on the stack for \<open>n\<close> more values.\<close>

definition stack_room :: "nat \<Rightarrow> vm \<Rightarrow> bool" where
  "stack_room n vm \<longleftrightarrow> vm_stack_count vm + int n \<le> vm_max_stack_size vm"

lemma push_room: "vm_error vm = None \<Longrightarrow> vm_stack_count vm < vm_max_stack_size vm \<Longrightarrow> push vm v = vm\<lparr>vm_stack := vm_stack vm @ [v]\<rparr>"
  by (simp add: push_def)

text \<open>A constant that a numeric instruction may use.\<close>

fun constant_number :: "Constant \<Rightarrow> Value option" where
  "constant_number (CONST_INT i) = Some (VAL_INT i)"
| "constant_number (CONST_DOUBLE d) = Some (VAL_DOUBLE d)"
| "constant_number c = None"

definition constant_ok :: "vm \<Rightarrow> u8 \<Rightarrow> bool" where
  "constant_ok vm i \<longleftrightarrow> i \<noteq> 0xFF \<and> unat i < length (vm_constants vm) \<and> constant_number (vm_constants vm ! unat i) \<noteq> None"

text \<open>A machine \<open>n\<close> bytes further, with another stack and other events.\<close>

definition vm_at :: "vm \<Rightarrow> nat \<Rightarrow> Value list \<Rightarrow> obj_event list \<Rightarrow> vm" where
  "vm_at vm n S ev = vm\<lparr>vm_ip := vm_ip vm + int n, vm_stack := S, vm_events := ev\<rparr>"

lemma vm_at_simps [simp]:
  "vm_stack (vm_at vm n S ev) = S" "vm_events (vm_at vm n S ev) = ev" "vm_ip (vm_at vm n S ev) = vm_ip vm + int n"
  "vm_error (vm_at vm n S ev) = vm_error vm" "vm_doubles (vm_at vm n S ev) = vm_doubles vm" "vm_arrays (vm_at vm n S ev) = vm_arrays vm"
  "vm_max_stack_size (vm_at vm n S ev) = vm_max_stack_size vm" "vm_constants (vm_at vm n S ev) = vm_constants vm"
  "vm_code (vm_at vm n S ev) = vm_code vm" "vm_slots_start (vm_at vm n S ev) = vm_slots_start vm"
  "vm_running (vm_at vm n S ev) = vm_running vm" "vm_at (vm_at vm n S ev) m S' ev' = vm_at vm (n + m) S' ev'"
  "vm_at vm 0 (vm_stack vm) (vm_events vm) = vm" "vm_stack_count (vm_at vm n S ev) = int (length S)"
  "(vm_at vm n S ev)\<lparr>vm_stack := S'\<rparr> = vm_at vm n S' ev" "(vm_at vm n S ev)\<lparr>vm_events := ev'\<rparr> = vm_at vm n S ev'"
  "constant_ok (vm_at vm n S ev) i = constant_ok vm i" 
  by (simp_all add: vm_at_def vm_constants_def vm_code_def vm_func_def vm_running_def vm_stack_count_def constant_ok_def)

lemma vm_at_ip [simp]: "(vm_at vm n S ev)\<lparr>vm_ip := vm_ip vm + int n + int m\<rparr> = vm_at vm (n + m) S ev"
  "(vm_at vm n S ev)\<lparr>vm_ip := vm_ip vm + int n + 1\<rparr> = vm_at vm (n + 1) S ev"
  "(vm_at vm n S ev)\<lparr>vm_ip := vm_ip vm + int n + numeral m'\<rparr> = vm_at vm (n + numeral m') S ev"
  by (simp_all add: vm_at_def)

lemma vm_at_recode: "vm_at (recode c vm) n S ev = recode c (vm_at vm n S ev)"
  by (simp add: vm_at_def recode_update)

lemma code_at_vm_at: "code_at vm (bs @ c) \<Longrightarrow> n = length bs \<Longrightarrow> code_at (vm_at vm n S ev) c"
  using code_at_advance [of vm bs c] by (simp add: vm_at_def)

lemma step_vm_at:
  assumes "vm_running vm" and "code_at vm (bs @ op # c)" and "n = length bs" and "vm_handler op = Some f"
  shows "vm_step (vm_at vm n S ev) = Some (f (vm_at vm (n + 1) S ev))"
  using step_at(1) [OF _ code_at_vm_at [OF assms(2,3)] assms(4), of S ev] assms(1) by simp

lemma operands_vm_at:
  assumes "code_at vm (bs @ os @ c)" and "n = length bs" and "m = length os"
  shows "with_operands m (vm_at vm n S ev) k = k os (vm_at vm (n + m) S ev)"
  using operands_at [OF code_at_vm_at [OF assms(1,2)] assms(3), of S ev k] by simp

lemma local_vm_at:
  assumes "local_ok vm s"
  shows "local_ok (vm_at vm n (vm_stack vm @ xs) ev) s" and "local_value (vm_at vm n (vm_stack vm @ xs) ev) s = local_value vm s"
    and "with_local (vm_at vm n (vm_stack vm @ xs) ev) s k = k (local_value vm s)"
  using assms by (auto simp: with_local_def local_ok_def local_index_def local_value_def vm_stack_count_def nth_append vm_at_def)

lemma push_vm_at: "vm_error vm = None \<Longrightarrow> int (length S) < vm_max_stack_size vm \<Longrightarrow> push (vm_at vm n S ev) v = vm_at vm n (S @ [v]) ev"
  by (simp add: push_def)

lemma load_local_step:
  assumes "vm_running vm" and "code_at vm (bs @ OP_LOAD_LOCAL # slot # c)" and "n = length bs" and "local_ok vm slot"
    and "stack_room (length xs + 1) vm"
  shows "vm_step (vm_at vm n (vm_stack vm @ xs) ev) =
    Some (Inr (vm_at vm (n + 2) (vm_stack vm @ xs @ [local_value vm slot]) (ev @ managed_retain (local_value vm slot))))"
proof -
  have "code_at vm ((bs @ [OP_LOAD_LOCAL]) @ [slot] @ c)" using assms(2) by simp
  note o = operands_vm_at [OF this refl refl, of "vm_stack vm @ xs" ev]
  show ?thesis using step_vm_at [OF assms(1-3), of exec_load_local] o assms
    by (simp add: exec_load_local_def local_vm_at vm_retain_eq push_vm_at vm_running_def stack_room_def vm_stack_count_def)
qed

lemma const_step:
  assumes "vm_running vm" and "code_at vm (bs @ OP_CONST # i # c)" and "n = length bs" and "constant_ok vm i"
    and "int (length S) < vm_max_stack_size vm"
  shows "vm_step (vm_at vm n S ev) = Some (Inr (vm_at vm (n + 2) (S @ [the (constant_number (vm_constants vm ! unat i))]) ev))"
proof -
  have "code_at vm ((bs @ [OP_CONST]) @ [i] @ c)" using assms(2) by simp
  note o = operands_vm_at [OF this refl refl, of S ev]
  have "int (unat i) < int (length (vm_constants vm))" using assms(4) unfolding constant_ok_def by linarith
  then have u: "\<not> int (length (vm_constants vm)) \<le> uint i" by simp
  have "vm_push_constant_by_index (vm_at vm (n + 2) S ev) (int (unat i)) =
      Inr (vm_at vm (n + 2) (S @ [the (constant_number (vm_constants vm ! unat i))]) ev)"
    using assms(1,4,5) by (cases "vm_constants vm ! unat i")
      (auto simp: vm_push_constant_by_index_def constant_ok_def push_vm_at vm_running_def u)
  with step_vm_at [OF assms(1-3), of exec_const] o assms(3,4) show ?thesis by (simp add: exec_const_def constant_ok_def)
qed

section \<open>Typed operations\<close>

definition int_pair :: "int_op \<Rightarrow> double_ops \<Rightarrow> Value \<Rightarrow> Value \<Rightarrow> vm_error + Value" where
  "int_pair op d a b = (case (a, b) of (VAL_INT x, VAL_INT y) \<Rightarrow> int_op_result op x y | _ \<Rightarrow> Inl ERR_OPERANDS_INTEGER)"

definition dbl_pair :: "dbl_op \<Rightarrow> double_ops \<Rightarrow> Value \<Rightarrow> Value \<Rightarrow> vm_error + Value" where
  "dbl_pair op d a b = (case (a, b) of (VAL_DOUBLE x, VAL_DOUBLE y) \<Rightarrow> dbl_op_result d op x y | _ \<Rightarrow> Inl ERR_OPERANDS_DOUBLE)"

text \<open>A handler fails when the operation does, and otherwise goes on with its result.\<close>

definition yields :: "vm + vm \<Rightarrow> vm_error + Value \<Rightarrow> (Value \<Rightarrow> vm) \<Rightarrow> bool" where
  "yields r q k \<longleftrightarrow> (case q of Inl e \<Rightarrow> isl r | Inr v \<Rightarrow> r = Inr (k v))"

lemma yields_result: "yields (vm_result vm q k) q k"
  by (simp add: yields_def vm_result_def split: sum.split)

type_synonym typed_op = "double_ops \<Rightarrow> Value \<Rightarrow> Value \<Rightarrow> vm_error + Value"

text \<open>The five forms of a typed operation: where the operands come from.\<close>

definition stack_form :: "(vm \<Rightarrow> vm + vm) \<Rightarrow> typed_op \<Rightarrow> bool" where
  "stack_form f g \<longleftrightarrow>
     (\<forall>vm n S a b ev. yields (f (vm_at vm n (S @ [a, b]) ev)) (g (vm_doubles vm) a b) (\<lambda>v. vm_at vm n (S @ [v]) ev)) \<and>
     (\<forall>vm n a ev. isl (f (vm_at vm n [a] ev)))"

definition locals_form :: "(vm \<Rightarrow> vm + vm) \<Rightarrow> typed_op \<Rightarrow> bool" where
  "locals_form f g \<longleftrightarrow>
     (\<forall>vm r a b c ev. vm_running vm \<and> code_at vm ([r, a, b, 0, 0] @ c) \<and> local_ok vm a \<and> local_ok vm b \<and> stack_room 1 vm \<longrightarrow>
        yields (f (vm_at vm 1 (vm_stack vm) ev)) (g (vm_doubles vm) (local_value vm a) (local_value vm b))
          (\<lambda>v. vm_at vm 5 (vm_stack vm @ [v]) ev))"

definition local_const_form :: "(vm \<Rightarrow> vm + vm) \<Rightarrow> typed_op \<Rightarrow> bool" where
  "local_const_form f g \<longleftrightarrow>
     (\<forall>vm r a i c ev. vm_running vm \<and> code_at vm ([r, a, i, 0, 0] @ c) \<and> local_ok vm a \<and> constant_ok vm i \<and> stack_room 1 vm \<longrightarrow>
        yields (f (vm_at vm 1 (vm_stack vm) ev)) (g (vm_doubles vm) (local_value vm a) (the (constant_number (vm_constants vm ! unat i))))
          (\<lambda>v. vm_at vm 5 (vm_stack vm @ [v]) ev))"

definition stack_local_form :: "(vm \<Rightarrow> vm + vm) \<Rightarrow> typed_op \<Rightarrow> bool" where
  "stack_local_form f g \<longleftrightarrow>
     (\<forall>vm bs b z c n xs S x ev. code_at vm (bs @ [b, z] @ c) \<and> n = length bs \<and> local_ok vm b \<and> vm_stack vm @ xs = S @ [x] \<longrightarrow>
        yields (f (vm_at vm n (S @ [x]) ev)) (g (vm_doubles vm) x (local_value vm b)) (\<lambda>v. vm_at vm (n + 2) (S @ [v]) ev)) \<and>
     (\<forall>vm n ev. isl (f (vm_at vm n [] ev)))"

definition stack_const_form :: "(vm \<Rightarrow> vm + vm) \<Rightarrow> typed_op \<Rightarrow> bool" where
  "stack_const_form f g \<longleftrightarrow>
     (\<forall>vm bs i z c n S x ev. code_at vm (bs @ [i, z] @ c) \<and> n = length bs \<and> constant_ok vm i \<longrightarrow>
        yields (f (vm_at vm n (S @ [x]) ev)) (g (vm_doubles vm) x (the (constant_number (vm_constants vm ! unat i))))
          (\<lambda>v. vm_at vm (n + 2) (S @ [v]) ev)) \<and>
     (\<forall>vm n ev. isl (f (vm_at vm n [] ev)))"

lemma stack_top [simp]: "vm_top (vm_at vm n (S @ [a]) ev) = a" "vm_top (vm_at vm n (S @ [a, b]) ev) = b"
  "vm_below_top (vm_at vm n (S @ [a, b]) ev) = a"
  by (simp_all add: vm_top_def vm_below_top_def nth_append)

lemma stack_replace [simp]:
  "vm_set_top v (vm_drop (Suc 0) (vm_at vm n (S @ [a, b]) ev)) = vm_at vm n (S @ [v]) ev"
  "vm_set_top v (vm_at vm n (S @ [a]) ev) = vm_at vm n (S @ [v]) ev"
  by (simp_all add: vm_set_top_def vm_drop_def take_append list_update_append)

lemma yields_fail [simp]: "yields (Inl s) (Inl e) k"
  by (simp add: yields_def)

lemma yields_ints:
  assumes "a = a'" and "b = b'" and "\<And>v. k v = k' v"
  shows "yields (case a of VAL_INT x \<Rightarrow> (case b of VAL_INT y \<Rightarrow> vm_result vm (int_op_result op x y) k | _ \<Rightarrow> Inl s) | _ \<Rightarrow> Inl s)
    (int_pair op d a' b') k'"
proof -
  have "k = k'" using assms(3) by (rule ext)
  then show ?thesis using yields_result assms(1,2) by (cases a'; cases b') (simp_all add: int_pair_def)
qed

lemma yields_doubles:
  assumes "a = a'" and "b = b'" and "d = d'" and "\<And>v. k v = k' v"
  shows "yields (case a of VAL_DOUBLE x \<Rightarrow> (case b of VAL_DOUBLE y \<Rightarrow> vm_result vm (dbl_op_result d op x y) k | _ \<Rightarrow> Inl s) | _ \<Rightarrow> Inl s)
    (dbl_pair op d' a' b') k'"
proof -
  have "k = k'" using assms(4) by (rule ext)
  then show ?thesis using yields_result assms(1-3) by (cases a'; cases b') (simp_all add: dbl_pair_def)
qed

lemma yields_int_const:
  assumes "a = a'" and "constant_number c = Some b" and "\<And>v. k v = k' v"
  shows "yields (case a of VAL_INT x \<Rightarrow> (case c of CONST_INT y \<Rightarrow> vm_result vm (int_op_result op x y) k | _ \<Rightarrow> Inl s) | _ \<Rightarrow> Inl s)
     (int_pair op d a' b) k'"
proof -
  have "k = k'" using assms(3) by (rule ext)
  then show ?thesis using yields_result assms(1,2) by (cases a'; cases c) (auto simp: int_pair_def)
qed

lemma yields_double_const:
  assumes "a = a'" and "constant_number c = Some b" and "d = d'" and "\<And>v. k v = k' v"
  shows "yields (case a of VAL_DOUBLE x \<Rightarrow> (case c of CONST_DOUBLE y \<Rightarrow> vm_result vm (dbl_op_result d op x y) k | _ \<Rightarrow> Inl s) | _ \<Rightarrow> Inl s)
     (dbl_pair op d' a' b) k'"
proof -
  have "k = k'" using assms(4) by (rule ext)
  then show ?thesis using yields_result assms(1-3) by (cases a'; cases c) (auto simp: dbl_pair_def)
qed

lemmas yields_pairs = yields_ints yields_doubles yields_int_const yields_double_const

lemma stack_forms: "stack_form (exec_int iop) (int_pair iop)" "stack_form (exec_double dop) (dbl_pair dop)"
  by (auto simp: stack_form_def exec_int_def exec_double_def Let_def intro!: yields_pairs)

lemma operands_first:
  assumes "code_at vm ([r] @ os @ c)" and "m = length os"
  shows "with_operands m (vm_at vm 1 S ev) k = k os (vm_at vm (1 + m) S ev)"
  using operands_vm_at [OF assms(1) _ assms(2), of 1] by simp

lemma push_at: "vm_running vm \<Longrightarrow> stack_room 1 vm \<Longrightarrow> push (vm_at vm n (vm_stack vm) ev) v = vm_at vm n (vm_stack vm @ [v]) ev"
  by (rule push_vm_at) (simp_all add: vm_running_def stack_room_def vm_stack_count_def)

lemma local_vm_at0:
  assumes "local_ok vm s"
  shows "with_local (vm_at vm n (vm_stack vm) ev) s k = k (local_value vm s)"
  using local_vm_at(3) [OF assms, of n "[]"] by simp

lemma locals_forms: "locals_form (exec_locals_int iop) (int_pair iop)" "locals_form (exec_locals_double dop) (dbl_pair dop)"
  unfolding locals_form_def exec_locals_int_def exec_locals_double_def
  by (auto simp: operands_first [of _ _ "[_, _, 0, 0]" _ 4, simplified] local_vm_at0 push_at [simplified] intro!: yields_pairs)

lemma constant_at: "constant_ok vm i \<Longrightarrow> with_constant (vm_at vm n S ev) i k = k (vm_constants vm ! unat i)"
  "constant_ok vm i \<Longrightarrow> constant_number (vm_constants vm ! unat i) = Some (the (constant_number (vm_constants vm ! unat i)))"
  by (auto simp: constant_ok_def with_constant_def)

lemma local_const_forms:
  "local_const_form (exec_local_const_int iop) (int_pair iop)" "local_const_form (exec_local_const_double dop) (dbl_pair dop)"
  unfolding local_const_form_def exec_local_const_int_def exec_local_const_double_def
  by (auto simp: operands_first [of _ _ "[_, _, 0, 0]" _ 4, simplified] constant_at(1) local_vm_at0 push_at [simplified]
      intro!: yields_pairs constant_at(2))

lemma short_operands: "vm_stack_count vm \<le> 0 \<Longrightarrow> isl (with_operands n vm (\<lambda>bs vm. if vm_stack_count vm \<le> 0 then vm_fail vm e else k bs vm))"
  by (simp add: with_operands_def vm_stack_count_def)

lemma stack_local_forms:
  "stack_local_form (exec_stack_local_int iop) (int_pair iop)" "stack_local_form (exec_stack_local_double dop) (dbl_pair dop)"
proof -
  have l: "with_local (vm_at vm n (S @ [x]) ev) b k = k (local_value vm b)" if "local_ok vm b" "vm_stack vm @ xs = S @ [x]" for vm n S x ev b k xs
    using local_vm_at(3) [OF that(1), of n xs ev] that(2) by simp
  show "stack_local_form (exec_stack_local_int iop) (int_pair iop)" "stack_local_form (exec_stack_local_double dop) (dbl_pair dop)"
    unfolding stack_local_form_def exec_stack_local_int_def exec_stack_local_double_def
    by (auto simp: operands_vm_at [of _ _ "[_, _]" _ _ 2, simplified] l intro!: yields_pairs short_operands)
qed

lemma stack_const_forms:
  "stack_const_form (exec_stack_const_int iop) (int_pair iop)" "stack_const_form (exec_stack_const_double dop) (dbl_pair dop)"
  unfolding stack_const_form_def exec_stack_const_int_def exec_stack_const_double_def
  by (auto simp: operands_vm_at [of _ _ "[_, _]" _ _ 2, simplified] constant_at(1) intro!: yields_pairs constant_at(2) short_operands)

section \<open>Fusing typed operations\<close>

text \<open>Operations that succeed only on values without reference counts.\<close>

definition plain_op :: "typed_op \<Rightarrow> bool" where
  "plain_op g \<longleftrightarrow> (\<forall>d a b v. g d a b = Inr v \<longrightarrow> value_type_is_unmanaged a \<and> value_type_is_unmanaged b)"

lemma plain_pairs: "plain_op (int_pair iop)" "plain_op (dbl_pair dop)"
proof -
  have "value_type_is_unmanaged a \<and> value_type_is_unmanaged b" if "int_pair iop d a b = Inr v" for d a b v
    using that by (cases a; cases b) (auto simp: int_pair_def)
  then show "plain_op (int_pair iop)" by (auto simp: plain_op_def)
  have "value_type_is_unmanaged a \<and> value_type_is_unmanaged b" if "dbl_pair dop d a b = Inr v" for d a b v
    using that by (cases a; cases b) (auto simp: dbl_pair_def)
  then show "plain_op (dbl_pair dop)" by (auto simp: plain_op_def)
qed

lemma plain_opD: "plain_op g \<Longrightarrow> g d a b = Inr v \<Longrightarrow> managed_retain a = [] \<and> managed_retain b = []"
  unfolding plain_op_def by (metis managed_unmanaged(1))

lemma vm_steps_last [simp]: "(case r of Inl s \<Rightarrow> Some (Inl s) | Inr vm \<Rightarrow> vm_steps 0 vm) = Some r"
  by (simp split: sum.split)

lemma vm_steps_one [simp]: "vm_steps 1 vm = vm_step vm"
  by (simp split: option.split)

lemma recode_ok [simp]:
  "local_ok (recode d vm) s = local_ok vm s" "local_value (recode d vm) s = local_value vm s"
  "stack_room k (recode d vm) = stack_room k vm" "constant_ok (recode d vm) i = constant_ok vm i"
  "vm_at (recode d vm) 0 (vm_stack vm) (vm_events vm) = recode d vm"
  by (simp_all add: local_ok_def local_index_def local_value_def vm_stack_count_def stack_room_def constant_ok_def vm_at_recode)

lemma stack_room_less [simp]: "stack_room 2 vm \<Longrightarrow> stack_room 1 vm" "stack_room 2 vm \<Longrightarrow> stack_room (Suc 0) vm"
  "stack_room 2 vm \<Longrightarrow> stack_room (Suc (Suc 0)) vm"
  by (simp_all add: stack_room_def)

lemma load_first:
  assumes "vm_running vm" and "code_at vm (OP_LOAD_LOCAL # a # c)" and "local_ok vm a" and "stack_room 1 vm"
  shows "vm_step vm = Some (Inr (vm_at vm 2 (vm_stack vm @ [local_value vm a]) (vm_events vm @ managed_retain (local_value vm a))))"
  using load_local_step [of vm "[]" a c 0 "[]" "vm_events vm"] assms by (simp add: numeral_2_eq_2)

lemma const_first:
  assumes "vm_running vm" and "code_at vm (OP_CONST # i # c)" and "constant_ok vm i" and "stack_room 1 vm"
  shows "vm_step vm = Some (Inr (vm_at vm 2 (vm_stack vm @ [the (constant_number (vm_constants vm ! unat i))]) (vm_events vm)))"
  using const_step [of vm "[]" i c 0 "vm_stack vm" "vm_events vm"] assms by (simp add: numeral_2_eq_2 stack_room_def vm_stack_count_def)

text \<open>The fused instruction is one step.\<close>

lemma fused_step:
  assumes "vm_running vm" and "code_at (recode d vm) (r # c)" and "vm_handler r = Some h"
  shows "vm_step (recode d vm) = Some (h (vm_at (recode d vm) 1 (vm_stack vm) (vm_events vm)))"
  using step_vm_at [of "recode d vm" "[]" r c 0 h "vm_stack vm" "vm_events vm"] assms by simp

lemma same_at:
  assumes "retained ev + released ev' = retained ev' + released ev"
  shows "same_machine (vm_at vm n S ev) (vm_at (recode d vm) n S ev')"
  using same_machine_recode [of "vm_at vm n S ev" ev' d] assms by (simp add: vm_at_recode recode_update)

text \<open>Two results agree when both come from the same operation.\<close>

lemma yields_same:
  assumes "yields r q (\<lambda>v. vm_at vm n (S @ [v]) ev)" and "yields r' q (\<lambda>v. vm_at (recode d vm) n (S @ [v]) ev')"
    and "\<And>v. q = Inr v \<Longrightarrow> retained ev + released ev' = retained ev' + released ev"
  shows "same_result (Some r) (Some r')"
  using assms by (cases q; cases r; cases r') (auto simp: yields_def intro: same_at)

lemma yields_fails: "isl r \<Longrightarrow> isl r' \<Longrightarrow> same_result (Some r) (Some r')"
  by (cases r; cases r') auto

lemma fuse_locals:
  assumes run: "vm_running vm" and code: "code_at vm (OP_LOAD_LOCAL # a # OP_LOAD_LOCAL # b # op # c)"
    and ok: "local_ok vm a" "local_ok vm b" "stack_room 2 vm"
    and f: "vm_handler op = Some f" "stack_form f g" and h: "vm_handler r = Some h" "locals_form h g" and plain: "plain_op g"
    and code': "code_at (recode d vm) (r # a # b # 0 # 0 # c)"
  shows "same_result (vm_steps 3 vm) (vm_step (recode d vm))"
proof -
  let ?a = "local_value vm a" and ?b = "local_value vm b" and ?S = "vm_stack vm"
  have s1: "vm_step vm = Some (Inr (vm_at vm 2 (?S @ [?a]) (vm_events vm @ managed_retain ?a)))"
    using load_first [OF run code ok(1)] ok by (simp add: stack_room_def)
  have s2: "vm_step (vm_at vm 2 (?S @ [?a]) ev) = Some (Inr (vm_at vm 4 (?S @ [?a, ?b]) (ev @ managed_retain ?b)))" for ev
    using load_local_step [of vm "[OP_LOAD_LOCAL, a]" b _ 2 "[?a]" ev] run code ok by simp
  have s3: "vm_step (vm_at vm 4 S ev) = Some (f (vm_at vm 5 S ev))" for S ev
    using step_vm_at [of vm "[OP_LOAD_LOCAL, a, OP_LOAD_LOCAL, b]" op c 4 f S ev] run code f(1) by simp
  have y: "yields (f (vm_at vm 5 (?S @ [?a, ?b]) ev)) (g (vm_doubles vm) ?a ?b) (\<lambda>v. vm_at vm 5 (?S @ [v]) ev)" for ev
    using f(2) by (simp add: stack_form_def)
  have y': "yields (h (vm_at (recode d vm) 1 ?S ev)) (g (vm_doubles vm) ?a ?b) (\<lambda>v. vm_at (recode d vm) 5 (?S @ [v]) ev)" for ev
    using h(2) [unfolded locals_form_def, rule_format, of "recode d vm" r a b c ev] run code' ok by simp
  show ?thesis
    using fused_step [OF run code' h(1)]
    by (auto simp: s1 s2 s3 simp del: One_nat_def intro!: yields_same [OF y y'] dest!: plain_opD [OF plain])
qed

lemma fuse_local_const:
  assumes run: "vm_running vm" and code: "code_at vm (OP_LOAD_LOCAL # a # OP_CONST # i # op # c)"
    and ok: "local_ok vm a" "constant_ok vm i" "stack_room 2 vm"
    and f: "vm_handler op = Some f" "stack_form f g" and h: "vm_handler r = Some h" "local_const_form h g" and plain: "plain_op g"
    and code': "code_at (recode d vm) (r # a # i # 0 # 0 # c)"
  shows "same_result (vm_steps 3 vm) (vm_step (recode d vm))"
proof -
  let ?a = "local_value vm a" and ?k = "the (constant_number (vm_constants vm ! unat i))" and ?S = "vm_stack vm"
  have s1: "vm_step vm = Some (Inr (vm_at vm 2 (?S @ [?a]) (vm_events vm @ managed_retain ?a)))"
    using load_first [OF run code ok(1)] ok by (simp add: stack_room_def)
  have s2: "vm_step (vm_at vm 2 (?S @ [?a]) ev) = Some (Inr (vm_at vm 4 (?S @ [?a, ?k]) ev))" for ev
    using const_step [of vm "[OP_LOAD_LOCAL, a]" i _ 2 "?S @ [?a]" ev] run code ok by (simp add: stack_room_def vm_stack_count_def)
  have s3: "vm_step (vm_at vm 4 S ev) = Some (f (vm_at vm 5 S ev))" for S ev
    using step_vm_at [of vm "[OP_LOAD_LOCAL, a, OP_CONST, i]" op c 4 f S ev] run code f(1) by simp
  have y: "yields (f (vm_at vm 5 (?S @ [?a, ?k]) ev)) (g (vm_doubles vm) ?a ?k) (\<lambda>v. vm_at vm 5 (?S @ [v]) ev)" for ev
    using f(2) by (simp add: stack_form_def)
  have y': "yields (h (vm_at (recode d vm) 1 ?S ev)) (g (vm_doubles vm) ?a ?k) (\<lambda>v. vm_at (recode d vm) 5 (?S @ [v]) ev)" for ev
    using h(2) [unfolded local_const_form_def, rule_format, of "recode d vm" r a i c ev] run code' ok by simp
  show ?thesis
    using fused_step [OF run code' h(1)]
    by (auto simp: s1 s2 s3 simp del: One_nat_def intro!: yields_same [OF y y'] dest!: plain_opD [OF plain])
qed

lemma fuse_const_local:
  assumes run: "vm_running vm" and code: "code_at vm (OP_CONST # i # op # a # z # c)"
    and ok: "local_ok vm a" "constant_ok vm i" "stack_room 2 vm"
    and f: "vm_handler op = Some f" "stack_local_form f g" and h: "vm_handler r = Some h" "local_const_form h g" and plain: "plain_op g"
    and comm: "\<And>x y. g (vm_doubles vm) x y = g (vm_doubles vm) y x"
    and code': "code_at (recode d vm) (r # a # i # 0 # 0 # c)"
  shows "same_result (vm_steps 2 vm) (vm_step (recode d vm))"
proof -
  let ?a = "local_value vm a" and ?k = "the (constant_number (vm_constants vm ! unat i))" and ?S = "vm_stack vm"
  have s1: "vm_step vm = Some (Inr (vm_at vm 2 (?S @ [?k]) (vm_events vm)))"
    using const_first [OF run code] ok by (simp add: stack_room_def)
  have s2: "vm_step (vm_at vm 2 S ev) = Some (f (vm_at vm 3 S ev))" for S ev
    using step_vm_at [of vm "[OP_CONST, i]" op _ 2 f S ev] run code f(1) by simp
  have y: "yields (f (vm_at vm 3 (?S @ [?k]) ev)) (g (vm_doubles vm) ?a ?k) (\<lambda>v. vm_at vm 5 (?S @ [v]) ev)" for ev
    using f(2) [unfolded stack_local_form_def, THEN conjunct1, rule_format, of vm "[OP_CONST, i, op]" a z c 3 "[?k]" ?S ?k ev] code ok
    by (simp add: comm)
  have y': "yields (h (vm_at (recode d vm) 1 ?S ev)) (g (vm_doubles vm) ?a ?k) (\<lambda>v. vm_at (recode d vm) 5 (?S @ [v]) ev)" for ev
    using h(2) [unfolded local_const_form_def, rule_format, of "recode d vm" r a i c ev] run code' ok by simp
  show ?thesis
    using fused_step [OF run code' h(1)]
    by (auto simp: s1 s2 simp del: One_nat_def intro!: yields_same [OF y y'] dest!: plain_opD [OF plain])
qed

lemma fuse_stack_local:
  assumes run: "vm_running vm" and code: "code_at vm (OP_LOAD_LOCAL # a # op # c)"
    and ok: "local_ok vm a" "stack_room 2 vm"
    and f: "vm_handler op = Some f" "stack_form f g" and h: "vm_handler r = Some h" "stack_local_form h g" and plain: "plain_op g"
    and code': "code_at (recode d vm) (r # a # 0 # c)"
  shows "same_result (vm_steps 2 vm) (vm_step (recode d vm))"
proof -
  let ?a = "local_value vm a"
  have "vm_stack vm \<noteq> []" using ok(1) by (auto simp: local_ok_def vm_stack_count_def)
  then obtain S x where S: "vm_stack vm = S @ [x]" by (metis append_butlast_last_id)
  have s1: "vm_step vm = Some (Inr (vm_at vm 2 (S @ [x, ?a]) (vm_events vm @ managed_retain ?a)))"
    using load_first [OF run code ok(1)] ok by (simp add: stack_room_def S)
  have s2: "vm_step (vm_at vm 2 S ev) = Some (f (vm_at vm 3 S ev))" for S ev
    using step_vm_at [of vm "[OP_LOAD_LOCAL, a]" op _ 2 f S ev] run code f(1) by simp
  have y: "yields (f (vm_at vm 3 (S @ [x, ?a]) ev)) (g (vm_doubles vm) x ?a) (\<lambda>v. vm_at vm 3 (S @ [v]) ev)" for ev
    using f(2) by (simp add: stack_form_def)
  have y': "yields (h (vm_at (recode d vm) 1 (S @ [x]) ev)) (g (vm_doubles vm) x ?a) (\<lambda>v. vm_at (recode d vm) 3 (S @ [v]) ev)" for ev
    using h(2) [unfolded stack_local_form_def, THEN conjunct1, rule_format, of "recode d vm" "[r]" a 0 c 1 "[]" S x ev] code' ok S by (simp add: numeral_3_eq_3)
  show ?thesis
    using fused_step [OF run code' h(1)]
    by (auto simp: s1 s2 S simp del: One_nat_def intro!: yields_same [OF y y'] dest!: plain_opD [OF plain])
qed

lemma fuse_stack_const:
  assumes run: "vm_running vm" and code: "code_at vm (OP_CONST # i # op # c)"
    and ok: "constant_ok vm i" "stack_room 2 vm"
    and f: "vm_handler op = Some f" "stack_form f g" and h: "vm_handler r = Some h" "stack_const_form h g" and plain: "plain_op g"
    and code': "code_at (recode d vm) (r # i # 0 # c)"
  shows "same_result (vm_steps 2 vm) (vm_step (recode d vm))"
proof -
  let ?k = "the (constant_number (vm_constants vm ! unat i))"
  have s1: "vm_step vm = Some (Inr (vm_at vm 2 (vm_stack vm @ [?k]) (vm_events vm)))"
    using const_first [OF run code] ok by (simp add: stack_room_def)
  have s2: "vm_step (vm_at vm 2 S ev) = Some (f (vm_at vm 3 S ev))" for S ev
    using step_vm_at [of vm "[OP_CONST, i]" op _ 2 f S ev] run code f(1) by simp
  show ?thesis
  proof (cases "vm_stack vm" rule: rev_cases)
    case Nil
    have "isl (f (vm_at vm 3 [?k] ev))" "isl (h (vm_at (recode d vm) 1 [] ev))" for ev
      using f(2) h(2) by (auto simp: stack_form_def stack_const_form_def)
    then show ?thesis using fused_step [OF run code' h(1)] by (auto simp: s1 s2 Nil intro!: yields_fails)
  next
    case (snoc S x)
    have y: "yields (f (vm_at vm 3 (S @ [x, ?k]) ev)) (g (vm_doubles vm) x ?k) (\<lambda>v. vm_at vm 3 (S @ [v]) ev)" for ev
      using f(2) by (simp add: stack_form_def)
    have y': "yields (h (vm_at (recode d vm) 1 (S @ [x]) ev)) (g (vm_doubles vm) x ?k) (\<lambda>v. vm_at (recode d vm) 3 (S @ [v]) ev)" for ev
      using h(2) [unfolded stack_const_form_def, THEN conjunct1, rule_format, of "recode d vm" "[r]" i 0 c 1 S x ev] code' ok by (simp add: numeral_3_eq_3)
    show ?thesis
      using fused_step [OF run code' h(1)]
      by (auto simp: s1 s2 snoc simp del: One_nat_def intro!: yields_same [OF y y'] dest!: plain_opD [OF plain])
  qed
qed

section \<open>The arithmetic patterns\<close>

text \<open>An operation on the stack and the opcode that replaces it, in one of the forms.\<close>

definition fuses :: "((vm \<Rightarrow> vm + vm) \<Rightarrow> typed_op \<Rightarrow> bool) \<Rightarrow> ((vm \<Rightarrow> vm + vm) \<Rightarrow> typed_op \<Rightarrow> bool) \<Rightarrow> (typed_op \<Rightarrow> bool) \<Rightarrow> u8 \<Rightarrow> u8 \<Rightarrow> bool" where
  "fuses before after P op r \<longleftrightarrow>
     (\<exists>f g h. vm_handler op = Some f \<and> before f g \<and> vm_handler r = Some h \<and> after h g \<and> plain_op g \<and> P g)"

lemma fusesI:
  "vm_handler op = Some f \<Longrightarrow> vm_handler r = Some h \<Longrightarrow> before f g \<Longrightarrow> after h g \<Longrightarrow> plain_op g \<Longrightarrow> P g \<Longrightarrow> fuses before after P op r"
  by (auto simp: fuses_def)

lemma fuses_int:
  "vm_handler op = Some (exec_int iop) \<Longrightarrow> vm_handler r = Some (exec_locals_int iop) \<Longrightarrow> fuses stack_form locals_form (\<lambda>g. True) op r"
  "vm_handler op = Some (exec_int iop) \<Longrightarrow> vm_handler r = Some (exec_local_const_int iop) \<Longrightarrow> fuses stack_form local_const_form (\<lambda>g. True) op r"
  "vm_handler op = Some (exec_int iop) \<Longrightarrow> vm_handler r = Some (exec_stack_local_int iop) \<Longrightarrow> fuses stack_form stack_local_form (\<lambda>g. True) op r"
  "vm_handler op = Some (exec_int iop) \<Longrightarrow> vm_handler r = Some (exec_stack_const_int iop) \<Longrightarrow> fuses stack_form stack_const_form (\<lambda>g. True) op r"
  by (erule (1) fusesI; rule stack_forms locals_forms local_const_forms stack_local_forms stack_const_forms plain_pairs TrueI)+

lemma fuses_double:
  "vm_handler op = Some (exec_double dop) \<Longrightarrow> vm_handler r = Some (exec_locals_double dop) \<Longrightarrow> fuses stack_form locals_form (\<lambda>g. True) op r"
  "vm_handler op = Some (exec_double dop) \<Longrightarrow> vm_handler r = Some (exec_local_const_double dop) \<Longrightarrow> fuses stack_form local_const_form (\<lambda>g. True) op r"
  "vm_handler op = Some (exec_double dop) \<Longrightarrow> vm_handler r = Some (exec_stack_local_double dop) \<Longrightarrow> fuses stack_form stack_local_form (\<lambda>g. True) op r"
  "vm_handler op = Some (exec_double dop) \<Longrightarrow> vm_handler r = Some (exec_stack_const_double dop) \<Longrightarrow> fuses stack_form stack_const_form (\<lambda>g. True) op r"
  by (erule (1) fusesI; rule stack_forms locals_forms local_const_forms stack_local_forms stack_const_forms plain_pairs TrueI)+

text \<open>Addition and multiplication of doubles do not depend on the order of the operands.\<close>

definition commutative_doubles :: "double_ops \<Rightarrow> bool" where
  "commutative_doubles d \<longleftrightarrow> (\<forall>x y. d_add d x y = d_add d y x) \<and> (\<forall>x y. d_mul d x y = d_mul d y x)"

definition commutes :: "double_ops \<Rightarrow> typed_op \<Rightarrow> bool" where
  "commutes d g \<longleftrightarrow> (\<forall>x y. g d x y = g d y x)"

lemma commutes_int: "iop \<in> {I_ADD, I_MUL, I_BIT_AND, I_BIT_OR, I_BIT_XOR} \<Longrightarrow> commutes d (int_pair iop)"
proof -
  assume "iop \<in> {I_ADD, I_MUL, I_BIT_AND, I_BIT_OR, I_BIT_XOR}"
  then have "int_op_result iop x y = int_op_result iop y x" for x y
    by (auto simp: int_op_result_def int64_result_def ac_simps)
  then have "int_pair iop d x y = int_pair iop d y x" for x y by (cases x; cases y) (auto simp: int_pair_def)
  then show ?thesis unfolding commutes_def by blast
qed

lemma commutes_double: "commutative_doubles d \<Longrightarrow> dop \<in> {D_ADD, D_MUL} \<Longrightarrow> commutes d (dbl_pair dop)"
proof -
  assume a: "commutative_doubles d" "dop \<in> {D_ADD, D_MUL}"
  then have "dbl_op_result d dop x y = dbl_op_result d dop y x" for x y by (auto simp: dbl_op_result_def commutative_doubles_def)
  then have "dbl_pair dop d x y = dbl_pair dop d y x" for x y by (cases x; cases y) (auto simp: dbl_pair_def)
  then show ?thesis unfolding commutes_def by blast
qed

text \<open>What an instruction of the patterns needs: its local exists, or its constant is a number.\<close>

definition operand_ok :: "vm \<Rightarrow> u8 \<Rightarrow> u8 \<Rightarrow> bool" where
  "operand_ok vm op x \<longleftrightarrow>
     (if op = OP_CONST then constant_ok vm x
      else if op \<in> {OP_LOAD_LOCAL, OP_ADD_STACK_LOCAL_INT, OP_MUL_STACK_LOCAL_INT, OP_BIT_AND_STACK_LOCAL_INT, OP_BIT_OR_STACK_LOCAL_INT,
                     OP_BIT_XOR_STACK_LOCAL_INT, OP_ADD_STACK_LOCAL_DOUBLE, OP_MUL_STACK_LOCAL_DOUBLE}
      then local_ok vm x else True)"

definition arithmetic_patterns :: "(u8 list \<Rightarrow> u8 list option) list" where
  "arithmetic_patterns = [pattern_locals, pattern_local_const, pattern_stack_local, pattern_stack_const, pattern_const_local]"

lemma fuses_const_local:
  "iop \<in> {I_ADD, I_MUL, I_BIT_AND, I_BIT_OR, I_BIT_XOR} \<Longrightarrow> vm_handler op = Some (exec_stack_local_int iop) \<Longrightarrow>
     vm_handler r = Some (exec_local_const_int iop) \<Longrightarrow> fuses stack_local_form local_const_form (commutes d) op r"
  "commutative_doubles d \<Longrightarrow> dop \<in> {D_ADD, D_MUL} \<Longrightarrow> vm_handler op = Some (exec_stack_local_double dop) \<Longrightarrow>
     vm_handler r = Some (exec_local_const_double dop) \<Longrightarrow> fuses stack_local_form local_const_form (commutes d) op r"
  by (rule fusesI [where f = "exec_stack_local_int iop" and h = "exec_local_const_int iop" and g = "int_pair iop"];
      simp add: local_const_forms stack_local_forms plain_pairs commutes_int)
    (rule fusesI [where f = "exec_stack_local_double dop" and h = "exec_local_const_double dop" and g = "dbl_pair dop"];
      simp add: local_const_forms stack_local_forms plain_pairs commutes_double)

lemma code_prefix: "5 \<le> length c \<Longrightarrow> \<exists>v w x y z c'. c = v # w # x # y # z # c'"
  "3 \<le> length c \<Longrightarrow> \<exists>v w x c'. c = v # w # x # c'"
  by (auto simp: eval_nat_numeral Suc_le_length_iff)

lemma pattern_locals_cases:
  assumes "pattern_locals c = Some bs"
  shows "\<exists>a b op r c'. c = OP_LOAD_LOCAL # a # OP_LOAD_LOCAL # b # op # c' \<and> bs = [r, a, b, 0, 0] \<and> fuses stack_form locals_form (\<lambda>g. True) op r"
proof -
  obtain v w x y z c' where "c = v # w # x # y # z # c'" using assms code_prefix(1) [of c] by (auto simp: pattern_locals_def split: if_splits)
  with assms show ?thesis by (auto simp: pattern_locals_def split: if_splits)
    (rule fuses_int; (simp; fail) | rule fuses_double; (simp; fail))+
qed

lemma pattern_local_const_cases:
  assumes "pattern_local_const c = Some bs"
  shows "\<exists>a i op r c'. c = OP_LOAD_LOCAL # a # OP_CONST # i # op # c' \<and> bs = [r, a, i, 0, 0] \<and> fuses stack_form local_const_form (\<lambda>g. True) op r"
proof -
  obtain v w x y z c' where "c = v # w # x # y # z # c'" using assms code_prefix(1) [of c] by (auto simp: pattern_local_const_def split: if_splits)
  with assms show ?thesis by (auto simp: pattern_local_const_def split: if_splits)
    (rule fuses_int; (simp; fail) | rule fuses_double; (simp; fail))+
qed

lemma pattern_stack_local_cases:
  assumes "pattern_stack_local c = Some bs"
  shows "\<exists>a op r c'. c = OP_LOAD_LOCAL # a # op # c' \<and> bs = [r, a, 0] \<and> fuses stack_form stack_local_form (\<lambda>g. True) op r"
proof -
  obtain v w x c' where "c = v # w # x # c'" using assms code_prefix(2) [of c] by (auto simp: pattern_stack_local_def split: if_splits)
  with assms show ?thesis by (auto simp: pattern_stack_local_def split: if_splits)
    (rule fuses_int; (simp; fail) | rule fuses_double; (simp; fail))+
qed

lemma pattern_stack_const_cases:
  assumes "pattern_stack_const c = Some bs"
  shows "\<exists>i op r c'. c = OP_CONST # i # op # c' \<and> bs = [r, i, 0] \<and> fuses stack_form stack_const_form (\<lambda>g. True) op r"
proof -
  obtain v w x c' where "c = v # w # x # c'" using assms code_prefix(2) [of c] by (auto simp: pattern_stack_const_def split: if_splits)
  with assms show ?thesis by (auto simp: pattern_stack_const_def split: if_splits)
    (rule fuses_int; (simp; fail) | rule fuses_double; (simp; fail))+
qed

lemma pattern_const_local_cases:
  assumes "pattern_const_local c = Some bs" and "commutative_doubles d"
  shows "\<exists>a i z op r c'. c = OP_CONST # i # op # a # z # c' \<and> bs = [r, a, i, 0, 0] \<and> fuses stack_local_form local_const_form (commutes d) op r \<and> (\<forall>vm x. operand_ok vm op x = local_ok vm x)"
proof -
  obtain v w x y z c' where "c = v # w # x # y # z # c'" using assms code_prefix(1) [of c] by (auto simp: pattern_const_local_def split: if_splits)
  with assms show ?thesis by (auto simp: pattern_const_local_def operand_ok_def split: if_splits)
    (rule fuses_const_local; (simp; fail))+
qed

lemma fused_code:
  assumes "code_at vm (cs @ c)" and "length bs = length cs"
  shows "code_at (recode (overwrite (vm_code vm) (nat (vm_ip vm)) bs) vm) (bs @ c)"
  using code_at_overwrite [OF assms(1), of bs] assms(2) by simp

lemma pattern_locals_same:
  assumes run: "vm_running vm" "stack_room 2 vm" and code: "code_at vm c" and pat: "pattern_locals c = Some bs"
    and op: "operand_ok vm (c ! 0) (c ! 1)" "operand_ok vm (c ! 2) (c ! 3)"
  shows "same_result (vm_steps 3 vm) (vm_step (recode (overwrite (vm_code vm) (nat (vm_ip vm)) bs) vm))"
proof -
  obtain a b op r c' where c: "c = OP_LOAD_LOCAL # a # OP_LOAD_LOCAL # b # op # c'" and bs: "bs = [r, a, b, 0, 0]"
    and f: "fuses stack_form locals_form (\<lambda>g. True) op r"
    using pattern_locals_cases [OF pat] by blast
  from f obtain f g h where h: "vm_handler op = Some f" "stack_form f g" "vm_handler r = Some h" "locals_form h g" "plain_op g"
    by (auto simp: fuses_def)
  have code': "code_at (recode (overwrite (vm_code vm) (nat (vm_ip vm)) bs) vm) (bs @ c')"
    by (rule fused_code [of _ "[OP_LOAD_LOCAL, a, OP_LOAD_LOCAL, b, op]"]) (use code c bs in simp_all)
  show ?thesis
    by (rule fuse_locals) (use run code code' h op in \<open>auto simp: c bs operand_ok_def commutes_def\<close>)
qed

lemma pattern_local_const_same:
  assumes run: "vm_running vm" "stack_room 2 vm" and code: "code_at vm c" and pat: "pattern_local_const c = Some bs"
    and op: "operand_ok vm (c ! 0) (c ! 1)" "operand_ok vm (c ! 2) (c ! 3)"
  shows "same_result (vm_steps 3 vm) (vm_step (recode (overwrite (vm_code vm) (nat (vm_ip vm)) bs) vm))"
proof -
  obtain a i op r c' where c: "c = OP_LOAD_LOCAL # a # OP_CONST # i # op # c'" and bs: "bs = [r, a, i, 0, 0]"
    and f: "fuses stack_form local_const_form (\<lambda>g. True) op r"
    using pattern_local_const_cases [OF pat] by blast
  from f obtain f g h where h: "vm_handler op = Some f" "stack_form f g" "vm_handler r = Some h" "local_const_form h g" "plain_op g"
    by (auto simp: fuses_def)
  have code': "code_at (recode (overwrite (vm_code vm) (nat (vm_ip vm)) bs) vm) (bs @ c')"
    by (rule fused_code [of _ "[OP_LOAD_LOCAL, a, OP_CONST, i, op]"]) (use code c bs in simp_all)
  show ?thesis
    by (rule fuse_local_const) (use run code code' h op in \<open>auto simp: c bs operand_ok_def commutes_def\<close>)
qed

lemma pattern_stack_local_same:
  assumes run: "vm_running vm" "stack_room 2 vm" and code: "code_at vm c" and pat: "pattern_stack_local c = Some bs"
    and op: "operand_ok vm (c ! 0) (c ! 1)"
  shows "same_result (vm_steps 2 vm) (vm_step (recode (overwrite (vm_code vm) (nat (vm_ip vm)) bs) vm))"
proof -
  obtain a op r c' where c: "c = OP_LOAD_LOCAL # a # op # c'" and bs: "bs = [r, a, 0]"
    and f: "fuses stack_form stack_local_form (\<lambda>g. True) op r"
    using pattern_stack_local_cases [OF pat] by blast
  from f obtain f g h where h: "vm_handler op = Some f" "stack_form f g" "vm_handler r = Some h" "stack_local_form h g" "plain_op g"
    by (auto simp: fuses_def)
  have code': "code_at (recode (overwrite (vm_code vm) (nat (vm_ip vm)) bs) vm) (bs @ c')"
    by (rule fused_code [of _ "[OP_LOAD_LOCAL, a, op]"]) (use code c bs in simp_all)
  show ?thesis
    by (rule fuse_stack_local) (use run code code' h op in \<open>auto simp: c bs operand_ok_def commutes_def\<close>)
qed

lemma pattern_stack_const_same:
  assumes run: "vm_running vm" "stack_room 2 vm" and code: "code_at vm c" and pat: "pattern_stack_const c = Some bs"
    and op: "operand_ok vm (c ! 0) (c ! 1)"
  shows "same_result (vm_steps 2 vm) (vm_step (recode (overwrite (vm_code vm) (nat (vm_ip vm)) bs) vm))"
proof -
  obtain i op r c' where c: "c = OP_CONST # i # op # c'" and bs: "bs = [r, i, 0]"
    and f: "fuses stack_form stack_const_form (\<lambda>g. True) op r"
    using pattern_stack_const_cases [OF pat] by blast
  from f obtain f g h where h: "vm_handler op = Some f" "stack_form f g" "vm_handler r = Some h" "stack_const_form h g" "plain_op g"
    by (auto simp: fuses_def)
  have code': "code_at (recode (overwrite (vm_code vm) (nat (vm_ip vm)) bs) vm) (bs @ c')"
    by (rule fused_code [of _ "[OP_CONST, i, op]"]) (use code c bs in simp_all)
  show ?thesis
    by (rule fuse_stack_const) (use run code code' h op in \<open>auto simp: c bs operand_ok_def commutes_def\<close>)
qed

lemma pattern_const_local_same:
  assumes run: "vm_running vm" "stack_room 2 vm" and code: "code_at vm c" and pat: "pattern_const_local c = Some bs"
    and op: "operand_ok vm (c ! 0) (c ! 1)" "operand_ok vm (c ! 2) (c ! 3)" and d: "commutative_doubles (vm_doubles vm)"
  shows "same_result (vm_steps 2 vm) (vm_step (recode (overwrite (vm_code vm) (nat (vm_ip vm)) bs) vm))"
proof -
  obtain a i z op r c' where c: "c = OP_CONST # i # op # a # z # c'" and bs: "bs = [r, a, i, 0, 0]"
    and f: "fuses stack_local_form local_const_form (commutes (vm_doubles vm)) op r" and o: "\<And>vm x. operand_ok vm op x = local_ok vm x"
    using pattern_const_local_cases [OF pat d] by blast
  from f obtain f g h where h: "vm_handler op = Some f" "stack_local_form f g" "vm_handler r = Some h" "local_const_form h g" "plain_op g" "commutes (vm_doubles vm) g"
    by (auto simp: fuses_def)
  have code': "code_at (recode (overwrite (vm_code vm) (nat (vm_ip vm)) bs) vm) (bs @ c')"
    by (rule fused_code [of _ "[OP_CONST, i, op, a, z]"]) (use code c bs in simp_all)
  show ?thesis
  proof (rule fuse_const_local [where f = f and g = g])
    show "local_ok vm a" using op(2) o by (simp add: c)
    show "constant_ok vm i" using op(1) by (simp add: c operand_ok_def)
    show "g (vm_doubles vm) x y = g (vm_doubles vm) y x" for x y using h(6) by (simp add: commutes_def)
  qed (use run code code' h in \<open>simp_all add: c bs\<close>)
qed

text \<open>
  Claim C3.  Replacing instructions by an arithmetic superinstruction does not change what the program does: wherever one of the
  patterns applies, some number of steps of the old code and one step of the new code both fail, or lead to machines that
  differ only in their code and whose retained and released references balance.  The patterns cover two locals, a local and a
  constant, the stack and a local or a constant, and a constant under a local, which swaps the operands and therefore needs
  commutative addition and multiplication of doubles.
\<close>

theorem arithmetic_fusion_same:
  assumes "vm_running vm" and "stack_room 2 vm" and "code_at vm c" and "p \<in> set arithmetic_patterns" and "p c = Some bs"
    and "operand_ok vm (c ! 0) (c ! 1)" and "operand_ok vm (c ! 2) (c ! 3)" and "commutative_doubles (vm_doubles vm)"
  shows "\<exists>k>0. same_result (vm_steps k vm) (vm_step (recode (overwrite (vm_code vm) (nat (vm_ip vm)) bs) vm))"
proof -
  have "\<exists>k\<in>{2, 3}. same_result (vm_steps k vm) (vm_step (recode (overwrite (vm_code vm) (nat (vm_ip vm)) bs) vm))"
    using assms pattern_locals_same [OF assms(1-3)] pattern_local_const_same [OF assms(1-3)] pattern_stack_local_same [OF assms(1-3)]
      pattern_stack_const_same [OF assms(1-3)] pattern_const_local_same [OF assms(1-3)]
    unfolding arithmetic_patterns_def by auto
  then show ?thesis by auto
qed

definition fusion_sample :: vm where
  "fusion_sample = (vm_start 0 [OP_LOAD_LOCAL, 0, OP_LOAD_LOCAL, 1, OP_ADD_INT] [] [VAL_INT 2, VAL_INT 3])
     \<lparr>vm_doubles := double_ops_none\<lparr>d_add := (+), d_mul := (*)\<rparr>\<rparr>"

theorem arithmetic_fusion_same_witness:
  "\<exists>k>0. same_result (vm_steps k fusion_sample) (vm_step (recode [OP_ADD_LOCALS_INT, 0, 1, 0, 0] fusion_sample))"
proof -
  have "vm_code fusion_sample = [OP_LOAD_LOCAL, 0, OP_LOAD_LOCAL, 1, OP_ADD_INT]" "vm_ip fusion_sample = 0"
    by (simp_all add: fusion_sample_def vm_start_def vm_code_def vm_func_def)
  then show ?thesis
    using arithmetic_fusion_same [of fusion_sample "[OP_LOAD_LOCAL, 0, OP_LOAD_LOCAL, 1, OP_ADD_INT]" pattern_locals "[OP_ADD_LOCALS_INT, 0, 1, 0, 0]"]
    by (simp add: overwrite_def) (simp add: vm_running_def stack_room_def code_at_def arithmetic_patterns_def pattern_locals_def operand_ok_def local_ok_def
      local_index_def vm_stack_count_def commutative_doubles_def fusion_sample_def vm_start_def ac_simps)
qed

section \<open>Jump targets\<close>

text \<open>The stack after a number of steps, if the machine has not failed.\<close>

definition stack_after :: "nat \<Rightarrow> vm \<Rightarrow> Value list option" where
  "stack_after n vm = (case vm_steps n vm of Some (Inr vm) \<Rightarrow> Some (vm_stack vm) | _ \<Rightarrow> None)"

lemmas branch_simps = vm_exec_simps vm_start_def stack_after_def exec_jump_if_local_cmp_def same_type_cmp_def int_cmp_def exec_local_const_def
  local_const_result_def exec_const_def vm_push_constant_by_index_def exec_load_local_def exec_store_local_def exec_add2_local_const_def

definition code_chunk :: "u8 list \<Rightarrow> Chunk" where
  "code_chunk code = \<lparr>ch_code = code, ch_debug_info = map (\<lambda>b. \<lparr>di_index = 0, di_line = 1\<rparr>) code, ch_code_capacity = 16\<rparr>"

text \<open>The code of \<open>if (a < b) { a = a + 1; } b = b + 1;\<close> and of \<open>if (a < b) { a = a; } b = b + 1;\<close> on two locals.\<close>

definition increment_code :: "u8 list" where
  "increment_code = [OP_JUMP_IF_LOCAL_GE, 0, 1, 0, 3, OP_ADD_LOCAL_CONST, 0, 0, OP_ADD_LOCAL_CONST, 1, 0]"

definition self_assign_code :: "u8 list" where
  "self_assign_code = [OP_JUMP_IF_LOCAL_GE, 0, 1, 0, 4, OP_LOAD_LOCAL, 0, OP_STORE_LOCAL, 0, OP_ADD_LOCAL_CONST, 1, 0]"

text \<open>Running code on \<open>a = 5\<close> and \<open>b = 2\<close>.\<close>

definition sample_vm :: "u8 list \<Rightarrow> vm" where
  "sample_vm code = vm_start 0 code [CONST_INT 1] [VAL_INT 5, VAL_INT 2]"

text \<open>
  Claim C4.  The superinstruction pass ignores jump targets.  For the code of \<open>if (a < b) { a = a + 1; } b = b + 1;\<close> on two
  locals it fuses the two additions, although the branch over the first one jumps to the second.  With \<open>a = 5\<close> and \<open>b = 2\<close>
  the original code increments \<open>b\<close>; in the optimised code the branch lands inside the operands of the fused instruction, whose slot
  number is executed as \<^verbatim>\<open>OP_CONST\<close>: \<open>b\<close> keeps its value and a stray constant is left on the stack.
\<close>

theorem fusion_breaks_branch:
  "stack_after 2 (sample_vm increment_code) = Some [VAL_INT 5, VAL_INT 3] \<and>
   stack_after 2 (sample_vm (ch_code (superinstruction_optimize (code_chunk increment_code)))) = Some [VAL_INT 5, VAL_INT 2, VAL_INT 1]"
proof
  show "stack_after 2 (sample_vm increment_code) = Some [VAL_INT 5, VAL_INT 3]"
    by (simp add: branch_simps sample_vm_def increment_code_def)
  have "ch_code (superinstruction_optimize (code_chunk increment_code)) =
      [OP_JUMP_IF_LOCAL_GE, 0, 1, 0, 3, OP_ADD2_LOCAL_CONST, 0, 0, 1, 0, 0]" by code_simp
  then show "stack_after 2 (sample_vm (ch_code (superinstruction_optimize (code_chunk increment_code)))) =
      Some [VAL_INT 5, VAL_INT 2, VAL_INT 1]"
    by (simp add: branch_simps sample_vm_def)
qed

text \<open>
  Claim C5.  The peephole pass removes bytes without adjusting the jumps over them.  For the code of
  \<open>if (a < b) { a = a; } b = b + 1;\<close> on two locals it drops the load and the store, and the branch over them, which still skips
  four bytes, then leaves the code: with \<open>a = 5\<close> and \<open>b = 2\<close> the original increments \<open>b\<close>, the optimised code fails.
\<close>

theorem peephole_breaks_branch:
  "stack_after 2 (sample_vm self_assign_code) = Some [VAL_INT 5, VAL_INT 3] \<and>
   (\<exists>vm. vm_steps 2 (sample_vm (ch_code (peephole_optimize (code_chunk self_assign_code)))) = Some (Inl vm) \<and> vm_error vm = Some ERR_TRUNCATED)"
proof
  show "stack_after 2 (sample_vm self_assign_code) = Some [VAL_INT 5, VAL_INT 3]"
    by (simp add: branch_simps sample_vm_def self_assign_code_def)
  have "ch_code (peephole_optimize (code_chunk self_assign_code)) = [OP_JUMP_IF_LOCAL_GE, 0, 1, 0, 4, OP_ADD_LOCAL_CONST, 1, 0]" by code_simp
  then show "\<exists>vm. vm_steps 2 (sample_vm (ch_code (peephole_optimize (code_chunk self_assign_code)))) = Some (Inl vm) \<and>
      vm_error vm = Some ERR_TRUNCATED"
    by (simp add: branch_simps sample_vm_def vm_runtime_error_def)
qed

end
