(* ===== verification/VM_Array_Spec.thy ===== *)
theory VM_Array_Spec
  imports VM_Run
begin

text \<open>What the instructions of \<^theory_text>\<open>VM_Arrays\<close> on whole arrays compute, on the list of values an array holds.\<close>

section \<open>Whole arrays\<close>

text \<open>The loops compute the reversal and the rotations of the prefix.\<close>

lemma length_reverse_loop [simp]: "length (reverse_loop xs lo hi) = length xs"
  by (induction xs lo hi rule: reverse_loop.induct) (subst reverse_loop.simps, simp)

lemma reverse_loop_nth:
  assumes "hi < length xs" and "i < length xs"
  shows "reverse_loop xs lo hi ! i = (if lo \<le> i \<and> i \<le> hi then xs ! (lo + hi - i) else xs ! i)"
  using assms
proof (induction xs lo hi arbitrary: i rule: reverse_loop.induct)
  case (1 xs lo hi)
  show ?case
  proof (cases "lo < hi")
    case True
    then show ?thesis using 1 by (subst reverse_loop.simps) (auto simp: nth_list_update)
  next
    case False
    then have "i = lo + hi - i" if "lo \<le> i" "i \<le> hi" using that by linarith
    then show ?thesis using False by (subst reverse_loop.simps) auto
  qed
qed

lemma length_shift [simp]: "length (shift_left_loop xs i n) = length xs" "length (shift_right_loop xs n) = length xs"
proof -
  show "length (shift_left_loop xs i n) = length xs" by (induction xs i n rule: shift_left_loop.induct) simp_all
  show "length (shift_right_loop xs n) = length xs" by (induction xs n rule: shift_right_loop.induct) simp_all
qed

lemma shift_left_nth: "i + n < length xs \<Longrightarrow> j < length xs \<Longrightarrow> shift_left_loop xs i n ! j = (if i \<le> j \<and> j < i + n then xs ! (j + 1) else xs ! j)"
  by (induction xs i n arbitrary: j rule: shift_left_loop.induct) (auto simp: nth_list_update)

lemma shift_right_nth: "n < length xs \<Longrightarrow> j < length xs \<Longrightarrow> shift_right_loop xs n ! j = (if 0 < j \<and> j \<le> n then xs ! (j - 1) else xs ! j)"
  by (induction xs n arbitrary: j rule: shift_right_loop.induct) (auto simp: nth_list_update le_Suc_eq)

definition prefix_spec :: "prefix_op \<Rightarrow> 'a list \<Rightarrow> 'a list" where
  "prefix_spec op xs = (case op of REVERSE \<Rightarrow> rev xs | ROTATE_LEFT \<Rightarrow> tl xs @ [hd xs] | ROTATE_RIGHT \<Rightarrow> last xs # butlast xs)"

lemma prefix_list_spec:
  assumes "hi < length xs"
  shows "prefix_list op hi xs = prefix_spec op (take (hi + 1) xs) @ drop (hi + 1) xs"
proof (rule nth_equalityI)
  have ne: "xs \<noteq> []" using assms by auto
  have len: "length (prefix_spec op (take (hi + 1) xs)) = hi + 1" using assms by (cases op) (auto simp: prefix_spec_def min_def)
  then show "length (prefix_list op hi xs) = length (prefix_spec op (take (hi + 1) xs) @ drop (hi + 1) xs)"
    using assms by (cases op) (auto simp: prefix_list_def)
  fix i assume "i < length (prefix_list op hi xs)"
  then have i: "i < length xs" by (cases op) (auto simp: prefix_list_def split: if_splits)
  show "prefix_list op hi xs ! i = (prefix_spec op (take (hi + 1) xs) @ drop (hi + 1) xs) ! i"
  proof (cases op)
    case REVERSE
    then show ?thesis using assms i ne len
      by (auto simp: prefix_list_def prefix_spec_def reverse_loop_nth nth_append rev_nth min_def)
  next
    case ROTATE_LEFT
    then show ?thesis using assms i ne len
      by (auto simp: prefix_list_def prefix_spec_def shift_left_nth nth_append nth_list_update nth_tl hd_conv_nth min_def)
  next
    case ROTATE_RIGHT
    then show ?thesis using assms i ne len
      by (auto simp: prefix_list_def prefix_spec_def shift_right_nth nth_append nth_list_update nth_Cons' nth_butlast last_conv_nth min_def)
  qed
qed

lemma prefix_spec_map: "xs \<noteq> [] \<Longrightarrow> map f (prefix_spec op xs) = prefix_spec op (map f xs)"
  by (cases op) (simp_all add: prefix_spec_def rev_map map_tl map_butlast hd_map last_map)

lemma prefix_data_values:
  assumes "hi < array_data_count d"
  shows "array_box_elements (prefix_data op hi d) = prefix_spec op (take (hi + 1) (array_box_elements d)) @ drop (hi + 1) (array_box_elements d)"
  using assms by (cases d) (auto simp: prefix_list_spec take_map drop_map intro!: prefix_spec_map)

text \<open>
  Claim C6.  The instructions on a prefix of an array reverse it or rotate it by one place, in every representation of the array:
  they take the array and the last index of the prefix off the stack, leave the elements behind the prefix and every other array as
  they are, and fail exactly when the index lies outside the array.
\<close>

theorem array_prefix_exact:
  assumes "vm_stack vm = S @ [VAL_ARRAY p, VAL_INT h]" and "vm_error vm = None"
  shows "(let xs = array_values (vm_arrays vm p); n = nat (sint h) + 1
          in if 0 \<le> sint h \<and> sint h < int (length xs)
             then \<exists>vm'. exec_array_prefix op vm = Inr vm' \<and> vm_stack vm' = S \<and>
                    array_values (vm_arrays vm' p) = prefix_spec op (take n xs) @ drop n xs \<and>
                    (\<forall>q. q = p \<or> vm_arrays vm' q = vm_arrays vm q)
             else \<exists>vm'. exec_array_prefix op vm = Inl vm' \<and> vm_arrays vm' = vm_arrays vm)"
proof -
  have pops: "pop vm = (VAL_INT h, vm\<lparr>vm_stack := S @ [VAL_ARRAY p]\<rparr>)"
    "pop (vm\<lparr>vm_stack := S @ [VAL_ARRAY p]\<rparr>) = (VAL_ARRAY p, vm\<lparr>vm_stack := S\<rparr>)"
    using assms by (auto simp: pop_def vm_stack_count_def butlast_append)
  show ?thesis
    using prefix_data_values [of "nat (sint h)" "oa_data (vm_arrays vm p)" op]
    by (auto simp: exec_array_prefix_def pops prefix_checked_def Let_def vm_release_def vm_runtime_error_def array_values_def oa_count_def nat_less_iff)
qed

definition array_vm :: "(addr \<Rightarrow> Value list) \<Rightarrow> Value list \<Rightarrow> vm" where
  "array_vm arrays stack =
     (vm_start 0 [] [] stack)\<lparr>vm_arrays := \<lambda>p. \<lparr>oa_capacity = 8, oa_ref_count = 1, oa_data = Elements (arrays p)\<rparr>\<rparr>"

theorem array_prefix_exact_witness:
  "\<exists>vm'. exec_array_prefix ROTATE_LEFT (array_vm (\<lambda>p. [VAL_INT 7, VAL_INT 8, VAL_INT 9]) [VAL_NIL, VAL_ARRAY 0, VAL_INT 1]) = Inr vm' \<and>
     vm_stack vm' = [VAL_NIL] \<and> array_values (vm_arrays vm' 0) = [VAL_INT 8, VAL_INT 7, VAL_INT 9]"
  using array_prefix_exact [of "array_vm (\<lambda>p. [VAL_INT 7, VAL_INT 8, VAL_INT 9]) [VAL_NIL, VAL_ARRAY 0, VAL_INT 1]" "[VAL_NIL]" 0 1 ROTATE_LEFT]
  by (auto simp: array_vm_def vm_start_def Let_def array_values_def prefix_spec_def)

lemma boxed_data [simp]: "oa_data (obj_array_convert_to_boxed arr) = Elements (array_box_elements (oa_data arr))"
  by (cases "oa_data arr") (auto simp: obj_array_convert_to_boxed_def)

lemma copy_elements_values:
  "array_values (vm_arrays (copy_elements dst src vm) dst) = array_values (vm_arrays vm src) \<and>
   array_values (vm_arrays (copy_elements dst src vm) src) = array_values (vm_arrays vm src) \<and>
   (q = dst \<or> q = src \<or> vm_arrays (copy_elements dst src vm) q = vm_arrays vm q)"
proof (cases "array_data_kind (oa_data (vm_arrays vm src)) = array_data_kind (oa_data (vm_arrays vm dst))")
  case True
  then show ?thesis
    by (cases "oa_data (vm_arrays vm src)"; cases "oa_data (vm_arrays vm dst)") (simp_all add: copy_elements_def Let_def array_values_def vm_log_def)
next
  case False
  then have "src \<noteq> dst" by auto
  with False show ?thesis by (simp add: copy_elements_def Let_def array_values_def vm_log_def)
qed



end
