(* ===== verification/Cycle_GC.thy ===== *)
theory Cycle_GC
  imports Obj_Array Obj_Set
begin

text \<open>
  The collector of reference cycles in \<^verbatim>\<open>src/src/cycle_gc.c\<close>: the list of tracked objects, releasing references, and
  \<^verbatim>\<open>vm_gc_collect\<close>.  Objects live in cells of one heap, addressed by their index; a freed cell is \<open>None\<close>.
\<close>

section \<open>Objects\<close>

datatype CycleGcObjType = CYCLE_GC_OBJ_ARRAY | CYCLE_GC_OBJ_RECORD | CYCLE_GC_OBJ_TUPLE | CYCLE_GC_OBJ_MAP

text \<open>The node embedded in a tracked object; \<^verbatim>\<open>obj\<close> is the object it is part of.\<close>

record CycleGcNode =
  gn_prev :: "addr option"
  gn_next :: "addr option"
  gn_owner :: "addr option"
  gn_obj :: "addr option"
  gn_gc_refs :: int
  gn_gen :: u16
  gn_type :: CycleGcObjType
  gn_flags :: u8

record CycleGc =
  gc_head :: "addr option"
  gc_tail :: "addr option"
  gc_tracked_count :: int
  gc_allocations_since_collect :: int
  gc_threshold :: int
  gc_is_collecting :: bool
  gc_last_reclaimed :: int
  gc_total_collections :: int

text \<open>Of records, tuples and functions only the values they hold and the reference count matter here.\<close>

record ObjRecord =
  or_fields :: "Value list"
  or_ref_count :: int

record ObjTuple =
  ot_elements :: "Value list"
  ot_ref_count :: int

record ObjCaptures =
  of_captured_values :: "Value list"
  of_ref_count :: int

datatype gc_object =
    GcArray ObjArray
  | GcRecord ObjRecord
  | GcTuple ObjTuple
  | GcMap ObjMap
  | GcSet ObjSet
  | GcFunction ObjCaptures

record gc_cell =
  cell_object :: gc_object
  cell_node :: CycleGcNode

record gc_heap =
  gh_cells :: "gc_cell option list"
  gh_gcs :: "addr \<Rightarrow> CycleGc"

definition gc_cell_at :: "gc_heap \<Rightarrow> addr \<Rightarrow> gc_cell option" where
  "gc_cell_at h a = (if a < length (gh_cells h) then gh_cells h ! a else None)"

definition gc_update_cell :: "addr \<Rightarrow> (gc_cell \<Rightarrow> gc_cell) \<Rightarrow> gc_heap \<Rightarrow> gc_heap" where
  "gc_update_cell a f h = h\<lparr>gh_cells := (gh_cells h)[a := map_option f (gc_cell_at h a)]\<rparr>"

definition gc_update_node :: "addr \<Rightarrow> (CycleGcNode \<Rightarrow> CycleGcNode) \<Rightarrow> gc_heap \<Rightarrow> gc_heap" where
  "gc_update_node a f h = gc_update_cell a (\<lambda>c. c\<lparr>cell_node := f (cell_node c)\<rparr>) h"

definition gc_update_gc :: "addr \<Rightarrow> (CycleGc \<Rightarrow> CycleGc) \<Rightarrow> gc_heap \<Rightarrow> gc_heap" where
  "gc_update_gc g f h = h\<lparr>gh_gcs := (gh_gcs h)(g := f (gh_gcs h g))\<rparr>"

definition gc_node_owner :: "gc_heap \<Rightarrow> addr \<Rightarrow> addr option" where
  "gc_node_owner h a = (case gc_cell_at h a of None \<Rightarrow> None | Some c \<Rightarrow> gn_owner (cell_node c))"

text \<open>The object a value refers to, when it is one that holds values.\<close>

fun value_target :: "Value \<Rightarrow> addr option" where
  "value_target (VAL_ARRAY a) = Some a"
| "value_target (VAL_RECORD a) = Some a"
| "value_target (VAL_TUPLE t) = map_option fst t"
| "value_target (VAL_MAP a) = Some a"
| "value_target (VAL_SET a) = Some a"
| "value_target (VAL_FUNCTION a) = Some a"
| "value_target _ = None"

text \<open>The values an object releases when it is freed, in that order.\<close>

fun object_values :: "gc_object \<Rightarrow> Value list" where
  "object_values (GcArray arr) = (case oa_data arr of Elements es \<Rightarrow> es | _ \<Rightarrow> [])"
| "object_values (GcRecord r) = or_fields r"
| "object_values (GcTuple t) = ot_elements t"
| "object_values (GcMap m) = concat (map (\<lambda>slot. if ms_hash slot < 2 then [] else [ms_key slot, ms_value slot]) (st_slots m))"
| "object_values (GcSet s) = concat (map (\<lambda>slot. if ss_hash slot < 2 then [] else [ss_value slot]) (st_slots s))"
| "object_values (GcFunction f) = of_captured_values f"

fun object_ref_count :: "gc_object \<Rightarrow> int" where
  "object_ref_count (GcArray arr) = oa_ref_count arr"
| "object_ref_count (GcRecord r) = or_ref_count r"
| "object_ref_count (GcTuple t) = ot_ref_count t"
| "object_ref_count (GcMap m) = om_ref_count m"
| "object_ref_count (GcSet s) = oset_ref_count s"
| "object_ref_count (GcFunction f) = of_ref_count f"

fun object_add_ref :: "int \<Rightarrow> gc_object \<Rightarrow> gc_object" where
  "object_add_ref n (GcArray arr) = GcArray (arr\<lparr>oa_ref_count := oa_ref_count arr + n\<rparr>)"
| "object_add_ref n (GcRecord r) = GcRecord (r\<lparr>or_ref_count := or_ref_count r + n\<rparr>)"
| "object_add_ref n (GcTuple t) = GcTuple (t\<lparr>ot_ref_count := ot_ref_count t + n\<rparr>)"
| "object_add_ref n (GcMap m) = GcMap (m\<lparr>om_ref_count := om_ref_count m + n\<rparr>)"
| "object_add_ref n (GcSet s) = GcSet (s\<lparr>oset_ref_count := oset_ref_count s + n\<rparr>)"
| "object_add_ref n (GcFunction f) = GcFunction (f\<lparr>of_ref_count := of_ref_count f + n\<rparr>)"

text \<open>The object at an address, and its values; nothing at a freed address.\<close>

definition gc_object_at :: "gc_heap \<Rightarrow> addr \<Rightarrow> gc_object option" where
  "gc_object_at h a = map_option cell_object (gc_cell_at h a)"

definition gc_values_at :: "gc_heap \<Rightarrow> addr \<Rightarrow> Value list" where
  "gc_values_at h a = (case gc_object_at h a of None \<Rightarrow> [] | Some obj \<Rightarrow> object_values obj)"

section \<open>The list of tracked objects\<close>

definition cycle_gc_reset_allocations_since_collect :: "CycleGc \<Rightarrow> CycleGc" where
  "cycle_gc_reset_allocations_since_collect gc = gc\<lparr>gc_allocations_since_collect := 0\<rparr>"

definition cycle_gc_increment_allocations_since_collect :: "CycleGc \<Rightarrow> CycleGc" where
  "cycle_gc_increment_allocations_since_collect gc = gc\<lparr>gc_allocations_since_collect := gc_allocations_since_collect gc + 1\<rparr>"

definition cycle_gc_node_init :: "CycleGcObjType \<Rightarrow> addr option \<Rightarrow> CycleGcNode" where
  "cycle_gc_node_init type obj =
     \<lparr>gn_prev = None, gn_next = None, gn_owner = None, gn_obj = obj, gn_gc_refs = 0, gn_gen = 0, gn_type = type, gn_flags = 0\<rparr>"

definition cycle_gc_init :: CycleGc where
  "cycle_gc_init =
     \<lparr>gc_head = None, gc_tail = None, gc_tracked_count = 0, gc_allocations_since_collect = 0, gc_threshold = 256,
      gc_is_collecting = False, gc_last_reclaimed = 0, gc_total_collections = 0\<rparr>"

definition cycle_gc_deinit :: "CycleGc \<Rightarrow> CycleGc" where
  "cycle_gc_deinit gc = cycle_gc_init\<lparr>gc_threshold := 0\<rparr>"

definition cycle_gc_track :: "addr \<Rightarrow> addr \<Rightarrow> gc_heap \<Rightarrow> gc_heap" where
  "cycle_gc_track g a h =
     (if gc_node_owner h a \<noteq> None then h
      else let tail = gc_tail (gh_gcs h g);
               h = gc_update_node a (\<lambda>n. n\<lparr>gn_owner := Some g, gn_prev := tail, gn_next := None\<rparr>) h;
               h = (case tail of
                      Some t \<Rightarrow> gc_update_node t (\<lambda>n. n\<lparr>gn_next := Some a\<rparr>) h
                    | None \<Rightarrow> gc_update_gc g (\<lambda>gc. gc\<lparr>gc_head := Some a\<rparr>) h);
               h = gc_update_gc g (\<lambda>gc. gc\<lparr>gc_tail := Some a, gc_tracked_count := gc_tracked_count gc + 1\<rparr>) h
           in gc_update_gc g cycle_gc_increment_allocations_since_collect h)"

definition cycle_gc_untrack :: "addr \<Rightarrow> gc_heap \<Rightarrow> gc_heap" where
  "cycle_gc_untrack a h =
     (case gc_cell_at h a of
        None \<Rightarrow> h
      | Some c \<Rightarrow>
          (case gn_owner (cell_node c) of
             None \<Rightarrow> h
           | Some g \<Rightarrow>
               let prev = gn_prev (cell_node c); next = gn_next (cell_node c);
                   h = (case prev of
                          Some p \<Rightarrow> gc_update_node p (\<lambda>n. n\<lparr>gn_next := next\<rparr>) h
                        | None \<Rightarrow> gc_update_gc g (\<lambda>gc. gc\<lparr>gc_head := next\<rparr>) h);
                   h = (case next of
                          Some q \<Rightarrow> gc_update_node q (\<lambda>n. n\<lparr>gn_prev := prev\<rparr>) h
                        | None \<Rightarrow> gc_update_gc g (\<lambda>gc. gc\<lparr>gc_tail := prev\<rparr>) h);
                   h = gc_update_node a (\<lambda>n. n\<lparr>gn_prev := None, gn_next := None, gn_owner := None\<rparr>) h
               in gc_update_gc g (\<lambda>gc. if gc_tracked_count gc > 0 then gc\<lparr>gc_tracked_count := gc_tracked_count gc - 1\<rparr> else gc) h))"

lemma cell_at_update [simp]:
  "gc_cell_at (gc_update_cell a f h) b = (if b = a then map_option f (gc_cell_at h a) else gc_cell_at h b)"
  "gc_cell_at (gc_update_node a k h) b =
     (if b = a then map_option (\<lambda>c. c\<lparr>cell_node := k (cell_node c)\<rparr>) (gc_cell_at h a) else gc_cell_at h b)"
  "gc_cell_at (gc_update_gc g e h) b = gc_cell_at h b"
  by (auto simp: gc_cell_at_def gc_update_cell_def gc_update_node_def gc_update_gc_def)

lemma gcs_update [simp]:
  "gh_gcs (gc_update_cell a f h) = gh_gcs h" "gh_gcs (gc_update_node a k h) = gh_gcs h"
  "gh_gcs (gc_update_gc g e h) = (gh_gcs h)(g := e (gh_gcs h g))"
  by (simp_all add: gc_update_cell_def gc_update_node_def gc_update_gc_def)

lemma length_cells_update [simp]:
  "length (gh_cells (gc_update_cell a f h)) = length (gh_cells h)" "length (gh_cells (gc_update_node a k h)) = length (gh_cells h)"
  "length (gh_cells (gc_update_gc g e h)) = length (gh_cells h)"
  by (simp_all add: gc_update_node_def gc_update_cell_def gc_update_gc_def)

lemma object_at_update [simp]:
  "gc_object_at (gc_update_node a k h) b = gc_object_at h b" "gc_object_at (gc_update_gc g e h) b = gc_object_at h b"
  by (auto simp: gc_object_at_def option.map_comp comp_def)

lemma untrack_same [simp]:
  "gc_object_at (cycle_gc_untrack a h) b = gc_object_at h b" "length (gh_cells (cycle_gc_untrack a h)) = length (gh_cells h)"
  by (auto simp: cycle_gc_untrack_def Let_def split: option.splits)

lemma object_at_beyond: "length (gh_cells h) \<le> a \<Longrightarrow> gc_object_at h a = None"
  by (simp add: gc_object_at_def gc_cell_at_def)

section \<open>Releasing references\<close>

definition gc_free_cell :: "addr \<Rightarrow> gc_heap \<Rightarrow> gc_heap" where
  "gc_free_cell a h = h\<lparr>gh_cells := (gh_cells h)[a := None]\<rparr>"

definition gc_update_object :: "addr \<Rightarrow> (gc_object \<Rightarrow> gc_object) \<Rightarrow> gc_heap \<Rightarrow> gc_heap" where
  "gc_update_object a f h = gc_update_cell a (\<lambda>c. c\<lparr>cell_object := f (cell_object c)\<rparr>) h"

lemma object_at_free [simp]: "gc_object_at (gc_free_cell a h) b = (if b = a then None else gc_object_at h b)"
  "length (gh_cells (gc_free_cell a h)) = length (gh_cells h)"
  by (auto simp: gc_object_at_def gc_free_cell_def gc_cell_at_def)

lemma object_at_update_object [simp]:
  "gc_object_at (gc_update_object a f h) b = (if b = a then map_option f (gc_object_at h a) else gc_object_at h b)"
  "length (gh_cells (gc_update_object a f h)) = length (gh_cells h)" "gh_gcs (gc_update_object a f h) = gh_gcs h"
  by (auto simp: gc_object_at_def gc_update_object_def option.map_comp comp_def)

text \<open>The number of values in the objects of the heap, which every freed object decreases.\<close>

definition heap_size :: "gc_heap \<Rightarrow> nat" where
  "heap_size h = (\<Sum>a<length (gh_cells h). length (gc_values_at h a))"

lemma heap_size_free:
  assumes "gc_object_at h a = Some obj"
  shows "heap_size (gc_free_cell a h) + length (object_values obj) = heap_size h"
proof -
  have a: "a \<in> {..<length (gh_cells h)}" using assms object_at_beyond [of h a] by (cases "a < length (gh_cells h)") auto
  have "(\<Sum>b\<in>{..<length (gh_cells h)} - {a}. length (gc_values_at (gc_free_cell a h) b)) = (\<Sum>b\<in>{..<length (gh_cells h)} - {a}. length (gc_values_at h b))"
    by (intro sum.cong) (auto simp: gc_values_at_def)
  then show ?thesis using assms sum.remove [OF _ a, of "\<lambda>b. length (gc_values_at h b)"] sum.remove [OF _ a, of "\<lambda>b. length (gc_values_at (gc_free_cell a h) b)"]
    by (simp add: heap_size_def gc_values_at_def)
qed

lemma object_add_ref [simp]:
  "object_values (object_add_ref n obj) = object_values obj" "object_ref_count (object_add_ref n obj) = object_ref_count obj + n"
  by (cases obj; simp)+

lemma values_at_update_object:
  "(\<And>obj. object_values (f obj) = object_values obj) \<Longrightarrow> gc_values_at (gc_update_object a f h) b = gc_values_at h b"
  by (auto simp: gc_values_at_def split: option.split)

text \<open>
  \<^verbatim>\<open>value_free\<close> on a sequence of values: an object that loses its last reference leaves the list, is freed, and releases its values
  before the rest.  In the code the memory goes only after the values; \<open>None\<close> is an access to an object from the moment its last
  reference is gone.  The destructor a native extension gives an opaque record is outside the heap.
\<close>

function release_values :: "Value list \<Rightarrow> gc_heap \<Rightarrow> gc_heap option" where
  "release_values [] h = Some h"
| "release_values (v # vs) h =
     (case value_target v of
        None \<Rightarrow> release_values vs h
      | Some a \<Rightarrow>
          (case gc_object_at h a of
             None \<Rightarrow> None
           | Some obj \<Rightarrow>
               if object_ref_count obj - 1 \<le> 0
               then release_values (object_values obj @ vs) (gc_free_cell a (cycle_gc_untrack a h))
               else release_values vs (gc_update_object a (object_add_ref (- 1)) h)))"
  by pat_completeness auto
termination
proof (relation "measure (\<lambda>(vs, h). length vs + heap_size h)", goal_cases)
  case (3 v vs h a obj)
  moreover have "heap_size (cycle_gc_untrack a h) = heap_size h" by (simp add: heap_size_def gc_values_at_def)
  ultimately show ?case using heap_size_free [of "cycle_gc_untrack a h" a obj] by simp
next
  case (4 v vs h a obj)
  then show ?case by (simp add: heap_size_def values_at_update_object)
qed simp_all
section \<open>Reference counts\<close>

text \<open>How often an address occurs in values, and in all objects of the heap.\<close>

definition refs_in :: "Value list \<Rightarrow> addr \<Rightarrow> nat" where
  "refs_in vs b = length (filter (\<lambda>v. value_target v = Some b) vs)"

definition heap_refs :: "gc_heap \<Rightarrow> addr \<Rightarrow> nat" where
  "heap_refs h b = (\<Sum>a<length (gh_cells h). refs_in (gc_values_at h a) b)"

text \<open>
  Every reference count is the number of references from other objects and from outside, \<open>ext\<close>; an object exists exactly as
  long as it is referenced.
\<close>

definition counts_ok :: "gc_heap \<Rightarrow> (addr \<Rightarrow> nat) \<Rightarrow> bool" where
  "counts_ok h ext \<longleftrightarrow>
     (\<forall>b. case gc_object_at h b of
            None \<Rightarrow> heap_refs h b + ext b = 0
          | Some obj \<Rightarrow> object_ref_count obj = int (heap_refs h b + ext b) \<and> 0 < heap_refs h b + ext b)"

text \<open>What an object holds, without its reference count.\<close>

definition object_content :: "gc_object \<Rightarrow> gc_object" where
  "object_content obj = object_add_ref (- object_ref_count obj) obj"

lemma object_content_add_ref [simp]: "object_content (object_add_ref n obj) = object_content obj"
  by (cases obj) (simp_all add: object_content_def)

lemma object_content_values: "object_content obj = object_content obj' \<Longrightarrow> object_values obj = object_values obj'"
  unfolding object_content_def by (drule arg_cong [of _ _ object_values]) simp

definition content_at :: "gc_heap \<Rightarrow> addr \<Rightarrow> gc_object option" where
  "content_at h a = map_option object_content (gc_object_at h a)"

lemma content_at_None [simp]: "content_at h a = None \<longleftrightarrow> gc_object_at h a = None"
  by (simp add: content_at_def)

lemma values_at_content: "content_at h' a = content_at h a \<Longrightarrow> gc_values_at h' a = gc_values_at h a"
  unfolding content_at_def gc_values_at_def
  by (cases "gc_object_at h' a"; cases "gc_object_at h a") (auto intro: object_content_values)

text \<open>A heap in which some objects are gone and the others hold what they held.\<close>

definition shrunk :: "gc_heap \<Rightarrow> gc_heap \<Rightarrow> bool" where
  "shrunk h h' \<longleftrightarrow> length (gh_cells h') = length (gh_cells h) \<and> (\<forall>a. gc_object_at h' a = None \<or> content_at h' a = content_at h a)"

lemma shrunk_refl [simp]: "shrunk h h"
  by (simp add: shrunk_def)

lemma shrunk_trans: "shrunk h h' \<Longrightarrow> shrunk h' h'' \<Longrightarrow> shrunk h h''"
  unfolding shrunk_def by (metis content_at_None)

lemma shrunk_values: "shrunk h h' \<Longrightarrow> gc_object_at h' a \<noteq> None \<Longrightarrow> gc_values_at h' a = gc_values_at h a"
  unfolding shrunk_def by (rule values_at_content) metis

lemma shrunk_None: "shrunk h h' \<Longrightarrow> gc_object_at h a = None \<Longrightarrow> gc_object_at h' a = None"
  unfolding shrunk_def by (metis content_at_None)

lemma refs_in_simps [simp]:
  "refs_in [] b = 0" "refs_in (v # vs) b = (if value_target v = Some b then 1 else 0) + refs_in vs b"
  "refs_in (vs @ ws) b = refs_in vs b + refs_in ws b"
  by (simp_all add: refs_in_def)

lemma heap_refs_cong:
  "length (gh_cells h') = length (gh_cells h) \<Longrightarrow> (\<And>a. gc_values_at h' a = gc_values_at h a) \<Longrightarrow> heap_refs h' b = heap_refs h b"
  by (simp add: heap_refs_def)

lemma heap_refs_change:
  assumes "a < length (gh_cells h)" and "length (gh_cells h') = length (gh_cells h)" and "\<And>c. c \<noteq> a \<Longrightarrow> gc_values_at h' c = gc_values_at h c"
  shows "heap_refs h' b + refs_in (gc_values_at h a) b = heap_refs h b + refs_in (gc_values_at h' a) b"
proof -
  have a: "a \<in> {..<length (gh_cells h)}" using assms(1) by simp
  have "(\<Sum>c\<in>{..<length (gh_cells h)} - {a}. refs_in (gc_values_at h' c) b) = (\<Sum>c\<in>{..<length (gh_cells h)} - {a}. refs_in (gc_values_at h c) b)"
    by (intro sum.cong) (auto simp: assms(3))
  then show ?thesis
    using sum.remove [OF _ a, of "\<lambda>c. refs_in (gc_values_at h c) b"] sum.remove [OF _ a, of "\<lambda>c. refs_in (gc_values_at h' c) b"] assms(2)
    by (simp add: heap_refs_def)
qed

lemma object_at_less: "gc_object_at h a = Some obj \<Longrightarrow> a < length (gh_cells h)"
  using object_at_beyond [of h a] by (cases "a < length (gh_cells h)") auto

lemma heap_refs_free:
  assumes "gc_object_at h a = Some obj"
  shows "heap_refs (gc_free_cell a (cycle_gc_untrack a h)) b + refs_in (object_values obj) b = heap_refs h b"
  using heap_refs_change [of a h "gc_free_cell a (cycle_gc_untrack a h)" b] object_at_less [OF assms] assms by (simp add: gc_values_at_def)

lemma heap_refs_update_object:
  "(\<And>obj. object_values (f obj) = object_values obj) \<Longrightarrow> heap_refs (gc_update_object a f h) b = heap_refs h b"
  by (rule heap_refs_cong) (simp_all add: values_at_update_object)

lemma counts_ok_Some:
  "counts_ok h ext \<Longrightarrow> 0 < heap_refs h b + ext b \<Longrightarrow> \<exists>obj. gc_object_at h b = Some obj \<and> object_ref_count obj = int (heap_refs h b + ext b)"
  by (cases "gc_object_at h b") (auto simp: counts_ok_def dest: spec [of _ b])

lemma counts_ok_count:
  "counts_ok h ext \<Longrightarrow> gc_object_at h b = Some obj \<Longrightarrow> object_ref_count obj = int (heap_refs h b + ext b)"
  by (auto simp: counts_ok_def dest: spec [of _ b])

text \<open>Releasing references that are counted never reaches a freed object, and counts stay right.\<close>

lemma release_counts:
  assumes "counts_ok h (\<lambda>b. ext b + refs_in vs b)"
  shows "\<exists>h'. release_values vs h = Some h' \<and> counts_ok h' ext \<and> shrunk h h'"
  using assms
proof (induction vs h rule: release_values.induct)
  case (1 h)
  then show ?case by simp
next
  case (2 v vs h)
  show ?case
  proof (cases "value_target v")
    case None
    then show ?thesis using 2 by simp
  next
    case (Some a)
    then obtain obj where obj: "gc_object_at h a = Some obj" "object_ref_count obj = int (heap_refs h a + (ext a + refs_in (v # vs) a))"
      using counts_ok_Some [OF "2.prems", of a] by auto
    show ?thesis
    proof (cases "object_ref_count obj - 1 \<le> 0")
      case True
      let ?h = "gc_free_cell a (cycle_gc_untrack a h)"
      have zero: "heap_refs h a = 0" "ext a = 0" "refs_in vs a = 0" using True obj Some by auto
      have "counts_ok ?h (\<lambda>b. ext b + refs_in (object_values obj @ vs) b)"
        unfolding counts_ok_def
      proof (intro allI)
        fix b
        show "case gc_object_at ?h b of None \<Rightarrow> heap_refs ?h b + (ext b + refs_in (object_values obj @ vs) b) = 0
          | Some o' \<Rightarrow> object_ref_count o' = int (heap_refs ?h b + (ext b + refs_in (object_values obj @ vs) b)) \<and>
              0 < heap_refs ?h b + (ext b + refs_in (object_values obj @ vs) b)"
          using "2.prems" [unfolded counts_ok_def, rule_format, of b] heap_refs_free [OF obj(1), of b] zero Some
          by (cases "b = a") (auto split: option.splits)
      qed
      then obtain h' where h': "release_values (object_values obj @ vs) ?h = Some h'" "counts_ok h' ext" "shrunk ?h h'"
        using "2.IH"(2) [OF Some obj(1) True] by auto
      have "shrunk h ?h" by (auto simp: shrunk_def content_at_def option.map_comp comp_def)
      then show ?thesis using h' shrunk_trans Some obj(1) True by auto
    next
      case False
      let ?h = "gc_update_object a (object_add_ref (- 1)) h"
      have "counts_ok ?h (\<lambda>b. ext b + refs_in vs b)"
        unfolding counts_ok_def
      proof (intro allI)
        fix b
        show "case gc_object_at ?h b of None \<Rightarrow> heap_refs ?h b + (ext b + refs_in vs b) = 0
          | Some o' \<Rightarrow> object_ref_count o' = int (heap_refs ?h b + (ext b + refs_in vs b)) \<and> 0 < heap_refs ?h b + (ext b + refs_in vs b)"
          using "2.prems" [unfolded counts_ok_def, rule_format, of b] obj False Some heap_refs_update_object [of "object_add_ref (- 1)" a h b]
          by (cases "b = a") (auto split: option.splits)
      qed
      then obtain h' where h': "release_values vs ?h = Some h'" "counts_ok h' ext" "shrunk ?h h'"
        using "2.IH"(3) [OF Some obj(1) False] by auto
      have "shrunk h ?h" by (auto simp: shrunk_def content_at_def option.map_comp comp_def)
      then show ?thesis using h' shrunk_trans Some obj(1) False by auto
    qed
  qed
qed
section \<open>The doubly linked list\<close>

definition first_of :: "'a list \<Rightarrow> 'a option" where
  "first_of xs = (if xs = [] then None else Some (hd xs))"

definition last_of :: "'a list \<Rightarrow> 'a option" where
  "last_of xs = (if xs = [] then None else Some (last xs))"

definition node_at :: "gc_heap \<Rightarrow> addr \<Rightarrow> CycleGcNode option" where
  "node_at h a = map_option cell_node (gc_cell_at h a)"

definition linked :: "gc_heap \<Rightarrow> addr \<Rightarrow> addr \<Rightarrow> addr option \<Rightarrow> addr option \<Rightarrow> bool" where
  "linked h g a prev next \<longleftrightarrow> (\<exists>n. node_at h a = Some n \<and> gn_owner n = Some g \<and> gn_prev n = prev \<and> gn_next n = next)"

text \<open>The nodes a collector owns are exactly those of a list, linked in its order; the collector has its ends and its length.\<close>

definition gc_list :: "gc_heap \<Rightarrow> addr \<Rightarrow> addr list \<Rightarrow> bool" where
  "gc_list h g xs \<longleftrightarrow>
     distinct xs \<and> gc_head (gh_gcs h g) = first_of xs \<and> gc_tail (gh_gcs h g) = last_of xs \<and> gc_tracked_count (gh_gcs h g) = int (length xs) \<and>
     (\<forall>ys a zs. xs = ys @ a # zs \<longrightarrow> linked h g a (last_of ys) (first_of zs)) \<and>
     (\<forall>a. gc_node_owner h a = Some g \<longrightarrow> a \<in> set xs)"

lemma node_owner: "gc_node_owner h a = (case node_at h a of None \<Rightarrow> None | Some n \<Rightarrow> gn_owner n)"
  by (simp add: gc_node_owner_def node_at_def split: option.split)

lemma node_at_update [simp]:
  "node_at (gc_update_node a k h) b = (if b = a then map_option k (node_at h a) else node_at h b)"
  "node_at (gc_update_gc g e h) b = node_at h b" "node_at (gc_update_object a f h) b = node_at h b"
  by (auto simp: node_at_def gc_update_object_def option.map_comp comp_def)

lemma gc_list_split: "gc_list h g (ys @ a # zs) \<Longrightarrow> linked h g a (last_of ys) (first_of zs)"
  by (simp add: gc_list_def)

lemma gc_list_owner: "gc_list h g xs \<Longrightarrow> gc_node_owner h a = Some g \<longleftrightarrow> a \<in> set xs"
proof -
  assume l: "gc_list h g xs"
  have "gc_node_owner h a = Some g" if "a \<in> set xs"
    using split_list [OF that] gc_list_split l by (fastforce simp: linked_def node_owner)
  then show ?thesis using l by (auto simp: gc_list_def)
qed

lemma ends_simps [simp]:
  "first_of [] = None" "last_of [] = None" "first_of (x # xs) = Some x" "last_of [x] = Some x"
  "first_of (xs @ ys) = (if xs = [] then first_of ys else first_of xs)" "last_of (xs @ ys) = (if ys = [] then last_of xs else last_of ys)"
  by (auto simp: first_of_def last_of_def)

lemma ends_in_set: "first_of xs = Some x \<Longrightarrow> x \<in> set xs" "last_of xs = Some x \<Longrightarrow> x \<in> set xs"
  by (auto simp: first_of_def last_of_def split: if_splits)

text \<open>Tracking appends.\<close>

lemma track_list:
  assumes l: "gc_list h g xs" and a: "node_at h a = Some n" "gn_owner n = None"
  shows "gc_list (cycle_gc_track g a h) g (xs @ [a])"
proof -
  let ?h = "cycle_gc_track g a h"
  have own: "gc_node_owner h a = None" using a by (simp add: node_owner)
  then have new: "a \<notin> set xs" using gc_list_owner [OF l, of a] by auto
  have tail: "gc_tail (gh_gcs h g) = last_of xs" using l by (simp add: gc_list_def)
  have node: "node_at ?h b = (if b = a then Some (n\<lparr>gn_owner := Some g, gn_prev := last_of xs, gn_next := None\<rparr>)
      else if last_of xs = Some b then map_option (\<lambda>n. n\<lparr>gn_next := Some a\<rparr>) (node_at h b) else node_at h b)" for b
    using own a new tail by (auto simp: cycle_gc_track_def Let_def last_of_def split: option.split)
  have gc: "gh_gcs ?h g = (gh_gcs h g)\<lparr>gc_head := first_of (xs @ [a]), gc_tail := Some a, gc_tracked_count := gc_tracked_count (gh_gcs h g) + 1,
      gc_allocations_since_collect := gc_allocations_since_collect (gh_gcs h g) + 1\<rparr>"
    using own l by (auto simp: cycle_gc_track_def Let_def gc_list_def cycle_gc_increment_allocations_since_collect_def first_of_def last_of_def split: option.split)
  have links: "linked ?h g b (last_of ys) (first_of zs)" if "xs @ [a] = ys @ b # zs" for ys b zs
  proof (cases zs rule: rev_cases)
    case Nil
    then show ?thesis using that node [of a] by (auto simp: linked_def)
  next
    case (snoc zs' z)
    then have xs: "xs = ys @ b # zs'" "z = a" using that by auto
    then have "linked h g b (last_of ys) (first_of zs')" using gc_list_split l by simp
    moreover have "b \<noteq> a" using new xs by auto
    moreover have "last_of xs = Some b \<longleftrightarrow> zs' = []" using l xs by (auto simp: gc_list_def last_of_def)
    ultimately show ?thesis using snoc xs by (auto simp: linked_def node)
  qed
  have "b \<in> set (xs @ [a])" if "gc_node_owner ?h b = Some g" for b
    using that gc_list_owner [OF l, of b] by (auto simp: node_owner node split: if_splits option.splits)
  then show ?thesis using l gc new links by (simp add: gc_list_def)
qed

text \<open>Untracking removes, from the list of the owner only.\<close>

lemma untrack_nodes:
  assumes l: "gc_list h g (ys @ a # zs)"
  shows "node_at (cycle_gc_untrack a h) b =
     (if b = a then map_option (\<lambda>n. n\<lparr>gn_prev := None, gn_next := None, gn_owner := None\<rparr>) (node_at h a)
      else if last_of ys = Some b then map_option (\<lambda>n. n\<lparr>gn_next := first_of zs\<rparr>) (node_at h b)
      else if first_of zs = Some b then map_option (\<lambda>n. n\<lparr>gn_prev := last_of ys\<rparr>) (node_at h b) else node_at h b)" (is ?node)
    and "gh_gcs (cycle_gc_untrack a h) = (gh_gcs h)(g := (gh_gcs h g)
      \<lparr>gc_head := first_of (ys @ zs), gc_tail := last_of (ys @ zs), gc_tracked_count := int (length (ys @ zs))\<rparr>)" (is ?gc)
proof -
  obtain c where c: "gc_cell_at h a = Some c" "gn_owner (cell_node c) = Some g" "gn_prev (cell_node c) = last_of ys" "gn_next (cell_node c) = first_of zs"
    using gc_list_split [OF l] by (auto simp: linked_def node_at_def)
  have d: "a \<notin> set ys" "a \<notin> set zs" "set ys \<inter> set zs = {}" using l by (auto simp: gc_list_def)
  have "last_of ys \<noteq> Some a" "first_of zs \<noteq> Some a" "last_of ys = Some b \<Longrightarrow> first_of zs \<noteq> Some b" for b
    using d ends_in_set by fastforce+
  then show ?node using c by (auto simp: cycle_gc_untrack_def Let_def option.map_comp comp_def split: option.split)
  show ?gc using c l d by (auto simp: cycle_gc_untrack_def Let_def gc_list_def first_of_def last_of_def split: option.split intro!: ext)
qed

lemma untrack_list:
  assumes l: "gc_list h g (ys @ a # zs)"
  shows "gc_list (cycle_gc_untrack a h) g (ys @ zs)"
proof -
  let ?h = "cycle_gc_untrack a h"
  note node = untrack_nodes(1) [OF l]
  have d: "distinct (ys @ a # zs)" using l by (simp add: gc_list_def)
  have links: "linked ?h g b (last_of ps) (first_of qs)" if s: "ys @ zs = ps @ b # qs" for ps b qs
  proof -
    have b: "b \<noteq> a" using d s by (metis Un_iff distinct.simps(2) distinct_append in_set_conv_decomp set_append disjoint_insert(1) list.simps(15))
    from s consider us where "ys = ps @ b # us" "qs = us @ zs" | us where "zs = us @ b # qs" "ps = ys @ us"
      by (auto simp: append_eq_append_conv2 append_eq_Cons_conv Cons_eq_append_conv)
    then show ?thesis
    proof cases
      case 1
      then have "linked h g b (last_of ps) (first_of (us @ a # zs))" using gc_list_split [of h g ps b "us @ a # zs"] l by simp
      moreover have "first_of zs \<noteq> Some b" using d 1 ends_in_set(1) by fastforce
      moreover have "last_of ys = Some b \<longleftrightarrow> us = []" using d 1 by (auto simp: last_of_def)
      ultimately show ?thesis using 1 b by (auto simp: linked_def node)
    next
      case 2
      then have "linked h g b (last_of (ys @ a # us)) (first_of qs)" using gc_list_split [of h g "ys @ a # us" b qs] l by simp
      moreover have "last_of ys \<noteq> Some b" using d 2 ends_in_set(2) by fastforce
      moreover have "first_of zs = Some b \<longleftrightarrow> us = []" using d 2 by (auto simp: first_of_def hd_append)
      ultimately show ?thesis using 2 b by (auto simp: linked_def node last_of_def)
    qed
  qed
  have "b \<in> set (ys @ zs)" if "gc_node_owner ?h b = Some g" for b
    using that gc_list_owner [OF l, of b] by (auto simp: node_owner node split: if_splits option.splits)
  then show ?thesis using d links untrack_nodes(2) [OF l] by (simp add: gc_list_def)
qed

lemma untrack_list_other:
  assumes l: "gc_list h g (ys @ a # zs)" and l': "gc_list h g' xs" and g: "g' \<noteq> g"
  shows "gc_list (cycle_gc_untrack a h) g' xs"
proof -
  have o: "gc_node_owner h b = Some g" if "b \<in> set (ys @ a # zs)" for b using gc_list_owner [OF l] that by blast
  have same: "node_at (cycle_gc_untrack a h) b = node_at h b" if "gc_node_owner h b = Some g'" for b
  proof -
    have "b \<notin> set (ys @ a # zs)" using o that g by fastforce
    then show ?thesis unfolding untrack_nodes(1) [OF l] using ends_in_set by fastforce
  qed
  have "linked (cycle_gc_untrack a h) g' b p q" if "linked h g' b p q" for b p q
    using same [of b] that by (auto simp: linked_def node_owner)
  moreover have "gc_node_owner h b = Some g'" if "gc_node_owner (cycle_gc_untrack a h) b = Some g'" for b
    using that g by (auto simp: node_owner untrack_nodes(1) [OF l] split: if_splits option.splits)
  ultimately show ?thesis using l' untrack_nodes(2) [OF l] g by (auto simp: gc_list_def)
qed
text \<open>Every collector with its list; releasing values takes the freed objects out.\<close>

definition lists_ok :: "gc_heap \<Rightarrow> (addr \<Rightarrow> addr list) \<Rightarrow> bool" where
  "lists_ok h T \<longleftrightarrow> (\<forall>g. gc_list h g (T g))"

definition alive :: "gc_heap \<Rightarrow> addr list \<Rightarrow> addr list" where
  "alive h xs = filter (\<lambda>a. gc_object_at h a \<noteq> None) xs"

lemma gc_list_same:
  "(\<And>a. node_at h' a = node_at h a) \<Longrightarrow> gh_gcs h' = gh_gcs h \<Longrightarrow> gc_list h' g xs = gc_list h g xs"
  by (simp add: gc_list_def linked_def node_owner)

lemma object_node: "gc_object_at h a = None \<longleftrightarrow> node_at h a = None"
  by (simp add: gc_object_at_def node_at_def)

lemma gc_list_alive: "gc_list h g xs \<Longrightarrow> alive h xs = xs"
  by (force simp: alive_def filter_id_conv gc_list_owner [symmetric] node_owner object_node split: option.splits)

lemma free_list:
  assumes "gc_list h g xs" and "gc_node_owner h a = None"
  shows "gc_list (gc_free_cell a h) g xs"
proof -
  have n: "node_at (gc_free_cell a h) b = (if b = a then None else node_at h b)" for b
    by (auto simp: node_at_def gc_free_cell_def gc_cell_at_def)
  moreover have "gh_gcs (gc_free_cell a h) = gh_gcs h" by (simp add: gc_free_cell_def)
  moreover have "linked (gc_free_cell a h) g b p q" if "linked h g b p q" for b p q
    using that assms(2) by (auto simp: linked_def n node_owner)
  moreover have "gc_node_owner h b = Some g" if "gc_node_owner (gc_free_cell a h) b = Some g" for b
    using that by (auto simp: node_owner n split: if_splits option.splits)
  ultimately show ?thesis using assms(1) by (auto simp: gc_list_def)
qed

lemma untrack_unowned: "gc_node_owner h a = None \<Longrightarrow> cycle_gc_untrack a h = h"
  by (simp add: gc_node_owner_def cycle_gc_untrack_def split: option.splits)

lemma untrack_lists:
  assumes "lists_ok h T"
  shows "lists_ok (cycle_gc_untrack a h) (\<lambda>g. remove1 a (T g))"
  unfolding lists_ok_def
proof
  fix g
  have l: "gc_list h g (T g)" for g using assms by (simp add: lists_ok_def)
  show "gc_list (cycle_gc_untrack a h) g (remove1 a (T g))"
  proof (cases "gc_node_owner h a")
    case None
    then have "a \<notin> set (T g)" using gc_list_owner [OF l, of a g] by simp
    then show ?thesis using l None by (simp add: untrack_unowned remove1_idem)
  next
    case (Some g')
    then obtain ys zs where s: "T g' = ys @ a # zs" "a \<notin> set ys" using gc_list_owner [OF l, of a g'] split_list_first by metis
    have l': "gc_list h g' (ys @ a # zs)" using l [of g'] s by simp
    show ?thesis
    proof (cases "g = g'")
      case True
      then show ?thesis using untrack_list [OF l'] s by (simp add: remove1_append)
    next
      case False
      then have "a \<notin> set (T g)" using gc_list_owner [OF l, of a g] Some by simp
      then show ?thesis using untrack_list_other [OF l' l False] by (simp add: remove1_idem)
    qed
  qed
qed

lemma untrack_free_list:
  assumes "lists_ok h T"
  shows "lists_ok (gc_free_cell a (cycle_gc_untrack a h)) (\<lambda>g. remove1 a (T g))"
proof -
  have l: "gc_list (cycle_gc_untrack a h) g (remove1 a (T g))" for g using untrack_lists [OF assms] by (simp add: lists_ok_def)
  have "gc_node_owner (cycle_gc_untrack a h) a \<noteq> Some g" for g
  proof -
    have "distinct (T g)" using assms by (simp add: lists_ok_def gc_list_def)
    then show ?thesis using gc_list_owner [OF l, of a g] by simp
  qed
  then have "gc_node_owner (cycle_gc_untrack a h) a = None" by auto
  then show ?thesis using free_list [OF l] by (simp add: lists_ok_def)
qed

lemma release_lists:
  assumes "lists_ok h T" and "release_values vs h = Some h'"
  shows "lists_ok h' (\<lambda>g. alive h' (T g)) \<and> (\<forall>a. gc_object_at h a = None \<longrightarrow> gc_object_at h' a = None)"
  using assms
proof (induction vs h arbitrary: T rule: release_values.induct)
  case (1 h)
  then have l: "gc_list h g (T g)" and "h' = h" for g by (auto simp: lists_ok_def)
  then show ?case using gc_list_alive [OF l] by (simp add: lists_ok_def)
next
  case (2 v vs h)
  show ?case
  proof (cases "value_target v")
    case None
    then show ?thesis using 2 by simp
  next
    case (Some a)
    then obtain obj where obj: "gc_object_at h a = Some obj" using "2.prems"(2) by (auto split: option.splits)
    show ?thesis
    proof (cases "object_ref_count obj - 1 \<le> 0")
      case True
      have r: "release_values (object_values obj @ vs) (gc_free_cell a (cycle_gc_untrack a h)) = Some h'"
        using "2.prems"(2) Some obj True by simp
      note ih = "2.IH"(2) [OF Some obj True untrack_free_list [OF "2.prems"(1)] r]
      have "alive h' (remove1 a (T g)) = alive h' (T g)" for g
        using ih by (simp add: alive_def filter_remove1 remove1_idem)
      then show ?thesis using ih by simp
    next
      case False
      let ?h = "gc_update_object a (object_add_ref (- 1)) h"
      have r: "release_values vs ?h = Some h'" using "2.prems"(2) Some obj False by simp
      have "lists_ok ?h T" using "2.prems"(1) by (simp add: lists_ok_def gc_list_same [of ?h h])
      moreover have "gc_object_at ?h b = None" if "gc_object_at h b = None" for b using that by auto
      ultimately show ?thesis using "2.IH"(3) [OF Some obj False _ r, of T] by blast
    qed
  qed
qed
section \<open>Collecting cycles\<close>

abbreviation CYCLE_GC_FLAG_REACHABLE :: u8 where
  "CYCLE_GC_FLAG_REACHABLE \<equiv> 1"

definition gc_reachable_flag :: "gc_heap \<Rightarrow> addr \<Rightarrow> bool" where
  "gc_reachable_flag h a = (case node_at h a of None \<Rightarrow> False | Some n \<Rightarrow> gn_flags n AND CYCLE_GC_FLAG_REACHABLE \<noteq> 0)"

definition cycle_gc_obj_ref_count :: "gc_heap \<Rightarrow> addr \<Rightarrow> int" where
  "cycle_gc_obj_ref_count h a = (case gc_object_at h a of None \<Rightarrow> 0 | Some obj \<Rightarrow> object_ref_count obj)"

definition cycle_gc_obj_hold :: "addr \<Rightarrow> gc_heap \<Rightarrow> gc_heap" where
  "cycle_gc_obj_hold a h = gc_update_object a (object_add_ref 1) h"

text \<open>The release of a hold is the release of a reference to the object.\<close>

fun object_value :: "addr \<Rightarrow> gc_object \<Rightarrow> Value" where
  "object_value a (GcArray arr) = VAL_ARRAY a"
| "object_value a (GcRecord r) = VAL_RECORD a"
| "object_value a (GcTuple t) = VAL_TUPLE (Some (a, ot_elements t))"
| "object_value a (GcMap m) = VAL_MAP a"
| "object_value a (GcSet s) = VAL_SET a"
| "object_value a (GcFunction f) = VAL_FUNCTION a"

definition cycle_gc_obj_drop_hold :: "addr \<Rightarrow> gc_heap \<Rightarrow> gc_heap option" where
  "cycle_gc_obj_drop_hold a h =
     (case gc_object_at h a of None \<Rightarrow> None | Some obj \<Rightarrow> release_values [object_value a obj] h)"

text \<open>The tracked object a value refers to; sets and functions have no node.\<close>

definition cycle_gc_node_from_value :: "gc_heap \<Rightarrow> addr \<Rightarrow> Value \<Rightarrow> addr option" where
  "cycle_gc_node_from_value h owner v =
     (case v of
        VAL_ARRAY a \<Rightarrow> if gc_node_owner h a = Some owner then Some a else None
      | VAL_RECORD a \<Rightarrow> if gc_node_owner h a = Some owner then Some a else None
      | VAL_TUPLE (Some (a, es)) \<Rightarrow> if gc_node_owner h a = Some owner then Some a else None
      | VAL_MAP a \<Rightarrow> if gc_node_owner h a = Some owner then Some a else None
      | _ \<Rightarrow> None)"

text \<open>The values the collector follows from a tracked object; of a map only the values, not the keys.\<close>

fun gc_children :: "gc_object \<Rightarrow> Value list" where
  "gc_children (GcArray arr) = (case oa_data arr of Elements es \<Rightarrow> es | _ \<Rightarrow> [])"
| "gc_children (GcRecord r) = or_fields r"
| "gc_children (GcTuple t) = ot_elements t"
| "gc_children (GcMap m) = concat (map (\<lambda>slot. if ms_hash slot < 2 then [] else [ms_value slot]) (st_slots m))"
| "gc_children _ = []"

definition gc_children_at :: "gc_heap \<Rightarrow> addr \<Rightarrow> Value list" where
  "gc_children_at h a = (case gc_object_at h a of None \<Rightarrow> [] | Some obj \<Rightarrow> gc_children obj)"

definition gc_subtract_child :: "addr \<Rightarrow> Value \<Rightarrow> gc_heap \<Rightarrow> gc_heap" where
  "gc_subtract_child owner v h =
     (case cycle_gc_node_from_value h owner v of
        None \<Rightarrow> h
      | Some child \<Rightarrow> gc_update_node child (\<lambda>n. n\<lparr>gn_gc_refs := gn_gc_refs n - 1\<rparr>) h)"

definition cycle_gc_subtract_children_refs :: "addr \<Rightarrow> addr \<Rightarrow> gc_heap \<Rightarrow> gc_heap" where
  "cycle_gc_subtract_children_refs owner a h = fold (gc_subtract_child owner) (gc_children_at h a) h"

text \<open>The heap with the stack of nodes to visit, its top first.\<close>

definition cycle_gc_mark_reachable :: "nat \<Rightarrow> addr \<Rightarrow> gc_heap \<times> addr list \<Rightarrow> gc_heap \<times> addr list" where
  "cycle_gc_mark_reachable stack_cap start = (\<lambda>(h, stack).
     if node_at h start = None then (h, stack)
     else if gc_reachable_flag h start then (h, stack)
     else if length stack \<ge> stack_cap then (h, stack)
     else (gc_update_node start (\<lambda>n. n\<lparr>gn_flags := gn_flags n OR CYCLE_GC_FLAG_REACHABLE\<rparr>) h, start # stack))"

definition gc_mark_child :: "nat \<Rightarrow> addr \<Rightarrow> Value \<Rightarrow> gc_heap \<times> addr list \<Rightarrow> gc_heap \<times> addr list" where
  "gc_mark_child stack_cap owner v = (\<lambda>(h, stack).
     case cycle_gc_node_from_value h owner v of
       None \<Rightarrow> (h, stack)
     | Some child \<Rightarrow> cycle_gc_mark_reachable stack_cap child (h, stack))"

definition cycle_gc_mark_children_reachable :: "nat \<Rightarrow> addr \<Rightarrow> addr \<Rightarrow> gc_heap \<times> addr list \<Rightarrow> gc_heap \<times> addr list" where
  "cycle_gc_mark_children_reachable stack_cap owner a = (\<lambda>(h, stack).
     fold (gc_mark_child stack_cap owner) (gc_children_at h a) (h, stack))"

text \<open>Nodes that are not marked, which the visits decrease.\<close>

definition unmarked :: "gc_heap \<Rightarrow> nat" where
  "unmarked h = card {a. a < length (gh_cells h) \<and> \<not> gc_reachable_flag h a}"

lemma flag_marked [simp]: "((f :: u8) OR 1) AND 1 \<noteq> 0"
  by (simp add: bit.conj_disj_distrib2)

lemma flag_update:
  "node_at h a \<noteq> None \<Longrightarrow>
   gc_reachable_flag (gc_update_node a (\<lambda>n. n\<lparr>gn_flags := gn_flags n OR CYCLE_GC_FLAG_REACHABLE\<rparr>) h) b = (b = a \<or> gc_reachable_flag h b)"
  by (auto simp: gc_reachable_flag_def)

lemma node_less: "node_at h a \<noteq> None \<Longrightarrow> a < length (gh_cells h)"
  by (auto simp: node_at_def gc_cell_at_def split: if_splits)

lemma unmarked_mark:
  "cycle_gc_mark_reachable cap a (h, s) = (h', s') \<Longrightarrow> 2 * unmarked h' + length s' \<le> 2 * unmarked h + length s"
proof -
  assume m: "cycle_gc_mark_reachable cap a (h, s) = (h', s')"
  show ?thesis
  proof (cases "node_at h a = None \<or> gc_reachable_flag h a \<or> length s \<ge> cap")
    case True
    then show ?thesis using m by (auto simp: cycle_gc_mark_reachable_def split: if_splits)
  next
    case False
    let ?U = "{b. b < length (gh_cells h) \<and> \<not> gc_reachable_flag h b}"
    have "{b. b < length (gh_cells h') \<and> \<not> gc_reachable_flag h' b} = ?U - {a}"
      using m False by (auto simp: cycle_gc_mark_reachable_def flag_update)
    moreover have "a \<in> ?U" using False node_less by auto
    ultimately have "unmarked h' = unmarked h - 1" "0 < unmarked h" by (auto simp: unmarked_def card_gt_0_iff)
    then show ?thesis using m False by (auto simp: cycle_gc_mark_reachable_def)
  qed
qed

lemma unmarked_fold:
  "fold (gc_mark_child cap owner) vs (h, s) = (h', s') \<Longrightarrow> 2 * unmarked h' + length s' \<le> 2 * unmarked h + length s"
proof (induction vs arbitrary: h s)
  case (Cons v vs)
  obtain h1 s1 where s1: "gc_mark_child cap owner v (h, s) = (h1, s1)" by fastforce
  then have "2 * unmarked h1 + length s1 \<le> 2 * unmarked h + length s"
    using unmarked_mark by (auto simp: gc_mark_child_def split: option.splits)
  then show ?case using Cons s1 by fastforce
qed simp

function gc_mark_loop :: "nat \<Rightarrow> addr \<Rightarrow> gc_heap \<times> addr list \<Rightarrow> gc_heap" where
  "gc_mark_loop stack_cap owner (h, []) = h"
| "gc_mark_loop stack_cap owner (h, a # stack) =
     gc_mark_loop stack_cap owner (cycle_gc_mark_children_reachable stack_cap owner a (h, stack))"
  by pat_completeness auto
termination
proof (relation "measure (\<lambda>(cap, owner, h, s). 2 * unmarked h + length s)", goal_cases)
  case (2 cap owner h a s)
  then show ?case
    using unmarked_fold [of cap owner "gc_children_at h a" h s]
    by (cases "fold (gc_mark_child cap owner) (gc_children_at h a) (h, s)") (auto simp: cycle_gc_mark_children_reachable_def)
qed simp

text \<open>
  Breaking the cycles: each slot of an object is released and then cleared, with the values as they were before the first; then the
  object is emptied.
\<close>

fun gc_nil_slot :: "nat \<Rightarrow> gc_object \<Rightarrow> gc_object" where
  "gc_nil_slot i (GcArray arr) = GcArray (case oa_data arr of Elements es \<Rightarrow> arr\<lparr>oa_data := Elements (es[i := VAL_NIL])\<rparr> | _ \<Rightarrow> arr)"
| "gc_nil_slot i (GcRecord r) = GcRecord (r\<lparr>or_fields := (or_fields r)[i := VAL_NIL]\<rparr>)"
| "gc_nil_slot i (GcTuple t) = GcTuple (t\<lparr>ot_elements := (ot_elements t)[i := VAL_NIL]\<rparr>)"
| "gc_nil_slot i obj = obj"

fun gc_nil_key :: "nat \<Rightarrow> gc_object \<Rightarrow> gc_object" where
  "gc_nil_key i (GcMap m) = GcMap (m\<lparr>st_slots := (st_slots m)[i := (st_slots m ! i)\<lparr>ms_key := VAL_NIL\<rparr>]\<rparr>)"
| "gc_nil_key i obj = obj"

fun gc_nil_entry :: "nat \<Rightarrow> gc_object \<Rightarrow> gc_object" where
  "gc_nil_entry i (GcMap m) = GcMap (m\<lparr>st_slots := (st_slots m)[i := map_nil_slot]\<rparr>)"
| "gc_nil_entry i obj = obj"

type_synonym clear_step = "Value \<times> (gc_object \<Rightarrow> gc_object)"

definition slot_steps :: "Value list \<Rightarrow> nat \<Rightarrow> clear_step list" where
  "slot_steps es k = map (\<lambda>i. (es ! i, gc_nil_slot i)) [k..<length es]"

definition entry_steps :: "MapSlot list \<Rightarrow> nat \<Rightarrow> clear_step list" where
  "entry_steps slots k =
     concat (map (\<lambda>i. if ms_hash (slots ! i) < 2 then []
                       else [(ms_key (slots ! i), gc_nil_key i), (ms_value (slots ! i), gc_nil_entry i)]) [k..<length slots])"

fun gc_clear_steps :: "gc_object \<Rightarrow> clear_step list" where
  "gc_clear_steps (GcArray arr) = (case oa_data arr of Elements es \<Rightarrow> slot_steps es 0 | _ \<Rightarrow> [])"
| "gc_clear_steps (GcRecord r) = slot_steps (or_fields r) 0"
| "gc_clear_steps (GcTuple t) = slot_steps (ot_elements t) 0"
| "gc_clear_steps (GcMap m) = entry_steps (st_slots m) 0"
| "gc_clear_steps _ = []"

fun gc_array_clear :: "array_data \<Rightarrow> array_data" where
  "gc_array_clear (Elements es) = Elements []"
| "gc_array_clear (Ints is) = Ints []"
| "gc_array_clear (Doubles ds) = Doubles []"
| "gc_array_clear (Bools bs) = Bools []"
| "gc_array_clear (Bytes bs) = Bytes []"

fun gc_clear_counts :: "gc_object \<Rightarrow> gc_object" where
  "gc_clear_counts (GcArray arr) = GcArray (arr\<lparr>oa_data := gc_array_clear (oa_data arr)\<rparr>)"
| "gc_clear_counts (GcTuple t) = GcTuple (t\<lparr>ot_elements := []\<rparr>)"
| "gc_clear_counts (GcMap m) = GcMap (m\<lparr>st_count := 0, st_used := 0\<rparr>)"
| "gc_clear_counts obj = obj"

fun gc_clear_slots :: "addr \<Rightarrow> clear_step list \<Rightarrow> gc_heap \<Rightarrow> gc_heap option" where
  "gc_clear_slots a [] h = Some h"
| "gc_clear_slots a ((v, f) # steps) h =
     (case release_values [v] h of None \<Rightarrow> None | Some h \<Rightarrow> gc_clear_slots a steps (gc_update_object a f h))"

definition cycle_gc_clear_children :: "addr \<Rightarrow> gc_heap \<Rightarrow> gc_heap option" where
  "cycle_gc_clear_children a h =
     (case gc_object_at h a of
        None \<Rightarrow> None
      | Some obj \<Rightarrow> map_option (gc_update_object a gc_clear_counts) (gc_clear_slots a (gc_clear_steps obj) h))"

fun cycle_gc_snapshot_nodes :: "gc_heap \<Rightarrow> addr option \<Rightarrow> nat \<Rightarrow> addr list" where
  "cycle_gc_snapshot_nodes h n 0 = []"
| "cycle_gc_snapshot_nodes h None (Suc cap) = []"
| "cycle_gc_snapshot_nodes h (Some a) (Suc cap) =
     a # cycle_gc_snapshot_nodes h (case node_at h a of None \<Rightarrow> None | Some n \<Rightarrow> gn_next n) cap"

definition vm_gc_tracked_count :: "addr \<Rightarrow> gc_heap \<Rightarrow> int" where
  "vm_gc_tracked_count g h = gc_tracked_count (gh_gcs h g)"

text \<open>The phases of \<^verbatim>\<open>vm_gc_collect\<close> for one node of the snapshot.\<close>

definition gc_init_refs :: "addr \<Rightarrow> addr \<Rightarrow> gc_heap \<Rightarrow> gc_heap" where
  "gc_init_refs g a h =
     (if gc_node_owner h a \<noteq> Some g then h
      else gc_update_node a (\<lambda>n. n\<lparr>gn_gc_refs := cycle_gc_obj_ref_count h a, gn_flags := 0\<rparr>) h)"

definition gc_subtract :: "addr \<Rightarrow> addr \<Rightarrow> gc_heap \<Rightarrow> gc_heap" where
  "gc_subtract g a h = (if gc_node_owner h a \<noteq> Some g then h else cycle_gc_subtract_children_refs g a h)"

definition gc_refs_at :: "gc_heap \<Rightarrow> addr \<Rightarrow> int" where
  "gc_refs_at h a = (case node_at h a of None \<Rightarrow> 0 | Some n \<Rightarrow> gn_gc_refs n)"

definition gc_mark_root :: "addr \<Rightarrow> nat \<Rightarrow> addr \<Rightarrow> gc_heap \<times> addr list \<Rightarrow> gc_heap \<times> addr list" where
  "gc_mark_root g cap a = (\<lambda>(h, stack).
     if gc_node_owner h a \<noteq> Some g then (h, stack)
     else if gc_refs_at h a > 0 then cycle_gc_mark_reachable cap a (h, stack) else (h, stack))"

definition gc_mark :: "addr \<Rightarrow> addr list \<Rightarrow> gc_heap \<Rightarrow> gc_heap" where
  "gc_mark g nodes h =
     (let h = fold (gc_init_refs g) nodes h;
          h = fold (gc_subtract g) nodes h
      in gc_mark_loop (length nodes) g (fold (gc_mark_root g (length nodes)) nodes (h, [])))"

definition gc_unreachable :: "addr \<Rightarrow> addr list \<Rightarrow> gc_heap \<Rightarrow> addr list" where
  "gc_unreachable g nodes h = filter (\<lambda>a. gc_node_owner h a = Some g \<and> \<not> gc_reachable_flag h a) nodes"

definition gc_break :: "addr list \<Rightarrow> gc_heap \<Rightarrow> gc_heap option" where
  "gc_break unreachable h =
     (case each cycle_gc_clear_children unreachable (fold cycle_gc_obj_hold unreachable h) of
        None \<Rightarrow> None
      | Some h \<Rightarrow> each cycle_gc_obj_drop_hold unreachable h)"

definition vm_gc_collect :: "addr \<Rightarrow> gc_heap \<Rightarrow> (int \<times> gc_heap) option" where
  "vm_gc_collect g h =
     (if gc_is_collecting (gh_gcs h g) then Some (0, h)
      else if gc_tracked_count (gh_gcs h g) \<le> 0 then Some (0, h)
      else
        let h = gc_update_gc g (\<lambda>gc. gc\<lparr>gc_is_collecting := True, gc_total_collections := gc_total_collections gc + 1, gc_last_reclaimed := 0\<rparr>) h;
            nodes = cycle_gc_snapshot_nodes h (gc_head (gh_gcs h g)) (nat (gc_tracked_count (gh_gcs h g)))
        in if nodes = []
           then Some (0, gc_update_gc g (\<lambda>gc. (cycle_gc_reset_allocations_since_collect gc)\<lparr>gc_is_collecting := False\<rparr>) h)
           else
             let h = gc_mark g nodes h;
                 unreachable = gc_unreachable g nodes h
             in case gc_break unreachable h of
                  None \<Rightarrow> None
                | Some h \<Rightarrow>
                    let h = gc_update_gc g (\<lambda>gc. gc\<lparr>gc_last_reclaimed := int (length unreachable)\<rparr>) h;
                        h = gc_update_gc g (\<lambda>gc. (cycle_gc_reset_allocations_since_collect gc)\<lparr>gc_is_collecting := False\<rparr>) h
                    in Some (gc_last_reclaimed (gh_gcs h g), h))"

definition vm_gc_maybe_collect :: "addr \<Rightarrow> gc_heap \<Rightarrow> gc_heap option" where
  "vm_gc_maybe_collect g h =
     (if gc_threshold (gh_gcs h g) \<le> 0 then Some h
      else if gc_allocations_since_collect (gh_gcs h g) \<ge> gc_threshold (gh_gcs h g) then map_option snd (vm_gc_collect g h)
      else Some h)"

end
