(* ===== verification/Cycle_Collect.thy ===== *)
theory Cycle_Collect
  imports Cycle_GC
begin

text \<open>
  Correctness of \<^verbatim>\<open>vm_gc_collect\<close>: on a heap whose reference counts and lists are right it frees exactly the tracked objects that no
  object outside the list and no live tracked object refers to, never touches freed memory, keeps every object the program
  can still reach as it was, and leaves counts and lists right.
\<close>

section \<open>Clearing the slots of an object\<close>

text \<open>An update of an object that leaves its reference count alone.\<close>

definition count_free :: "(gc_object \<Rightarrow> gc_object) \<Rightarrow> bool" where
  "count_free f \<longleftrightarrow> (\<forall>n obj. f (object_add_ref n obj) = object_add_ref n (f obj) \<and> object_ref_count (f obj) = object_ref_count obj)"

lemma cell_update_swap:
  assumes "a \<noteq> b \<or> (\<forall>c. f (k c) = k (f c))"
  shows "gc_update_cell a f (gc_update_cell b k h) = gc_update_cell b k (gc_update_cell a f h)"
proof (cases "a = b")
  case True
  then show ?thesis using assms
    by (auto simp: gc_update_cell_def gc_cell_at_def option.map_comp comp_def intro!: gc_heap.equality arg_cong [of _ _ "list_update _ _"] option.map_cong)
next
  case False
  then show ?thesis by (auto simp: gc_update_cell_def gc_cell_at_def list_update_swap)
qed

lemma object_update_swap:
  "gc_update_object a f (gc_update_node b k h) = gc_update_node b k (gc_update_object a f h)"
  "gc_update_object a f (gc_update_gc g e h) = gc_update_gc g e (gc_update_object a f h)"
  "a \<noteq> b \<Longrightarrow> gc_update_object a f (gc_free_cell b h) = gc_free_cell b (gc_update_object a f h)"
  "a \<noteq> b \<or> (\<forall>obj. f (f' obj) = f' (f obj)) \<Longrightarrow> gc_update_object a f (gc_update_object b f' h) = gc_update_object b f' (gc_update_object a f h)"
proof -
  show "gc_update_object a f (gc_update_node b k h) = gc_update_node b k (gc_update_object a f h)"
    unfolding gc_update_object_def gc_update_node_def by (rule cell_update_swap) simp
  show "gc_update_object a f (gc_update_gc g e h) = gc_update_gc g e (gc_update_object a f h)"
    by (simp add: gc_update_object_def gc_update_gc_def gc_update_cell_def gc_cell_at_def)
  show "gc_update_object a f (gc_free_cell b h) = gc_free_cell b (gc_update_object a f h)" if "a \<noteq> b"
    using that by (simp add: gc_update_object_def gc_free_cell_def gc_update_cell_def gc_cell_at_def list_update_swap)
  show "gc_update_object a f (gc_update_object b f' h) = gc_update_object b f' (gc_update_object a f h)" if "a \<noteq> b \<or> (\<forall>obj. f (f' obj) = f' (f obj))"
    unfolding gc_update_object_def by (rule cell_update_swap) (use that in auto)
qed

lemma untrack_update_swap: "gc_update_object a f (cycle_gc_untrack b h) = cycle_gc_untrack b (gc_update_object a f h)"
proof -
  have "map_option cell_node (gc_cell_at (gc_update_object a f h) b) = map_option cell_node (gc_cell_at h b)"
    by (simp add: gc_update_object_def option.map_comp comp_def)
  then show ?thesis
    by (auto simp: cycle_gc_untrack_def Let_def object_update_swap split: option.splits)
qed

lemma dead_update: "gc_object_at h a = None \<Longrightarrow> gc_object_at (gc_update_object b f h) a = None"
  "gc_object_at h a = None \<Longrightarrow> gc_object_at (gc_free_cell b h) a = None"
  by auto

lemma release_dead: "release_values vs h = Some h' \<Longrightarrow> gc_object_at h a = None \<Longrightarrow> gc_object_at h' a = None"
  by (induction vs h rule: release_values.induct) (auto simp: dead_update simp del: object_at_update_object(1) object_at_free(1) split: option.splits if_splits)

text \<open>Releasing values that do not free the object commutes with such an update.\<close>

lemma release_update:
  assumes "release_values vs (gc_update_object a f h) = Some h1" and "gc_object_at h1 a \<noteq> None" and f: "count_free f"
  shows "\<exists>h2. release_values vs h = Some h2 \<and> h1 = gc_update_object a f h2"
  using assms(1)
proof (induction vs h rule: release_values.induct)
  case (1 h)
  then show ?case by auto
next
  case (2 v vs h)
  show ?case
  proof (cases "value_target v")
    case None
    then show ?thesis using 2 by simp
  next
    case (Some b)
    then obtain obj' where obj': "gc_object_at (gc_update_object a f h) b = Some obj'" using "2.prems" by (auto split: option.splits)
    then obtain obj where obj: "gc_object_at h b = Some obj" "obj' = (if b = a then f obj else obj)" by (auto split: if_splits)
    then have count: "object_ref_count obj' = object_ref_count obj" using f by (simp add: count_free_def)
    show ?thesis
    proof (cases "object_ref_count obj - 1 \<le> 0")
      case True
      then have r: "release_values (object_values obj' @ vs) (gc_free_cell b (cycle_gc_untrack b (gc_update_object a f h))) = Some h1"
        using "2.prems" Some obj' count by simp
      have "a \<noteq> b" using release_dead [OF r, of a] assms(2) by auto
      then show ?thesis using "2.IH"(2) [OF Some obj(1) True] r Some obj True by (simp add: untrack_update_swap object_update_swap)
    next
      case False
      have "gc_update_object b (object_add_ref (- 1)) (gc_update_object a f h) = gc_update_object a f (gc_update_object b (object_add_ref (- 1)) h)"
        by (rule object_update_swap) (use f in \<open>simp add: count_free_def\<close>)
      then have "release_values vs (gc_update_object a f (gc_update_object b (object_add_ref (- 1)) h)) = Some h1"
        using "2.prems" Some obj' count False by simp
      then show ?thesis using "2.IH"(3) [OF Some obj(1) False] Some obj False by simp
    qed
  qed
qed

text \<open>Steps that take the references out of an object one by one.\<close>

fun steps_ok :: "clear_step list \<Rightarrow> gc_object \<Rightarrow> bool" where
  "steps_ok [] obj = (\<forall>b. refs_in (object_values obj) b = 0)"
| "steps_ok ((v, f) # steps) obj \<longleftrightarrow>
     count_free f \<and> (\<forall>b. refs_in (object_values obj) b = refs_in [v] b + refs_in (object_values (f obj)) b) \<and> steps_ok steps (f obj)"

lemma steps_ok_add_ref [simp]: "steps_ok steps (object_add_ref n obj) = steps_ok steps obj"
  by (induction steps obj rule: steps_ok.induct) (auto simp: count_free_def)

lemma steps_ok_content: "object_content obj' = object_content obj \<Longrightarrow> steps_ok steps obj' = steps_ok steps obj"
  unfolding object_content_def by (metis steps_ok_add_ref)

lemma refs_in_update: "i < length es \<Longrightarrow> refs_in es b = refs_in [es ! i] b + refs_in (es[i := VAL_NIL]) b"
  by (induction es arbitrary: i) (auto simp: nth_Cons' split: nat.split)

lemma count_free_nil [simp]: "count_free (gc_nil_slot i)" "count_free (gc_nil_key i)" "count_free (gc_nil_entry i)" "count_free gc_clear_counts"
  unfolding count_free_def
proof (safe, goal_cases)
  case (1 n obj) then show ?case by (cases obj) (auto split: array_data.split)
next
  case (2 n obj) then show ?case by (cases obj) (auto split: array_data.split)
qed (rename_tac n obj, case_tac obj, simp, simp, simp, simp, simp, simp)+

text \<open>The slots before \<open>k\<close> are cleared.\<close>

lemma slot_steps_ok:
  assumes w: "\<And>es. object_values (w es) = es" "\<And>es i. gc_nil_slot i (w es) = w (es[i := VAL_NIL])" and "k \<le> length es"
  shows "steps_ok (slot_steps es k) (w (replicate k VAL_NIL @ drop k es))"
  using assms(3)
proof (induction "length es - k" arbitrary: k)
  case 0
  then have "k = length es" by simp
  then show ?case by (simp add: slot_steps_def w refs_in_def)
next
  case (Suc n)
  then have k: "k < length es" by simp
  then have steps: "slot_steps es k = (es ! k, gc_nil_slot k) # slot_steps es (Suc k)" by (simp add: slot_steps_def upt_conv_Cons)
  let ?es = "replicate k VAL_NIL @ drop k es"
  have up: "?es[k := VAL_NIL] = replicate (Suc k) VAL_NIL @ drop (Suc k) es" "?es ! k = es ! k"
    using k by (simp_all add: list_update_append nth_append replicate_append_same [symmetric] Cons_nth_drop_Suc [symmetric])
  moreover have "steps_ok (slot_steps es (Suc k)) (w (replicate (Suc k) VAL_NIL @ drop (Suc k) es))"
    by (rule Suc(1)) (use Suc(2) k in simp_all)
  ultimately show ?case using refs_in_update [of k ?es] k by (simp add: steps w)
qed

definition entry_values :: "MapSlot \<Rightarrow> Value list" where
  "entry_values slot = (if ms_hash slot < 2 then [] else [ms_key slot, ms_value slot])"

lemma refs_in_entries:
  "i < length slots \<Longrightarrow> refs_in (concat (map entry_values (slots[i := s]))) b + refs_in (entry_values (slots ! i)) b =
     refs_in (concat (map entry_values slots)) b + refs_in (entry_values s) b"
  by (induction slots arbitrary: i) (auto simp: nth_Cons' split: nat.split)

definition cleared_entry :: "MapSlot \<Rightarrow> MapSlot" where
  "cleared_entry slot = (if ms_hash slot < 2 then slot else map_nil_slot)"

lemma entry_steps_ok:
  assumes "k \<le> length slots"
  shows "steps_ok (entry_steps slots k) (GcMap (m\<lparr>st_slots := map cleared_entry (take k slots) @ drop k slots\<rparr>))"
  using assms
proof (induction "length slots - k" arbitrary: k)
  case 0
  then have "k = length slots" by simp
  then show ?case by (auto simp: entry_steps_def refs_in_def filter_empty_conv cleared_entry_def map_nil_slot_def)
next
  case (Suc n)
  then have k: "k < length slots" by simp
  let ?s = "map cleared_entry (take k slots) @ drop k slots"
  have cur: "?s ! k = slots ! k" "length ?s = length slots" using k by (simp_all add: nth_append)
  have up: "?s[k := cleared_entry (slots ! k)] = map cleared_entry (take (Suc k) slots) @ drop (Suc k) slots"
    using k by (simp add: list_update_append take_Suc_conv_app_nth Cons_nth_drop_Suc [symmetric])
  have ih: "steps_ok (entry_steps slots (Suc k)) (GcMap (m\<lparr>st_slots := ?s[k := cleared_entry (slots ! k)]\<rparr>))" using Suc k up by simp
  have vals: "object_values (GcMap (m\<lparr>st_slots := s\<rparr>)) = concat (map entry_values s)" for s
    by (simp add: entry_values_def [abs_def])
  show ?case
  proof (cases "ms_hash (slots ! k) < 2")
    case True
    then have "entry_steps slots k = entry_steps slots (Suc k)" using k by (simp add: entry_steps_def upt_conv_Cons)
    moreover have "?s[k := cleared_entry (slots ! k)] = ?s" using True cur by (metis cleared_entry_def list_update_id)
    ultimately show ?thesis using ih by simp
  next
    case False
    then have steps: "entry_steps slots k = (ms_key (slots ! k), gc_nil_key k) # (ms_value (slots ! k), gc_nil_entry k) # entry_steps slots (Suc k)"
      using k by (simp add: entry_steps_def upt_conv_Cons)
    let ?s' = "?s[k := (slots ! k)\<lparr>ms_key := VAL_NIL\<rparr>]"
    have nil: "gc_nil_key k (GcMap (m\<lparr>st_slots := ?s\<rparr>)) = GcMap (m\<lparr>st_slots := ?s'\<rparr>)"
      "gc_nil_entry k (GcMap (m\<lparr>st_slots := ?s'\<rparr>)) = GcMap (m\<lparr>st_slots := ?s[k := cleared_entry (slots ! k)]\<rparr>)"
      using cur False by (simp_all add: cleared_entry_def)
    have "refs_in (concat (map entry_values ?s)) b = refs_in [ms_key (slots ! k)] b + refs_in (concat (map entry_values ?s')) b" for b
      using refs_in_entries [of k ?s "(slots ! k)\<lparr>ms_key := VAL_NIL\<rparr>" b] k cur False by (simp add: entry_values_def)
    moreover have "refs_in (concat (map entry_values ?s')) b =
        refs_in [ms_value (slots ! k)] b + refs_in (concat (map entry_values (?s[k := cleared_entry (slots ! k)]))) b" for b
      using refs_in_entries [of k ?s' "cleared_entry (slots ! k)" b] k cur False by (simp add: entry_values_def cleared_entry_def map_nil_slot_def)
    ultimately show ?thesis unfolding steps steps_ok.simps nil vals using ih by simp
  qed
qed

lemma clear_steps_ok: "(case obj of GcSet s \<Rightarrow> False | GcFunction f \<Rightarrow> False | _ \<Rightarrow> True) \<Longrightarrow> steps_ok (gc_clear_steps obj) obj"
proof (induction obj)
  case (GcArray arr)
  show ?case
  proof (cases "oa_data arr")
    case (Elements es)
    then have eq: "arr\<lparr>oa_data := Elements es\<rparr> = arr" by (cases arr) simp
    show ?thesis using slot_steps_ok [of "\<lambda>es. GcArray (arr\<lparr>oa_data := Elements es\<rparr>)" 0 es] Elements by (simp add: eq)
  qed (simp_all add: refs_in_def)
next
  case (GcRecord r)
  show ?case using slot_steps_ok [of "\<lambda>es. GcRecord (r\<lparr>or_fields := es\<rparr>)" 0 "or_fields r"] by simp
next
  case (GcTuple t)
  show ?case using slot_steps_ok [of "\<lambda>es. GcTuple (t\<lparr>ot_elements := es\<rparr>)" 0 "ot_elements t"] by simp
next
  case (GcMap m)
  show ?case using entry_steps_ok [of 0 "st_slots m" m] by simp
qed simp_all

text \<open>The effect on the heap: the object loses its references, others keep what they hold or are freed.\<close>

definition changed_only :: "addr set \<Rightarrow> gc_heap \<Rightarrow> gc_heap \<Rightarrow> bool" where
  "changed_only A h h' \<longleftrightarrow> length (gh_cells h') = length (gh_cells h) \<and>
     (\<forall>a. gc_object_at h' a = None \<or> (a \<in> A \<and> gc_object_at h a \<noteq> None) \<or> content_at h' a = content_at h a)"

lemma changed_only_refl [simp]: "changed_only A h h"
  by (simp add: changed_only_def)

lemma changed_only_trans: "changed_only A h h' \<Longrightarrow> changed_only A h' h'' \<Longrightarrow> changed_only A h h''"
  unfolding changed_only_def by (metis content_at_None)

lemma changed_only_mono: "changed_only A h h' \<Longrightarrow> A \<subseteq> B \<Longrightarrow> changed_only B h h'"
  unfolding changed_only_def by (metis subsetD)

lemma changed_onlyD: "changed_only A h h' \<Longrightarrow> a \<notin> A \<Longrightarrow> gc_object_at h' a = None \<or> content_at h' a = content_at h a"
  unfolding changed_only_def by metis

lemma shrunk_changed_only: "shrunk h h' \<Longrightarrow> changed_only A h h'"
  unfolding shrunk_def changed_only_def by metis

lemma changed_only_update: "a \<in> A \<Longrightarrow> changed_only A h (gc_update_object a f h)"
  by (auto simp: changed_only_def content_at_def)

lemma counts_ok_update:
  assumes c: "counts_ok h ext" and obj: "gc_object_at h a = Some obj" and f: "count_free f"
    and refs: "\<And>b. refs_in (object_values obj) b = r b + refs_in (object_values (f obj)) b"
  shows "counts_ok (gc_update_object a f h) (\<lambda>b. ext b + r b)"
  unfolding counts_ok_def
proof
  fix b
  have v: "gc_values_at (gc_update_object a f h) a = object_values (f obj)" "gc_values_at h a = object_values obj"
    using obj by (simp_all add: gc_values_at_def)
  have "heap_refs (gc_update_object a f h) b + r b = heap_refs h b"
    using heap_refs_change [of a h "gc_update_object a f h" b] object_at_less [OF obj] refs [of b] v by (simp add: gc_values_at_def)
  then show "case gc_object_at (gc_update_object a f h) b of None \<Rightarrow> heap_refs (gc_update_object a f h) b + (ext b + r b) = 0
    | Some o' \<Rightarrow> object_ref_count o' = int (heap_refs (gc_update_object a f h) b + (ext b + r b)) \<and>
        0 < heap_refs (gc_update_object a f h) b + (ext b + r b)"
    using c [unfolded counts_ok_def, rule_format, of b] f obj by (auto simp: count_free_def split: option.splits)
qed

lemma lists_update_object [simp]: "lists_ok (gc_update_object a f h) T = lists_ok h T"
  by (simp add: lists_ok_def gc_list_same [of "gc_update_object a f h" h])

lemma alive_alive:
  "(\<And>a. gc_object_at h a = None \<Longrightarrow> gc_object_at h' a = None) \<Longrightarrow> alive h' (alive h xs) = alive h' xs"
  by (force simp: alive_def intro!: filter_cong)

lemma changed_only_dead: "changed_only A h h' \<Longrightarrow> gc_object_at h a = None \<Longrightarrow> gc_object_at h' a = None"
  unfolding changed_only_def by (metis content_at_None)

lemma clear_slots_ok:
  assumes "counts_ok h ext" and "0 < ext a" and "gc_object_at h a = Some obj" and "steps_ok steps obj" and "lists_ok h T"
  shows "\<exists>h' obj'. gc_clear_slots a steps h = Some h' \<and> counts_ok h' ext \<and> changed_only {a} h h' \<and> gc_object_at h' a = Some obj' \<and>
    (\<forall>b. refs_in (object_values obj') b = 0) \<and> lists_ok h' (\<lambda>g. alive h' (T g))"
  using assms
proof (induction steps arbitrary: h obj T)
  case Nil
  have "alive h (T g) = T g" for g using gc_list_alive [of h g "T g"] Nil(5) by (simp add: lists_ok_def)
  then show ?case using Nil by (intro exI [of _ h]) auto
next
  case (Cons step steps)
  obtain v f where step: "step = (v, f)" by (cases step)
  have f: "count_free f" "\<And>b. refs_in (object_values obj) b = refs_in [v] b + refs_in (object_values (f obj)) b" "steps_ok steps (f obj)"
    using Cons.prems(4) by (auto simp: step)
  obtain h1 where h1: "release_values [v] (gc_update_object a f h) = Some h1" "counts_ok h1 ext" "shrunk (gc_update_object a f h) h1"
    using release_counts [OF counts_ok_update [OF Cons.prems(1,3) f(1,2)]] by blast
  obtain obj1 where obj1: "gc_object_at h1 a = Some obj1" using counts_ok_Some [OF h1(2), of a] Cons.prems(2) by auto
  obtain h2 where h2: "release_values [v] h = Some h2" "h1 = gc_update_object a f h2"
    using release_update [OF h1(1) _ f(1)] obj1 by auto
  have l1: "lists_ok h1 (\<lambda>g. alive h1 (T g))" using release_lists [OF _ h1(1)] Cons.prems(5) by simp
  have "content_at h1 a = content_at (gc_update_object a f h) a" using h1(3) obj1 unfolding shrunk_def by (metis option.distinct(1))
  then have "steps_ok steps obj1" using f(3) steps_ok_content [of obj1 "f obj" steps] obj1 Cons.prems(3) by (simp add: content_at_def)
  from Cons.IH [OF h1(2) Cons.prems(2) obj1 this l1] obtain h' obj' where h': "gc_clear_slots a steps h1 = Some h'" "counts_ok h' ext"
    "changed_only {a} h1 h'" "gc_object_at h' a = Some obj'" "\<forall>b. refs_in (object_values obj') b = 0" "lists_ok h' (\<lambda>g. alive h' (alive h1 (T g)))"
    by blast
  have "changed_only {a} h h1"
    using changed_only_trans [OF changed_only_update [of a "{a}"] shrunk_changed_only [OF h1(3)]] by simp
  then have "changed_only {a} h h'" using changed_only_trans h'(3) by blast
  moreover have "alive h' (alive h1 (T g)) = alive h' (T g)" for g by (rule alive_alive [OF changed_only_dead [OF h'(3)]])
  ultimately show ?case using h' h2 step by (simp del: release_values.simps)
qed

lemma clear_counts_refs: "(\<And>b. refs_in (object_values obj) b = 0) \<Longrightarrow> refs_in (object_values (gc_clear_counts obj)) b = 0"
proof (induction obj)
  case (GcArray arr)
  then show ?case by (cases "oa_data arr") simp_all
qed simp_all

definition tracked_kind :: "gc_object \<Rightarrow> bool" where
  "tracked_kind obj = (case obj of GcSet s \<Rightarrow> False | GcFunction f \<Rightarrow> False | _ \<Rightarrow> True)"

lemma clear_children_ok:
  assumes "counts_ok h ext" and "0 < ext a" and "lists_ok h T" and k: "\<And>obj. gc_object_at h a = Some obj \<Longrightarrow> tracked_kind obj"
  shows "\<exists>h'. cycle_gc_clear_children a h = Some h' \<and> counts_ok h' ext \<and> changed_only {a} h h' \<and>
    (\<forall>b. refs_in (gc_values_at h' a) b = 0) \<and> lists_ok h' (\<lambda>g. alive h' (T g))"
proof -
  obtain obj where obj: "gc_object_at h a = Some obj" using counts_ok_Some [OF assms(1), of a] assms(2) by auto
  then have "steps_ok (gc_clear_steps obj) obj" using clear_steps_ok [of obj] k by (simp add: tracked_kind_def)
  then obtain h' obj' where h': "gc_clear_slots a (gc_clear_steps obj) h = Some h'" "counts_ok h' ext" "changed_only {a} h h'"
    "gc_object_at h' a = Some obj'" "\<And>b. refs_in (object_values obj') b = 0" "lists_ok h' (\<lambda>g. alive h' (T g))"
    using clear_slots_ok [OF assms(1,2) obj _ assms(3)] by blast
  let ?h = "gc_update_object a gc_clear_counts h'"
  have "counts_ok ?h ext"
    using counts_ok_update [OF h'(2,4) count_free_nil(4), of "\<lambda>b. 0"] h'(5) clear_counts_refs [of obj'] by simp
  moreover have "changed_only {a} h ?h" using changed_only_trans [OF h'(3) changed_only_update [of a "{a}"]] by simp
  moreover have "alive ?h (T g) = alive h' (T g)" for g by (auto simp: alive_def intro!: filter_cong)
  moreover have "refs_in (gc_values_at ?h a) b = 0" for b using h'(4) clear_counts_refs [OF h'(5)] by (simp add: gc_values_at_def)
  ultimately show ?thesis using obj h'(1,6) by (simp add: cycle_gc_clear_children_def)
qed

section \<open>Breaking the cycles\<close>

definition one_each :: "addr list \<Rightarrow> addr \<Rightarrow> nat" where
  "one_each U b = (if b \<in> set U then 1 else 0)"

lemma counts_ok_hold:
  assumes "counts_ok h ext" and "gc_object_at h a \<noteq> None"
  shows "counts_ok (cycle_gc_obj_hold a h) (\<lambda>b. ext b + (if b = a then 1 else 0))"
  unfolding counts_ok_def cycle_gc_obj_hold_def
proof
  fix b
  show "case gc_object_at (gc_update_object a (object_add_ref 1) h) b of
      None \<Rightarrow> heap_refs (gc_update_object a (object_add_ref 1) h) b + (ext b + (if b = a then 1 else 0)) = 0
    | Some obj \<Rightarrow> object_ref_count obj = int (heap_refs (gc_update_object a (object_add_ref 1) h) b + (ext b + (if b = a then 1 else 0))) \<and>
        0 < heap_refs (gc_update_object a (object_add_ref 1) h) b + (ext b + (if b = a then 1 else 0))"
    using assms(1) [unfolded counts_ok_def, rule_format, of b] assms(2) heap_refs_update_object [of "object_add_ref 1" a h b]
    by (auto split: option.splits)
qed

lemma content_at_hold [simp]: "content_at (cycle_gc_obj_hold a h) b = content_at h b"
  by (auto simp: cycle_gc_obj_hold_def content_at_def option.map_comp comp_def)

lemma object_at_hold: "gc_object_at (cycle_gc_obj_hold a h) b = None \<longleftrightarrow> gc_object_at h b = None"
  by (metis content_at_None content_at_hold)

lemma hold_all:
  assumes "counts_ok h ext" and "distinct U" and "\<forall>a\<in>set U. gc_object_at h a \<noteq> None" and "lists_ok h T"
  shows "counts_ok (fold cycle_gc_obj_hold U h) (\<lambda>b. ext b + one_each U b) \<and>
    (\<forall>b. content_at (fold cycle_gc_obj_hold U h) b = content_at h b) \<and> length (gh_cells (fold cycle_gc_obj_hold U h)) = length (gh_cells h) \<and>
    lists_ok (fold cycle_gc_obj_hold U h) T"
  using assms
proof (induction U arbitrary: h ext)
  case Nil
  then show ?case by (simp add: one_each_def)
next
  case (Cons a U)
  have c: "counts_ok (cycle_gc_obj_hold a h) (\<lambda>b. ext b + (if b = a then 1 else 0))" using counts_ok_hold Cons.prems(1,3) by simp
  have l: "lists_ok (cycle_gc_obj_hold a h) T" "length (gh_cells (cycle_gc_obj_hold a h)) = length (gh_cells h)"
    using Cons.prems(4) by (simp_all add: cycle_gc_obj_hold_def)
  have "(\<lambda>b. ext b + (if b = a then 1 else 0) + one_each U b) = (\<lambda>b. ext b + one_each (a # U) b)"
    using Cons.prems(2) by (auto simp: one_each_def)
  then show ?case using Cons.IH [OF c] Cons.prems l by (simp add: object_at_hold)
qed

lemma tracked_kind_content: "object_content obj = object_content obj' \<Longrightarrow> tracked_kind obj = tracked_kind obj'"
  by (cases obj; cases obj') (simp_all add: object_content_def tracked_kind_def)

definition kind_ok :: "gc_heap \<Rightarrow> addr \<Rightarrow> bool" where
  "kind_ok h a \<longleftrightarrow> (\<forall>obj. gc_object_at h a = Some obj \<longrightarrow> tracked_kind obj)"

lemma kind_ok_content: "gc_object_at h' a = None \<or> content_at h' a = content_at h a \<Longrightarrow> kind_ok h a \<Longrightarrow> kind_ok h' a"
  by (cases "gc_object_at h a") (auto simp: kind_ok_def content_at_def dest: tracked_kind_content)

lemma clear_all:
  assumes "counts_ok h ext" and "distinct U" and "\<forall>a\<in>set U. 0 < ext a \<and> kind_ok h a" and "lists_ok h T"
  shows "\<exists>h'. each cycle_gc_clear_children U h = Some h' \<and> counts_ok h' ext \<and> changed_only (set U) h h' \<and>
    (\<forall>a\<in>set U. \<forall>b. refs_in (gc_values_at h' a) b = 0) \<and> lists_ok h' (\<lambda>g. alive h' (T g))"
  using assms
proof (induction U arbitrary: h T)
  case Nil
  have "alive h (T g) = T g" for g using gc_list_alive [of h g "T g"] Nil(4) by (simp add: lists_ok_def)
  then show ?case using Nil by simp
next
  case (Cons a U)
  obtain h1 where h1: "cycle_gc_clear_children a h = Some h1" "counts_ok h1 ext" "changed_only {a} h h1"
    "\<forall>b. refs_in (gc_values_at h1 a) b = 0" "lists_ok h1 (\<lambda>g. alive h1 (T g))"
    using clear_children_ok [OF Cons.prems(1) _ Cons.prems(4), of a] Cons.prems(3) by (auto simp: kind_ok_def)
  have "kind_ok h1 b" if "b \<in> set U" for b
    by (rule kind_ok_content [OF changed_onlyD [OF h1(3)]]) (use Cons.prems(2,3) that in auto)
  then obtain h' where h': "each cycle_gc_clear_children U h1 = Some h'" "counts_ok h' ext" "changed_only (set U) h1 h'"
    "\<forall>a\<in>set U. \<forall>b. refs_in (gc_values_at h' a) b = 0" "lists_ok h' (\<lambda>g. alive h' (alive h1 (T g)))"
    using Cons.IH [OF h1(2) _ _ h1(5)] Cons.prems(2,3) by auto
  have "gc_object_at h' a \<noteq> None" using counts_ok_Some [OF h'(2), of a] Cons.prems(3) by auto
  then have "content_at h' a = content_at h1 a" using changed_onlyD [OF h'(3), of a] Cons.prems(2) by auto
  then have "refs_in (gc_values_at h' a) b = 0" for b using h1(4) values_at_content [of h' a h1] by simp
  moreover have "alive h' (alive h1 (T g)) = alive h' (T g)" for g by (rule alive_alive [OF changed_only_dead [OF h'(3)]])
  moreover have "changed_only (set (a # U)) h h'"
    using changed_only_trans [OF changed_only_mono [OF h1(3)] changed_only_mono [OF h'(3)], of "set (a # U)"] by auto
  ultimately show ?case using h1(1) h' by simp
qed

lemma object_value_target [simp]: "value_target (object_value a obj) = Some a"
  by (cases obj) simp_all

lemma drop_all:
  assumes "counts_ok h (\<lambda>b. ext b + one_each U b)" and "distinct U" and "lists_ok h T"
  shows "\<exists>h'. each cycle_gc_obj_drop_hold U h = Some h' \<and> counts_ok h' ext \<and> shrunk h h' \<and> lists_ok h' (\<lambda>g. alive h' (T g))"
  using assms
proof (induction U arbitrary: h T)
  case Nil
  have "alive h (T g) = T g" for g using gc_list_alive [of h g "T g"] Nil(3) by (simp add: lists_ok_def)
  then show ?case using Nil by (simp add: one_each_def)
next
  case (Cons a U)
  obtain obj where obj: "gc_object_at h a = Some obj" using counts_ok_Some [OF Cons.prems(1), of a] by (auto simp: one_each_def)
  have "(\<lambda>b. ext b + one_each (a # U) b) = (\<lambda>b. (ext b + one_each U b) + refs_in [object_value a obj] b)"
    using Cons.prems(2) by (auto simp: one_each_def)
  then obtain h1 where h1: "release_values [object_value a obj] h = Some h1" "counts_ok h1 (\<lambda>b. ext b + one_each U b)" "shrunk h h1"
    using release_counts [of h "\<lambda>b. ext b + one_each U b" "[object_value a obj]"] Cons.prems(1) by auto
  then have "lists_ok h1 (\<lambda>g. alive h1 (T g))" using release_lists Cons.prems(3) by blast
  then obtain h' where h': "each cycle_gc_obj_drop_hold U h1 = Some h'" "counts_ok h' ext" "shrunk h1 h'" "lists_ok h' (\<lambda>g. alive h' (alive h1 (T g)))"
    using Cons.IH [OF h1(2)] Cons.prems(2) by auto
  have "cycle_gc_obj_drop_hold a h = Some h1" using obj h1(1) by (simp add: cycle_gc_obj_drop_hold_def)
  moreover have "alive h' (alive h1 (T g)) = alive h' (T g)" for g by (rule alive_alive [OF shrunk_None [OF h'(3)]])
  ultimately show ?case using h' shrunk_trans [OF h1(3) h'(3)] by simp
qed

lemma gc_break_ok:
  assumes c: "counts_ok h ext" and l: "lists_ok h T" and U: "distinct U" "\<forall>a\<in>set U. gc_object_at h a \<noteq> None \<and> kind_ok h a \<and> ext a = 0"
    and closed: "\<forall>a. \<forall>b\<in>set U. 0 < refs_in (gc_values_at h a) b \<longrightarrow> a \<in> set U"
  shows "\<exists>h'. gc_break U h = Some h' \<and> counts_ok h' ext \<and> changed_only (set U) h h' \<and> lists_ok h' (\<lambda>g. alive h' (T g)) \<and>
    (\<forall>a\<in>set U. gc_object_at h' a = None)"
proof -
  let ?h = "fold cycle_gc_obj_hold U h"
  have hold: "counts_ok ?h (\<lambda>b. ext b + one_each U b)" "\<And>b. content_at ?h b = content_at h b" "length (gh_cells ?h) = length (gh_cells h)" "lists_ok ?h T"
    using hold_all [OF c U(1) _ l] U(2) by auto
  then have "kind_ok ?h a" if "a \<in> set U" for a using kind_ok_content [of ?h a h] U(2) that by simp
  then obtain h1 where h1: "each cycle_gc_clear_children U ?h = Some h1" "counts_ok h1 (\<lambda>b. ext b + one_each U b)" "changed_only (set U) ?h h1"
    "\<forall>a\<in>set U. \<forall>b. refs_in (gc_values_at h1 a) b = 0" "lists_ok h1 (\<lambda>g. alive h1 (T g))"
    using clear_all [OF hold(1) U(1) _ hold(4)] by (auto simp: one_each_def)
  obtain h' where h': "each cycle_gc_obj_drop_hold U h1 = Some h'" "counts_ok h' ext" "shrunk h1 h'" "lists_ok h' (\<lambda>g. alive h' (alive h1 (T g)))"
    using drop_all [OF h1(2) U(1) h1(5)] by blast
  have "changed_only (set U) h ?h" using hold(2,3) by (simp add: changed_only_def)
  then have ch: "changed_only (set U) h h'" using changed_only_trans h1(3) shrunk_changed_only [OF h'(3)] by blast
  have "refs_in (gc_values_at h' a) b = 0" if b: "b \<in> set U" for a b
  proof (cases "gc_object_at h' a = None")
    case True
    then show ?thesis by (simp add: gc_values_at_def)
  next
    case False
    show ?thesis
    proof (cases "a \<in> set U")
      case True
      then show ?thesis using shrunk_values [OF h'(3) False] h1(4) by simp
    next
      case out: False
      then have "gc_values_at h' a = gc_values_at h a" using changed_onlyD [OF ch out] False by (intro values_at_content) simp
      then show ?thesis using closed b out by auto
    qed
  qed
  then have "heap_refs h' b = 0" if "b \<in> set U" for b using that by (simp add: heap_refs_def)
  then have "gc_object_at h' b = None" if "b \<in> set U" for b
    using h'(2) [unfolded counts_ok_def, rule_format, of b] U(2) that by (auto split: option.splits)
  moreover have "alive h' (alive h1 (T g)) = alive h' (T g)" for g by (rule alive_alive [OF shrunk_None [OF h'(3)]])
  ultimately show ?thesis using h1(1) h' ch by (simp add: gc_break_def)
qed

section \<open>Counting the references from tracked objects\<close>

text \<open>Heaps that differ only in the marks of the nodes.\<close>

definition unmark :: "CycleGcNode \<Rightarrow> CycleGcNode" where
  "unmark n = n\<lparr>gn_gc_refs := 0, gn_flags := 0\<rparr>"

definition remarked :: "gc_heap \<Rightarrow> gc_heap \<Rightarrow> bool" where
  "remarked h h' \<longleftrightarrow> length (gh_cells h') = length (gh_cells h) \<and> gh_gcs h' = gh_gcs h \<and>
     (\<forall>a. gc_object_at h' a = gc_object_at h a \<and> map_option unmark (node_at h' a) = map_option unmark (node_at h a))"

lemma remarked_refl [simp]: "remarked h h"
  by (simp add: remarked_def)

lemma remarked_trans: "remarked h h' \<Longrightarrow> remarked h' h'' \<Longrightarrow> remarked h h''"
  by (simp add: remarked_def)

lemma remarked_update: "(\<And>n. unmark (k n) = unmark n) \<Longrightarrow> remarked h (gc_update_node a k h)"
  by (auto simp: remarked_def option.map_comp comp_def)

lemma remarked_fold: "(\<And>x h. x \<in> set xs \<Longrightarrow> remarked h (f x h)) \<Longrightarrow> remarked h (fold f xs h)"
proof (induction xs arbitrary: h)
  case (Cons x xs)
  have "remarked h (f x h)" "remarked (f x h) (fold f xs (f x h))" using Cons.prems by (auto intro!: Cons.IH)
  then show ?case using remarked_trans by auto
qed simp

lemma unmark_eq: "unmark n = unmark n' \<Longrightarrow> gn_owner n = gn_owner n' \<and> gn_prev n = gn_prev n' \<and> gn_next n = gn_next n'"
  by (cases n; cases n') (simp add: unmark_def)

lemma remarked_node:
  assumes "remarked h h'"
  shows "gc_node_owner h' a = gc_node_owner h a" and "linked h' g a p q = linked h g a p q"
proof -
  have e: "map_option unmark (node_at h' a) = map_option unmark (node_at h a)" using assms by (simp add: remarked_def)
  show "gc_node_owner h' a = gc_node_owner h a" "linked h' g a p q = linked h g a p q"
    using e by (cases "node_at h' a"; cases "node_at h a"; auto simp: node_owner linked_def dest!: unmark_eq)+
qed

lemma remarked_same:
  assumes "remarked h h'"
  shows "lists_ok h' T = lists_ok h T" and "gc_object_at h' a = gc_object_at h a" and "gc_values_at h' a = gc_values_at h a"
    and "content_at h' a = content_at h a" and "counts_ok h' ext = counts_ok h ext" and "gc_children_at h' a = gc_children_at h a"
    and "cycle_gc_node_from_value h' g v = cycle_gc_node_from_value h g v" and "gh_gcs h' = gh_gcs h" and "kind_ok h' a = kind_ok h a"
proof -
  have o: "gc_object_at h' a = gc_object_at h a" for a using assms by (simp add: remarked_def)
  show "gc_object_at h' a = gc_object_at h a" "gc_values_at h' a = gc_values_at h a" "content_at h' a = content_at h a"
    "gc_children_at h' a = gc_children_at h a" "kind_ok h' a = kind_ok h a"
    using o by (simp_all add: gc_values_at_def content_at_def gc_children_at_def kind_ok_def)
  have "heap_refs h' b = heap_refs h b" for b using assms o by (intro heap_refs_cong) (auto simp: remarked_def gc_values_at_def)
  then show "counts_ok h' ext = counts_ok h ext" by (simp add: counts_ok_def o cong: option.case_cong)
  show g: "gh_gcs h' = gh_gcs h" using assms by (simp add: remarked_def)
  show "lists_ok h' T = lists_ok h T" using remarked_node [OF assms] by (simp add: lists_ok_def gc_list_def g)
  show "cycle_gc_node_from_value h' g v = cycle_gc_node_from_value h g v"
    using remarked_node(1) [OF assms] by (cases v) (simp_all add: cycle_gc_node_from_value_def split: option.split)
qed

text \<open>References to an object that the collector sees from a list of values, and from a list of tracked objects.\<close>

definition tracked_refs :: "gc_heap \<Rightarrow> addr \<Rightarrow> Value list \<Rightarrow> addr \<Rightarrow> nat" where
  "tracked_refs h g vs b = length (filter (\<lambda>v. cycle_gc_node_from_value h g v = Some b) vs)"

definition inner_refs :: "gc_heap \<Rightarrow> addr \<Rightarrow> addr list \<Rightarrow> addr \<Rightarrow> nat" where
  "inner_refs h g xs b = sum_list (map (\<lambda>a. tracked_refs h g (gc_children_at h a) b) xs)"

lemma init_refs:
  assumes "distinct xs" and "\<And>a. a \<in> set xs \<Longrightarrow> gc_node_owner h a = Some g"
  shows "remarked h (fold (gc_init_refs g) xs h) \<and>
    (\<forall>a\<in>set xs. gc_refs_at (fold (gc_init_refs g) xs h) a = cycle_gc_obj_ref_count h a \<and> \<not> gc_reachable_flag (fold (gc_init_refs g) xs h) a) \<and>
    (\<forall>a. a \<notin> set xs \<longrightarrow> node_at (fold (gc_init_refs g) xs h) a = node_at h a)"
  using assms
proof (induction xs arbitrary: h)
  case (Cons x xs)
  let ?h = "gc_init_refs g x h"
  have h1: "remarked h ?h" using remarked_update [of "\<lambda>n. n\<lparr>gn_gc_refs := cycle_gc_obj_ref_count h x, gn_flags := 0\<rparr>" h x]
    by (simp add: gc_init_refs_def unmark_def)
  obtain n where n: "node_at h x = Some n" using Cons.prems(2) [of x] by (auto simp: node_owner split: option.splits)
  have x: "node_at ?h a = (if a = x then Some (n\<lparr>gn_gc_refs := cycle_gc_obj_ref_count h x, gn_flags := 0\<rparr>) else node_at h a)" for a
    using Cons.prems(2) [of x] n by (auto simp: gc_init_refs_def)
  have c: "cycle_gc_obj_ref_count ?h a = cycle_gc_obj_ref_count h a" for a using h1 by (simp add: cycle_gc_obj_ref_count_def remarked_same)
  have ih: "remarked ?h (fold (gc_init_refs g) xs ?h) \<and>
    (\<forall>a\<in>set xs. gc_refs_at (fold (gc_init_refs g) xs ?h) a = cycle_gc_obj_ref_count ?h a \<and> \<not> gc_reachable_flag (fold (gc_init_refs g) xs ?h) a) \<and>
    (\<forall>a. a \<notin> set xs \<longrightarrow> node_at (fold (gc_init_refs g) xs ?h) a = node_at ?h a)"
    using Cons.prems remarked_node(1) [OF h1] by (intro Cons.IH) auto
  have "node_at (fold (gc_init_refs g) xs ?h) x = Some (n\<lparr>gn_gc_refs := cycle_gc_obj_ref_count h x, gn_flags := 0\<rparr>)"
    using ih Cons.prems(1) x by simp
  then have "gc_refs_at (fold (gc_init_refs g) xs ?h) x = cycle_gc_obj_ref_count h x" "\<not> gc_reachable_flag (fold (gc_init_refs g) xs ?h) x"
    by (simp_all add: gc_refs_at_def gc_reachable_flag_def)
  then show ?case using ih remarked_trans [OF h1] c x by auto
qed simp

lemma subtract_child:
  "remarked h (gc_subtract_child g v h)"
  "cycle_gc_node_from_value h g v = Some b \<Longrightarrow> node_at h b \<noteq> None"
  "gc_refs_at (gc_subtract_child g v h) b = gc_refs_at h b - int (tracked_refs h g [v] b)"
  "gc_reachable_flag (gc_subtract_child g v h) b = gc_reachable_flag h b"
proof -
  show n: "node_at h b \<noteq> None" if "cycle_gc_node_from_value h g v = Some b" for b
    using that by (cases v) (auto simp: cycle_gc_node_from_value_def node_owner split: if_splits option.splits prod.splits)
  show "remarked h (gc_subtract_child g v h)"
    by (auto simp: gc_subtract_child_def unmark_def intro!: remarked_update split: option.split)
  show "gc_refs_at (gc_subtract_child g v h) b = gc_refs_at h b - int (tracked_refs h g [v] b)"
    using n by (auto simp: gc_subtract_child_def gc_refs_at_def tracked_refs_def split: option.splits)
  show "gc_reachable_flag (gc_subtract_child g v h) b = gc_reachable_flag h b"
    by (auto simp: gc_subtract_child_def gc_reachable_flag_def split: option.splits)
qed

lemma subtract_children:
  "remarked h (fold (gc_subtract_child g) vs h) \<and>
   gc_refs_at (fold (gc_subtract_child g) vs h) b = gc_refs_at h b - int (tracked_refs h g vs b) \<and>
   gc_reachable_flag (fold (gc_subtract_child g) vs h) b = gc_reachable_flag h b"
proof (induction vs arbitrary: h)
  case Nil
  then show ?case by (simp add: tracked_refs_def)
next
  case (Cons v vs)
  let ?h = "gc_subtract_child g v h"
  have "tracked_refs ?h g vs b = tracked_refs h g vs b" by (simp add: tracked_refs_def remarked_same(7) [OF subtract_child(1)])
  then have "gc_refs_at (fold (gc_subtract_child g) vs ?h) b = gc_refs_at ?h b - int (tracked_refs h g vs b)" using Cons [of ?h] by simp
  moreover have "tracked_refs h g (v # vs) b = tracked_refs h g [v] b + tracked_refs h g vs b" by (simp add: tracked_refs_def)
  moreover have "remarked h (fold (gc_subtract_child g) vs ?h)" using remarked_trans [OF subtract_child(1)] Cons [of ?h] by blast
  ultimately show ?case using subtract_child(3,4) [of g v h b] Cons [of ?h] by simp
qed

lemma subtract_refs:
  assumes "\<And>a. a \<in> set xs \<Longrightarrow> gc_node_owner h a = Some g"
  shows "remarked h (fold (gc_subtract g) xs h) \<and> gc_refs_at (fold (gc_subtract g) xs h) b = gc_refs_at h b - int (inner_refs h g xs b) \<and>
    gc_reachable_flag (fold (gc_subtract g) xs h) b = gc_reachable_flag h b"
  using assms
proof (induction xs arbitrary: h)
  case Nil
  then show ?case by (simp add: inner_refs_def)
next
  case (Cons x xs)
  let ?h = "gc_subtract g x h"
  have x: "?h = fold (gc_subtract_child g) (gc_children_at h x) h"
    using Cons.prems [of x] by (simp add: gc_subtract_def cycle_gc_subtract_children_refs_def)
  have r: "remarked h ?h" unfolding x by (simp add: subtract_children)
  have i: "inner_refs ?h g xs b = inner_refs h g xs b" by (simp add: inner_refs_def tracked_refs_def remarked_same [OF r])
  have ih: "remarked ?h (fold (gc_subtract g) xs ?h) \<and> gc_refs_at (fold (gc_subtract g) xs ?h) b = gc_refs_at ?h b - int (inner_refs ?h g xs b) \<and>
    gc_reachable_flag (fold (gc_subtract g) xs ?h) b = gc_reachable_flag ?h b"
    using Cons.prems remarked_node(1) [OF r] by (intro Cons.IH) auto
  have "gc_refs_at ?h b = gc_refs_at h b - int (tracked_refs h g (gc_children_at h x) b)" "gc_reachable_flag ?h b = gc_reachable_flag h b"
    unfolding x by (simp_all add: subtract_children)
  moreover have "remarked h (fold (gc_subtract g) xs ?h)" using remarked_trans [OF r] ih by blast
  moreover have "inner_refs h g (x # xs) b = tracked_refs h g (gc_children_at h x) b + inner_refs h g xs b" by (simp add: inner_refs_def)
  ultimately show ?case using ih i by simp
qed

section \<open>Marking\<close>

definition flags :: "addr list \<Rightarrow> gc_heap \<Rightarrow> addr set" where
  "flags xs h = {a \<in> set xs. gc_reachable_flag h a}"

definition gc_next :: "gc_heap \<Rightarrow> addr \<Rightarrow> addr \<Rightarrow> addr set" where
  "gc_next h g a = {b. \<exists>v\<in>set (gc_children_at h a). cycle_gc_node_from_value h g v = Some b}"

text \<open>The step from a heap and stack to others marks the nodes \<open>N\<close> and puts those that are new on the stack.\<close>

definition marks :: "addr list \<Rightarrow> gc_heap \<times> addr list \<Rightarrow> gc_heap \<times> addr list \<Rightarrow> addr set \<Rightarrow> bool" where
  "marks xs p q N \<longleftrightarrow> remarked (fst p) (fst q) \<and> (\<forall>b. gc_refs_at (fst q) b = gc_refs_at (fst p) b) \<and> flags xs (fst q) = flags xs (fst p) \<union> N \<and>
     distinct (snd q) \<and> set (snd q) = set (snd p) \<union> (N - flags xs (fst p))"

text \<open>The stack holds marked nodes of the list \<open>xs\<close>, each once.\<close>

definition stack_ok :: "addr list \<Rightarrow> gc_heap \<times> addr list \<Rightarrow> bool" where
  "stack_ok xs p \<longleftrightarrow> distinct (snd p) \<and> set (snd p) \<subseteq> flags xs (fst p)"

lemma marks_refl: "stack_ok xs p \<Longrightarrow> marks xs p p {}"
  by (simp add: marks_def stack_ok_def)

lemma marks_trans: "marks xs p q N \<Longrightarrow> marks xs q r M \<Longrightarrow> marks xs p r (N \<union> M)"
  unfolding marks_def using remarked_trans by auto

lemma stack_ok_marks: "stack_ok xs p \<Longrightarrow> marks xs p q N \<Longrightarrow> N \<subseteq> set xs \<Longrightarrow> stack_ok xs q"
  unfolding marks_def stack_ok_def by auto

lemma mark_one:
  assumes ok: "stack_ok xs (h, s)" and a: "a \<in> set xs" "node_at h a \<noteq> None"
  shows "marks xs (h, s) (cycle_gc_mark_reachable (length xs) a (h, s)) {a}"
proof (cases "gc_reachable_flag h a")
  case True
  then have "cycle_gc_mark_reachable (length xs) a (h, s) = (h, s)" by (simp add: cycle_gc_mark_reachable_def)
  then show ?thesis using True ok a by (auto simp: marks_def flags_def stack_ok_def)
next
  case False
  have "a \<notin> set s" using ok False by (auto simp: stack_ok_def flags_def)
  moreover have "set (a # s) \<subseteq> set xs" using ok a by (auto simp: stack_ok_def flags_def)
  ultimately have "card (set (a # s)) \<le> length xs" "distinct (a # s)"
    using card_mono [of "set xs" "set (a # s)"] card_length [of xs] ok by (auto simp: stack_ok_def)
  then have "length s < length xs" using distinct_card [of "a # s"] by simp
  then have e: "cycle_gc_mark_reachable (length xs) a (h, s) =
      (gc_update_node a (\<lambda>n. n\<lparr>gn_flags := gn_flags n OR CYCLE_GC_FLAG_REACHABLE\<rparr>) h, a # s)"
    using False a by (simp add: cycle_gc_mark_reachable_def)
  have "remarked h (gc_update_node a (\<lambda>n. n\<lparr>gn_flags := gn_flags n OR CYCLE_GC_FLAG_REACHABLE\<rparr>) h)"
    by (rule remarked_update) (simp add: unmark_def)
  moreover have "gc_refs_at (gc_update_node a (\<lambda>n. n\<lparr>gn_flags := gn_flags n OR CYCLE_GC_FLAG_REACHABLE\<rparr>) h) b = gc_refs_at h b" for b
    by (auto simp: gc_refs_at_def split: option.split)
  ultimately show ?thesis using False a ok \<open>a \<notin> set s\<close> by (auto simp: e marks_def flags_def stack_ok_def flag_update)
qed

lemma node_from_value_in:
  assumes "gc_list h g xs" and "cycle_gc_node_from_value h g v = Some b"
  shows "b \<in> set xs" and "node_at h b \<noteq> None"
  using assms gc_list_owner [OF assms(1), of b] subtract_child(2) [OF assms(2)]
  by (cases v; auto simp: cycle_gc_node_from_value_def split: if_splits option.splits prod.splits)+

lemma gc_list_remarked: "remarked h h' \<Longrightarrow> gc_list h' g xs = gc_list h g xs"
  using remarked_node by (simp add: gc_list_def remarked_same(8))

lemma mark_children:
  assumes "stack_ok xs p" and "gc_list (fst p) g xs"
  shows "marks xs p (fold (gc_mark_child (length xs) g) vs p) {b. \<exists>v\<in>set vs. cycle_gc_node_from_value (fst p) g v = Some b}"
  using assms
proof (induction vs arbitrary: p)
  case Nil
  then show ?case using marks_refl by simp
next
  case (Cons v vs)
  let ?q = "gc_mark_child (length xs) g v p"
  let ?N = "{b. cycle_gc_node_from_value (fst p) g v = Some b}"
  have q: "marks xs p ?q ?N"
  proof (cases "cycle_gc_node_from_value (fst p) g v")
    case None
    then show ?thesis using marks_refl [OF Cons.prems(1)] by (simp add: gc_mark_child_def split_beta)
  next
    case (Some b)
    then show ?thesis using mark_one [of xs "fst p" "snd p" b] node_from_value_in [OF Cons.prems(2) Some] Cons.prems(1)
      by (simp add: gc_mark_child_def split_beta)
  qed
  have N: "?N \<subseteq> set xs" using node_from_value_in [OF Cons.prems(2)] by auto
  have r: "remarked (fst p) (fst ?q)" using q by (simp add: marks_def)
  have "marks xs ?q (fold (gc_mark_child (length xs) g) vs ?q) {b. \<exists>v\<in>set vs. cycle_gc_node_from_value (fst ?q) g v = Some b}"
    by (rule Cons.IH) (use stack_ok_marks [OF Cons.prems(1) q N] Cons.prems(2) gc_list_remarked [OF r] in auto)
  from marks_trans [OF q this] show ?case by (simp add: remarked_same(7) [OF r] Collect_disj_eq)
qed

text \<open>Nodes reached from a set over the children that the collector follows.\<close>

inductive tracked_reach :: "gc_heap \<Rightarrow> addr \<Rightarrow> addr set \<Rightarrow> addr \<Rightarrow> bool" for h g R where
  reach_root: "a \<in> R \<Longrightarrow> tracked_reach h g R a"
| reach_next: "tracked_reach h g R a \<Longrightarrow> b \<in> gc_next h g a \<Longrightarrow> tracked_reach h g R b"

lemma mark_loop_ok:
  assumes "stack_ok xs p" and "gc_list (fst p) g xs" and "\<forall>a\<in>flags xs (fst p) - set (snd p). gc_next (fst p) g a \<subseteq> flags xs (fst p)"
    and "\<forall>a\<in>flags xs (fst p). tracked_reach h0 g R a" and "remarked h0 (fst p)"
  shows "remarked h0 (gc_mark_loop (length xs) g p) \<and> flags xs (fst p) \<subseteq> flags xs (gc_mark_loop (length xs) g p) \<and>
    (\<forall>a\<in>flags xs (gc_mark_loop (length xs) g p). gc_next h0 g a \<subseteq> flags xs (gc_mark_loop (length xs) g p) \<and> tracked_reach h0 g R a)"
  using assms
proof (induction "length xs" g p rule: gc_mark_loop.induct)
  case (1 g h)
  have "gc_next h g a = gc_next h0 g a" for a using remarked_same [OF 1(5)] by (simp add: gc_next_def)
  then show ?case using 1 by simp
next
  case (2 g h a s)
  let ?q = "cycle_gc_mark_children_reachable (length xs) g a (h, s)"
  have nx: "gc_next h' g b = gc_next h g b" if "remarked h h'" for h' b using remarked_same [OF that] by (simp add: gc_next_def)
  have ok: "stack_ok xs (h, s)" using 2(2) by (auto simp: stack_ok_def)
  have q: "marks xs (h, s) ?q (gc_next h g a)"
    using mark_children [OF ok, of g "gc_children_at h a"] 2(3) by (simp add: cycle_gc_mark_children_reachable_def gc_next_def)
  have r: "remarked h (fst ?q)" using q by (simp add: marks_def)
  have N: "gc_next h g a \<subseteq> set xs" using node_from_value_in(1) 2(3) by (auto simp: gc_next_def)
  have a: "a \<in> flags xs h" "gc_next h0 g b = gc_next h g b" for b using 2(2,6) remarked_same [OF 2(6)] by (auto simp: stack_ok_def gc_next_def)
  have ih: "remarked h0 (gc_mark_loop (length xs) g ?q) \<and> flags xs (fst ?q) \<subseteq> flags xs (gc_mark_loop (length xs) g ?q) \<and>
    (\<forall>a\<in>flags xs (gc_mark_loop (length xs) g ?q). gc_next h0 g a \<subseteq> flags xs (gc_mark_loop (length xs) g ?q) \<and> tracked_reach h0 g R a)"
  proof (rule 2(1))
    show "stack_ok xs ?q" by (rule stack_ok_marks [OF ok q N])
    show "gc_list (fst ?q) g xs" using gc_list_remarked [OF r] 2(3) by simp
    show "\<forall>b\<in>flags xs (fst ?q) - set (snd ?q). gc_next (fst ?q) g b \<subseteq> flags xs (fst ?q)"
      using q 2(4) nx [OF r] by (auto simp: marks_def)
    show "\<forall>b\<in>flags xs (fst ?q). tracked_reach h0 g R b"
      using q 2(5) a reach_next [of h0 g R a] by (auto simp: marks_def)
    show "remarked h0 (fst ?q)" using remarked_trans [OF 2(6)] r by simp
  qed
  then show ?case using q by (simp add: marks_def)
qed

definition gc_roots :: "gc_heap \<Rightarrow> addr \<Rightarrow> addr list \<Rightarrow> addr set" where
  "gc_roots h g xs = {a \<in> set xs. int (inner_refs h g xs a) < cycle_gc_obj_ref_count h a}"

lemma mark_roots:
  assumes "stack_ok xs p" and "gc_list (fst p) g xs" and "set ys \<subseteq> set xs"
  shows "marks xs p (fold (gc_mark_root g (length xs)) ys p) {a \<in> set ys. 0 < gc_refs_at (fst p) a}"
  using assms
proof (induction ys arbitrary: p)
  case Nil
  then show ?case using marks_refl by simp
next
  case (Cons a ys)
  let ?q = "gc_mark_root g (length xs) a p"
  let ?N = "{b. b = a \<and> 0 < gc_refs_at (fst p) a}"
  have own: "gc_node_owner (fst p) a = Some g" using gc_list_owner [OF Cons.prems(2)] Cons.prems(3) by simp
  then have n: "node_at (fst p) a \<noteq> None" by (auto simp: node_owner split: option.splits)
  have q: "marks xs p ?q ?N"
    using mark_one [of xs "fst p" "snd p" a] marks_refl [OF Cons.prems(1)] Cons.prems(1,3) own n
    by (auto simp: gc_mark_root_def split_beta)
  have N: "?N \<subseteq> set xs" using Cons.prems(3) by auto
  have r: "remarked (fst p) (fst ?q)" "gc_refs_at (fst ?q) b = gc_refs_at (fst p) b" for b using q by (simp_all add: marks_def)
  have "marks xs ?q (fold (gc_mark_root g (length xs)) ys ?q) {a \<in> set ys. 0 < gc_refs_at (fst ?q) a}"
    by (rule Cons.IH) (use stack_ok_marks [OF Cons.prems(1) q N] Cons.prems(2,3) gc_list_remarked [OF r(1)] in auto)
  then have "marks xs p (fold (gc_mark_root g (length xs)) ys ?q) (?N \<union> {a \<in> set ys. 0 < gc_refs_at (fst p) a})"
    using marks_trans [OF q] by (simp only: r(2))
  moreover have "?N \<union> {a \<in> set ys. 0 < gc_refs_at (fst p) a} = {b \<in> set (a # ys). 0 < gc_refs_at (fst p) b}" by auto
  ultimately have "marks xs p (fold (gc_mark_root g (length xs)) ys ?q) {b \<in> set (a # ys). 0 < gc_refs_at (fst p) b}" by (simp only:)
  then show ?case by simp
qed

lemma gc_mark_ok:
  assumes l: "gc_list h g xs"
  shows "remarked h (gc_mark g xs h) \<and> flags xs (gc_mark g xs h) = {a. tracked_reach h g (gc_roots h g xs) a}"
proof -
  have d: "distinct xs" and own: "\<And>a. a \<in> set xs \<Longrightarrow> gc_node_owner h a = Some g" using l gc_list_owner [OF l] by (auto simp: gc_list_def)
  let ?h1 = "fold (gc_init_refs g) xs h"
  have h1: "remarked h ?h1" "\<And>a. a \<in> set xs \<Longrightarrow> gc_refs_at ?h1 a = cycle_gc_obj_ref_count h a" "\<And>a. a \<in> set xs \<Longrightarrow> \<not> gc_reachable_flag ?h1 a"
    using init_refs [OF d own] by auto
  let ?h2 = "fold (gc_subtract g) xs ?h1"
  have own1: "gc_node_owner ?h1 a = Some g" if "a \<in> set xs" for a using own that remarked_node(1) [OF h1(1)] by simp
  have "inner_refs ?h1 g xs b = inner_refs h g xs b" for b by (simp add: inner_refs_def tracked_refs_def remarked_same [OF h1(1)])
  then have h2: "remarked ?h1 ?h2" "\<And>a. a \<in> set xs \<Longrightarrow> gc_refs_at ?h2 a = cycle_gc_obj_ref_count h a - int (inner_refs h g xs a)" "flags xs ?h2 = {}"
    using subtract_refs [of xs ?h1 g] own1 h1(2,3) by (auto simp: flags_def)
  have r: "remarked h ?h2" using remarked_trans h1(1) h2(1) by blast
  have l2: "gc_list ?h2 g xs" using l gc_list_remarked [OF r] by simp
  let ?p = "fold (gc_mark_root g (length xs)) xs (?h2, [])"
  have s0: "stack_ok xs (?h2, [])" by (simp add: stack_ok_def)
  have roots: "{a \<in> set xs. 0 < gc_refs_at ?h2 a} = gc_roots h g xs" using h2(2) by (auto simp: gc_roots_def)
  then have p: "marks xs (?h2, []) ?p (gc_roots h g xs)" using mark_roots [OF s0, of g xs] l2 by simp
  then have rp: "remarked ?h2 (fst ?p)" "flags xs (fst ?p) = gc_roots h g xs" "set (snd ?p) = gc_roots h g xs" using h2(3) by (simp_all add: marks_def)
  have "remarked h (gc_mark_loop (length xs) g ?p) \<and> flags xs (fst ?p) \<subseteq> flags xs (gc_mark_loop (length xs) g ?p) \<and>
    (\<forall>a\<in>flags xs (gc_mark_loop (length xs) g ?p). gc_next h g a \<subseteq> flags xs (gc_mark_loop (length xs) g ?p) \<and> tracked_reach h g (gc_roots h g xs) a)"
  proof (rule mark_loop_ok)
    show "stack_ok xs ?p" by (rule stack_ok_marks [OF s0 p]) (auto simp: gc_roots_def)
    show "gc_list (fst ?p) g xs" using l2 gc_list_remarked [OF rp(1)] by simp
    show "\<forall>a\<in>flags xs (fst ?p). tracked_reach h g (gc_roots h g xs) a" using rp(2) reach_root by auto
    show "remarked h (fst ?p)" using remarked_trans [OF r rp(1)] .
  qed (use rp in simp)
  moreover have "gc_mark g xs h = gc_mark_loop (length xs) g ?p" by (simp add: gc_mark_def)
  moreover have "a \<in> flags xs (gc_mark g xs h)" if "tracked_reach h g (gc_roots h g xs) a" for a
    using that calculation rp(2) by induction auto
  ultimately show ?thesis by auto
qed

text \<open>The objects that are not marked are referenced only by each other.\<close>

lemma tracked_refs_le: "tracked_refs h g (gc_children obj) b \<le> refs_in (object_values obj) b"
proof -
  have t: "value_target v = Some b" if "cycle_gc_node_from_value h g v = Some b" for v
    using that by (cases v) (auto simp: cycle_gc_node_from_value_def split: if_splits option.splits prod.splits)
  have le: "tracked_refs h g vs b \<le> refs_in vs b" for vs
    by (induction vs) (auto simp: tracked_refs_def t)
  show ?thesis
  proof (cases obj)
    case (GcMap m)
    have "tracked_refs h g (concat (map (\<lambda>slot. if ms_hash slot < 2 then [] else [ms_value slot]) slots)) b \<le>
        refs_in (concat (map (\<lambda>slot. if ms_hash slot < 2 then [] else [ms_key slot, ms_value slot]) slots)) b" for slots
      by (induction slots) (auto simp: tracked_refs_def t)
    then show ?thesis by (simp add: GcMap)
  qed (use le in \<open>simp_all add: tracked_refs_def split: array_data.split\<close>)
qed

lemma inner_refs_sum: "distinct xs \<Longrightarrow> inner_refs h g xs b = (\<Sum>a\<in>set xs. tracked_refs h g (gc_children_at h a) b)"
  by (simp add: inner_refs_def sum_list_distinct_conv_sum_set)

lemma unmarked_referrers:
  assumes c: "counts_ok h ext" and l: "gc_list h g xs" and b: "b \<in> set xs" "b \<notin> gc_roots h g xs"
  shows "ext b = 0" and "0 < refs_in (gc_values_at h a) b \<Longrightarrow> a \<in> set xs \<and> b \<in> gc_next h g a"
proof -
  let ?n = "length (gh_cells h)"
  let ?t = "\<lambda>a. if a \<in> set xs then tracked_refs h g (gc_children_at h a) b else 0"
  have d: "distinct xs" using l by (simp add: gc_list_def)
  have sub: "set xs \<subseteq> {..<?n}" using gc_list_owner [OF l] node_less by (fastforce simp: node_owner split: option.splits)
  have le: "?t a \<le> refs_in (gc_values_at h a) b" for a
    using tracked_refs_le [of h g _ b] by (auto simp: gc_children_at_def gc_values_at_def tracked_refs_def split: option.split)
  have "(\<Sum>a<?n. ?t a) = inner_refs h g xs b"
    using sub by (simp add: inner_refs_sum [OF d] sum.If_cases Int_absorb1)
  moreover obtain obj where "gc_object_at h b = Some obj"
    using b(1) gc_list_owner [OF l, of b] object_node by (fastforce simp: node_owner split: option.splits)
  then have "cycle_gc_obj_ref_count h b = int (heap_refs h b + ext b)" using counts_ok_count [OF c] by (simp add: cycle_gc_obj_ref_count_def)
  ultimately have ge: "heap_refs h b + ext b \<le> (\<Sum>a<?n. ?t a)" using b by (simp add: gc_roots_def)
  have mono: "(\<Sum>a<?n. ?t a) \<le> heap_refs h b" unfolding heap_refs_def by (rule sum_mono) (rule le)
  show "ext b = 0" using ge mono by simp
  assume r: "0 < refs_in (gc_values_at h a) b"
  then have a: "a < ?n" by (cases "a < ?n") (auto simp: gc_values_at_def object_at_beyond)
  have eq: "(\<Sum>a<?n. ?t a) = (\<Sum>a<?n. refs_in (gc_values_at h a) b)" using ge mono by (simp add: heap_refs_def)
  have "?t a = refs_in (gc_values_at h a) b" using sum_mono_inv [OF eq le, of a] a by simp
  then have t: "a \<in> set xs" "0 < tracked_refs h g (gc_children_at h a) b" using r by (auto split: if_splits)
  then show "a \<in> set xs \<and> b \<in> gc_next h g a" by (auto simp: gc_next_def tracked_refs_def filter_empty_conv)
qed

section \<open>Collection\<close>

lemma snapshot_list:
  assumes "gc_list h g xs"
  shows "cycle_gc_snapshot_nodes h (gc_head (gh_gcs h g)) (nat (gc_tracked_count (gh_gcs h g))) = xs"
proof -
  have "cycle_gc_snapshot_nodes h (first_of ys) (length ys) = ys" if "xs = ps @ ys" for ps ys
    using that
  proof (induction ys arbitrary: ps)
    case (Cons y ys)
    obtain n where "node_at h y = Some n" "gn_next n = first_of ys" using gc_list_split [of h g ps y ys] assms Cons.prems by (auto simp: linked_def)
    then show ?case using Cons.IH [of "ps @ [y]"] Cons.prems by simp
  qed simp
  then show ?thesis using assms by (simp add: gc_list_def)
qed

text \<open>
  A sound heap: lists, counts, and only objects of the four tracked kinds in the lists.  \<open>ext\<close> counts the references from
  outside the heap: the stack, the globals, constants.
\<close>

definition gc_heap_ok :: "gc_heap \<Rightarrow> (addr \<Rightarrow> addr list) \<Rightarrow> (addr \<Rightarrow> nat) \<Rightarrow> bool" where
  "gc_heap_ok h T ext \<longleftrightarrow> lists_ok h T \<and> counts_ok h ext \<and> (\<forall>g. \<forall>a\<in>set (T g). kind_ok h a)"

text \<open>Objects that the program can still reach, over all values: elements, fields, keys, members and captured values.\<close>

inductive gc_held :: "gc_heap \<Rightarrow> (addr \<Rightarrow> nat) \<Rightarrow> addr \<Rightarrow> bool" for h ext where
  held_outside: "0 < ext a \<Longrightarrow> gc_held h ext a"
| held_by: "gc_held h ext a \<Longrightarrow> v \<in> set (gc_values_at h a) \<Longrightarrow> value_target v = Some b \<Longrightarrow> gc_held h ext b"

lemma gc_heap_ok_gcs:
  assumes "\<And>gc. gc_head (e gc) = gc_head gc \<and> gc_tail (e gc) = gc_tail gc \<and> gc_tracked_count (e gc) = gc_tracked_count gc"
  shows "gc_heap_ok (gc_update_gc g e h) T ext = gc_heap_ok h T ext"
proof -
  let ?h = "gc_update_gc g e h"
  have "gc_list ?h g' xs = gc_list h g' xs" for g' xs using assms by (simp add: gc_list_def linked_def node_owner)
  moreover have "heap_refs ?h b = heap_refs h b" for b by (rule heap_refs_cong) (simp_all add: gc_values_at_def)
  ultimately show ?thesis by (simp add: gc_heap_ok_def lists_ok_def counts_ok_def kind_ok_def cong: option.case_cong)
qed

lemma refs_in_pos: "v \<in> set vs \<Longrightarrow> value_target v = Some b \<Longrightarrow> 0 < refs_in vs b"
  by (auto simp: refs_in_def filter_empty_conv)

lemma heap_refs_pos: "0 < refs_in (gc_values_at h a) b \<Longrightarrow> 0 < heap_refs h b"
proof -
  assume r: "0 < refs_in (gc_values_at h a) b"
  then have "a < length (gh_cells h)" by (cases "a < length (gh_cells h)") (auto simp: gc_values_at_def object_at_beyond)
  then show ?thesis using r by (auto simp: heap_refs_def intro!: sum_pos2 [of _ a])
qed

lemma collect_nodes:
  fixes h g
  assumes ok: "gc_heap_ok h T ext"
  defines "U \<equiv> gc_unreachable g (T g) (gc_mark g (T g) h)"
  shows "\<exists>h'. gc_break U (gc_mark g (T g) h) = Some h' \<and> gc_heap_ok h' (\<lambda>g. alive h' (T g)) ext \<and>
    (\<forall>a. gc_held h ext a \<longrightarrow> gc_object_at h' a \<noteq> None \<and> content_at h' a = content_at h a) \<and> (\<forall>a\<in>set U. gc_object_at h' a = None) \<and>
    set U = {a \<in> set (T g). \<not> tracked_reach h g (gc_roots h g (T g)) a} \<and> distinct U"
proof -
  let ?xs = "T g" and ?m = "gc_mark g (T g) h" and ?R = "gc_roots h g (T g)"
  have l: "gc_list h g ?xs" and c: "counts_ok h ext" and lo: "lists_ok h T" using ok by (auto simp: gc_heap_ok_def lists_ok_def)
  have m: "remarked h ?m" "flags ?xs ?m = {a. tracked_reach h g ?R a}" using gc_mark_ok [OF l] by auto
  have d: "distinct U" using l by (simp add: U_def gc_unreachable_def gc_list_def)
  have U: "set U = {a \<in> set ?xs. \<not> tracked_reach h g ?R a}"
    using m(2) gc_list_owner [OF l] remarked_node(1) [OF m(1)] by (auto simp: U_def gc_unreachable_def flags_def)
  have out: "ext b = 0" "a \<in> set U" if b: "b \<in> set U" and r: "0 < refs_in (gc_values_at h a) b" for a b
  proof -
    have "b \<in> set ?xs" "b \<notin> ?R" using b U reach_root by auto
    note u = unmarked_referrers [OF c l this]
    show "ext b = 0" by (rule u(1))
    show "a \<in> set U" using u(2) [OF r] b U reach_next by auto
  qed
  have ext: "ext b = 0" if "b \<in> set U" for b
    by (rule unmarked_referrers(1) [OF c l]) (use that U reach_root in auto)
  have safe: "\<forall>a\<in>set U. gc_object_at ?m a \<noteq> None \<and> kind_ok ?m a \<and> ext a = 0"
  proof
    fix a assume a: "a \<in> set U"
    then have "a \<in> set ?xs" using U by simp
    then have "gc_object_at h a \<noteq> None" using gc_list_owner [OF l, of a] object_node by (auto simp: node_owner split: option.splits)
    then show "gc_object_at ?m a \<noteq> None \<and> kind_ok ?m a \<and> ext a = 0"
      using ok \<open>a \<in> set ?xs\<close> ext [OF a] remarked_same [OF m(1)] by (auto simp: gc_heap_ok_def)
  qed
  have cm: "counts_ok ?m ext" "lists_ok ?m T" using c lo remarked_same [OF m(1)] by simp_all
  have closed: "\<forall>a. \<forall>b\<in>set U. 0 < refs_in (gc_values_at ?m a) b \<longrightarrow> a \<in> set U" using out(2) remarked_same(3) [OF m(1)] by simp
  obtain h' where h': "gc_break U ?m = Some h'" "counts_ok h' ext" "changed_only (set U) ?m h'" "lists_ok h' (\<lambda>g. alive h' (T g))"
    "\<forall>a\<in>set U. gc_object_at h' a = None"
    using gc_break_ok [OF cm d safe closed] by blast
  have same: "content_at h' a = content_at h a" if "gc_object_at h' a \<noteq> None" for a
    using changed_onlyD [OF h'(3), of a] bspec [OF h'(5), of a] that remarked_same(4) [OF m(1), of a] by argo
  have "gc_object_at h' a \<noteq> None" if "gc_held h ext a" for a
    using that
  proof induction
    case (held_outside a)
    then show ?case using counts_ok_Some [OF h'(2), of a] by auto
  next
    case (held_by a v b)
    then have "0 < refs_in (gc_values_at h' a) b" using values_at_content [OF same] refs_in_pos by simp
    then show ?case using counts_ok_Some [OF h'(2), of b] heap_refs_pos [of h' a b] by auto
  qed
  moreover have "kind_ok h' a" if "a \<in> set (alive h' (T g'))" for a g'
  proof (rule kind_ok_content [of h' a h])
    show "gc_object_at h' a = None \<or> content_at h' a = content_at h a" using same by blast
    show "kind_ok h a" using ok that by (auto simp: gc_heap_ok_def alive_def)
  qed
  ultimately show ?thesis using h' same U d by (auto simp: gc_heap_ok_def)
qed

lemma tracked_reach_next: "tracked_reach h g R a \<Longrightarrow> gc_next h = gc_next h' \<Longrightarrow> tracked_reach h' g R a"
  by (induction rule: tracked_reach.induct) (auto intro: reach_root reach_next)

lemma held_values: "gc_held h ext a \<Longrightarrow> (\<And>a. gc_values_at h a = gc_values_at h' a) \<Longrightarrow> gc_held h' ext a"
  by (induction rule: gc_held.induct) (auto intro: held_outside held_by)

lemma update_gc_same:
  "gc_values_at (gc_update_gc g e h) a = gc_values_at h a" "content_at (gc_update_gc g e h) a = content_at h a"
  "gc_roots (gc_update_gc g e h) g' xs = gc_roots h g' xs" "tracked_reach (gc_update_gc g e h) g' R a = tracked_reach h g' R a" "gc_held (gc_update_gc g e h) ext a = gc_held h ext a"
  "alive (gc_update_gc g e h) xs = alive h xs"
proof -
  let ?h = "gc_update_gc g e h"
  have o: "gc_node_owner ?h a = gc_node_owner h a" for a by (simp add: node_owner)
  have n: "cycle_gc_node_from_value ?h g' v = cycle_gc_node_from_value h g' v" for g' v
    by (cases v) (simp_all add: cycle_gc_node_from_value_def o split: option.split)
  show v: "gc_values_at ?h a = gc_values_at h a" "content_at ?h a = content_at h a" for a by (simp_all add: gc_values_at_def content_at_def)
  have c: "gc_children_at ?h a = gc_children_at h a" for a by (simp add: gc_children_at_def)
  show "gc_roots ?h g' xs = gc_roots h g' xs" by (simp add: gc_roots_def inner_refs_def tracked_refs_def n c cycle_gc_obj_ref_count_def)
  have "gc_next ?h = gc_next h" by (simp add: gc_next_def n c fun_eq_iff)
  then show "tracked_reach ?h g' R a = tracked_reach h g' R a" using tracked_reach_next [of ?h g' R a h] tracked_reach_next [of h g' R a ?h] by auto
  show "gc_held ?h ext a = gc_held h ext a" using held_values [of ?h ext a h] held_values [of h ext a ?h] v by auto
  show "alive ?h xs = alive h xs" by (simp add: alive_def)
qed


text \<open>A heap with a cycle of two arrays that nothing else refers to, and an array that the program holds.\<close>

definition sample_array :: "addr \<Rightarrow> Value list \<Rightarrow> gc_cell option" where
  "sample_array a es = Some \<lparr>cell_object = GcArray \<lparr>oa_capacity = 4, oa_ref_count = 1, oa_data = Elements es\<rparr>,
     cell_node = cycle_gc_node_init CYCLE_GC_OBJ_ARRAY (Some a)\<rparr>"

definition gc_untracked_sample :: gc_heap where
  "gc_untracked_sample = \<lparr>gh_cells = [sample_array 0 [VAL_ARRAY 1], sample_array 1 [VAL_ARRAY 0], sample_array 2 [VAL_INT 7]], gh_gcs = \<lambda>g. cycle_gc_init\<rparr>"

definition gc_sample :: gc_heap where
  "gc_sample = cycle_gc_track 0 2 (cycle_gc_track 0 1 (cycle_gc_track 0 0 gc_untracked_sample))"

lemma sample_nodes:
  "node_at gc_untracked_sample a = (if a < 3 then Some (cycle_gc_node_init CYCLE_GC_OBJ_ARRAY (Some a)) else None)"
  by (auto simp: node_at_def gc_untracked_sample_def gc_cell_at_def sample_array_def less_Suc_eq numeral_3_eq_3 numeral_2_eq_2)

lemma track_object [simp]: "gc_object_at (cycle_gc_track g a h) b = gc_object_at h b" "length (gh_cells (cycle_gc_track g a h)) = length (gh_cells h)"
  by (auto simp: cycle_gc_track_def Let_def split: option.split)

lemma track_node_other: "lists_ok h T \<Longrightarrow> b \<notin> set (T g) \<Longrightarrow> b \<noteq> a \<Longrightarrow> node_at (cycle_gc_track g a h) b = node_at h b"
proof -
  assume l: "lists_ok h T" and b: "b \<notin> set (T g)" "b \<noteq> a"
  then have "gc_tail (gh_gcs h g) = last_of (T g)" by (simp add: lists_ok_def gc_list_def)
  then show ?thesis using b ends_in_set(2) [of "T g" b] by (auto simp: cycle_gc_track_def Let_def split: option.split)
qed

lemma track_lists:
  assumes "lists_ok h T" and "node_at h a = Some n" and "gn_owner n = None"
  shows "lists_ok (cycle_gc_track g a h) (T(g := T g @ [a]))"
  unfolding lists_ok_def
proof
  fix g'
  have l: "gc_list h g (T g)" for g using assms(1) by (simp add: lists_ok_def)
  show "gc_list (cycle_gc_track g a h) g' ((T(g := T g @ [a])) g')"
  proof (cases "g' = g")
    case True
    then show ?thesis using track_list [OF l assms(2,3)] by simp
  next
    case False
    have o: "gc_node_owner h b = Some g" if "b \<in> set (T g)" for b using gc_list_owner [OF l] that by blast
    have same: "node_at (cycle_gc_track g a h) b = node_at h b" if "gc_node_owner h b = Some g'" for b
    proof -
      have "b \<notin> set (T g)" using o [of b] that False by auto
      moreover have "b \<noteq> a" using that assms(2,3) by (auto simp: node_owner)
      ultimately show ?thesis by (rule track_node_other [OF assms(1)])
    qed
    have was: "gc_node_owner h b = Some g'" if "gc_node_owner (cycle_gc_track g a h) b = Some g'" for b
    proof (cases "b \<in> set (T g @ [a])")
      case True
      then show ?thesis using gc_list_owner [OF track_list [OF l assms(2,3)], of g b] that False by simp
    next
      case out: False
      then show ?thesis using track_node_other [OF assms(1), of b g a] that by (simp add: node_owner)
    qed
    have "linked (cycle_gc_track g a h) g' b p q" if "linked h g' b p q" for b p q
      using same [of b] that by (auto simp: linked_def node_owner)
    moreover have "gh_gcs (cycle_gc_track g a h) g' = gh_gcs h g'"
      using False by (simp add: cycle_gc_track_def Let_def split: option.split)
    ultimately show ?thesis using l [of g'] was False by (simp add: gc_list_def)
  qed
qed

lemma sample_lists: "lists_ok gc_sample ((\<lambda>g. [])(0 := [0, 1, 2]))"
proof -
  let ?h0 = gc_untracked_sample
  let ?h1 = "cycle_gc_track 0 0 ?h0" and ?n = "\<lambda>a. cycle_gc_node_init CYCLE_GC_OBJ_ARRAY (Some a)"
  let ?h2 = "cycle_gc_track 0 1 ?h1"
  have own: "gn_owner (?n a) = None" for a by (simp add: cycle_gc_node_init_def)
  have l0: "lists_ok ?h0 (\<lambda>g. [])"
  proof -
    have "gc_node_owner ?h0 b = None" for b by (simp add: node_owner sample_nodes cycle_gc_node_init_def)
    moreover have "gh_gcs ?h0 g = cycle_gc_init" for g by (simp add: gc_untracked_sample_def)
    ultimately show ?thesis by (simp add: lists_ok_def gc_list_def cycle_gc_init_def)
  qed
  have l1: "lists_ok ?h1 ((\<lambda>g. [])(0 := [0]))" using track_lists [OF l0 _ own, of 0 0] by (simp add: sample_nodes)
  have n1: "node_at ?h1 1 = Some (?n 1)" "node_at ?h1 2 = Some (?n 2)" using track_node_other [OF l0] by (simp_all add: sample_nodes)
  have l2: "lists_ok ?h2 ((\<lambda>g. [])(0 := [0, 1]))" using track_lists [OF l1 n1(1) own, of 0] by simp
  have n2: "node_at ?h2 2 = Some (?n 2)" using track_node_other [OF l1, of 2 0 1] n1 by simp
  show ?thesis using track_lists [OF l2 n2 own, of 0] by (simp add: gc_sample_def)
qed

lemma sample_objects: "gc_object_at gc_sample a =
  (if a < 3 then Some (GcArray \<lparr>oa_capacity = 4, oa_ref_count = 1, oa_data = Elements [[VAL_ARRAY 1, VAL_ARRAY 0, VAL_INT 7] ! a]\<rparr>) else None)"
proof -
  have "gc_object_at gc_sample a = gc_object_at gc_untracked_sample a" by (simp add: gc_sample_def)
  then show ?thesis
    by (auto simp: gc_object_at_def gc_untracked_sample_def gc_cell_at_def sample_array_def less_Suc_eq numeral_3_eq_3 numeral_2_eq_2)
qed

lemma gc_sample_ok: "gc_heap_ok gc_sample ((\<lambda>g. [])(0 := [0, 1, 2])) (\<lambda>a. if a = 2 then 1 else 0)"
proof -
  have len: "length (gh_cells gc_sample) = 3" by (simp add: gc_sample_def gc_untracked_sample_def)
  have "heap_refs gc_sample b = (if b < 2 then 1 else 0)" for b
    by (auto simp: heap_refs_def len gc_values_at_def sample_objects numeral_3_eq_3 lessThan_Suc refs_in_def)
  then have "counts_ok gc_sample (\<lambda>a. if a = 2 then 1 else 0)" by (auto simp: counts_ok_def sample_objects)
  then show ?thesis using sample_lists by (auto simp: gc_heap_ok_def kind_ok_def sample_objects tracked_kind_def split: if_splits)
qed

lemma sample_collecting: "\<not> gc_is_collecting (gh_gcs gc_sample 0)"
  by (simp add: gc_sample_def cycle_gc_track_def Let_def gc_untracked_sample_def cycle_gc_init_def cycle_gc_increment_allocations_since_collect_def split: option.split)


text \<open>
  Claim C10.  The list of tracked objects is kept: with every collector's list well formed, tracking an object appends it to
  one list and untracking removes it from the list that has it, whatever its place; all links, ends and counts are those of the
  new lists.
\<close>

theorem gc_lists_kept:
  assumes "lists_ok h T"
  shows "(gc_object_at h a \<noteq> None \<and> gc_node_owner h a = None \<longrightarrow> lists_ok (cycle_gc_track g a h) (T(g := T g @ [a]))) \<and>
    lists_ok (cycle_gc_untrack a h) (\<lambda>g. remove1 a (T g))"
proof
  show "gc_object_at h a \<noteq> None \<and> gc_node_owner h a = None \<longrightarrow> lists_ok (cycle_gc_track g a h) (T(g := T g @ [a]))"
    using track_lists [OF assms, of a] object_node [of h a] by (auto simp: node_owner split: option.splits)
  show "lists_ok (cycle_gc_untrack a h) (\<lambda>g. remove1 a (T g))" by (rule untrack_lists [OF assms])
qed

theorem gc_lists_kept_witness:
  "lists_ok (cycle_gc_untrack 1 gc_sample) (\<lambda>g. remove1 1 (((\<lambda>g. [])(0 := [0, 1, 2])) g))"
  using gc_lists_kept [OF sample_lists, of 1 0] by simp


end
