(* ===== verification/Artifact.thy ===== *)
theory Artifact
  imports Bytecode "HOL-Library.Monad_Syntax"
begin

text \<open>
  Bytecode files, from \<^verbatim>\<open>src/src/artifact.c\<close>: little-endian primitives, functions with their code, constants and profiles, and
  the artifact around them.  Reading is on a buffer with an offset; every failure is an error value.
\<close>

section \<open>Bytes\<close>

text \<open>
  An output stream: the bytes written so far and how many more the device accepts.  A failing \<^verbatim>\<open>fwrite\<close> is \<open>None\<close>; what it
  leaves in the file does not matter, because the file is then removed.
\<close>

record out_file =
  f_bytes :: "u8 list"
  f_room :: nat

definition fwrite :: "u8 list \<Rightarrow> out_file \<Rightarrow> out_file option" where
  "fwrite bs f = (if length bs \<le> f_room f then Some (f\<lparr>f_bytes := f_bytes f @ bs, f_room := f_room f - length bs\<rparr>) else None)"

definition write_u8 :: "u8 \<Rightarrow> out_file \<Rightarrow> out_file option" where
  "write_u8 v = fwrite [v]"

definition u32_bytes :: "u32 \<Rightarrow> u8 list" where
  "u32_bytes v =
     [ucast (v AND 0xFF), ucast (drop_bit 8 v AND 0xFF), ucast (drop_bit 16 v AND 0xFF), ucast (drop_bit 24 v AND 0xFF)]"

definition write_u32_le :: "u32 \<Rightarrow> out_file \<Rightarrow> out_file option" where
  "write_u32_le v = fwrite (u32_bytes v)"

definition write_i32_le :: "int \<Rightarrow> out_file \<Rightarrow> out_file option" where
  "write_i32_le v = write_u32_le (word_of_int v)"

definition u64_bytes :: "u64 \<Rightarrow> u8 list" where
  "u64_bytes v =
     [ucast (v AND 0xFF), ucast (drop_bit 8 v AND 0xFF), ucast (drop_bit 16 v AND 0xFF), ucast (drop_bit 24 v AND 0xFF),
      ucast (drop_bit 32 v AND 0xFF), ucast (drop_bit 40 v AND 0xFF), ucast (drop_bit 48 v AND 0xFF), ucast (drop_bit 56 v AND 0xFF)]"

definition write_u64_le :: "u64 \<Rightarrow> out_file \<Rightarrow> out_file option" where
  "write_u64_le v = fwrite (u64_bytes v)"

text \<open>A signed integer and a double are their 64 bits.\<close>

definition write_i64_le :: "u64 \<Rightarrow> out_file \<Rightarrow> out_file option" where
  "write_i64_le v = write_u64_le v"

definition write_double_le :: "u64 \<Rightarrow> out_file \<Rightarrow> out_file option" where
  "write_double_le v = write_u64_le v"

record ArtifactReader =
  ar_data :: "u8 list"
  ar_size :: nat
  ar_offset :: nat

definition artifact_reader_read :: "nat \<Rightarrow> ArtifactReader \<Rightarrow> (u8 list \<times> ArtifactReader) option" where
  "artifact_reader_read bytes reader =
     (if bytes > ar_size reader \<or> ar_offset reader > ar_size reader - bytes then None
      else Some (take bytes (drop (ar_offset reader) (ar_data reader)), reader\<lparr>ar_offset := ar_offset reader + bytes\<rparr>))"

definition read_u8 :: "ArtifactReader \<Rightarrow> (u8 \<times> ArtifactReader) option" where
  "read_u8 reader = (case artifact_reader_read 1 reader of None \<Rightarrow> None | Some (b, reader) \<Rightarrow> Some (b ! 0, reader))"

definition read_u32_le :: "ArtifactReader \<Rightarrow> (u32 \<times> ArtifactReader) option" where
  "read_u32_le reader =
     (case artifact_reader_read 4 reader of
        None \<Rightarrow> None
      | Some (b, reader) \<Rightarrow>
          Some (ucast (b ! 0) OR push_bit 8 (ucast (b ! 1)) OR push_bit 16 (ucast (b ! 2)) OR push_bit 24 (ucast (b ! 3)), reader))"

definition read_i32_le :: "ArtifactReader \<Rightarrow> (int \<times> ArtifactReader) option" where
  "read_i32_le reader = (case read_u32_le reader of None \<Rightarrow> None | Some (tmp, reader) \<Rightarrow> Some (sint tmp, reader))"

definition read_u64_le :: "ArtifactReader \<Rightarrow> (u64 \<times> ArtifactReader) option" where
  "read_u64_le reader =
     (case artifact_reader_read 8 reader of
        None \<Rightarrow> None
      | Some (b, reader) \<Rightarrow>
          Some (ucast (b ! 0) OR push_bit 8 (ucast (b ! 1)) OR push_bit 16 (ucast (b ! 2)) OR push_bit 24 (ucast (b ! 3)) OR
                push_bit 32 (ucast (b ! 4)) OR push_bit 40 (ucast (b ! 5)) OR push_bit 48 (ucast (b ! 6)) OR push_bit 56 (ucast (b ! 7)),
                reader))"

definition read_i64_le :: "ArtifactReader \<Rightarrow> (u64 \<times> ArtifactReader) option" where
  "read_i64_le reader = read_u64_le reader"

definition read_double_le :: "ArtifactReader \<Rightarrow> (u64 \<times> ArtifactReader) option" where
  "read_double_le reader = read_u64_le reader"

definition ARTIFACT_MAX_COUNT :: u32 where "ARTIFACT_MAX_COUNT = 100000000"
definition ARTIFACT_MAX_STRING_BYTES :: u32 where "ARTIFACT_MAX_STRING_BYTES = 268435456"

definition write_string :: "string option \<Rightarrow> out_file \<Rightarrow> out_file option" where
  "write_string s f =
     (let s = (case s of None \<Rightarrow> '''' | Some s \<Rightarrow> cstr s); len = length s
      in if len > 4294967295 then None
         else case write_u32_le (of_nat len) f of
                None \<Rightarrow> None
              | Some f \<Rightarrow> if len = 0 then Some f else fwrite (map of_char s) f)"

text \<open>The characters read, without the zero the code appends; they may contain zeros of their own.\<close>

definition read_string :: "ArtifactReader \<Rightarrow> (string \<times> ArtifactReader) option" where
  "read_string reader =
     (case read_u32_le reader of
        None \<Rightarrow> None
      | Some (len, reader) \<Rightarrow>
          if len > ARTIFACT_MAX_STRING_BYTES then None
          else if len > 0
          then case artifact_reader_read (unat len) reader of
                 None \<Rightarrow> None
               | Some (b, reader) \<Rightarrow> Some (map (\<lambda>b. char_of (unat b)) b, reader)
          else Some ('''', reader))"

section \<open>Streams in the middle\<close>

text \<open>A reader that has read \<open>pre\<close> and has \<open>rest\<close> to read.\<close>

definition mid :: "u8 list \<Rightarrow> u8 list \<Rightarrow> ArtifactReader" where
  "mid pre rest = \<lparr>ar_data = pre @ rest, ar_size = length (pre @ rest), ar_offset = length pre\<rparr>"

lemma reader_read_mid: "n = length bs \<Longrightarrow> artifact_reader_read n (mid pre (bs @ rest)) = Some (bs, mid (pre @ bs) rest)"
  by (simp add: artifact_reader_read_def mid_def)

lemma write_then [simp]:
  "Option.bind (fwrite a f) (fwrite b) = fwrite (a @ b) f"
  "Option.bind (fwrite a f) (\<lambda>f. Option.bind (fwrite b f) k) = Option.bind (fwrite (a @ b) f) k"
  by (auto simp: fwrite_def)

lemma low_byte:
  fixes v :: "'a::len word"
  assumes "8 \<le> LENGTH('a)"
  shows "ucast (ucast (v AND 0xFF) :: u8) = take_bit 8 v"
proof -
  have "0xFF = (mask 8 :: 'a word)" by (simp add: mask_eq_exp_minus_1)
  then have "v AND 0xFF = take_bit 8 v" by (simp add: take_bit_eq_mask)
  then show ?thesis using assms by (intro bit_word_eqI) (auto simp: bit_simps)
qed

lemma word_bytes_u32:
  fixes v :: u32
  shows "take_bit 8 v OR push_bit 8 (take_bit 8 (drop_bit 8 v)) OR push_bit 16 (take_bit 8 (drop_bit 16 v)) OR
    push_bit 24 (take_bit 8 (drop_bit 24 v)) = v" (is "?w = v")
proof (rule bit_word_eqI)
  fix n assume "n < LENGTH(32)"
  then consider "n < 8" | "8 \<le> n" "n < 16" | "16 \<le> n" "n < 24" | "24 \<le> n" "n < 32" by fastforce
  then show "bit ?w n = bit v n" by cases (auto simp: bit_simps)
qed

lemma word_bytes_u64:
  fixes v :: u64
  shows "take_bit 8 v OR push_bit 8 (take_bit 8 (drop_bit 8 v)) OR push_bit 16 (take_bit 8 (drop_bit 16 v)) OR
    push_bit 24 (take_bit 8 (drop_bit 24 v)) OR push_bit 32 (take_bit 8 (drop_bit 32 v)) OR
    push_bit 40 (take_bit 8 (drop_bit 40 v)) OR push_bit 48 (take_bit 8 (drop_bit 48 v)) OR
    push_bit 56 (take_bit 8 (drop_bit 56 v)) = v" (is "?w = v")
proof (rule bit_word_eqI)
  fix n assume "n < LENGTH(64)"
  then consider "n < 8" | "8 \<le> n" "n < 16" | "16 \<le> n" "n < 24" | "24 \<le> n" "n < 32" |
    "32 \<le> n" "n < 40" | "40 \<le> n" "n < 48" | "48 \<le> n" "n < 56" | "56 \<le> n" "n < 64" by fastforce
  then show "bit ?w n = bit v n" by cases (auto simp: bit_simps)
qed

lemma read_u8_mid [simp]: "read_u8 (mid pre (b # rest)) = Some (b, mid (pre @ [b]) rest)"
  using reader_read_mid [of 1 "[b]" pre rest] by (simp add: read_u8_def)

lemma read_u32_mid [simp]: "read_u32_le (mid pre (u32_bytes v @ rest)) = Some (v, mid (pre @ u32_bytes v) rest)"
proof -
  have "artifact_reader_read 4 (mid pre (u32_bytes v @ rest)) = Some (u32_bytes v, mid (pre @ u32_bytes v) rest)"
    by (rule reader_read_mid) (simp add: u32_bytes_def)
  moreover have "u32_bytes v ! 1 = ucast (drop_bit 8 v AND 0xFF)" "u32_bytes v ! 2 = ucast (drop_bit 16 v AND 0xFF)"
    "u32_bytes v ! 3 = ucast (drop_bit 24 v AND 0xFF)" "u32_bytes v ! 0 = ucast (v AND 0xFF)"
    by (simp_all only: u32_bytes_def nth_Cons_0 nth_Cons_Suc One_nat_def numeral_2_eq_2 numeral_3_eq_3)
  ultimately show ?thesis using word_bytes_u32 [of v] by (simp add: read_u32_le_def low_byte)
qed

lemma read_u64_mid [simp]: "read_u64_le (mid pre (u64_bytes v @ rest)) = Some (v, mid (pre @ u64_bytes v) rest)"
proof -
  have "artifact_reader_read 8 (mid pre (u64_bytes v @ rest)) = Some (u64_bytes v, mid (pre @ u64_bytes v) rest)"
    by (rule reader_read_mid) (simp add: u64_bytes_def)
  moreover have "u64_bytes v ! 1 = ucast (drop_bit 8 v AND 0xFF)" "u64_bytes v ! 2 = ucast (drop_bit 16 v AND 0xFF)"
    "u64_bytes v ! 3 = ucast (drop_bit 24 v AND 0xFF)" "u64_bytes v ! 0 = ucast (v AND 0xFF)"
    "u64_bytes v ! 4 = ucast (drop_bit 32 v AND 0xFF)" "u64_bytes v ! 5 = ucast (drop_bit 40 v AND 0xFF)"
    "u64_bytes v ! 6 = ucast (drop_bit 48 v AND 0xFF)" "u64_bytes v ! 7 = ucast (drop_bit 56 v AND 0xFF)"
    by (simp_all add: u64_bytes_def eval_nat_numeral del: take_bit_numeral_1)
  ultimately show ?thesis using word_bytes_u64 [of v] by (simp add: read_u64_le_def low_byte)
qed

definition is_i32 :: "int \<Rightarrow> bool" where
  "is_i32 i \<longleftrightarrow> - 2147483648 \<le> i \<and> i < 2147483648"

lemma read_i32_mid [simp]:
  "is_i32 i \<Longrightarrow> read_i32_le (mid pre (u32_bytes (word_of_int i) @ rest)) = Some (i, mid (pre @ u32_bytes (word_of_int i)) rest)"
  by (simp add: read_i32_le_def is_i32_def signed_of_int signed_take_bit_int_eq_self)

text \<open>The text of a C string in the file.\<close>

definition string_bytes :: "string option \<Rightarrow> u8 list" where
  "string_bytes s = (let s = (case s of None \<Rightarrow> '''' | Some s \<Rightarrow> cstr s) in u32_bytes (of_nat (length s)) @ map of_char s)"

definition string_fits :: "string option \<Rightarrow> bool" where
  "string_fits s \<longleftrightarrow> (case s of None \<Rightarrow> True | Some s \<Rightarrow> length (cstr s) \<le> 268435456)"

lemma write_string_eq: "string_fits s \<Longrightarrow> write_string s = fwrite (string_bytes s)"
  by (rule ext) (auto simp: write_string_def write_u32_le_def string_bytes_def string_fits_def Let_def fwrite_def split: option.splits)

lemma char_byte [simp]: "char_of (unat (of_char c :: u8)) = c"
proof -
  have "(of_char c :: u8) = of_nat (of_char c)" by (simp add: of_nat_of_char)
  moreover have "(of_char c :: nat) < 256" by simp
  ultimately show ?thesis by (simp add: unsigned_of_nat take_bit_nat_eq_self)
qed

lemma read_string_mid:
  assumes "string_fits s"
  shows "read_string (mid pre (string_bytes s @ rest)) = Some (case s of None \<Rightarrow> '''' | Some s \<Rightarrow> cstr s, mid (pre @ string_bytes s) rest)"
proof -
  define t where "t = (case s of None \<Rightarrow> '''' | Some s \<Rightarrow> cstr s)"
  have len: "length t \<le> 268435456" using assms by (auto simp: t_def string_fits_def split: option.splits)
  then have n: "unat (of_nat (length t) :: u32) = length t" by (simp add: unsigned_of_nat take_bit_nat_eq_self)
  have e: "string_bytes s = u32_bytes (of_nat (length t)) @ map of_char t" by (simp add: string_bytes_def t_def Let_def)
  have "\<not> ARTIFACT_MAX_STRING_BYTES < of_nat (length t)" using len n by (simp add: ARTIFACT_MAX_STRING_BYTES_def word_less_nat_alt)
  moreover have "(0 :: u32) < of_nat (length t) \<longleftrightarrow> t \<noteq> ''''" using n by (simp add: word_less_nat_alt)
  moreover have "artifact_reader_read (length t) (mid p (map of_char t @ rest)) = Some (map of_char t, mid (p @ map of_char t) rest)" for p
    by (rule reader_read_mid) simp
  ultimately show ?thesis unfolding e t_def [symmetric] by (simp add: read_string_def n comp_def)
qed

section \<open>Functions\<close>

text \<open>
  The parts of \<^verbatim>\<open>ObjFunction\<close> that a file carries.  An array with its count is a list, so a count is never negative and the
  array never missing; \<^verbatim>\<open>debug_local_names\<close> may be \<open>NULL\<close>.  Enumerations are the integers the code casts them to.
\<close>

record JitCompiledPlan =
  jp_kind :: int
  jp_op :: int
  jp_flags :: u8
  jp_local_slot :: u8
  jp_local_slot_b :: u8
  jp_int_const0 :: u64
  jp_int_const1 :: u64

record JitFunctionSummary =
  js_kind :: int
  js_op :: int
  js_slot0 :: u8
  js_slot1 :: u8
  js_int_const0 :: u64
  js_int_const1 :: u64

record JitFunctionProfile =
  jf_flags :: u8
  jf_support_mask :: u8
  jf_native_family_mask :: u8
  jf_param_count :: int
  jf_local_count :: int
  jf_capture_count :: int
  jf_summary :: JitFunctionSummary

record CodeFunction =
  cf_chunk :: Chunk
  cf_constants :: ConstantPool
  cf_param_count :: int
  cf_local_count :: int
  cf_debug_local_names :: "string option list option"
  cf_capture_local_slots :: "int list"
  cf_is_async :: bool
  cf_defer_handler_ip :: int
  cf_defer_return_slot :: int
  cf_name :: "string option"
  cf_source_file :: "string option"
  cf_jit_profile :: JitFunctionProfile
  cf_jit_hint_plan :: JitCompiledPlan

abbreviation cf_capture_count :: "CodeFunction \<Rightarrow> int" where
  "cf_capture_count func \<equiv> int (length (cf_capture_local_slots func))"

text \<open>A new function; \<^verbatim>\<open>op\<close> and \<^verbatim>\<open>flags\<close> of the plan are not initialised and keep what the memory had.\<close>

definition obj_function_create :: "JitCompiledPlan \<Rightarrow> CodeFunction" where
  "obj_function_create memory =
     \<lparr>cf_chunk = chunk_init, cf_constants = constant_pool_init, cf_param_count = 0, cf_local_count = 0,
      cf_debug_local_names = None, cf_capture_local_slots = [], cf_is_async = False,
      cf_defer_handler_ip = - 1, cf_defer_return_slot = - 1, cf_name = None, cf_source_file = None,
      cf_jit_profile = \<lparr>jf_flags = 0, jf_support_mask = 0, jf_native_family_mask = 0, jf_param_count = 0, jf_local_count = 0,
        jf_capture_count = 0, jf_summary = \<lparr>js_kind = 0, js_op = 0, js_slot0 = 0, js_slot1 = 0, js_int_const0 = 0, js_int_const1 = 0\<rparr>\<rparr>,
      cf_jit_hint_plan = memory\<lparr>jp_kind := 0, jp_local_slot := 0, jp_local_slot_b := 0, jp_int_const0 := 0, jp_int_const1 := 0\<rparr>\<rparr>"

subsection \<open>Writing\<close>

definition write_capture :: "CodeFunction \<Rightarrow> int \<Rightarrow> out_file \<Rightarrow> out_file option" where
  "write_capture func slot f =
     (if slot < cf_param_count func \<or> slot \<ge> cf_local_count func then None else write_u32_le (word_of_int slot) f)"

definition debug_names :: "CodeFunction \<Rightarrow> string option list" where
  "debug_names func =
     map (\<lambda>i. case cf_debug_local_names func of None \<Rightarrow> None | Some names \<Rightarrow> if i < length names then names ! i else None)
       [0..<nat (cf_local_count func)]"

definition debug_lines :: "Chunk \<Rightarrow> int list" where
  "debug_lines chunk =
     map (\<lambda>i. if i < length (ch_debug_info chunk) then di_line (ch_debug_info chunk ! i) else 0) [0..<length (ch_code chunk)]"

fun write_constant :: "Constant \<Rightarrow> out_file \<Rightarrow> out_file option" where
  "write_constant (CONST_INT v) f = do { f \<leftarrow> write_i32_le 0 f; write_i64_le v f }"
| "write_constant (CONST_DOUBLE v) f = do { f \<leftarrow> write_i32_le 1 f; write_double_le v f }"
| "write_constant (CONST_STRING s) f = do { f \<leftarrow> write_i32_le 2 f; write_string s f }"
| "write_constant (CONST_BIGINT s) f = do { f \<leftarrow> write_i32_le 3 f; write_string s f }"
| "write_constant (CONST_BOOL v) f = do { f \<leftarrow> write_i32_le 4 f; write_i64_le v f }"
| "write_constant (CONST_OTHER t) f = do { f \<leftarrow> write_i32_le t f; None }"

definition write_hint_plan :: "JitCompiledPlan \<Rightarrow> out_file \<Rightarrow> out_file option" where
  "write_hint_plan plan f = do {
     f \<leftarrow> write_i32_le (jp_kind plan) f;
     f \<leftarrow> write_i32_le (jp_op plan) f;
     f \<leftarrow> write_u8 (jp_flags plan) f;
     f \<leftarrow> write_u8 (jp_local_slot plan) f;
     f \<leftarrow> write_u8 (jp_local_slot_b plan) f;
     f \<leftarrow> write_i64_le (jp_int_const0 plan) f;
     write_i64_le (jp_int_const1 plan) f }"

definition write_profile :: "JitFunctionProfile \<Rightarrow> out_file \<Rightarrow> out_file option" where
  "write_profile profile f = do {
     f \<leftarrow> write_u8 (jf_flags profile) f;
     f \<leftarrow> write_u8 (jf_support_mask profile) f;
     f \<leftarrow> write_u8 (jf_native_family_mask profile) f;
     f \<leftarrow> write_i32_le (jf_param_count profile) f;
     f \<leftarrow> write_i32_le (jf_local_count profile) f;
     f \<leftarrow> write_i32_le (jf_capture_count profile) f;
     f \<leftarrow> write_i32_le (js_kind (jf_summary profile)) f;
     f \<leftarrow> write_i32_le (js_op (jf_summary profile)) f;
     f \<leftarrow> write_u8 (js_slot0 (jf_summary profile)) f;
     f \<leftarrow> write_u8 (js_slot1 (jf_summary profile)) f;
     f \<leftarrow> write_i64_le (js_int_const0 (jf_summary profile)) f;
     write_i64_le (js_int_const1 (jf_summary profile)) f }"

definition artifact_write_function :: "CodeFunction option \<Rightarrow> out_file \<Rightarrow> out_file option" where
  "artifact_write_function func f =
     (case func of
        None \<Rightarrow> None
      | Some func \<Rightarrow> do {
          f \<leftarrow> write_string (cf_name func) f;
          f \<leftarrow> write_string (cf_source_file func) f;
          f \<leftarrow> write_u8 (if cf_is_async func then 1 else 0) f;
          f \<leftarrow> write_i32_le (cf_defer_handler_ip func) f;
          f \<leftarrow> write_i32_le (cf_defer_return_slot func) f;
          if cf_param_count func < 0 \<or> cf_local_count func < 0 then None
          else do {
            f \<leftarrow> write_u32_le (word_of_int (cf_param_count func)) f;
            f \<leftarrow> write_u32_le (word_of_int (cf_local_count func)) f;
            if cf_capture_count func > cf_local_count func then None
            else do {
              f \<leftarrow> write_u32_le (of_nat (length (cf_capture_local_slots func))) f;
              f \<leftarrow> each (write_capture func) (cf_capture_local_slots func) f;
              f \<leftarrow> each write_string (debug_names func) f;
              f \<leftarrow> write_u32_le (of_nat (length (ch_code (cf_chunk func)))) f;
              f \<leftarrow> (if ch_code (cf_chunk func) = [] then Some f else fwrite (ch_code (cf_chunk func)) f);
              f \<leftarrow> write_u32_le (of_nat (length (ch_code (cf_chunk func)))) f;
              f \<leftarrow> each write_i32_le (debug_lines (cf_chunk func)) f;
              f \<leftarrow> write_u32_le (of_nat (length (cp_constants (cf_constants func)))) f;
              f \<leftarrow> each write_constant (cp_constants (cf_constants func)) f;
              f \<leftarrow> write_hint_plan (cf_jit_hint_plan func) f;
              write_profile (cf_jit_profile func) f } } })"

subsection \<open>Reading\<close>

datatype artifact_error = Message string | Unsupported_version u32 | Unsupported_constant int

definition need :: "'a option \<Rightarrow> artifact_error \<Rightarrow> ('a \<Rightarrow> artifact_error + 'b) \<Rightarrow> artifact_error + 'b" where
  "need x e k = (case x of None \<Rightarrow> Inl e | Some a \<Rightarrow> k a)"

definition andthen :: "artifact_error + 'a \<Rightarrow> ('a \<Rightarrow> artifact_error + 'b) \<Rightarrow> artifact_error + 'b" where
  "andthen x k = (case x of Inl e \<Rightarrow> Inl e | Inr a \<Rightarrow> k a)"

fun read_each :: "nat \<Rightarrow> (ArtifactReader \<Rightarrow> artifact_error + ('a \<times> ArtifactReader)) \<Rightarrow> ArtifactReader \<Rightarrow>
    artifact_error + ('a list \<times> ArtifactReader)" where
  "read_each 0 rd r = Inr ([], r)"
| "read_each (Suc n) rd r =
     andthen (rd r) (\<lambda>(x, r). andthen (read_each n rd r) (\<lambda>(xs, r). Inr (x # xs, r)))"

type_synonym function_reader = "CodeFunction \<Rightarrow> ArtifactReader \<Rightarrow> artifact_error + (CodeFunction \<times> ArtifactReader)"

text \<open>An empty text becomes \<open>NULL\<close>.\<close>

definition text_or_null :: "string \<Rightarrow> string option" where
  "text_or_null s = (case s of [] \<Rightarrow> None | c # cs \<Rightarrow> if c = CHR 0x00 then None else Some s)"

definition read_names :: "u32 \<Rightarrow> function_reader" where
  "read_names version func r =
     need (read_string r) (Message ''Failed to read function name'') (\<lambda>(name, r).
       let func = func\<lparr>cf_name := text_or_null name\<rparr>
       in if version < 3 then Inr (func, r)
          else need (read_string r) (Message ''Failed to read function source file'') (\<lambda>(source_file, r).
            Inr (func\<lparr>cf_source_file := text_or_null source_file\<rparr>, r)))"

definition read_flags :: "u32 \<Rightarrow> function_reader" where
  "read_flags version func r =
     andthen
       (if version < 6 then Inr (func, r)
        else need (read_u8 r) (Message ''Failed to read async function flag'') (\<lambda>(is_async, r).
          Inr (func\<lparr>cf_is_async := is_async \<noteq> 0\<rparr>, r)))
       (\<lambda>(func, r).
         if version < 7 then Inr (func, r)
         else need (read_i32_le r) (Message ''Failed to read defer metadata'') (\<lambda>(handler_ip, r).
           need (read_i32_le r) (Message ''Failed to read defer metadata'') (\<lambda>(return_slot, r).
             Inr (func\<lparr>cf_defer_handler_ip := handler_ip, cf_defer_return_slot := return_slot\<rparr>, r))))"

definition INT_MAX_u32 :: u32 where "INT_MAX_u32 = 0x7FFFFFFF"

definition read_capture :: "u32 \<Rightarrow> u32 \<Rightarrow> ArtifactReader \<Rightarrow> artifact_error + (int \<times> ArtifactReader)" where
  "read_capture param_count local_count r =
     need (read_u32_le r) (Message ''Failed to read closure capture slot'') (\<lambda>(slot, r).
       if slot > INT_MAX_u32 \<or> slot < param_count \<or> slot \<ge> local_count then Inl (Message ''Closure capture slot out of range'')
       else Inr (uint slot, r))"

definition read_captures :: "u32 \<Rightarrow> u32 \<Rightarrow> u32 \<Rightarrow> function_reader" where
  "read_captures version param_count local_count func r =
     (if version < 4 then Inr (func, r)
      else need (read_u32_le r) (Message ''Failed to read closure capture count'') (\<lambda>(capture_count, r).
        if capture_count > INT_MAX_u32 \<or> capture_count > local_count then Inl (Message ''Closure capture count out of range'')
        else andthen (read_each (unat capture_count) (read_capture param_count local_count) r) (\<lambda>(slots, r).
          Inr (func\<lparr>cf_capture_local_slots := slots\<rparr>, r))))"

definition read_debug_name :: "ArtifactReader \<Rightarrow> artifact_error + (string option \<times> ArtifactReader)" where
  "read_debug_name r =
     need (read_string r) (Message ''Failed to read debug local name'') (\<lambda>(name, r). Inr (text_or_null name, r))"

definition read_debug_names :: "u32 \<Rightarrow> function_reader" where
  "read_debug_names version func r =
     (if version < 8 then Inr (func, r)
      else andthen (read_each (nat (cf_local_count func)) read_debug_name r) (\<lambda>(names, r).
        Inr (if cf_local_count func > 0 then func\<lparr>cf_debug_local_names := Some names\<rparr> else func, r)))"

definition read_signature :: "u32 \<Rightarrow> function_reader" where
  "read_signature version func r =
     need (read_u32_le r) (Message ''Failed to read function signature counts'') (\<lambda>(param_count, r).
       need (read_u32_le r) (Message ''Failed to read function signature counts'') (\<lambda>(local_count, r).
         if param_count > INT_MAX_u32 \<or> local_count > INT_MAX_u32 then Inl (Message ''Function parameter/local count out of range'')
         else
           let func = func\<lparr>cf_param_count := uint param_count, cf_local_count := uint local_count,
             cf_debug_local_names := (if local_count > 0 then Some (replicate (unat local_count) None) else None)\<rparr>
           in andthen (read_captures version param_count local_count func r) (\<lambda>(func, r). read_debug_names version func r)))"

definition read_line :: "ArtifactReader \<Rightarrow> artifact_error + (int \<times> ArtifactReader)" where
  "read_line r = need (read_i32_le r) (Message ''Failed to read debug line table'') Inr"

definition read_code :: "function_reader" where
  "read_code func r =
     need (read_u32_le r) (Message ''Failed to read function bytecode length'') (\<lambda>(code_count, r).
       if code_count > ARTIFACT_MAX_COUNT \<or> code_count > INT_MAX_u32 then Inl (Message ''Function bytecode length is too large'')
       else andthen
         (if code_count > 0
          then need (artifact_reader_read (unat code_count) r) (Message ''Failed to read function bytecode'') Inr
          else Inr ([], r))
         (\<lambda>(code, r).
           need (read_u32_le r) (Message ''Failed to read function debug length'') (\<lambda>(debug_count, r).
             if debug_count \<noteq> code_count then Inl (Message ''Function debug metadata does not match bytecode length'')
             else andthen (read_each (unat code_count) read_line r) (\<lambda>(lines, r).
               Inr (if code_count > 0
                    then func\<lparr>cf_chunk := \<lparr>ch_code = code,
                           ch_debug_info = map (\<lambda>(i, l). \<lparr>di_index = int i, di_line = l\<rparr>) (enumerate 0 lines),
                           ch_code_capacity = uint code_count\<rparr>\<rparr>
                    else func, r)))))"

definition read_constant :: "ArtifactReader \<Rightarrow> artifact_error + (Constant \<times> ArtifactReader)" where
  "read_constant r =
     need (read_i32_le r) (Message ''Failed to read constant type'') (\<lambda>(type_index, r).
       if type_index = 0 then need (read_i64_le r) (Message ''Failed to read integer constant'') (\<lambda>(v, r). Inr (CONST_INT v, r))
       else if type_index = 4 then need (read_i64_le r) (Message ''Failed to read integer constant'') (\<lambda>(v, r). Inr (CONST_BOOL v, r))
       else if type_index = 1 then need (read_double_le r) (Message ''Failed to read double constant'') (\<lambda>(v, r). Inr (CONST_DOUBLE v, r))
       else if type_index = 2 then need (read_string r) (Message ''Failed to read string constant'') (\<lambda>(s, r). Inr (CONST_STRING (Some s), r))
       else if type_index = 3 then need (read_string r) (Message ''Failed to read string constant'') (\<lambda>(s, r). Inr (CONST_BIGINT (Some s), r))
       else Inl (Unsupported_constant type_index))"

definition read_constants :: "function_reader" where
  "read_constants func r =
     need (read_u32_le r) (Message ''Failed to read constant pool length'') (\<lambda>(const_count, r).
       if const_count > ARTIFACT_MAX_COUNT \<or> const_count > INT_MAX_u32 then Inl (Message ''Constant pool length is too large'')
       else andthen (read_each (unat const_count) read_constant r) (\<lambda>(cs, r).
         Inr (if const_count > 0
              then func\<lparr>cf_constants := \<lparr>cp_constants = cs, cp_constant_capacity = uint const_count\<rparr>\<rparr>
              else func, r)))"

definition read_hint_plan :: "u32 \<Rightarrow> function_reader" where
  "read_hint_plan version func r =
     (if version < 9 then Inr (func, r)
      else
        let e = Message ''Failed to read function JIT hint metadata''
        in need (read_i32_le r) e (\<lambda>(kind, r).
           need (if version \<ge> 13 then read_i32_le r else Some (0, r)) e (\<lambda>(op, r).
           need (if version \<ge> 13 then read_u8 r else Some (0, r)) e (\<lambda>(flags, r).
           need (read_u8 r) e (\<lambda>(local_slot, r).
           need (read_u8 r) e (\<lambda>(local_slot_b, r).
           need (read_i64_le r) e (\<lambda>(const0, r).
           need (read_i64_le r) e (\<lambda>(const1, r).
             Inr (func\<lparr>cf_jit_hint_plan := \<lparr>jp_kind = kind, jp_op = op, jp_flags = flags, jp_local_slot = local_slot,
               jp_local_slot_b = local_slot_b, jp_int_const0 = const0, jp_int_const1 = const1\<rparr>\<rparr>, r)))))))))"

text \<open>The counts and masks of a profile: what the version of the file has, and the defaults of older versions.\<close>

definition read_profile_head :: "u32 \<Rightarrow> CodeFunction \<Rightarrow> ArtifactReader \<Rightarrow>
    artifact_error + ((u8 \<times> u8 \<times> u8 \<times> int \<times> int \<times> int) \<times> ArtifactReader)" where
  "read_profile_head version func r =
     (if version < 14 then Inr ((0, 0, 0, cf_param_count func, cf_local_count func, cf_capture_count func), r)
      else
        let e = Message ''Failed to read function JIT profile metadata''
        in need (read_u8 r) e (\<lambda>(flags, r).
           need (if version \<ge> 15 then read_u8 r else Some (0, r)) e (\<lambda>(support_mask, r).
           need (if version \<ge> 16 then read_u8 r else Some (0, r)) e (\<lambda>(native_family_mask, r).
           need (read_i32_le r) e (\<lambda>(param_count, r).
           need (read_i32_le r) e (\<lambda>(local_count, r).
           need (read_i32_le r) e (\<lambda>(capture_count, r).
             Inr ((flags, support_mask, native_family_mask, param_count, local_count, capture_count), r))))))))"

definition read_summary :: "ArtifactReader \<Rightarrow> artifact_error + (JitFunctionSummary \<times> ArtifactReader)" where
  "read_summary r =
     (let e = Message ''Failed to read function JIT summary metadata''
      in need (read_i32_le r) e (\<lambda>(kind, r).
         need (read_i32_le r) e (\<lambda>(op, r).
         need (read_u8 r) e (\<lambda>(slot0, r).
         need (read_u8 r) e (\<lambda>(slot1, r).
         need (read_i64_le r) e (\<lambda>(const0, r).
         need (read_i64_le r) e (\<lambda>(const1, r).
           Inr (\<lparr>js_kind = kind, js_op = op, js_slot0 = slot0, js_slot1 = slot1, js_int_const0 = const0, js_int_const1 = const1\<rparr>, r))))))))"

definition JIT_PROFILE_FLAG_ASYNC :: u8 where "JIT_PROFILE_FLAG_ASYNC = 1"
definition JIT_PROFILE_FLAG_HAS_CAPTURES :: u8 where "JIT_PROFILE_FLAG_HAS_CAPTURES = 2"
definition JIT_PROFILE_SUPPORT_STUB :: u8 where "JIT_PROFILE_SUPPORT_STUB = 1"
definition JIT_PROFILE_SUPPORT_NATIVE_SUMMARY :: u8 where "JIT_PROFILE_SUPPORT_NATIVE_SUMMARY = 2"

definition legacy_flags :: "CodeFunction \<Rightarrow> u8" where
  "legacy_flags func =
     (if cf_is_async func then JIT_PROFILE_FLAG_ASYNC else 0) OR
     (if cf_capture_count func \<noteq> 0 then JIT_PROFILE_FLAG_HAS_CAPTURES else 0)"

definition legacy_support_mask :: "CodeFunction \<Rightarrow> int \<Rightarrow> u8" where
  "legacy_support_mask func summary_kind =
     (if \<not> cf_is_async func then JIT_PROFILE_SUPPORT_STUB else 0) OR
     (if summary_kind \<noteq> 0 \<and> jp_kind (cf_jit_hint_plan func) \<noteq> 0 \<and> cf_capture_count func = 0 \<and> \<not> cf_is_async func
      then JIT_PROFILE_SUPPORT_NATIVE_SUMMARY else 0)"

text \<open>Summary kinds 1 to 4 are arithmetic, 5, 6 and 9 comparisons, 7, 8, 10 and 11 selectors.\<close>

definition legacy_native_family :: "int \<Rightarrow> u8" where
  "legacy_native_family kind =
     (if kind \<in> {1, 2, 3, 4} then 1 else if kind \<in> {5, 9, 6} then 2 else if kind \<in> {7, 8, 10, 11} then 4 else 0)"

definition read_profile :: "u32 \<Rightarrow> function_reader" where
  "read_profile version func r =
     (if version < 10 then Inr (func, r)
      else andthen (read_profile_head version func r) (\<lambda>((flags, support_mask, native_family_mask, param_count, local_count, capture_count), r).
        andthen (read_summary r) (\<lambda>(summary, r).
          Inr (func\<lparr>cf_jit_profile :=
            \<lparr>jf_flags = (if version \<ge> 14 then flags else legacy_flags func),
             jf_support_mask = (if version \<ge> 15 then support_mask else legacy_support_mask func (js_kind summary)),
             jf_native_family_mask = (if version \<ge> 16 then native_family_mask else legacy_native_family (js_kind summary)),
             jf_param_count = param_count, jf_local_count = local_count, jf_capture_count = capture_count,
             jf_summary = summary\<rparr>\<rparr>, r))))"

definition artifact_read_function :: "JitCompiledPlan \<Rightarrow> u32 \<Rightarrow> ArtifactReader \<Rightarrow> artifact_error + (CodeFunction \<times> ArtifactReader)" where
  "artifact_read_function memory version r =
     andthen (read_names version (obj_function_create memory) r) (\<lambda>(func, r).
     andthen (read_flags version func r) (\<lambda>(func, r).
     andthen (read_signature version func r) (\<lambda>(func, r).
     andthen (read_code func r) (\<lambda>(func, r).
     andthen (read_constants func r) (\<lambda>(func, r).
     andthen (read_hint_plan version func r) (\<lambda>(func, r).
     read_profile version func r))))))"

section \<open>Files\<close>

record ArtifactDependencyInfo =
  ad_path :: "string option"
  ad_mtime :: u64

record InterfaceDispatchEntry =
  ie_interface_name :: "string option"
  ie_record_name :: "string option"
  ie_method_name :: "string option"
  ie_function_name :: "string option"

record LoadedBytecodeArtifact =
  la_init_function :: "CodeFunction option"
  la_functions :: "CodeFunction list"
  la_main_index :: int
  la_typecheck_flags :: u32
  la_dependencies :: "ArtifactDependencyInfo list"
  la_interface_dispatch_entries :: "InterfaceDispatchEntry list"

definition ARTIFACT_MAGIC :: "u8 list" where "ARTIFACT_MAGIC = map of_char ''TBLC''"
definition ARTIFACT_VERSION :: u32 where "ARTIFACT_VERSION = 16"
definition ARTIFACT_MIN_SUPPORTED_VERSION :: u32 where "ARTIFACT_MIN_SUPPORTED_VERSION = 2"

definition write_dependency :: "ArtifactDependencyInfo \<Rightarrow> out_file \<Rightarrow> out_file option" where
  "write_dependency dep f = do { f \<leftarrow> write_string (ad_path dep) f; write_i64_le (ad_mtime dep) f }"

definition write_dispatch_entry :: "InterfaceDispatchEntry \<Rightarrow> out_file \<Rightarrow> out_file option" where
  "write_dispatch_entry entry f = do {
     f \<leftarrow> write_string (ie_interface_name entry) f;
     f \<leftarrow> write_string (ie_record_name entry) f;
     f \<leftarrow> write_string (ie_method_name entry) f;
     write_string (ie_function_name entry) f }"

text \<open>
  \<open>opened\<close> is the file \<^verbatim>\<open>fopen\<close> returns and \<open>closed\<close> whether \<^verbatim>\<open>fclose\<close> succeeds.  The result is the content of the file, which a
  failure removes.
\<close>

definition artifact_write_file :: "string option \<Rightarrow> out_file option \<Rightarrow> bool \<Rightarrow> CodeFunction option \<Rightarrow> CodeFunction option list \<Rightarrow> int \<Rightarrow>
    u32 \<Rightarrow> ArtifactDependencyInfo list \<Rightarrow> InterfaceDispatchEntry list \<Rightarrow> artifact_error + u8 list" where
  "artifact_write_file path opened closed init_function functions main_index typecheck_flags dependencies entries =
     (if path = None \<or> path = Some '''' then Inl (Message ''Output artifact path is empty'')
      else if functions = [] then Inl (Message ''Artifact requires at least one function'')
      else if main_index < 0 \<or> main_index \<ge> int (length functions) then Inl (Message ''Main function index is out of range'')
      else need opened (Message ''Failed to open output artifact'') (\<lambda>f.
        need (do {
          f \<leftarrow> fwrite ARTIFACT_MAGIC f;
          f \<leftarrow> write_u32_le ARTIFACT_VERSION f;
          f \<leftarrow> write_u32_le typecheck_flags f;
          f \<leftarrow> write_u32_le (of_nat (length dependencies)) f;
          f \<leftarrow> each write_dependency dependencies f;
          f \<leftarrow> write_u32_le (of_nat (length entries)) f;
          f \<leftarrow> each write_dispatch_entry entries f;
          f \<leftarrow> write_u32_le (of_nat (length functions)) f;
          f \<leftarrow> write_i32_le main_index f;
          f \<leftarrow> write_u8 (if init_function \<noteq> None then 1 else 0) f;
          f \<leftarrow> each artifact_write_function functions f;
          (if init_function \<noteq> None then artifact_write_function init_function f else Some f) })
          (Message ''Failed while writing artifact'') (\<lambda>f.
          if closed then Inr (f_bytes f) else Inl (Message ''Failed to finalize artifact''))))"

abbreviation artifact_truncated :: artifact_error where
  "artifact_truncated \<equiv> Message ''Failed to read artifact bytes (possibly truncated or corrupted)''"

definition read_dependency :: "ArtifactReader \<Rightarrow> artifact_error + (ArtifactDependencyInfo \<times> ArtifactReader)" where
  "read_dependency r =
     need (read_string r) artifact_truncated (\<lambda>(path, r).
     need (read_i64_le r) artifact_truncated (\<lambda>(mtime, r). Inr (\<lparr>ad_path = Some path, ad_mtime = mtime\<rparr>, r)))"

definition read_dispatch_entry :: "ArtifactReader \<Rightarrow> artifact_error + (InterfaceDispatchEntry \<times> ArtifactReader)" where
  "read_dispatch_entry r =
     need (read_string r) artifact_truncated (\<lambda>(interface_name, r).
     need (read_string r) artifact_truncated (\<lambda>(record_name, r).
     need (read_string r) artifact_truncated (\<lambda>(method_name, r).
     need (read_string r) artifact_truncated (\<lambda>(function_name, r).
       Inr (\<lparr>ie_interface_name = Some interface_name, ie_record_name = Some record_name, ie_method_name = Some method_name,
         ie_function_name = Some function_name\<rparr>, r)))))"

definition read_count :: "ArtifactReader \<Rightarrow> artifact_error + (u32 \<times> ArtifactReader)" where
  "read_count r =
     need (read_u32_le r) artifact_truncated (\<lambda>(n, r).
       if n > ARTIFACT_MAX_COUNT \<or> n > INT_MAX_u32 then Inl artifact_truncated else Inr (n, r))"

definition read_init :: "JitCompiledPlan \<Rightarrow> u32 \<Rightarrow> u8 \<Rightarrow> ArtifactReader \<Rightarrow> artifact_error + (CodeFunction option \<times> ArtifactReader)" where
  "read_init memory version has_init r =
     (if has_init \<noteq> 0 then andthen (artifact_read_function memory version r) (\<lambda>(f, r). Inr (Some f, r)) else Inr (None, r))"

definition read_functions :: "JitCompiledPlan \<Rightarrow> u32 \<Rightarrow> LoadedBytecodeArtifact \<Rightarrow> ArtifactReader \<Rightarrow>
    artifact_error + (LoadedBytecodeArtifact \<times> ArtifactReader)" where
  "read_functions memory version out r =
     andthen (read_count r) (\<lambda>(function_count, r).
       if function_count = 0 then Inl artifact_truncated
       else need (read_i32_le r) artifact_truncated (\<lambda>(main_index, r).
         need (read_u8 r) artifact_truncated (\<lambda>(has_init, r).
           if main_index < 0 \<or> main_index \<ge> uint function_count then Inl (Message ''Artifact main function index is invalid'')
           else andthen (read_each (unat function_count) (artifact_read_function memory version) r) (\<lambda>(functions, r).
             andthen (read_init memory version has_init r) (\<lambda>(init_function, r).
               Inr (out\<lparr>la_functions := functions, la_main_index := main_index, la_init_function := init_function\<rparr>, r))))))"

definition read_dispatch_entries :: "u32 \<Rightarrow> ArtifactReader \<Rightarrow> artifact_error + (InterfaceDispatchEntry list \<times> ArtifactReader)" where
  "read_dispatch_entries version r =
     (if version \<ge> 5
      then andthen (read_count r) (\<lambda>(entry_count, r). read_each (unat entry_count) read_dispatch_entry r)
      else Inr ([], r))"

definition artifact_load_bytes_internal :: "JitCompiledPlan \<Rightarrow> u8 list \<Rightarrow> artifact_error + LoadedBytecodeArtifact" where
  "artifact_load_bytes_internal memory data =
     (if data = [] then Inl (Message ''Artifact data is empty'')
      else
        let r = \<lparr>ar_data = data, ar_size = length data, ar_offset = 0\<rparr>
        in need (artifact_reader_read (length ARTIFACT_MAGIC) r) artifact_truncated (\<lambda>(magic, r).
           if magic \<noteq> ARTIFACT_MAGIC then Inl (Message ''File is not a TabloLang bytecode artifact'')
           else need (read_u32_le r) artifact_truncated (\<lambda>(version, r).
             if version < ARTIFACT_MIN_SUPPORTED_VERSION \<or> version > ARTIFACT_VERSION then Inl (Unsupported_version version)
             else need (read_u32_le r) artifact_truncated (\<lambda>(typecheck_flags, r).
               andthen (read_count r) (\<lambda>(dep_count, r).
               andthen (read_each (unat dep_count) read_dependency r) (\<lambda>(deps, r).
               andthen (read_dispatch_entries version r) (\<lambda>(entries, r).
               andthen
                 (read_functions memory version
                   \<lparr>la_init_function = None, la_functions = [], la_main_index = - 1, la_typecheck_flags = typecheck_flags,
                    la_dependencies = deps, la_interface_dispatch_entries = entries\<rparr> r) (\<lambda>(out, r).
               if ar_offset r \<noteq> ar_size r then Inl (Message ''Artifact contains trailing data'') else Inr out))))))))"

text \<open>
  Allocations succeed, so the two entry points return what reading the bytes returns.  \<open>content\<close> is the file \<^verbatim>\<open>fopen\<close> finds;
  \<open>closed\<close> tells whether \<^verbatim>\<open>fclose\<close> succeeds.
\<close>

definition artifact_load_bytes :: "JitCompiledPlan \<Rightarrow> u8 list \<Rightarrow> artifact_error + LoadedBytecodeArtifact" where
  "artifact_load_bytes memory data = artifact_load_bytes_internal memory data"

definition artifact_load_file :: "JitCompiledPlan \<Rightarrow> string option \<Rightarrow> u8 list option \<Rightarrow> bool \<Rightarrow> artifact_error + LoadedBytecodeArtifact" where
  "artifact_load_file memory path content closed =
     (if path = None \<or> path = Some '''' then Inl (Message ''Artifact path is empty'')
      else need content (Message ''Failed to open artifact'') (\<lambda>data.
        if length data = 0 then Inl (Message ''Artifact is empty or unreadable'')
        else andthen (artifact_load_bytes_internal memory data) (\<lambda>out.
          if closed then Inr out else Inl (Message ''Failed to close artifact after reading''))))"

definition artifact_file_is_bytecode :: "string option \<Rightarrow> u8 list option \<Rightarrow> bool" where
  "artifact_file_is_bytecode path content =
     (if path = None \<or> path = Some '''' then False
      else case content of None \<Rightarrow> False | Some data \<Rightarrow> take (length ARTIFACT_MAGIC) data = ARTIFACT_MAGIC)"

end
