(* ===== verification/Artifact_Spec.thy ===== *)
theory Artifact_Spec
  imports Artifact
begin

text \<open>
  Writing a bytecode file and loading it gives the artifact back; whatever is loaded is well formed, and reading never leaves
  the buffer.
\<close>

section \<open>What a file contains\<close>

named_theorems artifact_writes
named_theorems artifact_reads

lemmas [artifact_writes] = write_u8_def write_u32_le_def write_i32_le_def write_u64_le_def write_i64_le_def write_double_le_def write_string_eq

lemmas [artifact_reads] = read_string_mid read_i64_le_def read_double_le_def need_def andthen_def

lemma fwrite_nil [simp]: "fwrite [] f = Some f"
  by (simp add: fwrite_def)

lemma each_writes: "(\<And>x. x \<in> set xs \<Longrightarrow> w x = fwrite (e x)) \<Longrightarrow> each w xs = fwrite (concat (map e xs))"
proof (induction xs)
  case Nil
  then show ?case by (intro ext) simp
next
  case (Cons x xs)
  then have "w x = fwrite (e x)" "each w xs = fwrite (concat (map e xs))" by simp_all
  then show ?case by (intro ext) (auto simp: fwrite_def)
qed

lemma read_each_mid:
  assumes "\<And>x pre rest. x \<in> set xs \<Longrightarrow> rd (mid pre (e x @ rest)) = Inr (g x, mid (pre @ e x) rest)" and "n = length xs"
  shows "read_each n rd (mid pre (concat (map e xs) @ rest)) = Inr (map g xs, mid (pre @ concat (map e xs)) rest)"
  using assms
proof (induction xs arbitrary: n pre)
  case (Cons x xs)
  have "rd (mid pre (e x @ concat (map e xs) @ rest)) = Inr (g x, mid (pre @ e x) (concat (map e xs) @ rest))"
    using Cons.prems(1) [of x] by simp
  moreover have "read_each (length xs) rd (mid (pre @ e x) (concat (map e xs) @ rest)) =
      Inr (map g xs, mid ((pre @ e x) @ concat (map e xs)) rest)"
    using Cons.prems(1) by (intro Cons.IH) auto
  ultimately show ?case using Cons.prems(2) by (simp add: andthen_def)
qed (simp add: andthen_def)

definition text_of :: "string option \<Rightarrow> string" where
  "text_of s = (case s of None \<Rightarrow> '''' | Some s \<Rightarrow> cstr s)"

subsection \<open>Constants, plans and profiles\<close>

definition known_constant :: "Constant \<Rightarrow> bool" where
  "known_constant c \<longleftrightarrow> (case c of CONST_OTHER t \<Rightarrow> False | _ \<Rightarrow> True)"

definition constant_fits :: "Constant \<Rightarrow> bool" where
  "constant_fits c \<longleftrightarrow> (case c of CONST_STRING s \<Rightarrow> string_fits s | CONST_BIGINT s \<Rightarrow> string_fits s | _ \<Rightarrow> True)"

definition constant_bytes :: "Constant \<Rightarrow> u8 list" where
  "constant_bytes c =
     (case c of
        CONST_INT v \<Rightarrow> u32_bytes (word_of_int 0) @ u64_bytes v
      | CONST_DOUBLE v \<Rightarrow> u32_bytes (word_of_int 1) @ u64_bytes v
      | CONST_STRING s \<Rightarrow> u32_bytes (word_of_int 2) @ string_bytes s
      | CONST_BIGINT s \<Rightarrow> u32_bytes (word_of_int 3) @ string_bytes s
      | CONST_BOOL v \<Rightarrow> u32_bytes (word_of_int 4) @ u64_bytes v
      | CONST_OTHER t \<Rightarrow> [])"

definition constant_loaded :: "Constant \<Rightarrow> Constant" where
  "constant_loaded c =
     (case c of CONST_STRING s \<Rightarrow> CONST_STRING (Some (text_of s)) | CONST_BIGINT s \<Rightarrow> CONST_BIGINT (Some (text_of s)) | _ \<Rightarrow> c)"

lemma write_constant_eq: "constant_fits c \<Longrightarrow> write_constant c = (if known_constant c then fwrite (constant_bytes c) else (\<lambda>f. None))"
  by (rule ext, cases c) (simp_all add: constant_fits_def known_constant_def constant_bytes_def artifact_writes)

lemma read_i32_literal [artifact_reads]:
  "read_i32_le (mid pre (u32_bytes 0 @ rest)) = Some (0, mid (pre @ u32_bytes 0) rest)"
  "read_i32_le (mid pre (u32_bytes 1 @ rest)) = Some (1, mid (pre @ u32_bytes 1) rest)"
  "is_i32 (numeral k) \<Longrightarrow> read_i32_le (mid pre (u32_bytes (numeral k) @ rest)) = Some (numeral k, mid (pre @ u32_bytes (numeral k)) rest)"
  using read_i32_mid [of 0 pre rest] read_i32_mid [of 1 pre rest] read_i32_mid [of "numeral k" pre rest] by (simp_all add: is_i32_def)

lemma read_constant_mid:
  "constant_fits c \<Longrightarrow> known_constant c \<Longrightarrow>
   read_constant (mid pre (constant_bytes c @ rest)) = Inr (constant_loaded c, mid (pre @ constant_bytes c) rest)"
  by (cases c)
     (simp_all add: constant_fits_def known_constant_def constant_bytes_def constant_loaded_def read_constant_def artifact_reads text_of_def is_i32_def)

definition plan_fits :: "JitCompiledPlan \<Rightarrow> bool" where
  "plan_fits plan \<longleftrightarrow> is_i32 (jp_kind plan) \<and> is_i32 (jp_op plan)"

definition plan_bytes :: "JitCompiledPlan \<Rightarrow> u8 list" where
  "plan_bytes plan =
     u32_bytes (word_of_int (jp_kind plan)) @ u32_bytes (word_of_int (jp_op plan)) @
     [jp_flags plan, jp_local_slot plan, jp_local_slot_b plan] @ u64_bytes (jp_int_const0 plan) @ u64_bytes (jp_int_const1 plan)"

lemma write_hint_plan_eq: "write_hint_plan plan = fwrite (plan_bytes plan)"
  by (rule ext) (simp add: write_hint_plan_def plan_bytes_def artifact_writes)

lemma read_hint_plan_mid:
  "plan_fits plan \<Longrightarrow> read_hint_plan 16 func (mid pre (plan_bytes plan @ rest)) =
     Inr (func\<lparr>cf_jit_hint_plan := plan\<rparr>, mid (pre @ plan_bytes plan) rest)"
  by (simp add: read_hint_plan_def plan_bytes_def plan_fits_def artifact_reads)

definition profile_fits :: "JitFunctionProfile \<Rightarrow> bool" where
  "profile_fits p \<longleftrightarrow> is_i32 (jf_param_count p) \<and> is_i32 (jf_local_count p) \<and> is_i32 (jf_capture_count p) \<and>
     is_i32 (js_kind (jf_summary p)) \<and> is_i32 (js_op (jf_summary p))"

definition profile_bytes :: "JitFunctionProfile \<Rightarrow> u8 list" where
  "profile_bytes p =
     [jf_flags p, jf_support_mask p, jf_native_family_mask p] @ u32_bytes (word_of_int (jf_param_count p)) @
     u32_bytes (word_of_int (jf_local_count p)) @ u32_bytes (word_of_int (jf_capture_count p)) @
     u32_bytes (word_of_int (js_kind (jf_summary p))) @ u32_bytes (word_of_int (js_op (jf_summary p))) @
     [js_slot0 (jf_summary p), js_slot1 (jf_summary p)] @ u64_bytes (js_int_const0 (jf_summary p)) @ u64_bytes (js_int_const1 (jf_summary p))"

lemma write_profile_eq: "write_profile p = fwrite (profile_bytes p)"
  by (rule ext) (simp add: write_profile_def profile_bytes_def artifact_writes)

lemma read_profile_mid:
  "profile_fits p \<Longrightarrow> read_profile 16 func (mid pre (profile_bytes p @ rest)) =
     Inr (func\<lparr>cf_jit_profile := p\<rparr>, mid (pre @ profile_bytes p) rest)"
  by (simp add: read_profile_def read_profile_head_def read_summary_def profile_bytes_def profile_fits_def artifact_reads)

subsection \<open>Functions\<close>

definition slot_ok :: "CodeFunction \<Rightarrow> int \<Rightarrow> bool" where
  "slot_ok func slot \<longleftrightarrow> cf_param_count func \<le> slot \<and> slot < cf_local_count func"

text \<open>What the writer checks, and the limits of the reader.\<close>

definition function_ok :: "CodeFunction \<Rightarrow> bool" where
  "function_ok func \<longleftrightarrow> 0 \<le> cf_param_count func \<and> 0 \<le> cf_local_count func \<and> cf_capture_count func \<le> cf_local_count func \<and>
     list_all (slot_ok func) (cf_capture_local_slots func) \<and> list_all known_constant (cp_constants (cf_constants func))"

definition function_fits :: "CodeFunction \<Rightarrow> bool" where
  "function_fits func \<longleftrightarrow> string_fits (cf_name func) \<and> string_fits (cf_source_file func) \<and>
     is_i32 (cf_defer_handler_ip func) \<and> is_i32 (cf_defer_return_slot func) \<and> is_i32 (cf_param_count func) \<and> is_i32 (cf_local_count func) \<and>
     list_all string_fits (debug_names func) \<and> length (ch_code (cf_chunk func)) \<le> 100000000 \<and> list_all is_i32 (debug_lines (cf_chunk func)) \<and>
     length (cp_constants (cf_constants func)) \<le> 100000000 \<and> list_all constant_fits (cp_constants (cf_constants func)) \<and>
     plan_fits (cf_jit_hint_plan func) \<and> profile_fits (cf_jit_profile func)"

definition code_bytes :: "Chunk \<Rightarrow> u8 list" where
  "code_bytes chunk =
     u32_bytes (of_nat (length (ch_code chunk))) @ ch_code chunk @ u32_bytes (of_nat (length (ch_code chunk))) @
     concat (map (\<lambda>l. u32_bytes (word_of_int l)) (debug_lines chunk))"

definition signature_bytes :: "CodeFunction \<Rightarrow> u8 list" where
  "signature_bytes func =
     u32_bytes (word_of_int (cf_param_count func)) @ u32_bytes (word_of_int (cf_local_count func)) @
     u32_bytes (of_nat (length (cf_capture_local_slots func))) @
     concat (map (\<lambda>s. u32_bytes (word_of_int s)) (cf_capture_local_slots func)) @ concat (map string_bytes (debug_names func))"

definition function_bytes :: "CodeFunction \<Rightarrow> u8 list" where
  "function_bytes func =
     string_bytes (cf_name func) @ string_bytes (cf_source_file func) @ [if cf_is_async func then 1 else 0] @
     u32_bytes (word_of_int (cf_defer_handler_ip func)) @ u32_bytes (word_of_int (cf_defer_return_slot func)) @
     signature_bytes func @ code_bytes (cf_chunk func) @
     u32_bytes (of_nat (length (cp_constants (cf_constants func)))) @ concat (map constant_bytes (cp_constants (cf_constants func))) @
     plan_bytes (cf_jit_hint_plan func) @ profile_bytes (cf_jit_profile func)"

definition chunk_loaded :: "Chunk \<Rightarrow> Chunk" where
  "chunk_loaded chunk =
     (if ch_code chunk = [] then chunk_init
      else \<lparr>ch_code = ch_code chunk, ch_debug_info = map (\<lambda>(i, l). \<lparr>di_index = int i, di_line = l\<rparr>) (enumerate 0 (debug_lines chunk)),
            ch_code_capacity = int (length (ch_code chunk))\<rparr>)"

definition pool_loaded :: "ConstantPool \<Rightarrow> ConstantPool" where
  "pool_loaded pool =
     (if cp_constants pool = [] then constant_pool_init
      else \<lparr>cp_constants = map constant_loaded (cp_constants pool), cp_constant_capacity = int (length (cp_constants pool))\<rparr>)"

text \<open>The function that is loaded: the same up to missing and empty texts, spare capacity and the indices of lines.\<close>

definition function_loaded :: "CodeFunction \<Rightarrow> CodeFunction" where
  "function_loaded func = func\<lparr>cf_name := text_or_null (text_of (cf_name func)), cf_source_file := text_or_null (text_of (cf_source_file func)),
     cf_debug_local_names := (if 0 < cf_local_count func then Some (map (\<lambda>s. text_or_null (text_of s)) (debug_names func)) else None),
     cf_chunk := chunk_loaded (cf_chunk func), cf_constants := pool_loaded (cf_constants func)\<rparr>"

lemma each_captures:
  "each (write_capture func) slots f =
     (if list_all (slot_ok func) slots then fwrite (concat (map (\<lambda>s. u32_bytes (word_of_int s)) slots)) f else None)"
proof (cases "list_all (slot_ok func) slots")
  case True
  then have "each (write_capture func) slots = fwrite (concat (map (\<lambda>s. u32_bytes (word_of_int s)) slots))"
    by (intro each_writes ext) (auto simp: list_all_iff slot_ok_def write_capture_def artifact_writes)
  then show ?thesis using True by simp
next
  case False
  then obtain s where "s \<in> set slots" "\<not> slot_ok func s" by (auto simp: list_all_iff)
  then show ?thesis using False each_fails [of s slots "write_capture func" f] by (auto simp: fun_eq_iff write_capture_def slot_ok_def)
qed

lemma each_constants:
  assumes "list_all constant_fits cs"
  shows "each write_constant cs f = (if list_all known_constant cs then fwrite (concat (map constant_bytes cs)) f else None)"
proof (cases "list_all known_constant cs")
  case True
  then have "each write_constant cs = fwrite (concat (map constant_bytes cs))"
    using assms by (intro each_writes) (simp add: list_all_iff write_constant_eq)
  then show ?thesis using True by simp
next
  case False
  then obtain c where "c \<in> set cs" "\<not> known_constant c" by (auto simp: list_all_iff)
  then show ?thesis using False assms each_fails [of c cs write_constant f] by (auto simp: list_all_iff write_constant_eq)
qed

lemma each_strings: "list_all string_fits ss \<Longrightarrow> each write_string ss = fwrite (concat (map string_bytes ss))"
  by (rule each_writes) (simp add: list_all_iff write_string_eq)

lemma each_lines: "each write_i32_le ls = fwrite (concat (map (\<lambda>l. u32_bytes (word_of_int l)) ls))"
  by (rule each_writes) (simp add: artifact_writes)

lemma write_code: "(if code = [] then Some f else fwrite code f) = fwrite code f"
  by simp

lemma bind_None [simp]: "Option.bind x (\<lambda>y. None) = None"
  by (cases x) simp_all

lemma artifact_write_function_eq:
  assumes "function_fits func"
  shows "artifact_write_function (Some func) f = (if function_ok func then fwrite (function_bytes func) f else None)"
proof -
  note fits = assms [unfolded function_fits_def]
  consider (counts) "cf_param_count func < 0 \<or> cf_local_count func < 0"
    | (captures) "\<not> (cf_param_count func < 0 \<or> cf_local_count func < 0)" "cf_local_count func < cf_capture_count func"
    | (parts) "0 \<le> cf_param_count func" "0 \<le> cf_local_count func" "cf_capture_count func \<le> cf_local_count func"
    by linarith
  then show ?thesis
  proof cases
    case counts
    then show ?thesis by (auto simp: artifact_write_function_def function_ok_def)
  next
    case captures
    then show ?thesis by (simp add: artifact_write_function_def function_ok_def)
  next
    case parts
    then show ?thesis
      using fits by (cases "list_all (slot_ok func) (cf_capture_local_slots func)"; cases "list_all known_constant (cp_constants (cf_constants func))")
        (simp_all add: artifact_write_function_def function_ok_def each_captures each_constants each_strings each_lines write_code
        write_hint_plan_eq write_profile_eq artifact_writes function_bytes_def signature_bytes_def code_bytes_def)
  qed
qed

lemma uint_word_of_int_u32: "0 \<le> i \<Longrightarrow> i < 4294967296 \<Longrightarrow> uint (word_of_int i :: u32) = i"
  by (simp add: unsigned_of_int take_bit_int_eq_self)

lemma unat_of_nat_u32: "n < 4294967296 \<Longrightarrow> unat (of_nat n :: u32) = n"
  by (simp add: unsigned_of_nat take_bit_nat_eq_self)

lemma read_names_mid:
  assumes "string_fits name" "string_fits source"
  shows "read_names 16 func (mid pre (string_bytes name @ string_bytes source @ rest)) =
    Inr (func\<lparr>cf_name := text_or_null (text_of name), cf_source_file := text_or_null (text_of source)\<rparr>,
      mid (pre @ string_bytes name @ string_bytes source) rest)"
  using assms by (simp add: read_names_def artifact_reads text_of_def)

lemma read_flags_mid:
  assumes "is_i32 ip" "is_i32 slot"
  shows "read_flags 16 func (mid pre ((if a then 1 else 0) # u32_bytes (word_of_int ip) @ u32_bytes (word_of_int slot) @ rest)) =
    Inr (func\<lparr>cf_is_async := a, cf_defer_handler_ip := ip, cf_defer_return_slot := slot\<rparr>,
      mid (pre @ (if a then 1 else 0) # u32_bytes (word_of_int ip) @ u32_bytes (word_of_int slot)) rest)"
  using assms by (simp add: read_flags_def artifact_reads)

lemma read_capture_mid:
  assumes "0 \<le> cf_param_count func" "cf_local_count func < 2147483648" "slot_ok func s"
  shows "read_capture (word_of_int (cf_param_count func)) (word_of_int (cf_local_count func)) (mid pre (u32_bytes (word_of_int s) @ rest)) =
    Inr (s, mid (pre @ u32_bytes (word_of_int s)) rest)"
  using assms by (simp add: read_capture_def artifact_reads slot_ok_def INT_MAX_u32_def word_less_def word_le_def uint_word_of_int_u32)

lemma read_debug_name_mid:
  "string_fits s \<Longrightarrow> read_debug_name (mid pre (string_bytes s @ rest)) = Inr (text_or_null (text_of s), mid (pre @ string_bytes s) rest)"
  by (simp add: read_debug_name_def artifact_reads text_of_def)

lemma read_signature_mid:
  assumes "function_ok func" "function_fits func"
  shows "read_signature 16 g (mid pre (signature_bytes func @ rest)) =
    Inr (g\<lparr>cf_param_count := cf_param_count func, cf_local_count := cf_local_count func, cf_capture_local_slots := cf_capture_local_slots func,
      cf_debug_local_names := cf_debug_local_names (function_loaded func)\<rparr>, mid (pre @ signature_bytes func) rest)"
proof -
  have ranges: "0 \<le> cf_param_count func" "0 \<le> cf_local_count func" "cf_param_count func < 2147483648" "cf_local_count func < 2147483648"
    "cf_capture_count func \<le> cf_local_count func"
    using assms by (simp_all add: function_ok_def function_fits_def is_i32_def)
  then have caps: "unat (of_nat (length (cf_capture_local_slots func)) :: u32) = length (cf_capture_local_slots func)"
    by (simp add: unat_of_nat_u32)
  then have ucaps: "uint (of_nat (length (cf_capture_local_slots func)) :: u32) = cf_capture_count func"
    by (metis uint_nat)
  have "slot_ok func s" if "s \<in> set (cf_capture_local_slots func)" for s using that assms(1) by (simp add: function_ok_def list_all_iff)
  note slots = read_each_mid [of "cf_capture_local_slots func" _ "\<lambda>s. u32_bytes (word_of_int s)" "\<lambda>s. s",
    OF read_capture_mid [OF ranges(1,4) this] refl]
  have "string_fits s" if "s \<in> set (debug_names func)" for s using that assms(2) by (simp add: function_fits_def list_all_iff)
  note names = read_each_mid [of "debug_names func" read_debug_name string_bytes "\<lambda>s. text_or_null (text_of s)", OF read_debug_name_mid [OF this]]
  have "length (debug_names func) = nat (cf_local_count func)" by (simp add: debug_names_def)
  then show ?thesis
    using ranges
    by (simp add: read_signature_def read_captures_def read_debug_names_def signature_bytes_def artifact_reads INT_MAX_u32_def word_less_def word_le_def
        uint_word_of_int_u32 caps ucaps slots names function_loaded_def)
qed

lemma read_line_mid: "is_i32 l \<Longrightarrow> read_line (mid pre (u32_bytes (word_of_int l) @ rest)) = Inr (l, mid (pre @ u32_bytes (word_of_int l)) rest)"
  by (simp add: read_line_def artifact_reads)

lemma count_checked:
  "n \<le> 100000000 \<Longrightarrow> \<not> ARTIFACT_MAX_COUNT < (of_nat n :: u32)" "n \<le> 100000000 \<Longrightarrow> \<not> INT_MAX_u32 < (of_nat n :: u32)"
  "n \<le> 100000000 \<Longrightarrow> (0 :: u32) < of_nat n \<longleftrightarrow> 0 < n" "n \<le> 100000000 \<Longrightarrow> uint (of_nat n :: u32) = int n"
  "n \<le> 100000000 \<Longrightarrow> unat (of_nat n :: u32) = n"
  by (simp_all add: ARTIFACT_MAX_COUNT_def INT_MAX_u32_def word_less_nat_alt unat_of_nat_u32 uint_nat)

lemma read_code_mid:
  assumes "length (ch_code chunk) \<le> 100000000" "list_all is_i32 (debug_lines chunk)" "cf_chunk g = chunk_init"
  shows "read_code g (mid pre (code_bytes chunk @ rest)) = Inr (g\<lparr>cf_chunk := chunk_loaded chunk\<rparr>, mid (pre @ code_bytes chunk) rest)"
proof -
  have "is_i32 l" if "l \<in> set (debug_lines chunk)" for l using that assms(2) by (simp add: list_all_iff)
  note lines = read_each_mid [of "debug_lines chunk" read_line "\<lambda>l. u32_bytes (word_of_int l)" "\<lambda>l. l", OF read_line_mid [OF this]]
  have n: "length (debug_lines chunk) = length (ch_code chunk)" "ch_code chunk = [] \<Longrightarrow> debug_lines chunk = []"
    by (simp_all add: debug_lines_def)
  have "artifact_reader_read (length (ch_code chunk)) (mid p (ch_code chunk @ r)) = Some (ch_code chunk, mid (p @ ch_code chunk) r)" for p r
    by (rule reader_read_mid) simp
  then show ?thesis
    using assms(1,3) by (simp add: read_code_def code_bytes_def artifact_reads count_checked lines n chunk_loaded_def)
qed

lemma read_constants_mid:
  fixes pool :: ConstantPool
  defines "cs \<equiv> cp_constants pool"
  assumes "length cs \<le> 100000000" "list_all constant_fits cs" "list_all known_constant cs" "cf_constants g = constant_pool_init"
  shows "read_constants g (mid pre (u32_bytes (of_nat (length cs)) @ concat (map constant_bytes cs) @ rest)) =
    Inr (g\<lparr>cf_constants := pool_loaded pool\<rparr>, mid (pre @ u32_bytes (of_nat (length cs)) @ concat (map constant_bytes cs)) rest)"
proof -
  have "constant_fits c" "known_constant c" if "c \<in> set cs" for c using that assms(3,4) by (simp_all add: list_all_iff)
  note cs = read_each_mid [of cs read_constant constant_bytes constant_loaded, OF read_constant_mid [OF this] refl]
  show ?thesis using assms(2,5) by (simp add: read_constants_def artifact_reads count_checked cs pool_loaded_def cs_def [symmetric])
qed

lemma artifact_read_function_mid:
  assumes "function_ok func" "function_fits func"
  shows "artifact_read_function memory 16 (mid pre (function_bytes func @ rest)) = Inr (function_loaded func, mid (pre @ function_bytes func) rest)"
  using assms
  by (simp add: artifact_read_function_def function_bytes_def function_fits_def function_ok_def andthen_def read_names_mid read_flags_mid
      read_signature_mid [OF assms] read_code_mid read_constants_mid read_hint_plan_mid read_profile_mid obj_function_create_def function_loaded_def)

subsection \<open>Artifacts\<close>

definition dependency_bytes :: "ArtifactDependencyInfo \<Rightarrow> u8 list" where
  "dependency_bytes dep = string_bytes (ad_path dep) @ u64_bytes (ad_mtime dep)"

definition entry_bytes :: "InterfaceDispatchEntry \<Rightarrow> u8 list" where
  "entry_bytes e = string_bytes (ie_interface_name e) @ string_bytes (ie_record_name e) @ string_bytes (ie_method_name e) @ string_bytes (ie_function_name e)"

definition dependency_loaded :: "ArtifactDependencyInfo \<Rightarrow> ArtifactDependencyInfo" where
  "dependency_loaded dep = dep\<lparr>ad_path := Some (text_of (ad_path dep))\<rparr>"

definition entry_loaded :: "InterfaceDispatchEntry \<Rightarrow> InterfaceDispatchEntry" where
  "entry_loaded e = \<lparr>ie_interface_name = Some (text_of (ie_interface_name e)), ie_record_name = Some (text_of (ie_record_name e)),
     ie_method_name = Some (text_of (ie_method_name e)), ie_function_name = Some (text_of (ie_function_name e))\<rparr>"

definition artifact_fits :: "CodeFunction option \<Rightarrow> CodeFunction list \<Rightarrow> ArtifactDependencyInfo list \<Rightarrow> InterfaceDispatchEntry list \<Rightarrow> bool" where
  "artifact_fits init fs deps entries \<longleftrightarrow>
     (case init of None \<Rightarrow> True | Some func \<Rightarrow> function_fits func) \<and> list_all function_fits fs \<and> length fs \<le> 100000000 \<and>
     list_all (\<lambda>d. string_fits (ad_path d)) deps \<and> length deps \<le> 100000000 \<and>
     list_all (\<lambda>e. string_fits (ie_interface_name e) \<and> string_fits (ie_record_name e) \<and> string_fits (ie_method_name e) \<and>
       string_fits (ie_function_name e)) entries \<and> length entries \<le> 100000000"

definition artifact_bytes :: "CodeFunction option \<Rightarrow> CodeFunction list \<Rightarrow> int \<Rightarrow> u32 \<Rightarrow> ArtifactDependencyInfo list \<Rightarrow> InterfaceDispatchEntry list \<Rightarrow>
    u8 list" where
  "artifact_bytes init fs main flags deps entries =
     ARTIFACT_MAGIC @ u32_bytes ARTIFACT_VERSION @ u32_bytes flags @
     u32_bytes (of_nat (length deps)) @ concat (map dependency_bytes deps) @
     u32_bytes (of_nat (length entries)) @ concat (map entry_bytes entries) @
     u32_bytes (of_nat (length fs)) @ u32_bytes (word_of_int main) @ [if init \<noteq> None then 1 else 0] @
     concat (map function_bytes fs) @ (case init of None \<Rightarrow> [] | Some func \<Rightarrow> function_bytes func)"

definition functions_ok :: "CodeFunction option \<Rightarrow> CodeFunction list \<Rightarrow> bool" where
  "functions_ok init fs \<longleftrightarrow> list_all function_ok fs \<and> (case init of None \<Rightarrow> True | Some func \<Rightarrow> function_ok func)"

lemma each_functions:
  assumes "list_all function_fits fs"
  shows "each artifact_write_function (map Some fs) f = (if list_all function_ok fs then fwrite (concat (map function_bytes fs)) f else None)"
proof (cases "list_all function_ok fs")
  case True
  then have "each artifact_write_function (map Some fs) = fwrite (concat (map (\<lambda>x. function_bytes (the x)) (map Some fs)))"
    using assms by (intro each_writes ext) (auto simp: list_all_iff artifact_write_function_eq)
  then show ?thesis using True by (simp add: comp_def)
next
  case False
  then obtain g where "g \<in> set fs" "\<not> function_ok g" by (auto simp: list_all_iff)
  then show ?thesis using False assms each_fails [of "Some g" "map Some fs" artifact_write_function f]
    by (auto simp: list_all_iff fun_eq_iff artifact_write_function_eq)
qed

lemma each_dependencies:
  "list_all (\<lambda>d. string_fits (ad_path d)) deps \<Longrightarrow> each write_dependency deps = fwrite (concat (map dependency_bytes deps))"
  by (intro each_writes ext) (simp add: list_all_iff write_dependency_def dependency_bytes_def artifact_writes)

lemma each_entries:
  "list_all (\<lambda>e. string_fits (ie_interface_name e) \<and> string_fits (ie_record_name e) \<and> string_fits (ie_method_name e) \<and>
     string_fits (ie_function_name e)) entries \<Longrightarrow> each write_dispatch_entry entries = fwrite (concat (map entry_bytes entries))"
  by (intro each_writes ext) (simp add: list_all_iff write_dispatch_entry_def entry_bytes_def artifact_writes)

lemma artifact_write_file_eq:
  assumes "artifact_fits init fs deps entries" and "path \<noteq> ''''" and "fs \<noteq> []" and "0 \<le> main" and "main < int (length fs)"
  shows "artifact_write_file (Some path) (Some \<lparr>f_bytes = [], f_room = room\<rparr>) True init (map Some fs) main flags deps entries =
    (if functions_ok init fs \<and> length (artifact_bytes init fs main flags deps entries) \<le> room
     then Inr (artifact_bytes init fs main flags deps entries) else Inl (Message ''Failed while writing artifact''))"
proof -
  have f0: "fwrite bs \<lparr>f_bytes = [], f_room = room\<rparr> =
      (if length bs \<le> room then Some \<lparr>f_bytes = bs, f_room = room - length bs\<rparr> else None)" for bs
    by (simp add: fwrite_def)
  note simps = artifact_write_file_def artifact_fits_def each_functions each_dependencies each_entries artifact_writes need_def functions_ok_def
    artifact_write_function_eq
  show ?thesis
  proof (cases init)
    case None
    then show ?thesis using assms by (cases "list_all function_ok fs") (simp_all add: simps, simp_all add: f0 artifact_bytes_def)
  next
    case (Some g)
    then show ?thesis using assms
      by (cases "list_all function_ok fs"; cases "function_ok g") (simp_all add: simps, simp_all add: f0 artifact_bytes_def)
  qed
qed

lemma read_dependency_mid:
  "string_fits (ad_path dep) \<Longrightarrow> read_dependency (mid pre (dependency_bytes dep @ rest)) = Inr (dependency_loaded dep, mid (pre @ dependency_bytes dep) rest)"
  by (simp add: read_dependency_def dependency_bytes_def dependency_loaded_def artifact_reads text_of_def)

lemma read_entry_mid:
  "string_fits (ie_interface_name e) \<and> string_fits (ie_record_name e) \<and> string_fits (ie_method_name e) \<and> string_fits (ie_function_name e) \<Longrightarrow>
   read_dispatch_entry (mid pre (entry_bytes e @ rest)) = Inr (entry_loaded e, mid (pre @ entry_bytes e) rest)"
  by (simp add: read_dispatch_entry_def entry_bytes_def entry_loaded_def artifact_reads text_of_def)

lemma read_count_mid:
  "n \<le> 100000000 \<Longrightarrow> read_count (mid pre (u32_bytes (of_nat n) @ rest)) = Inr (of_nat n, mid (pre @ u32_bytes (of_nat n)) rest)"
  by (simp add: read_count_def artifact_reads count_checked)

lemma read_functions_mid:
  assumes "artifact_fits init fs deps entries" and "functions_ok init fs" and "fs \<noteq> []" and "0 \<le> main" and "main < int (length fs)"
  shows "read_functions memory 16 out (mid pre (u32_bytes (of_nat (length fs)) @ u32_bytes (word_of_int main) @ [if init \<noteq> None then 1 else 0] @
      concat (map function_bytes fs) @ (case init of None \<Rightarrow> [] | Some func \<Rightarrow> function_bytes func))) =
    Inr (out\<lparr>la_functions := map function_loaded fs, la_main_index := main, la_init_function := map_option function_loaded init\<rparr>,
      mid (pre @ u32_bytes (of_nat (length fs)) @ u32_bytes (word_of_int main) @ [if init \<noteq> None then 1 else 0] @
      concat (map function_bytes fs) @ (case init of None \<Rightarrow> [] | Some func \<Rightarrow> function_bytes func)) [])"
proof -
  have len: "length fs \<le> 100000000" using assms(1) by (simp add: artifact_fits_def)
  then have main: "is_i32 main" using assms(4,5) by (simp add: is_i32_def)
  have nz: "(of_nat (length fs) :: u32) \<noteq> 0" using count_checked(3) [OF len] assms(3) by (auto simp: word_gt_0)
  have "function_ok g" "function_fits g" if "g \<in> set fs" for g using that assms(1,2) by (simp_all add: artifact_fits_def functions_ok_def list_all_iff)
  note fs = read_each_mid [of fs "artifact_read_function memory 16" function_bytes function_loaded, OF artifact_read_function_mid [OF this] refl]
  have "artifact_read_function memory 16 (mid p (function_bytes g)) = Inr (function_loaded g, mid (p @ function_bytes g) [])" if "init = Some g" for g p
    using artifact_read_function_mid [of g memory p "[]"] assms(1,2) that by (simp add: artifact_fits_def functions_ok_def)
  then show ?thesis
    using assms(4,5) len nz main
    by (cases init) (simp_all add: read_functions_def read_init_def andthen_def need_def read_count_mid count_checked fs fs [of _ "[]", simplified])
qed

lemma artifact_load_written:
  assumes "artifact_fits init fs deps entries" and "functions_ok init fs" and "fs \<noteq> []" and "0 \<le> main" and "main < int (length fs)"
  shows "artifact_load_bytes_internal memory (artifact_bytes init fs main flags deps entries) =
    Inr \<lparr>la_init_function = map_option function_loaded init, la_functions = map function_loaded fs, la_main_index = main,
      la_typecheck_flags = flags, la_dependencies = map dependency_loaded deps, la_interface_dispatch_entries = map entry_loaded entries\<rparr>"
proof -
  have deps: "length deps \<le> 100000000" and entries: "length entries \<le> 100000000" using assms(1) by (simp_all add: artifact_fits_def)
  have d: "string_fits (ad_path d)" if "d \<in> set deps" for d using that assms(1) by (simp add: artifact_fits_def list_all_iff)
  note ds = read_each_mid [of deps read_dependency dependency_bytes dependency_loaded, OF read_dependency_mid [OF d] refl]
  have e: "string_fits (ie_interface_name e) \<and> string_fits (ie_record_name e) \<and> string_fits (ie_method_name e) \<and> string_fits (ie_function_name e)"
    if "e \<in> set entries" for e using that assms(1) by (simp add: artifact_fits_def list_all_iff)
  note es = read_each_mid [of entries read_dispatch_entry entry_bytes entry_loaded, OF read_entry_mid [OF e] refl]
  have start: "\<lparr>ar_data = data, ar_size = length data, ar_offset = 0\<rparr> = mid [] data" for data by (simp add: mid_def)
  have magic: "artifact_reader_read (length ARTIFACT_MAGIC) (mid [] (ARTIFACT_MAGIC @ rest)) = Some (ARTIFACT_MAGIC, mid ARTIFACT_MAGIC rest)" for rest
    using reader_read_mid [of "length ARTIFACT_MAGIC" ARTIFACT_MAGIC "[]" rest] by simp
  have "artifact_bytes init fs main flags deps entries \<noteq> []" by (simp add: artifact_bytes_def)
  moreover have "ar_offset (mid pre []) = ar_size (mid pre [])" for pre by (simp add: mid_def)
  ultimately show ?thesis
    unfolding artifact_load_bytes_internal_def start Let_def
    using assms deps entries
    by (simp add: artifact_bytes_def magic need_def andthen_def ARTIFACT_VERSION_def ARTIFACT_MIN_SUPPORTED_VERSION_def
        read_dispatch_entries_def read_count_mid count_checked ds es read_functions_mid [of init fs deps entries main, simplified])
qed

text \<open>A function of one instruction that returns.\<close>

definition sample_function :: CodeFunction where
  "sample_function = (obj_function_create \<lparr>jp_kind = 0, jp_op = 0, jp_flags = 0, jp_local_slot = 0, jp_local_slot_b = 0, jp_int_const0 = 0, jp_int_const1 = 0\<rparr>)
     \<lparr>cf_name := Some ''main'', cf_chunk := \<lparr>ch_code = [OP_RET], ch_debug_info = [\<lparr>di_index = 0, di_line = 1\<rparr>], ch_code_capacity = 8\<rparr>\<rparr>"

lemma sample_function_written:
  "artifact_fits None [sample_function] [] []" "functions_ok None [sample_function]"
  by (simp_all add: artifact_fits_def functions_ok_def function_fits_def function_ok_def sample_function_def obj_function_create_def string_fits_def cstr_def
      is_i32_def debug_names_def debug_lines_def constant_pool_init_def plan_fits_def profile_fits_def)

text \<open>
  Claim C11.  Round trip of bytecode files: with arguments within the limits of the reader and a file that opens empty and closes,
  writing succeeds exactly when the functions are well formed and the device has room.  The bytes written then load as the
  same artifact, up to missing or empty texts, spare capacity and the indices in the line table.
\<close>

theorem artifact_roundtrip:
  assumes "artifact_fits init fs deps entries" and "path \<noteq> ''''" and "fs \<noteq> []" and "0 \<le> main" and "main < int (length fs)"
  shows "case artifact_write_file (Some path) (Some \<lparr>f_bytes = [], f_room = room\<rparr>) True init (map Some fs) main flags deps entries of
      Inl e \<Rightarrow> \<not> functions_ok init fs \<or> room < length (artifact_bytes init fs main flags deps entries)
    | Inr bytes \<Rightarrow> functions_ok init fs \<and>
        artifact_load_bytes memory bytes =
          Inr \<lparr>la_init_function = map_option function_loaded init, la_functions = map function_loaded fs, la_main_index = main,
            la_typecheck_flags = flags, la_dependencies = map dependency_loaded deps, la_interface_dispatch_entries = map entry_loaded entries\<rparr>"
  using artifact_load_written [OF assms(1) _ assms(3-5)] assms by (auto simp: artifact_write_file_eq artifact_load_bytes_def)

theorem artifact_roundtrip_witness:
  "artifact_fits None [sample_function] [] [] \<and>
   (\<exists>bytes. artifact_write_file (Some ''a'') (Some \<lparr>f_bytes = [], f_room = 1000\<rparr>) True None [Some sample_function] 0 0 [] [] = Inr bytes \<and>
     (\<exists>a. artifact_load_bytes (cf_jit_hint_plan sample_function) bytes = Inr a \<and> la_functions a = [function_loaded sample_function]))"
proof -
  have "length (artifact_bytes None [sample_function] 0 0 [] []) \<le> 1000"
    by (simp add: artifact_bytes_def function_bytes_def string_bytes_def u32_bytes_def u64_bytes_def plan_bytes_def profile_bytes_def signature_bytes_def
        code_bytes_def ARTIFACT_MAGIC_def sample_function_def obj_function_create_def cstr_def debug_names_def debug_lines_def constant_pool_init_def)
  then show ?thesis
    using artifact_roundtrip [OF sample_function_written(1), of "''a''" 0 1000 0 "cf_jit_hint_plan sample_function"] sample_function_written
    by (auto split: sum.splits)
qed

section \<open>What is accepted\<close>

lemma need_Inr: "need x e k = Inr y \<longleftrightarrow> (\<exists>a. x = Some a \<and> k a = Inr y)"
  by (auto simp: need_def split: option.split)

lemma andthen_Inr: "andthen x k = Inr y \<longleftrightarrow> (\<exists>a. x = Inr a \<and> k a = Inr y)"
  by (auto simp: andthen_def split: sum.split)

lemmas read_inversions = need_Inr andthen_Inr split_def

lemma read_each_all:
  "read_each n rd r = Inr (xs, r') \<Longrightarrow> (\<And>x r r'. rd r = Inr (x, r') \<Longrightarrow> P x) \<Longrightarrow> length xs = n \<and> list_all P xs"
proof (induction n arbitrary: r xs)
  case (Suc n)
  then obtain x r1 ys where "rd r = Inr (x, r1)" "read_each n rd r1 = Inr (ys, r')" "xs = x # ys"
    by (auto simp: read_inversions)
  then show ?case using Suc.IH [of r1 ys] Suc.prems(2) by auto
qed simp

subsection \<open>Reads stay inside the data\<close>

definition reader_ok :: "ArtifactReader \<Rightarrow> bool" where
  "reader_ok r \<longleftrightarrow> ar_size r = length (ar_data r) \<and> ar_offset r \<le> ar_size r"

definition keeps_some :: "('a \<times> ArtifactReader) option \<Rightarrow> bool" where
  "keeps_some x \<longleftrightarrow> (case x of None \<Rightarrow> True | Some (a, r) \<Rightarrow> reader_ok r)"

definition keeps :: "artifact_error + ('a \<times> ArtifactReader) \<Rightarrow> bool" where
  "keeps x \<longleftrightarrow> (case x of Inl e \<Rightarrow> True | Inr (a, r) \<Rightarrow> reader_ok r)"

named_theorems keeps_intros

lemma need_keeps [keeps_intros]: "keeps_some x \<Longrightarrow> (\<And>a r. x = Some (a, r) \<Longrightarrow> reader_ok r \<Longrightarrow> keeps (k (a, r))) \<Longrightarrow> keeps (need x e k)"
  by (auto simp: need_def keeps_some_def keeps_def split: option.splits)

lemma andthen_keeps [keeps_intros]: "keeps x \<Longrightarrow> (\<And>a r. x = Inr (a, r) \<Longrightarrow> reader_ok r \<Longrightarrow> keeps (k (a, r))) \<Longrightarrow> keeps (andthen x k)"
  by (auto simp: andthen_def keeps_def split: sum.splits)

lemma result_keeps [simp]: "keeps (Inl e)" "keeps (Inr (a, r)) \<longleftrightarrow> reader_ok r" "keeps_some (Some (a, r)) \<longleftrightarrow> reader_ok r" "keeps_some None"
  by (simp_all add: keeps_def keeps_some_def)

lemma reader_read_inside:
  "artifact_reader_read n r = Some (bs, r') \<Longrightarrow> reader_ok r \<Longrightarrow>
     length bs = n \<and> bs = take n (drop (ar_offset r) (ar_data r)) \<and> ar_offset r + n \<le> length (ar_data r) \<and> reader_ok r'"
  by (auto simp: artifact_reader_read_def reader_ok_def split: if_splits)

lemma reader_read_keeps [keeps_intros]: "reader_ok r \<Longrightarrow> keeps_some (artifact_reader_read n r)"
  using reader_read_inside [of n r] by (auto simp: keeps_some_def split: option.split)

lemma read_word_keeps [keeps_intros]:
  assumes "reader_ok r"
  shows "keeps_some (read_u8 r)" "keeps_some (read_u32_le r)" "keeps_some (read_i32_le r)" "keeps_some (read_u64_le r)"
    "keeps_some (read_i64_le r)" "keeps_some (read_double_le r)"
  using reader_read_keeps [OF assms]
  by (auto simp: read_u8_def read_u32_le_def read_i32_le_def read_u64_le_def read_i64_le_def read_double_le_def keeps_some_def split: option.split prod.split)
    (metis option.case(2) prod.case)+

lemma read_string_keeps [keeps_intros]: "reader_ok r \<Longrightarrow> keeps_some (read_string r)"
proof -
  assume r: "reader_ok r"
  have "reader_ok r2" if "read_u32_le r = Some (n, r1)" "artifact_reader_read (unat n) r1 = Some (bs, r2)" for n r1 bs r2
    using read_word_keeps(2) [OF r] reader_read_inside [OF that(2)] that(1) by (simp add: keeps_some_def)
  moreover have "reader_ok r1" if "read_u32_le r = Some (n, r1)" for n r1
    using read_word_keeps(2) [OF r] that by (simp add: keeps_some_def)
  ultimately show ?thesis by (auto simp: read_string_def keeps_some_def split: option.split prod.split)
qed

lemma read_each_keeps [keeps_intros]:
  assumes "reader_ok r" "\<And>r. reader_ok r \<Longrightarrow> keeps (rd r)"
  shows "keeps (read_each n rd r)"
  using assms(1) by (induction n arbitrary: r) (auto intro!: andthen_keeps assms(2))

lemma if_keeps [keeps_intros]: "(b \<Longrightarrow> keeps x) \<Longrightarrow> (\<not> b \<Longrightarrow> keeps y) \<Longrightarrow> keeps (if b then x else y)"
  "(b \<Longrightarrow> keeps_some x') \<Longrightarrow> (\<not> b \<Longrightarrow> keeps_some y') \<Longrightarrow> keeps_some (if b then x' else y')"
  by simp_all

lemma read_function_keeps [keeps_intros]:
  assumes "reader_ok r"
  shows "keeps (read_names version func r)" "keeps (read_flags version func r)" "keeps (read_signature version func r)"
    "keeps (read_code func r)" "keeps (read_constants func r)" "keeps (read_hint_plan version func r)" "keeps (read_profile version func r)"
  using assms
  by (auto simp: read_names_def read_flags_def read_signature_def read_captures_def read_capture_def read_debug_names_def read_debug_name_def
      read_code_def read_line_def read_constants_def read_constant_def read_hint_plan_def read_profile_def read_profile_head_def read_summary_def Let_def
      intro!: keeps_intros)

lemma artifact_read_function_keeps [keeps_intros]: "reader_ok r \<Longrightarrow> keeps (artifact_read_function memory version r)"
  by (auto simp: artifact_read_function_def intro!: keeps_intros)

lemma read_table_keeps [keeps_intros]:
  assumes "reader_ok r"
  shows "keeps (read_dependency r)" "keeps (read_dispatch_entry r)" "keeps (read_count r)"
    "keeps (read_dispatch_entries version r)" "keeps (read_init memory version h r)"
  using assms by (auto simp: read_dispatch_entries_def read_init_def read_dependency_def read_dispatch_entry_def read_count_def intro!: keeps_intros)

subsection \<open>Accepted functions\<close>

definition signature_valid :: "CodeFunction \<Rightarrow> bool" where
  "signature_valid func \<longleftrightarrow> 0 \<le> cf_param_count func \<and> 0 \<le> cf_local_count func \<and> cf_capture_count func \<le> cf_local_count func \<and>
     list_all (slot_ok func) (cf_capture_local_slots func) \<and>
     (case cf_debug_local_names func of None \<Rightarrow> cf_local_count func = 0 | Some names \<Rightarrow> int (length names) = cf_local_count func)"

definition chunk_valid :: "Chunk \<Rightarrow> bool" where
  "chunk_valid chunk \<longleftrightarrow> length (ch_debug_info chunk) = length (ch_code chunk) \<and> length (ch_code chunk) \<le> 100000000 \<and>
     ch_code_count chunk = ch_code_capacity chunk"

definition function_valid :: "CodeFunction \<Rightarrow> bool" where
  "function_valid func \<longleftrightarrow> signature_valid func \<and> chunk_valid (cf_chunk func) \<and> list_all known_constant (cp_constants (cf_constants func)) \<and>
     length (cp_constants (cf_constants func)) \<le> 100000000"

lemma read_captures_valid:
  assumes "read_captures version p l func r = Inr (func', r')" and "cf_capture_local_slots func = []"
  shows "\<exists>slots. func' = func\<lparr>cf_capture_local_slots := slots\<rparr> \<and> int (length slots) \<le> uint l \<and> list_all (\<lambda>s. uint p \<le> s \<and> s < uint l) slots"
proof (cases "version < 4")
  case True
  then show ?thesis using assms by (intro exI [of _ "[]"]) (simp add: read_captures_def)
next
  case False
  then obtain n r1 slots where n: "\<not> n > l" "read_each (unat n) (read_capture p l) r1 = Inr (slots, r')" "func' = func\<lparr>cf_capture_local_slots := slots\<rparr>"
    using assms by (auto simp: read_captures_def read_inversions split: if_splits)
  have "uint p \<le> s \<and> s < uint l" if "read_capture p l r = Inr (s, r')" for s r r'
    using that by (auto simp: read_capture_def read_inversions word_less_def word_le_def split: if_splits)
  from read_each_all [OF n(2), of "\<lambda>s. uint p \<le> s \<and> s < uint l", OF this] n show ?thesis by (auto simp: word_less_def uint_nat)
qed

lemma read_signature_valid:
  assumes "read_signature version func r = Inr (func', r')" and "cf_capture_local_slots func = []"
  shows "signature_valid func' \<and> cf_chunk func' = cf_chunk func \<and> cf_constants func' = cf_constants func"
proof -
  obtain p l r1 g r2 where g: "read_captures version p l (func\<lparr>cf_param_count := uint p, cf_local_count := uint l,
      cf_debug_local_names := (if l > 0 then Some (replicate (unat l) None) else None)\<rparr>) r1 = Inr (g, r2)"
    and d: "read_debug_names version g r2 = Inr (func', r')"
    using assms(1) by (fastforce simp: read_signature_def read_inversions Let_def simp del: if_split split: if_split_asm)
  obtain slots where g': "g = func\<lparr>cf_param_count := uint p, cf_local_count := uint l,
      cf_debug_local_names := (if l > 0 then Some (replicate (unat l) None) else None), cf_capture_local_slots := slots\<rparr>"
    "int (length slots) \<le> uint l" "list_all (\<lambda>s. uint p \<le> s \<and> s < uint l) slots"
    using read_captures_valid [OF g] assms(2) by auto
  have n: "(if l > 0 then Some (replicate (unat l) None) else None) = None \<Longrightarrow> uint l = 0" by (auto simp: word_gt_0 split: if_splits)
  have names: "length ns = unat l" if "read_each (unat l) read_debug_name r2 = Inr (ns, r3)" for ns r3
    using read_each_all [OF that, of "\<lambda>x. True"] by simp
  show ?thesis
    using d g' names n
    by (auto simp: read_debug_names_def signature_valid_def slot_ok_def list_all_iff read_inversions uint_nat word_less_def split: if_splits)
qed

lemma read_code_valid:
  assumes "read_code func r = Inr (func', r')" and "chunk_valid (cf_chunk func)" and "reader_ok r"
  shows "\<exists>chunk. func' = func\<lparr>cf_chunk := chunk\<rparr> \<and> chunk_valid chunk"
proof -
  obtain n ra where n: "read_u32_le r = Some (n, ra)" "\<not> n > ARTIFACT_MAX_COUNT"
    using assms(1) by (auto simp: read_code_def read_inversions split: if_splits)
  have ra: "reader_ok ra" using read_word_keeps(2) [OF assms(3)] n(1) by simp
  obtain code rb r1 lines where c: "n > 0 \<Longrightarrow> artifact_reader_read (unat n) ra = Some (code, rb)" "read_each (unat n) read_line r1 = Inr (lines, r')"
    and f: "func' = (if n > 0 then func\<lparr>cf_chunk := \<lparr>ch_code = code,
       ch_debug_info = map (\<lambda>(i, l). \<lparr>di_index = int i, di_line = l\<rparr>) (enumerate 0 lines), ch_code_capacity = uint n\<rparr>\<rparr> else func)"
    using assms(1) n by (cases "n > 0") (fastforce simp: read_code_def read_inversions split: if_split_asm)+
  have "length lines = unat n" using read_each_all [OF c(2), of "\<lambda>x. True"] by simp
  moreover have "length code = unat n" if "n > 0" using reader_read_inside [OF c(1) [OF that] ra] by (rule conjunct1)
  ultimately show ?thesis
    using f n(2) assms(2)
    by (cases "n > 0") (auto simp: chunk_valid_def ARTIFACT_MAX_COUNT_def word_less_nat_alt uint_nat intro!: exI [of _ "cf_chunk func'"])
qed

lemma read_constants_valid:
  assumes "read_constants func r = Inr (func', r')" and "cp_constants (cf_constants func) = []"
  shows "\<exists>pool. func' = func\<lparr>cf_constants := pool\<rparr> \<and> list_all known_constant (cp_constants pool) \<and> length (cp_constants pool) \<le> 100000000"
proof -
  obtain n r1 cs where n: "\<not> n > ARTIFACT_MAX_COUNT" "read_each (unat n) read_constant r1 = Inr (cs, r')"
    "func' = (if n > 0 then func\<lparr>cf_constants := \<lparr>cp_constants = cs, cp_constant_capacity = uint n\<rparr>\<rparr> else func)"
    using assms(1) by (fastforce simp: read_constants_def read_inversions split: if_split_asm)
  have "known_constant c" if "read_constant r = Inr (c, r')" for c r r'
    using that by (auto simp: read_constant_def read_inversions known_constant_def split: if_splits)
  from read_each_all [OF n(2), of known_constant, OF this] have "length cs = unat n" "list_all known_constant cs" by auto
  then show ?thesis
    using n(1,3) assms(2)
    by (cases "n > 0") (auto simp: ARTIFACT_MAX_COUNT_def word_less_nat_alt intro!: exI [of _ "cf_constants func'"])
qed

lemma read_metadata_valid:
  "read_names version func r = Inr (func', r') \<Longrightarrow> \<exists>name source. func' = func\<lparr>cf_name := name, cf_source_file := source\<rparr>"
  "read_flags version func r = Inr (func', r') \<Longrightarrow> \<exists>a ip slot. func' = func\<lparr>cf_is_async := a, cf_defer_handler_ip := ip, cf_defer_return_slot := slot\<rparr>"
  "read_hint_plan version func r = Inr (func', r') \<Longrightarrow> \<exists>plan. func' = func\<lparr>cf_jit_hint_plan := plan\<rparr>"
  "read_profile version func r = Inr (func', r') \<Longrightarrow> \<exists>profile. func' = func\<lparr>cf_jit_profile := profile\<rparr>"
proof -
  show "\<exists>name source. func' = func\<lparr>cf_name := name, cf_source_file := source\<rparr>" if "read_names version func r = Inr (func', r')"
    using that by (cases func) (auto simp: read_names_def read_inversions Let_def split: if_splits)
  show "\<exists>a ip slot. func' = func\<lparr>cf_is_async := a, cf_defer_handler_ip := ip, cf_defer_return_slot := slot\<rparr>" if "read_flags version func r = Inr (func', r')"
    using that by (cases func) (auto simp: read_flags_def read_inversions split: if_splits)
  show "\<exists>plan. func' = func\<lparr>cf_jit_hint_plan := plan\<rparr>" if "read_hint_plan version func r = Inr (func', r')"
    using that by (cases func) (auto simp: read_hint_plan_def read_inversions Let_def split: if_splits)
  show "\<exists>profile. func' = func\<lparr>cf_jit_profile := profile\<rparr>" if "read_profile version func r = Inr (func', r')"
    using that by (cases func) (auto simp: read_profile_def read_inversions split: if_splits)
qed

lemma artifact_read_function_valid:
  assumes "artifact_read_function memory version r = Inr (func, r')" and "reader_ok r"
  shows "function_valid func"
proof -
  obtain f1 r1 f2 r2 f3 r3 f4 r4 f5 r5 f6 r6 where
    s: "read_names version (obj_function_create memory) r = Inr (f1, r1)" "read_flags version f1 r1 = Inr (f2, r2)"
      "read_signature version f2 r2 = Inr (f3, r3)" "read_code f3 r3 = Inr (f4, r4)" "read_constants f4 r4 = Inr (f5, r5)"
      "read_hint_plan version f5 r5 = Inr (f6, r6)" "read_profile version f6 r6 = Inr (func, r')"
    using assms(1) by (auto simp: artifact_read_function_def read_inversions)
  have ok: "reader_ok r1" "reader_ok r2" "reader_ok r3"
    using read_function_keeps(1) [OF assms(2), of version "obj_function_create memory"] read_function_keeps(2) [of r1 version f1]
      read_function_keeps(3) [of r2 version f2] s(1-3) by simp_all
  have start: "cf_capture_local_slots f2 = []" "cf_chunk f2 = chunk_init" "cf_constants f2 = constant_pool_init"
    using read_metadata_valid(1) [OF s(1)] read_metadata_valid(2) [OF s(2)] by (auto simp: obj_function_create_def)
  then have f3: "signature_valid f3" "cf_chunk f3 = chunk_init" "cf_constants f3 = constant_pool_init"
    using read_signature_valid [OF s(3)] by auto
  then obtain chunk where f4: "f4 = f3\<lparr>cf_chunk := chunk\<rparr>" "chunk_valid chunk"
    using read_code_valid [OF s(4)] ok by (auto simp: chunk_valid_def chunk_init_def)
  then obtain pool where f5: "f5 = f4\<lparr>cf_constants := pool\<rparr>" "list_all known_constant (cp_constants pool)" "length (cp_constants pool) \<le> 100000000"
    using read_constants_valid [OF s(5)] f3 by (auto simp: constant_pool_init_def)
  obtain plan profile where "func = f5\<lparr>cf_jit_hint_plan := plan, cf_jit_profile := profile\<rparr>"
    using read_metadata_valid(3) [OF s(6)] read_metadata_valid(4) [OF s(7)] by auto
  then have "signature_valid func \<longleftrightarrow> signature_valid f3" "cf_chunk func = chunk" "cf_constants func = pool"
    using f4 f5 by (simp_all add: signature_valid_def slot_ok_def [abs_def] split: option.split)
  then show ?thesis using f3 f4 f5 by (simp add: function_valid_def)
qed

lemma read_each_valid:
  assumes "read_each n rd r = Inr (xs, r')" and "reader_ok r"
    and "\<And>r. reader_ok r \<Longrightarrow> keeps (rd r)" and "\<And>x r r'. rd r = Inr (x, r') \<Longrightarrow> reader_ok r \<Longrightarrow> P x"
  shows "length xs = n \<and> list_all P xs \<and> reader_ok r'"
  using assms(1,2)
proof (induction n arbitrary: r xs)
  case (Suc n)
  then obtain x r1 ys where x: "rd r = Inr (x, r1)" "read_each n rd r1 = Inr (ys, r')" "xs = x # ys"
    by (auto simp: read_inversions)
  then have "reader_ok r1" using assms(3) [OF Suc.prems(2)] by simp
  then show ?case using Suc.IH [OF x(2)] x assms(4) [OF x(1) Suc.prems(2)] by simp
qed simp

lemma read_functions_valid:
  assumes "read_functions memory version out r = Inr (out', r')" and "reader_ok r"
  shows "la_functions out' \<noteq> [] \<and> 0 \<le> la_main_index out' \<and> la_main_index out' < int (length (la_functions out')) \<and>
    list_all function_valid (la_functions out') \<and> (\<forall>f. la_init_function out' = Some f \<longrightarrow> function_valid f) \<and> reader_ok r'"
proof -
  obtain n r1 m r2 h r3 fs r4 ini where
    s: "read_count r = Inr (n, r1)" "n \<noteq> 0" "read_i32_le r1 = Some (m, r2)" "read_u8 r2 = Some (h, r3)" "0 \<le> m" "m < uint n"
      "read_each (unat n) (artifact_read_function memory version) r3 = Inr (fs, r4)"
      "read_init memory version h r4 = Inr (ini, r')"
      "out' = out\<lparr>la_functions := fs, la_main_index := m, la_init_function := ini\<rparr>"
    using assms(1) by (auto simp: read_functions_def andthen_Inr need_Inr not_less not_le split: if_split_asm prod.splits)
  have r3: "reader_ok r3"
    using read_table_keeps(3) [OF assms(2)] read_word_keeps(3) [of r1] read_word_keeps(1) [of r2] s(1,3,4) by simp
  have fs: "length fs = unat n" "list_all function_valid fs" "reader_ok r4"
    using read_each_valid [OF s(7) r3, of function_valid] artifact_read_function_keeps artifact_read_function_valid by auto
  have "ini = Some f \<Longrightarrow> function_valid f" "reader_ok r'" for f
    using s(8) read_table_keeps(5) [OF fs(3), of memory version h] artifact_read_function_valid [OF _ fs(3), of memory version]
    by (auto simp: read_init_def andthen_Inr split: if_splits prod.splits)
  moreover have "n > 0" using s(2) by (simp add: word_gt_0)
  ultimately show ?thesis using fs s(5,6,9) by (auto simp: uint_nat)
qed

text \<open>
  Claim C12.  Whatever the bytes, a loaded artifact is well formed: there is a function, the main index names one, and in every
  function the captured slots lie between the parameters and the locals, there is a name for every local and a line for
  every byte of code, and every constant is of a known type.
\<close>

theorem artifact_load_valid:
  assumes "artifact_load_bytes memory data = Inr a"
  shows "la_functions a \<noteq> [] \<and> 0 \<le> la_main_index a \<and> la_main_index a < int (length (la_functions a)) \<and>
    list_all function_valid (la_functions a) \<and> (\<forall>f. la_init_function a = Some f \<longrightarrow> function_valid f)"
proof -
  let ?r = "\<lparr>ar_data = data, ar_size = length data, ar_offset = 0\<rparr>"
  obtain r1 v r2 fl r3 dn r4 deps r5 es r6 out r7 where
    s: "artifact_reader_read (length ARTIFACT_MAGIC) ?r = Some (ARTIFACT_MAGIC, r1)" "read_u32_le r1 = Some (v, r2)" "read_u32_le r2 = Some (fl, r3)"
      "read_count r3 = Inr (dn, r4)" "read_each (unat dn) read_dependency r4 = Inr (deps, r5)"
      "read_dispatch_entries v r5 = Inr (es, r6)"
      "read_functions memory v out r6 = Inr (a, r7)"
    using assms by (auto simp: artifact_load_bytes_def artifact_load_bytes_internal_def Let_def andthen_Inr need_Inr split: if_split_asm prod.splits)
  have "reader_ok ?r" by (simp add: reader_ok_def)
  then have "reader_ok r3"
    using reader_read_keeps [of ?r "length ARTIFACT_MAGIC"] read_word_keeps(2) [of r1] read_word_keeps(2) [of r2] s(1-3) by simp
  then have "reader_ok r5"
    using read_table_keeps(3) [of r3] read_each_keeps [of r4 read_dependency "unat dn", OF _ read_table_keeps(1)] s(4,5) by simp
  then have "reader_ok r6" using read_table_keeps(4) [of r5 v] s(6) by simp
  then show ?thesis using read_functions_valid [OF s(7)] by simp
qed

theorem artifact_load_valid_witness:
  "\<exists>a. artifact_load_bytes (cf_jit_hint_plan sample_function) (artifact_bytes None [sample_function] 0 0 [] []) = Inr a \<and>
     la_functions a \<noteq> [] \<and> list_all function_valid (la_functions a)"
  using artifact_load_valid [of "cf_jit_hint_plan sample_function" "artifact_bytes None [sample_function] 0 0 [] []"]
    artifact_load_written [OF sample_function_written, of 0 "cf_jit_hint_plan sample_function" 0]
  by (auto simp: artifact_load_bytes_def)

end
