(* ===== verification/Path_Utils.thy ===== *)
theory Path_Utils
  imports Tablo_Prelude
begin

text \<open>
  Sandboxed file access, from \<^verbatim>\<open>src/src/path_utils.c\<close> as it compiles on POSIX systems.  A path is a C string; the calls to the
  operating system are functions of the time of the call, so that the file system may change between them.
\<close>

section \<open>Paths\<close>

abbreviation slash :: char where "slash \<equiv> CHR 0x2F"
abbreviation backslash :: char where "backslash \<equiv> CHR 0x5C"

definition path_is_sep :: "char \<Rightarrow> bool" where
  "path_is_sep c \<longleftrightarrow> c = slash \<or> c = backslash"

abbreviation name_char :: "char \<Rightarrow> bool" where
  "name_char c \<equiv> \<not> path_is_sep c"

definition path_is_drive_root :: "string \<Rightarrow> nat \<Rightarrow> bool" where
  "path_is_drive_root path len \<longleftrightarrow> len = 1"

function path_trim_trailing_seps :: "string \<Rightarrow> string" where
  "path_trim_trailing_seps path =
     (let len = length path
      in if len > 1 \<and> path_is_sep (path ! (len - 1)) \<and> \<not> path_is_drive_root path len
         then path_trim_trailing_seps (take (len - 1) path) else path)"
  by pat_completeness auto
termination by (relation "measure length") auto

definition path_prefix_matches :: "string \<Rightarrow> string \<Rightarrow> bool" where
  "path_prefix_matches path root =
     (if length root = 0 \<or> length path < length root then False
      else if \<not> list_all (\<lambda>i. path ! i = root ! i) [0..<length root] then False
      else if length path = length root then True
      else path_is_sep (path ! length root))"

definition path_is_absolute :: "string \<Rightarrow> bool" where
  "path_is_absolute path = (if path = '''' then False else path ! 0 = slash)"

fun strrchr :: "string \<Rightarrow> char \<Rightarrow> nat option" where
  "strrchr [] c = None"
| "strrchr (x # xs) c = (case strrchr xs c of Some i \<Rightarrow> Some (Suc i) | None \<Rightarrow> if x = c then Some 0 else None)"

definition last_sep :: "string \<Rightarrow> nat option" where
  "last_sep path =
     (case (strrchr path slash, strrchr path backslash) of
        (Some a, Some b) \<Rightarrow> Some (if a > b then a else b)
      | (Some a, None) \<Rightarrow> Some a
      | (None, b) \<Rightarrow> b)"

definition path_dirname_alloc :: "string \<Rightarrow> string" where
  "path_dirname_alloc path =
     (if path = '''' then ''.''
      else case last_sep path of
             None \<Rightarrow> ''.''
           | Some dir_len \<Rightarrow> if dir_len = 0 then [path ! 0] else take dir_len path)"

definition pick_join_sep :: "string \<Rightarrow> char" where
  "pick_join_sep root = slash"

section \<open>Joining\<close>

lemma segments_shrink:
  "takeWhile name_char (dropWhile path_is_sep p) \<noteq> [] \<Longrightarrow> length (dropWhile name_char (dropWhile path_is_sep p)) < length p"
proof -
  let ?s = "dropWhile path_is_sep p"
  assume "takeWhile name_char ?s \<noteq> []"
  then have "0 < length (takeWhile name_char ?s)" by simp
  then have "length (dropWhile name_char ?s) < length ?s"
    using takeWhile_dropWhile_id [of name_char ?s] by (metis length_append less_add_same_cancel2)
  also have "\<dots> \<le> length p" by (rule length_dropWhile_le)
  finally show ?thesis .
qed

text \<open>The loop over the segments of the user's path; \<open>segments\<close> are those kept so far.\<close>

function sandbox_segments :: "string \<Rightarrow> string list \<Rightarrow> string + string list" where
  "sandbox_segments p segments =
     (let start = dropWhile path_is_sep p; seg = takeWhile name_char start; p' = dropWhile name_char start
      in if seg = [] then Inr segments
         else if seg = ''.'' then sandbox_segments p' segments
         else if seg = ''..''
         then (if segments = [] then Inl ''Path escapes sandbox'' else sandbox_segments p' (butlast segments))
         else sandbox_segments p' (segments @ [seg]))"
  by pat_completeness auto

termination by (relation "measure (\<lambda>(p, segments). length p)") (auto simp: Let_def dest!: segments_shrink)

function trim_root :: "string \<Rightarrow> nat \<Rightarrow> nat" where
  "trim_root root len = (if len > 1 \<and> path_is_sep (root ! (len - 1)) then trim_root root (len - 1) else len)"
  by pat_completeness auto
termination by (relation "measure snd") auto

fun join_segments :: "char \<Rightarrow> string list \<Rightarrow> string" where
  "join_segments sep [] = ''''"
| "join_segments sep [seg] = seg"
| "join_segments sep (seg # segs) = seg @ [sep] @ join_segments sep segs"

text \<open>The root without trailing separators, and the separator that follows it.\<close>

definition root_prefix :: "string \<Rightarrow> string" where
  "root_prefix sandbox_root =
     (let trimmed_root = take (trim_root sandbox_root (length sandbox_root)) sandbox_root;
          root_has_sep = (length trimmed_root > 0 \<and> path_is_sep (trimmed_root ! (length trimmed_root - 1)))
      in trimmed_root @ (if root_has_sep then [] else [pick_join_sep sandbox_root]))"

definition path_sandbox_join_alloc :: "string \<Rightarrow> string \<Rightarrow> string + string" where
  "path_sandbox_join_alloc sandbox_root user_path =
     (if sandbox_root = '''' then Inl ''Sandbox root not set''
      else if user_path = '''' then Inl ''Empty path''
      else if path_is_absolute user_path then Inl ''Absolute paths are not allowed''
      else case sandbox_segments user_path [] of
             Inl e \<Rightarrow> Inl e
           | Inr segments \<Rightarrow>
               if segments = [] then Inl ''Path resolves to empty''
               else Inr (root_prefix sandbox_root @ join_segments (pick_join_sep sandbox_root) segments))"

section \<open>The operating system\<close>

datatype open_flag = O_RDONLY | O_WRONLY | O_RDWR | O_CREAT | O_TRUNC | O_APPEND | O_EXCL | O_DIRECTORY | O_NOFOLLOW | O_CLOEXEC

text \<open>
  \<^verbatim>\<open>fstat\<close> tells whether the file is regular and its number of links.  \<open>None\<close> is a failing call.
\<close>

record os =
  os_realpath :: "nat \<Rightarrow> string \<Rightarrow> string option"
  os_open :: "nat \<Rightarrow> string \<Rightarrow> open_flag list \<Rightarrow> nat option"
  os_openat :: "nat \<Rightarrow> nat \<Rightarrow> string \<Rightarrow> open_flag list \<Rightarrow> nat option"
  os_fstat :: "nat \<Rightarrow> (bool \<times> nat) option"
  os_fdopen :: "nat \<Rightarrow> string \<Rightarrow> bool"

definition path_canonical_existing_alloc :: "os \<Rightarrow> nat \<Rightarrow> string \<Rightarrow> string option" where
  "path_canonical_existing_alloc os t path = (if path = '''' then None else os_realpath os t path)"

text \<open>The calls of \<^verbatim>\<open>path_sandbox_resolve_alloc\<close> are at the times \<open>t\<close>, \<open>t + 1\<close> and \<open>t + 2\<close>.\<close>

definition path_sandbox_resolve_alloc :: "os \<Rightarrow> nat \<Rightarrow> string \<Rightarrow> string \<Rightarrow> bool \<Rightarrow> string + string" where
  "path_sandbox_resolve_alloc os t sandbox_root user_path allow_missing_leaf =
     (case path_sandbox_join_alloc sandbox_root user_path of
        Inl e \<Rightarrow> Inl e
      | Inr joined \<Rightarrow>
          case path_canonical_existing_alloc os t sandbox_root of
            None \<Rightarrow> Inl ''Sandbox root does not exist''
          | Some root_real \<Rightarrow>
              let root_real = path_trim_trailing_seps root_real
              in case path_canonical_existing_alloc os (t + 1) joined of
                   Some target_real \<Rightarrow>
                     let target_real = path_trim_trailing_seps target_real
                     in if \<not> path_prefix_matches target_real root_real then Inl ''Path escapes sandbox'' else Inr target_real
                 | None \<Rightarrow>
                     if \<not> allow_missing_leaf then Inl ''Path does not exist''
                     else
                       let parent = path_dirname_alloc joined;
                           leaf = (case last_sep joined of Some i \<Rightarrow> drop (i + 1) joined | None \<Rightarrow> joined)
                       in if leaf = '''' then Inl ''Invalid file name''
                          else case path_canonical_existing_alloc os (t + 2) parent of
                                 None \<Rightarrow> Inl ''Parent path does not exist''
                               | Some parent_real \<Rightarrow>
                                   let parent_real = path_trim_trailing_seps parent_real
                                   in if \<not> path_prefix_matches parent_real root_real then Inl ''Path escapes sandbox''
                                      else
                                        let parent_len = length parent_real;
                                            parent_has_sep = (parent_len > 0 \<and> path_is_sep (parent_real ! (parent_len - 1)))
                                        in Inr (parent_real @ (if parent_has_sep then [] else [pick_join_sep parent_real]) @ leaf))"

fun mode_modifiers :: "string \<Rightarrow> bool \<times> bool \<Rightarrow> (bool \<times> bool) option" where
  "mode_modifiers [] (plus_given, exclusive) = Some (plus_given, exclusive)"
| "mode_modifiers (c # cs) (plus_given, exclusive) =
     (if c = CHR ''+'' then mode_modifiers cs (True, exclusive)
      else if c = CHR ''b'' \<or> c = CHR ''t'' then mode_modifiers cs (plus_given, exclusive)
      else if c = CHR ''x'' then mode_modifiers cs (plus_given, True)
      else None)"

definition path_mode_to_open_flags :: "string \<Rightarrow> open_flag list option" where
  "path_mode_to_open_flags mode =
     (case mode of
        [] \<Rightarrow> None
      | primary # rest \<Rightarrow>
          (case mode_modifiers rest (False, False) of
             None \<Rightarrow> None
           | Some (plus_given, exclusive) \<Rightarrow>
               let flags =
                 (if primary = CHR ''r'' then Some [if plus_given then O_RDWR else O_RDONLY]
                  else if primary = CHR ''w'' then Some [if plus_given then O_RDWR else O_WRONLY, O_CREAT, O_TRUNC]
                  else if primary = CHR ''a'' then Some [if plus_given then O_RDWR else O_WRONLY, O_CREAT, O_APPEND]
                  else None)
               in map_option (\<lambda>flags. if exclusive then flags @ [O_CREAT, O_EXCL] else flags) flags))"

definition path_validate_opened_sandbox_file_fd :: "os \<Rightarrow> nat \<Rightarrow> string + unit" where
  "path_validate_opened_sandbox_file_fd os fd =
     (case os_fstat os fd of
        None \<Rightarrow> Inl ''Failed to inspect opened file''
      | Some (regular, links) \<Rightarrow> if regular \<and> links > 1 then Inl ''Hardlinked files are not allowed in sandbox'' else Inr ())"

lemma walk_shrinks:
  assumes "dropWhile path_is_sep (dropWhile name_char (dropWhile path_is_sep p)) \<noteq> []"
  shows "length (dropWhile path_is_sep (dropWhile name_char (dropWhile path_is_sep p))) < length p"
proof -
  let ?s = "dropWhile path_is_sep p"
  have "?s \<noteq> []"
  proof
    assume "?s = []"
    from assms [unfolded this] show False by simp
  qed
  then have "takeWhile name_char ?s \<noteq> []" using hd_dropWhile [of path_is_sep p] by (cases ?s) auto
  from segments_shrink [OF this] show ?thesis using length_dropWhile_le [of path_is_sep "dropWhile name_char ?s"] by linarith
qed

text \<open>The walk from the root, one component at a time.\<close>

function sandbox_walk :: "os \<Rightarrow> nat \<Rightarrow> nat \<Rightarrow> string \<Rightarrow> open_flag list \<Rightarrow> string + nat" where
  "sandbox_walk os t dir_fd p open_flags =
     (let start = dropWhile path_is_sep p; component = takeWhile name_char start; q = dropWhile path_is_sep (dropWhile name_char start)
      in if start = [] then Inl ''Invalid file name''
         else if q \<noteq> []
         then case os_openat os t dir_fd component [O_RDONLY, O_DIRECTORY, O_NOFOLLOW, O_CLOEXEC] of
                None \<Rightarrow> Inl ''Path changed during secure open''
              | Some next_fd \<Rightarrow> sandbox_walk os (t + 1) next_fd q open_flags
         else case os_openat os t dir_fd component (open_flags @ [O_NOFOLLOW, O_CLOEXEC]) of
                None \<Rightarrow> Inl ''Failed to open file''
              | Some file_fd \<Rightarrow>
                  (case path_validate_opened_sandbox_file_fd os file_fd of Inl e \<Rightarrow> Inl e | Inr _ \<Rightarrow> Inr file_fd))"
  by pat_completeness auto

termination by (relation "measure (\<lambda>(os, t, dir_fd, p, open_flags). length p)") (auto simp: Let_def simp del: dropWhile_eq_Nil_conv dest!: walk_shrinks)

definition path_open_sandbox_resolved_fd :: "os \<Rightarrow> nat \<Rightarrow> string \<Rightarrow> string \<Rightarrow> open_flag list \<Rightarrow> string + nat" where
  "path_open_sandbox_resolved_fd os t sandbox_root_real resolved_path open_flags =
     (if \<not> path_prefix_matches resolved_path sandbox_root_real then Inl ''Path escapes sandbox''
      else
        let rel = dropWhile path_is_sep (drop (length sandbox_root_real) resolved_path)
        in if rel = [] then Inl ''Invalid file name''
           else case os_open os t sandbox_root_real [O_RDONLY, O_DIRECTORY, O_CLOEXEC] of
                  None \<Rightarrow> Inl ''Failed to open sandbox root''
                | Some dir_fd \<Rightarrow> sandbox_walk os (t + 1) dir_fd rel open_flags)"

definition path_sandbox_fopen_resolved :: "os \<Rightarrow> nat \<Rightarrow> string \<Rightarrow> string \<Rightarrow> string \<Rightarrow> string + nat" where
  "path_sandbox_fopen_resolved os t sandbox_root resolved_path mode =
     (if sandbox_root = '''' \<or> mode = '''' then Inl ''Invalid sandbox open arguments''
      else case path_canonical_existing_alloc os t sandbox_root of
             None \<Rightarrow> Inl ''Sandbox root does not exist''
           | Some root_real \<Rightarrow>
               (case path_mode_to_open_flags mode of
                  None \<Rightarrow> Inl ''Unsupported file mode''
                | Some open_flags \<Rightarrow>
                    (case path_open_sandbox_resolved_fd os (t + 1) (path_trim_trailing_seps root_real) resolved_path open_flags of
                       Inl e \<Rightarrow> Inl e
                     | Inr file_fd \<Rightarrow> if os_fdopen os file_fd mode then Inr file_fd else Inl ''Failed to wrap file handle'')))"

section \<open>Components of a path\<close>

lemma components_shrink:
  "dropWhile path_is_sep p \<noteq> [] \<Longrightarrow> length (dropWhile name_char (dropWhile path_is_sep p)) < length p"
  using hd_dropWhile [of path_is_sep p] by (intro segments_shrink) (cases "dropWhile path_is_sep p"; simp)

function path_components :: "string \<Rightarrow> string list" where
  "path_components p =
     (let start = dropWhile path_is_sep p
      in if start = [] then [] else takeWhile name_char start # path_components (dropWhile name_char start))"
  by pat_completeness auto

termination by (relation "measure length") (auto simp: Let_def simp del: dropWhile_eq_Nil_conv dest!: components_shrink)

declare path_components.simps [simp del]
declare sandbox_segments.simps [simp del]
declare sandbox_walk.simps [simp del]
declare path_trim_trailing_seps.simps [simp del]
declare trim_root.simps [simp del]

lemma components_Nil [simp]: "path_components [] = []"
  by (simp add: path_components.simps)

lemma components_sep [simp]: "path_is_sep c \<Longrightarrow> path_components (c # p) = path_components p"
  by (subst (1 2) path_components.simps) simp

lemma components_name:
  "\<not> path_is_sep c \<Longrightarrow> path_components (c # p) = takeWhile name_char (c # p) # path_components (dropWhile name_char p)"
  by (subst path_components.simps) simp

lemma components_drop [simp]: "path_components (dropWhile path_is_sep p) = path_components p"
  by (induction p) auto

lemma components_split: "path_is_sep c \<Longrightarrow> path_components (r @ c # s) = path_components r @ path_components s"
proof (induction "length r" arbitrary: r rule: less_induct)
  case less
  show ?case
  proof (cases r)
    case (Cons a r')
    show ?thesis
    proof (cases "path_is_sep a")
      case True
      then show ?thesis using less Cons by simp
    next
      case False
      have t: "takeWhile name_char (r' @ c # s) = takeWhile name_char r'" using less.prems by (induction r') auto
      have d: "dropWhile name_char (r' @ c # s) = dropWhile name_char r' @ c # s" using less.prems by (induction r') auto
      have "length (dropWhile name_char r') < length r" using Cons length_dropWhile_le [of name_char r'] by simp
      from less.hyps [OF this less.prems] show ?thesis using Cons False t d by (simp add: components_name)
    qed
  qed (use less.prems in simp)
qed

lemma components_unfold:
  "dropWhile path_is_sep p \<noteq> [] \<Longrightarrow>
   path_components p = takeWhile name_char (dropWhile path_is_sep p) # path_components (dropWhile name_char (dropWhile path_is_sep p))"
  by (subst path_components.simps) (simp add: Let_def del: dropWhile_eq_Nil_conv)

lemma take_names: "list_all name_char (takeWhile name_char s)"
  unfolding list_all_iff by (blast dest: set_takeWhileD)

lemma first_component:
  assumes "dropWhile path_is_sep p \<noteq> []"
  shows "takeWhile name_char (dropWhile path_is_sep p) \<noteq> [] \<and> list_all name_char (takeWhile name_char (dropWhile path_is_sep p))"
proof -
  have "takeWhile name_char (dropWhile path_is_sep p) \<noteq> []"
    using hd_dropWhile [OF assms] by (cases "dropWhile path_is_sep p") (use assms in auto)
  then show ?thesis using take_names by (rule conjI)
qed

lemma components_in:
  "c \<in> set (path_components p) \<Longrightarrow> c \<noteq> [] \<and> list_all name_char c"
proof (induction p rule: path_components.induct)
  case (1 p)
  let ?s = "dropWhile path_is_sep p"
  show ?case
  proof (cases "?s = []")
    case True
    then show ?thesis using 1(2) path_components.simps [of p] by simp
  next
    case False
    have "c = takeWhile name_char ?s \<or> c \<in> set (path_components (dropWhile name_char ?s))"
      using 1(2) by (simp add: components_unfold [OF False])
    then show ?thesis
    proof
      assume c: "c = takeWhile name_char ?s"
      show ?thesis unfolding c by (rule first_component [OF False])
    next
      assume "c \<in> set (path_components (dropWhile name_char ?s))"
      then show ?thesis by (rule 1(1) [OF refl False])
    qed
  qed
qed

lemma components_of_name: "list_all name_char s \<Longrightarrow> s \<noteq> [] \<Longrightarrow> path_components s = [s]"
proof (cases s)
  case (Cons a t)
  assume "list_all name_char s"
  then have "name_char a" "takeWhile name_char t = t" "dropWhile name_char t = []" using Cons by (simp_all add: list_all_iff takeWhile_eq_all_conv)
  then show ?thesis using Cons by (simp add: components_name del: dropWhile_eq_Nil_conv)
qed simp

definition dotless :: "string \<Rightarrow> bool" where
  "dotless p \<longleftrightarrow> list_all (\<lambda>c. c \<noteq> ''.'' \<and> c \<noteq> ''..'') (path_components p)"

text \<open>A name that denotes an entry of a directory itself.\<close>

definition plain_name :: "string \<Rightarrow> bool" where
  "plain_name c \<longleftrightarrow> c \<noteq> '''' \<and> c \<noteq> ''.'' \<and> c \<noteq> ''..'' \<and> list_all name_char c"

lemma dotless_split: "path_is_sep c \<Longrightarrow> dotless (r @ c # s) \<longleftrightarrow> dotless r \<and> dotless s"
  by (simp add: dotless_def components_split)

lemma dotless_name: "plain_name s \<Longrightarrow> dotless s"
  by (simp add: dotless_def plain_name_def components_of_name)

lemma dotless_trim: "dotless p \<Longrightarrow> dotless (path_trim_trailing_seps p)"
proof (induction p rule: path_trim_trailing_seps.induct)
  case (1 p)
  show ?case
  proof (cases "length p > 1 \<and> path_is_sep (p ! (length p - 1)) \<and> \<not> path_is_drive_root p (length p)")
    case True
    then have "p = take (length p - 1) p @ [p ! (length p - 1)]"
      by (metis One_nat_def Suc_pred length_greater_0_conv less_numeral_extra(3) list.size(3) not_one_less_zero take_Suc_conv_app_nth take_all_iff
          diff_less le_refl zero_less_one)
    then have "dotless (take (length p - 1) p)" using 1(2) True dotless_split [of "p ! (length p - 1)" "take (length p - 1) p" "[]"] by metis
    then show ?thesis using 1(1) [OF refl True] True path_trim_trailing_seps.simps [of p] by (simp add: Let_def)
  next
    case False
    then show ?thesis using 1(2) path_trim_trailing_seps.simps [of p] by (auto simp: Let_def)
  qed
qed

lemma prefix_matches_split:
  assumes "path_prefix_matches path root"
  shows "\<exists>t. path = root @ t \<and> (t = [] \<or> path_is_sep (hd t))"
proof -
  have len: "length root \<le> length path" and eq: "\<forall>i<length root. path ! i = root ! i"
    and sep: "length path = length root \<or> path_is_sep (path ! length root)"
    using assms by (auto simp: path_prefix_matches_def list_all_iff split: if_splits)
  have "take (length root) path = root" using len eq by (intro nth_equalityI) auto
  then have "path = root @ drop (length root) path" by (metis append_take_drop_id)
  moreover have "drop (length root) path = [] \<or> path_is_sep (hd (drop (length root) path))"
    using sep len by (cases "length root < length path") (simp_all add: hd_drop_conv_nth)
  ultimately show ?thesis by blast
qed

lemma dotless_rest:
  assumes "path_prefix_matches path root" and "dotless path"
  shows "dotless (dropWhile path_is_sep (drop (length root) path))"
proof -
  obtain t where t: "path = root @ t" "t = [] \<or> path_is_sep (hd t)" using prefix_matches_split [OF assms(1)] by auto
  then have "dotless t"
  proof (cases t)
    case (Cons c s)
    then have "path = root @ c # s" "path_is_sep c" using t by simp_all
    then have "dotless s" using dotless_split assms(2) by blast
    then show ?thesis using Cons \<open>path_is_sep c\<close> by (simp add: dotless_def)
  qed (simp add: dotless_def)
  then show ?thesis using t by (simp add: dotless_def)
qed

section \<open>The resolved path\<close>

lemma segments_plain:
  assumes "sandbox_segments p segments = Inr result" and "list_all plain_name segments"
  shows "list_all plain_name result"
  using assms
proof (induction p segments rule: sandbox_segments.induct)
  case (1 p segments)
  define seg rest where "seg = takeWhile name_char (dropWhile path_is_sep p)" and "rest = dropWhile name_char (dropWhile path_is_sep p)"
  note IH = 1(1-3) [OF refl refl refl, folded seg_def rest_def]
  have step: "sandbox_segments p segments =
      (if seg = [] then Inr segments else if seg = ''.'' then sandbox_segments rest segments
       else if seg = ''..'' then (if segments = [] then Inl ''Path escapes sandbox'' else sandbox_segments rest (butlast segments))
       else sandbox_segments rest (segments @ [seg]))"
    unfolding seg_def rest_def by (subst sandbox_segments.simps) (simp only: Let_def)
  have names: "list_all name_char seg" unfolding seg_def by (rule take_names)
  have but: "list_all plain_name (butlast segments)" using 1(5) by (auto simp: list_all_iff dest: in_set_butlastD)
  consider (stop) "seg = []" | (dot) "seg \<noteq> []" "seg = ''.''" | (up) "seg \<noteq> []" "seg \<noteq> ''.''" "seg = ''..''"
    | (name) "seg \<noteq> []" "seg \<noteq> ''.''" "seg \<noteq> ''..''" by blast
  then show ?case
  proof cases
    case stop
    then show ?thesis using 1(4,5) step by simp
  next
    case dot
    then show ?thesis using IH(1) 1(4,5) step by simp
  next
    case up
    then show ?thesis using IH(2) 1(4) but step by (simp split: if_splits)
  next
    case name
    then have "plain_name seg" using names by (simp add: plain_name_def)
    then show ?thesis using name IH(3) 1(4,5) step by simp
  qed
qed

lemma join_segments_last: "segs \<noteq> [] \<Longrightarrow> \<exists>pre. join_segments sep segs = pre @ last segs \<and> (pre = [] \<or> last pre = sep)"
proof (induction sep segs rule: join_segments.induct)
  case (3 sep seg s segs)
  then obtain pre where "join_segments sep (s # segs) = pre @ last (s # segs)" "pre = [] \<or> last pre = sep" by auto
  then show ?case by (intro exI [of _ "seg @ [sep] @ pre"]) auto
qed auto

lemma strrchr_last:
  "(case strrchr s c of None \<Rightarrow> c \<notin> set s | Some i \<Rightarrow> i < length s \<and> s ! i = c \<and> c \<notin> set (drop (Suc i) s))"
  by (induction s) (auto split: option.splits)

lemma set_drop_mono: "i \<le> j \<Longrightarrow> set (drop j s) \<subseteq> set (drop i s)"
  by (metis drop_drop le_add_diff_inverse2 set_drop_subset)

lemma last_sep_at:
  assumes "last_sep s = Some i"
  shows "i < length s \<and> path_is_sep (s ! i) \<and> list_all name_char (drop (Suc i) s)"
proof -
  have "i < length s \<and> path_is_sep (s ! i) \<and> slash \<notin> set (drop (Suc i) s) \<and> backslash \<notin> set (drop (Suc i) s)"
  proof (cases "strrchr s slash"; cases "strrchr s backslash")
    fix a b assume ab: "strrchr s slash = Some a" "strrchr s backslash = Some b"
    then have "i = (if a > b then a else b)" using assms by (simp add: last_sep_def)
    then show ?thesis
      using strrchr_last [of slash s] strrchr_last [of backslash s] ab set_drop_mono [of "Suc a" "Suc b" s] set_drop_mono [of "Suc b" "Suc a" s]
      by (auto simp: path_is_sep_def split: if_splits)
  next
    fix a assume a: "strrchr s slash = Some a" "strrchr s backslash = None"
    then show ?thesis
      using strrchr_last [of slash s] strrchr_last [of backslash s] assms by (auto simp: path_is_sep_def last_sep_def dest: in_set_dropD)
  next
    fix b assume b: "strrchr s slash = None" "strrchr s backslash = Some b"
    then show ?thesis
      using strrchr_last [of slash s] strrchr_last [of backslash s] assms by (auto simp: path_is_sep_def last_sep_def dest: in_set_dropD)
  qed (use assms in \<open>simp add: last_sep_def\<close>)
  then show ?thesis by (auto simp: list_all_iff path_is_sep_def)
qed

lemma last_sep_exists: "path_is_sep c \<Longrightarrow> c \<in> set s \<Longrightarrow> last_sep s \<noteq> None"
  using strrchr_last [of slash s] strrchr_last [of backslash s] by (auto simp: last_sep_def path_is_sep_def split: option.splits)

lemma leaf_of:
  assumes "s = pre @ c # name" and "path_is_sep c" and "list_all name_char name" and "last_sep s = Some i"
  shows "drop (Suc i) s = name"
proof -
  have i: "i < length s" "path_is_sep (s ! i)" "list_all name_char (drop (Suc i) s)" using last_sep_at [OF assms(4)] by auto
  have "\<not> i < length pre"
  proof
    assume "i < length pre"
    then have "c \<in> set (drop (Suc i) s)" using assms(1) by simp
    then show False using i(3) assms(2) by (auto simp: list_all_iff)
  qed
  moreover have "\<not> length pre < i"
  proof
    assume l: "length pre < i"
    then have "s ! i \<in> set name" using i(1) assms(1) by (simp add: nth_append nth_Cons')
    then show False using assms(3) i(2) by (auto simp: list_all_iff)
  qed
  ultimately have "i = length pre" by simp
  then show ?thesis using assms(1) by simp
qed

lemma root_prefix_ends: "\<exists>q c. root_prefix root = q @ [c] \<and> path_is_sep c"
proof -
  define r where "r = take (trim_root root (length root)) root"
  have p: "root_prefix root = r @ (if length r > 0 \<and> path_is_sep (r ! (length r - 1)) then [] else [slash])"
    by (simp only: root_prefix_def r_def Let_def pick_join_sep_def)
  show ?thesis
  proof (cases "length r > 0 \<and> path_is_sep (r ! (length r - 1))")
    case True
    then have "root_prefix root = r" using p by simp
    moreover have "r = butlast r @ [r ! (length r - 1)]" using True by (metis append_butlast_last_id last_conv_nth length_greater_0_conv)
    ultimately show ?thesis using True by metis
  next
    case False
    then have "root_prefix root = r @ [slash]" unfolding p by (simp only: if_False)
    then show ?thesis by (auto simp: path_is_sep_def)
  qed
qed

lemma joined_leaf:
  assumes "path_sandbox_join_alloc root user = Inr joined"
  shows "\<exists>i. last_sep joined = Some i \<and> plain_name (drop (Suc i) joined)"
proof -
  obtain segs where s: "sandbox_segments user [] = Inr segs" "segs \<noteq> []" and joined: "joined = root_prefix root @ join_segments slash segs"
    using assms by (auto simp: path_sandbox_join_alloc_def pick_join_sep_def split: if_split_asm sum.split_asm)
  obtain q c where q: "root_prefix root = q @ [c]" "path_is_sep c" using root_prefix_ends by blast
  obtain pre where pre: "join_segments slash segs = pre @ last segs" "pre = [] \<or> last pre = slash" using join_segments_last [OF s(2)] by blast
  have plain: "plain_name (last segs)" using segments_plain [OF s(1)] s(2) by (auto simp: list_all_iff)
  obtain q' c' where q': "q @ c # pre = q' @ [c']" "path_is_sep c'"
    using pre(2) q(2) by (cases pre rule: rev_cases) (auto simp: path_is_sep_def)
  have "joined = q @ c # pre @ last segs" using joined pre(1) q(1) by simp
  also have "\<dots> = q' @ c' # last segs" using q'(1) by (metis append.assoc append_Cons append_Nil)
  finally have j: "joined = q' @ c' # last segs" .
  obtain i where i: "last_sep joined = Some i" using last_sep_exists [OF q'(2), of joined] j by auto
  have "drop (Suc i) joined = last segs" using leaf_of [OF j q'(2) _ i] plain by (simp add: plain_name_def)
  then show ?thesis using i plain by simp
qed

text \<open>
  What POSIX says of \<^verbatim>\<open>realpath\<close>: an absolute path without \<open>.\<close> and \<open>..\<close> components.  A name in the file system may contain a
  backslash there, which this code takes for a separator; such names are excluded.
\<close>

definition canonical :: "string \<Rightarrow> bool" where
  "canonical p \<longleftrightarrow> (\<exists>cs. list_all plain_name cs \<and> (p = concat (map (\<lambda>c. slash # c) cs) \<or> p = [slash]))"

lemma sep_slash [simp]: "path_is_sep slash"
  by (simp add: path_is_sep_def)

lemma components_concat: "list_all plain_name cs \<Longrightarrow> path_components (concat (map (\<lambda>c. slash # c) cs)) = cs"
proof (induction cs rule: rev_induct)
  case (snoc c cs)
  then have "path_components c = [c]" by (simp add: plain_name_def components_of_name)
  then show ?case using snoc components_split [OF sep_slash, of "concat (map (\<lambda>c. slash # c) cs)" c] by simp
qed simp

lemma dotless_canonical: "canonical p \<Longrightarrow> dotless p"
proof -
  assume "canonical p"
  then obtain cs where cs: "list_all plain_name cs" "p = concat (map (\<lambda>c. slash # c) cs) \<or> p = [slash]" by (auto simp: canonical_def)
  then have "path_components p = cs \<or> path_components p = []" using components_concat [OF cs(1)] by auto
  then show ?thesis using cs(1) by (auto simp: dotless_def list_all_iff plain_name_def)
qed

lemma resolved_dotless:
  assumes real: "\<And>t p r. os_realpath os t p = Some r \<Longrightarrow> canonical r"
    and "path_sandbox_resolve_alloc os t root user allow = Inr path"
  shows "dotless path \<and> (\<exists>r rest. os_realpath os t root = Some r \<and> path = path_trim_trailing_seps r @ rest)"
proof -
  have canon: "dotless (path_trim_trailing_seps r)" if "path_canonical_existing_alloc os t p = Some r" for t p r
    using that real [of t p r] by (auto simp: path_canonical_existing_alloc_def intro: dotless_trim dotless_canonical split: if_splits)
  obtain joined r where j: "path_sandbox_join_alloc root user = Inr joined" and r: "path_canonical_existing_alloc os t root = Some r"
    using assms(2) by (auto simp: path_sandbox_resolve_alloc_def split: sum.split_asm option.split_asm)
  have rr: "os_realpath os t root = Some r" using r by (simp add: path_canonical_existing_alloc_def split: if_splits)
  obtain i where i: "last_sep joined = Some i" "plain_name (drop (Suc i) joined)" using joined_leaf [OF j] by blast
  show ?thesis
  proof (cases "path_canonical_existing_alloc os (t + 1) joined")
    case (Some target)
    then have "path = path_trim_trailing_seps target" "path_prefix_matches path (path_trim_trailing_seps r)"
      using assms(2) j r by (auto simp: path_sandbox_resolve_alloc_def Let_def split: if_splits)
    then show ?thesis using canon [OF Some] prefix_matches_split rr by blast
  next
    case None
    then obtain parent where p: "path_canonical_existing_alloc os (t + 2) (path_dirname_alloc joined) = Some parent"
      and m: "path_prefix_matches (path_trim_trailing_seps parent) (path_trim_trailing_seps r)"
      and e: "path = path_trim_trailing_seps parent @ (if length (path_trim_trailing_seps parent) > 0 \<and>
        path_is_sep (path_trim_trailing_seps parent ! (length (path_trim_trailing_seps parent) - 1)) then [] else [slash]) @ drop (Suc i) joined"
      using assms(2) j r i(1) by (simp add: path_sandbox_resolve_alloc_def Let_def pick_join_sep_def split: if_split_asm option.split_asm)
    define q where "q = path_trim_trailing_seps parent"
    have q: "dotless q" using canon [OF p] by (simp only: q_def)
    have leaf: "dotless (drop (Suc i) joined)" using i(2) by (rule dotless_name)
    have "dotless path"
    proof (cases "length q > 0 \<and> path_is_sep (q ! (length q - 1))")
      case True
      then obtain q' c where q': "q = q' @ [c]" "path_is_sep c" by (metis append_butlast_last_id last_conv_nth length_greater_0_conv)
      then have "path = q' @ c # drop (Suc i) joined" using e True by (simp add: q_def [symmetric])
      then show ?thesis using q q' leaf dotless_split [OF q'(2), of q' "[]"] dotless_split [OF q'(2), of q' "drop (Suc i) joined"] by simp
    next
      case False
      then have "path = q @ slash # drop (Suc i) joined" using e by (simp add: q_def [symmetric])
      then show ?thesis using q leaf dotless_split [OF sep_slash, of q "drop (Suc i) joined"] by simp
    qed
    moreover have "\<exists>rest. path = path_trim_trailing_seps r @ rest" using prefix_matches_split [OF m] e by auto
    ultimately show ?thesis using rr by blast
  qed
qed

section \<open>The opened file\<close>

lemma walk_inside:
  assumes child: "\<And>t d c fs fd. inside d \<Longrightarrow> plain_name c \<Longrightarrow> O_NOFOLLOW \<in> set fs \<Longrightarrow> os_openat os t d c fs = Some fd \<Longrightarrow> inside fd"
    and "sandbox_walk os t d p flags = Inr fd" and "inside d" and "dotless p"
  shows "inside fd \<and> (\<exists>regular links. os_fstat os fd = Some (regular, links) \<and> (regular \<longrightarrow> links \<le> 1))"
  using assms(2-4)
proof (induction "length p" arbitrary: t d p rule: less_induct)
  case less
  define start where "start = dropWhile path_is_sep p"
  define c where "c = takeWhile name_char start"
  define q where "q = dropWhile path_is_sep (dropWhile name_char start)"
  have step: "sandbox_walk os t d p flags =
      (if start = [] then Inl ''Invalid file name''
       else if q \<noteq> []
       then case os_openat os t d c [O_RDONLY, O_DIRECTORY, O_NOFOLLOW, O_CLOEXEC] of
              None \<Rightarrow> Inl ''Path changed during secure open''
            | Some next_fd \<Rightarrow> sandbox_walk os (t + 1) next_fd q flags
       else case os_openat os t d c (flags @ [O_NOFOLLOW, O_CLOEXEC]) of
              None \<Rightarrow> Inl ''Failed to open file''
            | Some file_fd \<Rightarrow> (case path_validate_opened_sandbox_file_fd os file_fd of Inl e \<Rightarrow> Inl e | Inr _ \<Rightarrow> Inr file_fd))"
    unfolding start_def c_def q_def by (subst sandbox_walk.simps) (simp only: Let_def)
  have start: "start \<noteq> []" using less.prems(1) step by auto
  then have comps: "path_components p = c # path_components q"
    unfolding c_def q_def start_def components_drop by (rule components_unfold)
  have "c \<noteq> '''' \<and> list_all name_char c" using components_in [of c p] comps by simp
  then have c: "plain_name c" and q: "dotless q" using less.prems(3) comps by (simp_all add: dotless_def plain_name_def)
  show ?case
  proof (cases "q = []")
    case True
    then obtain f where f: "os_openat os t d c (flags @ [O_NOFOLLOW, O_CLOEXEC]) = Some f" "path_validate_opened_sandbox_file_fd os f = Inr ()" "fd = f"
      using less.prems(1) step start by (auto split: option.split_asm sum.split_asm)
    then show ?thesis using child [OF less.prems(2) c _ f(1)]
      by (auto simp: path_validate_opened_sandbox_file_fd_def split: option.split_asm if_split_asm)
  next
    case False
    then obtain n where n: "os_openat os t d c [O_RDONLY, O_DIRECTORY, O_NOFOLLOW, O_CLOEXEC] = Some n" "sandbox_walk os (t + 1) n q flags = Inr fd"
      using less.prems(1) step start by (auto split: option.split_asm)
    have "inside n" using child [OF less.prems(2) c _ n(1)] by simp
    moreover have "length q < length p" using False unfolding q_def start_def by (rule walk_shrinks)
    ultimately show ?thesis using less.hyps n(2) q by blast
  qed
qed


text \<open>A file system with one directory \<open>/box\<close> and a file \<open>a\<close> in it.\<close>

definition sample_os :: os where
  "sample_os =
     \<lparr>os_realpath = \<lambda>t p. if p = ''/box'' \<or> p = ''/box/a'' then Some p else None,
      os_open = \<lambda>t p fs. if p = ''/box'' then Some 3 else None,
      os_openat = \<lambda>t d c fs. if d = 3 \<and> c = ''a'' then Some 4 else None,
      os_fstat = \<lambda>fd. Some (True, 1),
      os_fdopen = \<lambda>fd mode. True\<rparr>"

lemma sample_canonical: "canonical ''/box''" "canonical ''/box/a''"
proof -
  have names: "plain_name ''box''" "plain_name ''a''" by (simp_all add: plain_name_def path_is_sep_def)
  show "canonical ''/box''" unfolding canonical_def by (rule exI [of _ "[''box'']"]) (simp add: names)
  show "canonical ''/box/a''" unfolding canonical_def by (rule exI [of _ "[''box'', ''a'']"]) (simp add: names)
qed


text \<open>
  Where names contain backslashes the walk can leave the sandbox: below \<open>/box\<close> there are a directory \<open>x\<close>, a file with the single
  name \<open>x\..\..\y\<close> and a symbolic link \<open>l\<close> to it.  Its canonical path passes the test of the prefix, and the walk splits the
  name and opens \<open>..\<close> of the root (descriptor 2) and \<open>y\<close> there (descriptor 9).
\<close>

definition backslash_os :: os where
  "backslash_os =
     \<lparr>os_realpath = \<lambda>t p. if p = ''/box'' then Some p else if p = ''/box/l'' then Some (''/box/x'' @ [backslash] @ ''..'' @ [backslash] @ ''..'' @ [backslash] @ ''y'') else None,
      os_open = \<lambda>t p fs. if p = ''/box'' then Some 3 else None,
      os_openat = \<lambda>t d c fs. if d = 3 \<and> c = ''x'' then Some 5 else if d = 5 \<and> c = ''..'' then Some 3
        else if d = 3 \<and> c = ''..'' then Some 2 else if d = 2 \<and> c = ''y'' then Some 9 else None,
      os_fstat = \<lambda>fd. Some (True, 1),
      os_fdopen = \<lambda>fd mode. True\<rparr>"

lemma backslash_name_escapes:
  "(case path_sandbox_resolve_alloc backslash_os 0 ''/box'' ''l'' False of
      Inl e \<Rightarrow> Inl e | Inr path \<Rightarrow> path_sandbox_fopen_resolved backslash_os 2 ''/box'' path ''r'') = Inr 9"
  by code_simp

end
