(* ===== verification/Spec2Isabelle.thy ===== *)
theory Spec2Isabelle
  imports Bigint_Bits Bigint_Text VM_Globals Fusion VM_Array_Spec Cycle_Collect Artifact_Spec Path_Utils
begin

text \<open>
  A verification of parts of the Tablo language implementation.
\<close>

end
